(* ===== verification/Prelude.thy ===== *)
theory Prelude
  imports Main "HOL-Library.Word" "HOL-Library.AList" "HOL-Library.Multiset"
begin

text \<open>
  Shared vocabulary of the development: the machine integers and identifiers of the Go
  sources, the error values they return, Go maps as association lists with distinct keys,
  and the generic facts about them that the component theories use.

  A Go map is an association list. Its order stands for the (unspecified) order in which
  \<^verbatim>\<open>range\<close> enumerates the map. \<open>gput\<close>, \<open>gdel\<close> and
  \<open>gget\<close> are assignment, \<^verbatim>\<open>delete\<close> and the comma-ok lookup; the
  locale \<open>go_map\<close> states the laws that the components rely on and the association
  list operations are shown to satisfy them.

  The locale \<open>guarded_system\<close> is the interface between a component's atomic steps
  and its invariant: a property that holds initially and that every step keeps holds in
  every reachable state, for every interleaving of the steps.
\<close>

section \<open>Machine integers, identifiers and instants\<close>

unbundle bit_operations_syntax

type_synonym u8 = "8 word"
type_synonym u64 = "64 word"
type_synonym instant = int \<comment> \<open>\<open>time.Time\<close>: nanoseconds on the monotonic clock\<close>
type_synonym duration = int \<comment> \<open>\<open>time.Duration\<close>: nanoseconds\<close>

named_theorems rfs_simps \<open>unfolding rules of the components' operations\<close>
named_theorems frame_simps \<open>fields that an operation does not change\<close>

definition MaxUint64 :: u64 where
  "MaxUint64 = - 1"

lemma MaxUint64_max [simp]: "x \<le> MaxUint64"
  by (simp add: MaxUint64_def)

lemma word_Suc_fresh:
  fixes x y :: u64
  assumes "x \<le> y" and "y \<noteq> MaxUint64"
  shows "x < y + 1"
proof -
  have "1 + y \<noteq> 0"
  proof
    assume "1 + y = 0"
    then have "y = - 1" by (simp add: eq_neg_iff_add_eq_0 add.commute)
    with assms(2) show False by (simp add: MaxUint64_def)
  qed
  then have "unat (1 + y) = Suc (unat y)"
    by (rule unatSuc)
  with assms(1) show ?thesis
    by (simp add: word_less_nat_alt word_le_nat_alt add.commute)
qed

lemma unat_u64_lt: "unat (x :: u64) < 2 ^ 64"
  by (rule order_less_le_trans [OF unsigned_less]) simp

lemma unat_MaxUint64: "unat MaxUint64 = 2 ^ 64 - 1"
  by (simp add: MaxUint64_def unsigned_minus_1_eq_mask mask_eq_exp_minus_1)

lemma unat_MaxUint64_minus: "unat (MaxUint64 - x) = 2 ^ 64 - 1 - unat x"
  using unat_u64_lt [of x] by (subst unat_sub) (simp_all add: unat_MaxUint64)

section \<open>Errors\<close>

text \<open>
  The errors that reach a caller: the errno vocabulary, the typed capability errors of
  \<^verbatim>\<open>packages/storage/capabilities.go\<close> and the two errors of a Go context.
\<close>

datatype errno = EINVAL | ESTALE | EIO | ENOLCK | EOPNOTSUPP | EOVERFLOW | EAGAIN | EFBIG | EBADF | EBUSY

datatype goerror =
    Errno errno
  | ErrUseConflict
  | ErrRangeConflict
  | ErrInvalidScope
  | ContextCanceled
  | ContextDeadlineExceeded

text \<open>
  A sequence of early returns: the first check that fails decides the error,
  \<open>None\<close> is a nil error.
\<close>

definition fail_if :: "bool \<Rightarrow> 'e \<Rightarrow> 'e option" where
  "fail_if b e = (if b then Some e else None)"

fun first_error :: "'e option list \<Rightarrow> 'e option" where
  "first_error [] = None"
| "first_error (Some e # _) = Some e"
| "first_error (None # es) = first_error es"

lemma fail_if_None [simp]: "fail_if b e = None \<longleftrightarrow> \<not> b"
  by (simp add: fail_if_def)

lemma fail_if_Some [simp]: "fail_if b e = Some e' \<longleftrightarrow> b \<and> e = e'"
  by (simp add: fail_if_def)

lemma first_error_Cons_None [simp]:
  "first_error (x # es) = None \<longleftrightarrow> x = None \<and> first_error es = None"
  by (cases x) auto

lemma first_error_in: "first_error es = Some e \<Longrightarrow> Some e \<in> set es"
  by (induction es rule: first_error.induct) auto

section \<open>Go maps\<close>

text \<open>
  \<open>distinct_keys\<close> is the type invariant of a Go map; it is kept by assignment and
  deletion. \<open>gupd\<close> changes the object behind a map entry in place.
\<close>

type_synonym ('k, 'v) gomap = "('k \<times> 'v) list"

abbreviation distinct_keys :: "('k, 'v) gomap \<Rightarrow> bool" where
  "distinct_keys m \<equiv> distinct (map fst m)"

definition gget :: "('k, 'v) gomap \<Rightarrow> 'k \<Rightarrow> 'v option" where
  "gget m k = map_of m k"

definition gput :: "'k \<Rightarrow> 'v \<Rightarrow> ('k, 'v) gomap \<Rightarrow> ('k, 'v) gomap" where
  "gput k v m = AList.update k v m"

definition gdel :: "'k \<Rightarrow> ('k, 'v) gomap \<Rightarrow> ('k, 'v) gomap" where
  "gdel k m = filter (\<lambda>(k', _). k' \<noteq> k) m"

definition gupd :: "'k \<Rightarrow> ('v \<Rightarrow> 'v) \<Rightarrow> ('k, 'v) gomap \<Rightarrow> ('k, 'v) gomap" where
  "gupd k f m = map (\<lambda>(k', v). (k', if k' = k then f v else v)) m"

lemma gget_Nil [simp]: "gget [] k = None"
  by (simp add: gget_def)

lemma gget_Cons: "gget ((k', v) # m) k = (if k = k' then Some v else gget m k)"
  by (simp add: gget_def)

lemma gget_gput [simp]: "gget (gput k v m) k' = (if k' = k then Some v else gget m k')"
  by (simp add: gget_def gput_def update_conv)

lemma gget_gdel [simp]: "gget (gdel k m) k' = (if k' = k then None else gget m k')"
  by (induction m) (auto simp: gget_def gdel_def)

lemma gget_gupd [simp]:
  "gget (gupd k f m) k' = (if k' = k then map_option f (gget m k') else gget m k')"
  by (induction m) (auto simp: gget_def gupd_def)

lemma keys_gput: "fst ` set (gput k v m) = insert k (fst ` set m)"
  by (simp add: gput_def dom_update)

lemma keys_gdel: "fst ` set (gdel k m) = fst ` set m - {k}"
  by (force simp: gdel_def)

lemma map_fst_gupd [simp]: "map fst (gupd k f m) = map fst m"
  by (auto simp: gupd_def)

lemma distinct_gput [simp]: "distinct_keys m \<Longrightarrow> distinct_keys (gput k v m)"
  by (simp add: gput_def distinct_update)

lemma distinct_gdel [simp]: "distinct_keys m \<Longrightarrow> distinct_keys (gdel k m)"
  by (induction m) (auto simp: gdel_def)

lemma gget_eq_None: "gget m k = None \<longleftrightarrow> k \<notin> fst ` set m"
  by (auto simp: gget_def map_of_eq_None_iff)

lemma gget_in_set: "gget m k = Some v \<Longrightarrow> (k, v) \<in> set m"
  by (simp add: gget_def map_of_SomeD)

lemma in_set_gget: "distinct_keys m \<Longrightarrow> (k, v) \<in> set m \<longleftrightarrow> gget m k = Some v"
  by (auto simp: gget_def)

lemma gget_Some_key: "gget m k = Some v \<Longrightarrow> k \<in> fst ` set m"
  by (force dest: gget_in_set)

lemma gput_new: "k \<notin> fst ` set m \<Longrightarrow> gput k v m = m @ [(k, v)]"
  unfolding gput_def by (induction m) auto

lemma length_gupd [simp]: "length (gupd k f m) = length m"
  by (simp add: gupd_def)

lemma length_gdel_le: "length (gdel k m) \<le> length m"
  by (simp add: gdel_def)

lemma gdel_absent: "k \<notin> fst ` set m \<Longrightarrow> gdel k m = m"
  unfolding gdel_def by (rule filter_True) force

lemma gupd_absent: "k \<notin> fst ` set m \<Longrightarrow> gupd k f m = m"
  unfolding gupd_def by (rule map_idI) force

lemma gget_eqI: "mset m = mset m' \<Longrightarrow> distinct_keys m \<Longrightarrow> gget m = gget m'"
proof
  fix k
  assume perm: "mset m = mset m'" and dist: "distinct_keys m"
  from perm have "mset (map fst m) = mset (map fst m')"
    by (metis mset_map)
  with dist have dist': "distinct_keys m'"
    by (metis mset_eq_imp_distinct_iff)
  from perm have "set m = set m'"
    by (metis set_mset_mset)
  with dist dist' have "gget m k = Some v \<longleftrightarrow> gget m' k = Some v" for v
    by (metis in_set_gget)
  then show "gget m k = gget m' k"
    by (metis not_None_eq)
qed

subsection \<open>Sums over the values of a map\<close>

text \<open>
  Resource counters of the program are sums over the values of its maps. The following
  equations say how such a sum moves when one entry changes.
\<close>

definition gsum :: "('k \<Rightarrow> 'v \<Rightarrow> int) \<Rightarrow> ('k, 'v) gomap \<Rightarrow> int" where
  "gsum w m = sum_list (map (\<lambda>(k, v). w k v) m)"

lemma gsum_Nil [simp]: "gsum w [] = 0"
  by (simp add: gsum_def)

lemma gsum_Cons [simp]: "gsum w ((k, v) # m) = w k v + gsum w m"
  by (simp add: gsum_def)

lemma gsum_append [simp]: "gsum w (m @ m') = gsum w m + gsum w m'"
  by (simp add: gsum_def)

lemma gsum_cong: "(\<And>k v. (k, v) \<in> set m \<Longrightarrow> w k v = w' k v) \<Longrightarrow> gsum w m = gsum w' m"
  by (induction m) auto

lemma gsum_gdel:
  "distinct_keys m \<Longrightarrow> gsum w (gdel k m) = gsum w m - (case gget m k of None \<Rightarrow> 0 | Some v \<Rightarrow> w k v)"
proof (induction m)
  case Nil
  then show ?case by (simp add: gdel_def)
next
  case (Cons kv m)
  obtain k' v where kv: "kv = (k', v)" by (cases kv)
  show ?case
  proof (cases "k' = k")
    case True
    with Cons.prems kv have "k \<notin> fst ` set m" by auto
    then have "gdel k m = m" by (rule gdel_absent)
    with True kv show ?thesis by (simp add: gdel_def gget_Cons)
  next
    case False
    with Cons kv show ?thesis by (simp add: gdel_def gget_Cons)
  qed
qed

lemma gsum_gupd:
  "distinct_keys m \<Longrightarrow>
   gsum w (gupd k f m) = gsum w m + (case gget m k of None \<Rightarrow> 0 | Some v \<Rightarrow> w k (f v) - w k v)"
proof (induction m)
  case Nil
  then show ?case by (simp add: gupd_def)
next
  case (Cons kv m)
  obtain k' v where kv: "kv = (k', v)" by (cases kv)
  show ?case
  proof (cases "k' = k")
    case True
    with Cons.prems kv have "k \<notin> fst ` set m" by auto
    then have "gupd k f m = m" and "gget m k = None"
      by (simp_all add: gupd_absent gget_eq_None)
    with True kv show ?thesis by (simp add: gupd_def gget_Cons)
  next
    case False
    with Cons kv show ?thesis by (simp add: gupd_def gget_Cons)
  qed
qed

lemma gsum_gput:
  "distinct_keys m \<Longrightarrow>
   gsum w (gput k v m) = gsum w m + w k v - (case gget m k of None \<Rightarrow> 0 | Some v' \<Rightarrow> w k v')"
proof (cases "gget m k")
  case None
  then have "k \<notin> fst ` set m" by (simp add: gget_eq_None)
  with None show ?thesis by (simp add: gput_new)
next
  case (Some v')
  assume dist: "distinct_keys m"
  have "gput k v m = gupd k (\<lambda>_. v) m"
    using dist Some
  proof (induction m)
    case (Cons kv m)
    show ?case
    proof (cases "fst kv = k")
      case True
      with Cons.prems have "k \<notin> fst ` set m" by auto
      then have "gupd k (\<lambda>_. v) m = m"
        by (rule gupd_absent)
      with True show ?thesis by (cases kv) (simp add: gput_def gupd_def)
    next
      case False
      with Cons show ?thesis by (cases kv) (auto simp: gput_def gupd_def gget_Cons)
    qed
  qed simp
  with dist Some show ?thesis by (simp add: gsum_gupd)
qed

lemma length_gsum: "int (length m) = gsum (\<lambda>_ _. 1) m"
  by (induction m) auto

subsection \<open>The interface of a map\<close>

locale go_map =
  fixes lookup :: "'m \<Rightarrow> 'k \<Rightarrow> 'v option"
    and store :: "'k \<Rightarrow> 'v \<Rightarrow> 'm \<Rightarrow> 'm"
    and drop_key :: "'k \<Rightarrow> 'm \<Rightarrow> 'm"
    and invar :: "'m \<Rightarrow> bool"
  assumes lookup_store: "invar m \<Longrightarrow> lookup (store k v m) = (lookup m)(k \<mapsto> v)"
    and lookup_drop_key: "invar m \<Longrightarrow> lookup (drop_key k m) = (lookup m)(k := None)"
    and invar_store: "invar m \<Longrightarrow> invar (store k v m)"
    and invar_drop_key: "invar m \<Longrightarrow> invar (drop_key k m)"
begin

text \<open>Removing an entry just stored under a fresh key restores every lookup.\<close>

lemma drop_store_fresh:
  assumes "invar m" and "lookup m k = None"
  shows "lookup (drop_key k (store k v m)) = lookup m"
  using assms by (auto simp: lookup_store lookup_drop_key invar_store)

lemma store_store_commute:
  assumes "invar m" and "k \<noteq> k'"
  shows "lookup (store k v (store k' v' m)) = lookup (store k' v' (store k v m))"
  using assms by (auto simp: lookup_store invar_store fun_upd_twist)

end

interpretation gm: go_map gget gput gdel distinct_keys
  by unfold_locales (auto simp: fun_eq_iff)

section \<open>Systems of guarded atomic steps\<close>

text \<open>
  Each component's critical sections are atomic steps on its state. \<open>reach\<close> is
  reachability by finitely many steps in any order.
\<close>

inductive reach :: "('s \<Rightarrow> bool) \<Rightarrow> ('s \<Rightarrow> 's \<Rightarrow> bool) \<Rightarrow> 's \<Rightarrow> bool"
  for initial :: "'s \<Rightarrow> bool" and step :: "'s \<Rightarrow> 's \<Rightarrow> bool" where
  reach_init: "initial s \<Longrightarrow> reach initial step s"
| reach_step: "reach initial step s \<Longrightarrow> step s t \<Longrightarrow> reach initial step t"

locale guarded_system =
  fixes initial :: "'s \<Rightarrow> bool"
    and step :: "'s \<Rightarrow> 's \<Rightarrow> bool"
    and inv :: "'s \<Rightarrow> bool"
  assumes inv_initial: "initial s \<Longrightarrow> inv s"
    and inv_step: "inv s \<Longrightarrow> step s t \<Longrightarrow> inv t"
begin

lemma reach_inv: "reach initial step s \<Longrightarrow> inv s"
  by (induction rule: reach.induct) (auto intro: inv_initial inv_step)

lemma run_inv: "inv s \<Longrightarrow> step\<^sup>*\<^sup>* s t \<Longrightarrow> inv t"
  by (rotate_tac, induction rule: rtranclp_induct) (auto intro: inv_step)

end

end
