(* ===== verification/GoText.thy ===== *)
theory GoText
  imports Prelude
begin

text \<open>
  The text functions of the Go standard library that the sources use: cutting and splitting
  at a separator, and decimal numbers (\<^verbatim>\<open>strings.Cut\<close>, \<^verbatim>\<open>strconv\<close>).
\<close>

section \<open>Decimal text, cutting at a separator\<close>

text \<open>\<open>strings.Cut\<close> and the split at \<open>strings.LastIndexByte\<close>.\<close>

fun strings_Cut :: "char \<Rightarrow> string \<Rightarrow> (string \<times> string) option" where
  "strings_Cut sep [] = None"
| "strings_Cut sep (c # s) =
     (if c = sep then Some ([], s)
      else case strings_Cut sep s of None \<Rightarrow> None | Some (a, b) \<Rightarrow> Some (c # a, b))"

definition cut_last :: "char \<Rightarrow> string \<Rightarrow> (string \<times> string) option" where
  "cut_last sep s = (case strings_Cut sep (rev s) of None \<Rightarrow> None | Some (b, a) \<Rightarrow> Some (rev a, rev b))"

definition is_digit :: "char \<Rightarrow> bool" where
  "is_digit c = (48 \<le> (of_char c :: nat) \<and> (of_char c :: nat) \<le> 57)"

definition is_lower_hex :: "char \<Rightarrow> bool" where
  "is_lower_hex c = (is_digit c \<or> 97 \<le> (of_char c :: nat) \<and> (of_char c :: nat) \<le> 102)"

text \<open>\<open>strconv.FormatUint(n, 10)\<close> and \<open>strconv.ParseUint(s, 10, 64)\<close>.\<close>

fun FormatUint :: "nat \<Rightarrow> string" where
  "FormatUint n =
     (if n < 10 then [char_of (48 + n)] else FormatUint (n div 10) @ [char_of (48 + n mod 10)])"

declare FormatUint.simps [simp del]

definition decimal_value :: "string \<Rightarrow> nat" where
  "decimal_value s = foldl (\<lambda>acc c. 10 * acc + (of_char c - 48)) 0 s"

definition ParseUint :: "string \<Rightarrow> u64 option" where
  "ParseUint s =
     (if s = [] \<or> \<not> list_all is_digit s \<or> decimal_value s \<ge> 2 ^ 64 then None
      else Some (word_of_nat (decimal_value s)))"

text \<open>\<open>strconv.Atoi\<close>: an optional sign, then digits, within the range of a 64 bit int.\<close>

definition Atoi :: "string \<Rightarrow> int option" where
  "Atoi s =
     (let (neg, ds) = (case s of [] \<Rightarrow> (False, [])
                       | c # cs \<Rightarrow> if c = CHR ''-'' then (True, cs)
                                  else if c = CHR ''+'' then (False, cs) else (False, s))
      in if ds = [] \<or> \<not> list_all is_digit ds then None
         else let v = int (decimal_value ds); n = (if neg then - v else v)
              in if - (2 ^ 63) \<le> n \<and> n < 2 ^ 63 then Some n else None)"

text \<open>\<open>strconv.Itoa\<close> on the non-negative values it is used for.\<close>

definition Itoa :: "int \<Rightarrow> string" where
  "Itoa n = (if n < 0 then CHR ''-'' # FormatUint (nat (- n)) else FormatUint (nat n))"

text \<open>Evaluation compares with the bound as an \<open>int\<close>.\<close>

lemma ParseUint_code [code]:
  "ParseUint s = (if s = [] \<or> \<not> list_all is_digit s then None
     else let v = int (decimal_value s) in if 18446744073709551616 \<le> v then None else Some (word_of_int v))"
proof -
  have "(18446744073709551616 \<le> int n) = (18446744073709551616 \<le> n)" for n by linarith
  then show ?thesis by (simp add: ParseUint_def Let_def)
qed

section \<open>Facts about the text functions\<close>

lemma strings_Cut_append [simp]:
  "sep \<notin> set a \<Longrightarrow> strings_Cut sep (a @ sep # b) = Some (a, b)"
  by (induction a) auto

lemma strings_Cut_Some:
  "strings_Cut sep s = Some (a, b) \<Longrightarrow> s = a @ sep # b \<and> sep \<notin> set a"
  by (induction s arbitrary: a) (auto split: if_splits option.splits)

lemma cut_last_append [simp]: "sep \<notin> set b \<Longrightarrow> cut_last sep (a @ sep # b) = Some (a, b)"
  by (simp add: cut_last_def)

lemma cut_last_Some:
  assumes "cut_last sep s = Some (a, b)"
  shows "s = a @ sep # b \<and> sep \<notin> set b"
proof -
  from assms obtain b' a' where "strings_Cut sep (rev s) = Some (b', a')" "a = rev a'" "b = rev b'"
    by (auto simp: cut_last_def split: option.splits)
  then have "rev s = rev b @ sep # rev a" and "sep \<notin> set b"
    using strings_Cut_Some by fastforce+
  then have "rev (rev s) = a @ sep # b"
    by simp
  then show ?thesis using \<open>sep \<notin> set b\<close> by simp
qed

lemma of_char_digit: "n < 10 \<Longrightarrow> (of_char (char_of (48 + n :: nat)) :: nat) = 48 + n"
  by simp

lemma FormatUint_digits: "list_all is_digit (FormatUint n)"
proof (induction n rule: FormatUint.induct)
  case (1 n)
  show ?case
  proof (cases "n < 10")
    case True
    then show ?thesis by (subst FormatUint.simps) (simp add: is_digit_def)
  next
    case False
    have "n mod 10 < 10" by simp
    then have "is_digit (char_of (48 + n mod 10))"
      by (simp add: is_digit_def)
    with False 1 show ?thesis by (subst FormatUint.simps) simp
  qed
qed

lemma FormatUint_not_Nil [simp]: "FormatUint n \<noteq> []"
  by (subst FormatUint.simps) simp

lemma decimal_value_snoc [simp]:
  "decimal_value (s @ [c]) = 10 * decimal_value s + (of_char c - 48)"
  by (simp add: decimal_value_def)

lemma decimal_value_FormatUint [simp]: "decimal_value (FormatUint n) = n"
proof (induction n rule: FormatUint.induct)
  case (1 n)
  show ?case
  proof (cases "n < 10")
    case True
    then show ?thesis by (subst FormatUint.simps) (simp add: decimal_value_def)
  next
    case False
    with 1 show ?thesis by (subst FormatUint.simps) simp
  qed
qed

lemma digit_not_colon: "is_digit c \<Longrightarrow> c \<noteq> CHR '':''"
  by (auto simp: is_digit_def)

lemma FormatUint_no_colon: "CHR '':'' \<notin> set (FormatUint n)"
  using FormatUint_digits [of n] by (auto simp: list_all_iff dest: digit_not_colon)

lemma FormatUint_inj: "FormatUint m = FormatUint n \<longleftrightarrow> m = n"
  by (metis decimal_value_FormatUint)

lemma hd_FormatUint: "0 < n \<Longrightarrow> hd (FormatUint n) \<noteq> CHR ''0''"
proof (induction n rule: FormatUint.induct)
  case (1 n)
  show ?case
  proof (cases "n < 10")
    case True
    have "char_of (48 + n) \<noteq> CHR ''0''"
    proof
      assume "char_of (48 + n) = CHR ''0''"
      then have "(of_char (char_of (48 + n)) :: nat) = of_char CHR ''0''" by simp
      with True 1 show False by simp
    qed
    with True show ?thesis by (subst FormatUint.simps) simp
  next
    case False
    with 1 have "hd (FormatUint (n div 10)) \<noteq> CHR ''0''" by simp
    with False show ?thesis by (subst FormatUint.simps) simp
  qed
qed

lemma length_FormatUint: "n < 10 ^ k \<Longrightarrow> 0 < k \<Longrightarrow> length (FormatUint n) \<le> k"
proof (induction k arbitrary: n)
  case (Suc k)
  show ?case
  proof (cases "n < 10")
    case True
    then show ?thesis by (subst FormatUint.simps) simp
  next
    case False
    with Suc.prems have "0 < k" by (cases k) auto
    have "n div 10 < 10 ^ k"
      using Suc.prems by (simp add: less_mult_imp_div_less mult.commute)
    with Suc.IH \<open>0 < k\<close> have "length (FormatUint (n div 10)) \<le> k" by simp
    with False show ?thesis by (subst FormatUint.simps) simp
  qed
qed simp

lemma ParseUint_FormatUint: "n < 2 ^ 64 \<Longrightarrow> ParseUint (FormatUint n) = Some (word_of_nat n)"
  by (simp add: ParseUint_def FormatUint_digits)

lemma Atoi_Itoa: "0 \<le> i \<Longrightarrow> i < 2 ^ 63 \<Longrightarrow> Atoi (Itoa i) = Some i"
proof -
  assume i: "0 \<le> i" "i < 2 ^ 63"
  obtain c cs where s: "FormatUint (nat i) = c # cs"
    by (cases "FormatUint (nat i)") auto
  with FormatUint_digits [of "nat i"] have "is_digit c" by simp
  then have "c \<noteq> CHR ''-''" "c \<noteq> CHR ''+''" by (auto simp: is_digit_def)
  moreover have "decimal_value (c # cs) = nat i" "list_all is_digit (c # cs)"
    using s FormatUint_digits [of "nat i"] by (metis decimal_value_FormatUint, simp)
  ultimately show ?thesis
    using i s by (simp add: Atoi_def Itoa_def Let_def)
qed

end
