(* ===== verification/RangeModel.thy ===== *)
theory RangeModel
  imports GoText
begin

text \<open>
  The vocabulary of range control, \<^verbatim>\<open>packages/storage/ranges.go\<close>, with the use
  claims of \<^verbatim>\<open>packages/storage/capabilities.go\<close> and the request identities and
  session limits of \<^verbatim>\<open>packages/storage/files.go\<close>: data, validation
  (\<open>Check\<close> methods return \<open>None\<close> for a nil error) and the textual
  identities of lock requests and claims.

  Enumerations are byte valued in the source. Their datatypes have one constructor per
  declared constant and one for every other byte value, zero included, so that validation
  can reject what the source rejects.
\<close>

section \<open>Data\<close>

datatype ExtentKind = Bytes | Boundary | InvalidExtent
datatype ConflictDomain = DomainRecord | DomainWholeFile | DomainEnforced | InvalidDomain
datatype RangeMode = RangeShared | RangeExclusive | InvalidMode
datatype RangeEdit = Replace | Subtract | AddExact | RemoveExact | InvalidEdit
datatype ConversionRule = PreserveBeforeAcquire | DropBeforeAcquire | InvalidConversion

record Range =
  rg_Kind :: ExtentKind
  rg_Start :: u64
  rg_Length :: u64
  rg_CutAt :: u64

type_synonym Uses = u8
type_synonym ClaimID = string
type_synonym LockRequestID = string
type_synonym OwnerDiagnostic = u64
type_synonym UseOwner = u64

definition ReadData :: Uses where "ReadData = 1"
definition WriteData :: Uses where "WriteData = 2"
definition ReadEntries :: Uses where "ReadEntries = 4"
definition DeleteName :: Uses where "DeleteName = 8"
definition AllUses :: Uses where "AllUses = ReadData OR WriteData OR ReadEntries OR DeleteName"

record RangePolicy =
  DenySelf :: Uses
  DenyOthers :: Uses

record RangeCommand =
  cmd_Domain :: ConflictDomain
  cmd_Mode :: RangeMode
  cmd_Range :: Range
  cmd_Edit :: RangeEdit
  cmd_Claim :: ClaimID
  cmd_Wait :: bool
  cmd_Conversion :: ConversionRule
  cmd_Policy :: RangePolicy

datatype AttemptState = Pending | Granted | Rejected | Cancelled | Released

datatype RejectionCode =
    NoRejection | RangeBlocked | RangeNotHeld | RangeExhausted | RangeDeadlock | RangeInvalid
  | RangeUnsupported | RangeExpired | RangeTooLarge

record RangeEffect =
  eff_Claim :: ClaimID
  eff_Command :: RangeCommand
  eff_Released :: bool

record RangeConflict =
  cf_Found :: bool
  cf_Owner :: OwnerDiagnostic
  cf_Range :: Range
  cf_Mode :: RangeMode

record RangeAttempt =
  att_Request :: LockRequestID
  att_State :: AttemptState
  att_Commands :: "RangeCommand list"
  att_Claims :: "ClaimID list"
  att_Conflict :: RangeConflict
  att_Rejection :: RejectionCode
  att_FailedAt :: "nat option"
  att_Effects :: "RangeEffect list"
  att_EverGranted :: bool
  att_HistoryRemaining :: duration

definition zeroRange :: Range where
  "zeroRange = \<lparr>rg_Kind = InvalidExtent, rg_Start = 0, rg_Length = 0, rg_CutAt = 0\<rparr>"

definition zeroPolicy :: RangePolicy where
  "zeroPolicy = \<lparr>DenySelf = 0, DenyOthers = 0\<rparr>"

definition zeroConflict :: RangeConflict where
  "zeroConflict = \<lparr>cf_Found = False, cf_Owner = 0, cf_Range = zeroRange, cf_Mode = InvalidMode\<rparr>"

definition MaxRangeCommands :: nat where "MaxRangeCommands = 64"
definition MaxRangeClaims :: nat where "MaxRangeClaims = 64"
definition MaxRangeEffects :: nat where "MaxRangeEffects = 64"

section \<open>Use claims, scopes and session limits\<close>

type_synonym UseScope = string \<comment> \<open>the token of a reference scope\<close>

definition MaxScopeBytes :: nat where "MaxScopeBytes = 128"

text \<open>\<open>UseScope.Check\<close>; the UTF-8 validity of the token is a parameter.\<close>

definition UseScope_Check :: "(string \<Rightarrow> bool) \<Rightarrow> UseScope \<Rightarrow> goerror option" where
  "UseScope_Check validUTF8 token = first_error
     [fail_if (token = [] \<or> length token > MaxScopeBytes \<or> \<not> validUTF8 token) (Errno EINVAL),
      fail_if (list_ex (\<lambda>ch. (of_char ch :: nat) = 0) token) (Errno EINVAL)]"

record UseClaim =
  uc_Uses :: Uses
  uc_Deny :: Uses

definition UseClaim_Check :: "UseClaim \<Rightarrow> goerror option" where
  "UseClaim_Check c = fail_if ((uc_Uses c OR uc_Deny c) AND NOT AllUses \<noteq> 0) (Errno EINVAL)"

datatype OwnerLifetime = OwnerReference | OwnerExplicit | InvalidLifetime

record OwnerOptions =
  oo_Lifetime :: OwnerLifetime
  oo_Group :: u64
  oo_Diagnostic :: OwnerDiagnostic

definition OwnerOptions_Check :: "OwnerOptions \<Rightarrow> goerror option" where
  "OwnerOptions_Check opts =
     fail_if (oo_Lifetime opts \<noteq> OwnerReference \<and> oo_Lifetime opts \<noteq> OwnerExplicit) (Errno EINVAL)"

record FileSessionOptions =
  fs_Lease :: duration
  fs_History :: duration
  fs_MaxFileSize :: int
  fs_MaxFiles :: int
  fs_MaxOperations :: int
  fs_MaxWaiters :: int
  fs_MaxLockOwners :: int
  fs_MaxLockRanges :: int
  fs_MaxPendingLocks :: int
  fs_MaxLockActions :: int
  fs_MaxCloseActions :: int

definition DefaultFileMaxSize :: int where "DefaultFileMaxSize = 2 ^ 30"

definition DefaultFileSessionOptions :: FileSessionOptions where
  "DefaultFileSessionOptions =
     \<lparr>fs_Lease = 30 * 10 ^ 9, fs_History = 60 * 10 ^ 9, fs_MaxFileSize = DefaultFileMaxSize,
      fs_MaxFiles = 4096, fs_MaxOperations = 64, fs_MaxWaiters = 256,
      fs_MaxLockOwners = 4096, fs_MaxLockRanges = 65536,
      fs_MaxPendingLocks = 1024, fs_MaxLockActions = 16384, fs_MaxCloseActions = 16384\<rparr>"

definition FileSessionOptions_Check :: "FileSessionOptions \<Rightarrow> goerror option" where
  "FileSessionOptions_Check opts = first_error
     [fail_if (fs_Lease opts \<le> 0 \<or> fs_History opts \<le> 0) (Errno EINVAL),
      fail_if (fs_MaxFileSize opts \<le> 0 \<or> fs_MaxFiles opts \<le> 0 \<or> fs_MaxOperations opts \<le> 0 \<or> fs_MaxWaiters opts < 0
        \<or> fs_MaxLockOwners opts \<le> 0 \<or> fs_MaxLockRanges opts \<le> 0 \<or> fs_MaxPendingLocks opts \<le> 0
        \<or> fs_MaxLockActions opts \<le> 0 \<or> fs_MaxCloseActions opts \<le> 0
        \<or> fs_MaxFiles opts > (fs_MaxCloseActions opts - 1) div 2) (Errno EINVAL)]"

section \<open>Lock request and claim identities\<close>

text \<open>\<open>NewLockRequestID\<close>: the nonce is the 16 random bytes, already rendered as 32
  lower case hexadecimal digits.\<close>

definition NewLockRequestID :: "u64 \<Rightarrow> string \<Rightarrow> goerror + LockRequestID" where
  "NewLockRequestID epoch nonceHex =
     (if epoch = 0 then Inl (Errno EINVAL)
      else Inr (FormatUint (unat epoch) @ '':'' @ nonceHex))"

definition Epoch :: "LockRequestID \<Rightarrow> goerror + u64" where
  "Epoch r =
     (if length r > 53 then Inl (Errno EINVAL)
      else case strings_Cut CHR '':'' r of
        None \<Rightarrow> Inl (Errno EINVAL)
      | Some (epochText, nonce) \<Rightarrow>
          if epochText = [] \<or> length epochText > 20 \<or> length nonce \<noteq> 32 \<or> hd epochText = CHR ''0''
          then Inl (Errno EINVAL)
          else (case ParseUint epochText of
              None \<Rightarrow> Inl (Errno EINVAL)
            | Some epoch \<Rightarrow>
                if epoch = 0 \<or> FormatUint (unat epoch) \<noteq> epochText then Inl (Errno EINVAL)
                else if \<not> list_all is_lower_hex nonce then Inl (Errno EINVAL)
                else Inr epoch))"

definition NewClaimID :: "LockRequestID \<Rightarrow> int \<Rightarrow> goerror + ClaimID" where
  "NewClaimID request index =
     (case Epoch request of
        Inl e \<Rightarrow> Inl e
      | Inr _ \<Rightarrow>
          if index < 0 \<or> index \<ge> int MaxRangeCommands then Inl (Errno EINVAL)
          else Inr (request @ '':'' @ Itoa index))"

definition ClaimID_Check :: "ClaimID \<Rightarrow> goerror option" where
  "ClaimID_Check c =
     (if length c > 56 then Some (Errno EINVAL)
      else case cut_last CHR '':'' c of
        None \<Rightarrow> Some (Errno EINVAL)
      | Some (request, indexText) \<Rightarrow>
          (case Atoi indexText of
             None \<Rightarrow> Some (Errno EINVAL)
           | Some index \<Rightarrow>
               (case NewClaimID request index of
                  Inl _ \<Rightarrow> Some (Errno EINVAL)
                | Inr want \<Rightarrow> if want \<noteq> c then Some (Errno EINVAL) else None)))"

section \<open>Validation of ranges and commands\<close>

definition Range_Check :: "Range \<Rightarrow> goerror option" where
  "Range_Check r =
     (case rg_Kind r of
        Bytes \<Rightarrow>
          if rg_Length r = 0 \<or> rg_CutAt r \<noteq> 0 \<or> rg_Length r - 1 > NOT 0 - rg_Start r
          then Some (Errno EINVAL) else None
      | Boundary \<Rightarrow> if rg_Start r \<noteq> 0 \<or> rg_Length r \<noteq> 0 then Some (Errno EINVAL) else None
      | InvalidExtent \<Rightarrow> Some (Errno EINVAL))"

definition RangeCommand_Check :: "RangeCommand \<Rightarrow> goerror option" where
  "RangeCommand_Check c = first_error
     [Range_Check (cmd_Range c),
      fail_if (rg_Kind (cmd_Range c) = Boundary \<and> (cmd_Edit c = Replace \<or> cmd_Edit c = Subtract))
        (Errno EINVAL),
      fail_if (cmd_Domain c = InvalidDomain \<or> cmd_Mode c = InvalidMode \<or> cmd_Edit c = InvalidEdit
               \<or> cmd_Conversion c = InvalidConversion) (Errno EINVAL),
      (if cmd_Edit c = RemoveExact
       then first_error
              [fail_if (cmd_Wait c \<or> cmd_Conversion c \<noteq> PreserveBeforeAcquire) (Errno EINVAL),
               ClaimID_Check (cmd_Claim c)]
       else fail_if (cmd_Claim c \<noteq> []) (Errno EINVAL)),
      fail_if (cmd_Edit c = Subtract \<and> (cmd_Wait c \<or> cmd_Conversion c \<noteq> PreserveBeforeAcquire))
        (Errno EINVAL),
      fail_if ((DenySelf (cmd_Policy c) OR DenyOthers (cmd_Policy c)) AND NOT (ReadData OR WriteData) \<noteq> 0)
        (Errno EINVAL),
      (if cmd_Domain c = DomainEnforced
       then first_error
              [fail_if (cmd_Edit c \<noteq> AddExact \<and> cmd_Edit c \<noteq> RemoveExact) (Errno EOPNOTSUPP),
               fail_if (DenyOthers (cmd_Policy c) = 0) (Errno EINVAL)]
       else fail_if (cmd_Policy c \<noteq> zeroPolicy \<or> cmd_Edit c = AddExact \<or> cmd_Edit c = RemoveExact)
              (Errno EOPNOTSUPP)),
      fail_if (cmd_Conversion c = DropBeforeAcquire
               \<and> (cmd_Domain c \<noteq> DomainWholeFile \<or> cmd_Edit c \<noteq> Replace)) (Errno EINVAL)]"

section \<open>Facts about identities and checks\<close>

lemma Epoch_no_error_shape:
  assumes "Epoch r = Inr e"
  shows "\<exists>nonce. r = FormatUint (unat e) @ CHR '':'' # nonce \<and> length nonce = 32 \<and> e \<noteq> 0
    \<and> list_all is_lower_hex nonce \<and> length r \<le> 53"
proof -
  from assms obtain t nonce where "strings_Cut CHR '':'' r = Some (t, nonce)"
    and rest: "length r \<le> 53" "length nonce = 32" "e \<noteq> 0" "list_all is_lower_hex nonce" "FormatUint (unat e) = t"
    by (auto simp: Epoch_def split: if_splits option.splits)
  with strings_Cut_Some [of "CHR '':''" r t nonce] show ?thesis by auto
qed

lemma Epoch_complete:
  assumes "e \<noteq> 0" and "length nonce = 32" and "list_all is_lower_hex nonce"
  shows "Epoch (FormatUint (unat e) @ CHR '':'' # nonce) = Inr e"
proof -
  have lt: "unat e < 2 ^ 64" by (rule unat_u64_lt)
  then have "unat e < 10 ^ 20" by simp
  then have len: "length (FormatUint (unat e)) \<le> 20" by (rule length_FormatUint) simp
  from assms(1) have "0 < unat e" by (simp add: unat_gt_0)
  then have "hd (FormatUint (unat e)) \<noteq> CHR ''0''" by (rule hd_FormatUint)
  with assms lt len show ?thesis
    by (simp add: Epoch_def FormatUint_no_colon ParseUint_FormatUint)
qed

lemma NewClaimID_Inr:
  "NewClaimID r i = Inr c \<longleftrightarrow>
     (\<exists>e. Epoch r = Inr e) \<and> 0 \<le> i \<and> i < 64 \<and> c = r @ CHR '':'' # Itoa i"
  by (auto simp: NewClaimID_def MaxRangeCommands_def split: sum.splits)

lemma Itoa_small: "0 \<le> i \<Longrightarrow> i < 64 \<Longrightarrow> CHR '':'' \<notin> set (Itoa i) \<and> length (Itoa i) \<le> 2"
  using length_FormatUint [of "nat i" 2] by (auto simp: Itoa_def FormatUint_no_colon)

lemma cut_last_NewClaimID:
  assumes "NewClaimID r i = Inr c"
  shows "cut_last CHR '':'' c = Some (r, Itoa i)"
  using assms by (auto simp: NewClaimID_Inr Itoa_small)

lemma NewClaimID_checked:
  assumes "NewClaimID r i = Inr c"
  shows "ClaimID_Check c = None"
proof -
  from assms have i: "0 \<le> i" "i < 64" and c: "c = r @ CHR '':'' # Itoa i"
    by (auto simp: NewClaimID_Inr)
  from assms obtain e where "Epoch r = Inr e" by (auto simp: NewClaimID_Inr)
  then have "length r \<le> 53" using Epoch_no_error_shape by blast
  with c Itoa_small [OF i] have "length c \<le> 56" by simp
  moreover have "Atoi (Itoa i) = Some i" using i by (simp add: Atoi_Itoa)
  ultimately show ?thesis
    using cut_last_NewClaimID [OF assms] assms by (simp add: ClaimID_Check_def)
qed

lemma ClaimID_Check_None:
  "ClaimID_Check c = None \<longleftrightarrow> (\<exists>r i. NewClaimID r i = Inr c)"
proof
  assume "ClaimID_Check c = None"
  then show "\<exists>r i. NewClaimID r i = Inr c"
    by (auto simp: ClaimID_Check_def split: if_splits option.splits sum.splits) blast
next
  assume "\<exists>r i. NewClaimID r i = Inr c"
  then show "ClaimID_Check c = None" using NewClaimID_checked by blast
qed

lemma NewClaimID_inj:
  assumes "NewClaimID r i = Inr c" and "NewClaimID r' i' = Inr c"
  shows "r = r' \<and> i = i'"
proof -
  from assms have "cut_last CHR '':'' c = Some (r, Itoa i)" "cut_last CHR '':'' c = Some (r', Itoa i')"
    by (auto dest: cut_last_NewClaimID)
  then have "r = r'" "Itoa i = Itoa i'" by auto
  moreover from assms have "0 \<le> i" "0 \<le> i'" by (auto simp: NewClaimID_Inr)
  ultimately show ?thesis by (simp add: Itoa_def FormatUint_inj)
qed

lemma NewClaimID_not_empty: "NewClaimID r i = Inr c \<Longrightarrow> c \<noteq> []"
  by (auto simp: NewClaimID_Inr)

lemma Range_Check_Bytes:
  "rg_Kind r = Bytes \<Longrightarrow> Range_Check r = None \<longleftrightarrow>
     rg_Length r \<noteq> 0 \<and> rg_CutAt r = 0 \<and> unat (rg_Start r) + unat (rg_Length r) \<le> 2 ^ 64"
proof -
  assume kind: "rg_Kind r = Bytes"
  have top: "unat (NOT 0 - rg_Start r) = 2 ^ 64 - 1 - unat (rg_Start r)"
    using unat_MaxUint64_minus [of "rg_Start r"] by (simp add: MaxUint64_def)
  have "rg_Length r \<noteq> 0 \<Longrightarrow> unat (rg_Length r - 1) = unat (rg_Length r) - 1"
    by (rule unat_minus_one)
  moreover have "unat (rg_Start r) < 2 ^ 64"
    by (rule unat_u64_lt)
  moreover have "rg_Length r \<noteq> 0 \<Longrightarrow> 0 < unat (rg_Length r)"
    by (simp add: unat_gt_0)
  ultimately show ?thesis
    using kind top by (auto simp: Range_Check_def word_less_nat_alt not_less) 
qed


lemma Range_Check_kind: "Range_Check r = None \<Longrightarrow> rg_Kind r = Bytes \<or> rg_Kind r = Boundary"
  by (cases "rg_Kind r") (simp_all add: Range_Check_def)

lemma RangeCommand_Check_None:
  assumes "RangeCommand_Check c = None"
  shows "Range_Check (cmd_Range c) = None"
    and "cmd_Domain c \<noteq> InvalidDomain" and "cmd_Mode c \<noteq> InvalidMode"
    and "cmd_Edit c \<noteq> InvalidEdit" 
    and "cmd_Edit c = Replace \<or> cmd_Edit c = Subtract \<Longrightarrow> rg_Kind (cmd_Range c) = Bytes"
    and "cmd_Edit c = AddExact \<or> cmd_Edit c = RemoveExact \<longleftrightarrow> cmd_Domain c = DomainEnforced"
    and "cmd_Edit c = RemoveExact \<Longrightarrow> ClaimID_Check (cmd_Claim c) = None"
    and "cmd_Edit c \<noteq> RemoveExact \<Longrightarrow> cmd_Claim c = []"
    and "cmd_Domain c \<noteq> DomainEnforced \<Longrightarrow> cmd_Policy c = zeroPolicy"
    and "cmd_Domain c = DomainEnforced \<Longrightarrow> DenyOthers (cmd_Policy c) \<noteq> 0"
  using assms
  using Range_Check_kind [of "cmd_Range c"] unfolding RangeCommand_Check_def
  by (simp_all split: if_splits)

section \<open>Properties\<close>

text \<open>
  The lock request identities that \<open>Epoch\<close> accepts, with the epoch it
  reports, are exactly those that \<open>NewLockRequestID\<close> mints for that epoch from
  some 32 digit lower case hexadecimal nonce.
\<close>

lemma lock_request_id_canonical:
  "Epoch r = Inr e \<longleftrightarrow>
     (\<exists>nonce. length nonce = 32 \<and> list_all is_lower_hex nonce \<and> NewLockRequestID e nonce = Inr r)"
  by (auto simp: NewLockRequestID_def Epoch_complete dest!: Epoch_no_error_shape)

text \<open>
  C39: \<open>ClaimID.Check\<close> accepts a text exactly when one request identity and one
  command index mint it, and these two are determined by the text: claim identities
  round-trip and never collide.
\<close>

theorem claim_id_canonical:
  "ClaimID_Check c = None \<longleftrightarrow> (\<exists>!p. NewClaimID (fst p) (snd p) = Inr c)"
proof
  assume "ClaimID_Check c = None"
  then obtain r i where "NewClaimID r i = Inr c"
    by (auto simp: ClaimID_Check_None)
  then show "\<exists>!p. NewClaimID (fst p) (snd p) = Inr c"
    by (intro ex1I [of _ "(r, i)"]) (auto dest: NewClaimID_inj)
next
  assume "\<exists>!p. NewClaimID (fst p) (snd p) = Inr c"
  then show "ClaimID_Check c = None"
    by (auto simp: ClaimID_Check_None)
qed

end
