(* ===== verification/Extents.thy ===== *)
theory Extents
  imports RangeModel
begin

text \<open>
  Byte extents and the range tables of one owner, \<^verbatim>\<open>packages/advisory/extents.go\<close>
  and the pure part of \<^verbatim>\<open>packages/advisory/ranges.go\<close>.

  \<open>replaceRanges\<close> is the edit that installs or subtracts a byte range in an owner's
  table: it cuts the old claims around the range, sorts and coalesces. The table is read
  as a byte map by \<open>lock_at\<close>; \<open>byte_table\<close> is the interface that the
  coordinator uses, and \<open>replaceRanges\<close> is shown to implement it without wrap-around
  anywhere in the 64 bit offset space.
\<close>

section \<open>Extents\<close>

definition byteLast :: "u64 \<Rightarrow> u64 \<Rightarrow> u64 \<times> bool" where
  "byteLast start len =
     (if len = 0 \<or> len - 1 > MaxUint64 - start then (0, False) else (start + len - 1, True))"

definition bytesOverlap :: "u64 \<Rightarrow> u64 \<Rightarrow> u64 \<Rightarrow> u64 \<Rightarrow> bool" where
  "bytesOverlap aStart aLength bStart bLength =
     (let (aLast, aValid) = byteLast aStart aLength; (bLast, bValid) = byteLast bStart bLength
      in aValid \<and> bValid \<and> aStart \<le> bLast \<and> bStart \<le> aLast)"

definition boundaryOverlaps :: "u64 \<Rightarrow> u64 \<Rightarrow> u64 \<Rightarrow> bool" where
  "boundaryOverlaps start len cutAt =
     (let (_, valid) = byteLast start len in valid \<and> cutAt > start \<and> cutAt - start < len)"

definition overlaps :: "Range \<Rightarrow> Range \<Rightarrow> bool" where
  "overlaps a b =
     (if rg_Kind a = Boundary
      then rg_Kind b = Bytes \<and> boundaryOverlaps (rg_Start b) (rg_Length b) (rg_CutAt a)
      else if rg_Kind b = Boundary then boundaryOverlaps (rg_Start a) (rg_Length a) (rg_CutAt b)
      else bytesOverlap (rg_Start a) (rg_Length a) (rg_Start b) (rg_Length b))"

definition rangeStart :: "Range \<Rightarrow> u64" where
  "rangeStart r = (if rg_Kind r = Boundary then rg_CutAt r else rg_Start r)"

section \<open>Range tables\<close>

record rangeClaim =
  rc_id :: ClaimID
  rc_command :: RangeCommand

abbreviation claimRange :: "rangeClaim \<Rightarrow> Range" where
  "claimRange c \<equiv> cmd_Range (rc_command c)"

abbreviation claimMode :: "rangeClaim \<Rightarrow> RangeMode" where
  "claimMode c \<equiv> cmd_Mode (rc_command c)"

abbreviation claimPolicy :: "rangeClaim \<Rightarrow> RangePolicy" where
  "claimPolicy c \<equiv> cmd_Policy (rc_command c)"

definition setRange :: "u64 \<Rightarrow> u64 \<Rightarrow> rangeClaim \<Rightarrow> rangeClaim" where
  "setRange start len c =
     c\<lparr>rc_command := (rc_command c)\<lparr>cmd_Range := (claimRange c)\<lparr>rg_Start := start, rg_Length := len\<rparr>\<rparr>\<rparr>"

text \<open>What is left of one old claim beside the command's range.\<close>

definition cutClaim :: "RangeCommand \<Rightarrow> rangeClaim \<Rightarrow> rangeClaim list" where
  "cutClaim command existing =
     (let start = rg_Start (cmd_Range command);
          last = fst (byteLast start (rg_Length (cmd_Range command)));
          oldRange = claimRange existing
      in if \<not> overlaps oldRange (cmd_Range command) then [existing]
         else let oldLast = fst (byteLast (rg_Start oldRange) (rg_Length oldRange))
              in (if rg_Start oldRange < start
                  then [setRange (rg_Start oldRange) (start - rg_Start oldRange) existing] else [])
                 @ (if oldLast > last then [setRange (last + 1) (oldLast - last) existing] else []))"

text \<open>\<open>held\<close> form of a command: it no longer waits or converts.\<close>

definition settled :: "RangeCommand \<Rightarrow> RangeCommand" where
  "settled command = command\<lparr>cmd_Wait := False, cmd_Conversion := PreserveBeforeAcquire\<rparr>"

definition mergeable :: "rangeClaim \<Rightarrow> rangeClaim \<Rightarrow> bool" where
  "mergeable previous current =
     (let previousLast = fst (byteLast (rg_Start (claimRange previous)) (rg_Length (claimRange previous)))
      in previousLast \<noteq> MaxUint64 \<and> previousLast + 1 = rg_Start (claimRange current)
         \<and> claimMode previous = claimMode current \<and> claimPolicy previous = claimPolicy current
         \<and> rg_Length (claimRange current) \<le> MaxUint64 - rg_Length (claimRange previous))"

text \<open>The coalescing loop; the result is built in reverse.\<close>

fun coalesce :: "rangeClaim list \<Rightarrow> rangeClaim list \<Rightarrow> rangeClaim list" where
  "coalesce result [] = rev result"
| "coalesce [] (current # rest) = coalesce [current] rest"
| "coalesce (previous # result) (current # rest) =
     (if mergeable previous current
      then coalesce (setRange (rg_Start (claimRange previous))
             (rg_Length (claimRange previous) + rg_Length (claimRange current)) previous # result) rest
      else coalesce (current # previous # result) rest)"

definition replaceRanges :: "rangeClaim list \<Rightarrow> RangeCommand \<Rightarrow> rangeClaim list" where
  "replaceRanges old command =
     (let next = concat (map (cutClaim command) old)
                 @ (if cmd_Edit command \<noteq> Subtract
                    then [\<lparr>rc_id = [], rc_command = settled command\<rparr>] else [])
      in coalesce [] (sort_key (\<lambda>c. rg_Start (claimRange c)) next))"

section \<open>Reading a table byte by byte\<close>

definition covers :: "Range \<Rightarrow> u64 \<Rightarrow> bool" where
  "covers r x =
     (rg_Kind r = Bytes \<and> snd (byteLast (rg_Start r) (rg_Length r))
      \<and> rg_Start r \<le> x \<and> x \<le> fst (byteLast (rg_Start r) (rg_Length r)))"

definition lock_at :: "rangeClaim list \<Rightarrow> u64 \<Rightarrow> (RangeMode \<times> RangePolicy) option" where
  "lock_at table x =
     map_option (\<lambda>c. (claimMode c, claimPolicy c)) (find (\<lambda>c. covers (claimRange c) x) table)"

text \<open>The extent of a byte range as natural numbers: from \<open>lo\<close> up to, not
  including, \<open>hi\<close>.\<close>

definition lo :: "Range \<Rightarrow> nat" where
  "lo r = unat (rg_Start r)"

definition hi :: "Range \<Rightarrow> nat" where
  "hi r = unat (rg_Start r) + unat (rg_Length r)"

definition valid_bytes :: "Range \<Rightarrow> bool" where
  "valid_bytes r = (rg_Kind r = Bytes \<and> rg_Length r \<noteq> 0 \<and> hi r \<le> 2 ^ 64)"

abbreviation bytes_claim :: "rangeClaim \<Rightarrow> bool" where
  "bytes_claim c \<equiv> valid_bytes (claimRange c)"

definition before :: "rangeClaim \<Rightarrow> rangeClaim \<Rightarrow> bool" where
  "before a b = (hi (claimRange a) \<le> lo (claimRange b))"

text \<open>A table: valid byte ranges, in order and pairwise disjoint.\<close>

definition table_ok :: "rangeClaim list \<Rightarrow> bool" where
  "table_ok table = (list_all bytes_claim table \<and> sorted_wrt before table)"

section \<open>Arithmetic of extents\<close>

lemma byteLast_valid:
  assumes "len \<noteq> 0" and "unat start + unat len \<le> 2 ^ 64"
  shows "snd (byteLast start len)" and "unat (fst (byteLast start len)) = unat start + unat len - 1"
proof -
  have pos: "0 < unat len" using assms(1) by (simp add: unat_gt_0)
  have m: "unat (len - 1) = unat len - 1" using assms(1) by (rule unat_minus_one)
  have "\<not> len - 1 > MaxUint64 - start"
    using assms(2) pos by (simp add: word_less_nat_alt m unat_MaxUint64_minus)
  with assms(1) have bl: "byteLast start len = (start + (len - 1), True)"
    by (simp add: byteLast_def)
  have "unat (start + (len - 1)) = unat start + unat (len - 1)"
    using assms(2) pos m by (subst unat_plus_if') simp
  with bl m pos show "snd (byteLast start len)" "unat (fst (byteLast start len)) = unat start + unat len - 1"
    by auto
qed

lemma byteLast_invalid:
  "\<not> snd (byteLast start len) \<longleftrightarrow> len = 0 \<or> unat start + unat len > 2 ^ 64"
proof
  assume "\<not> snd (byteLast start len)"
  then show "len = 0 \<or> unat start + unat len > 2 ^ 64"
    using byteLast_valid(1) by fastforce
next
  assume "len = 0 \<or> unat start + unat len > 2 ^ 64"
  then show "\<not> snd (byteLast start len)"
    using unat_u64_lt [of start] unat_minus_one [of len]
    by (cases "len = 0") (auto simp: byteLast_def word_less_nat_alt unat_MaxUint64_minus)
qed

lemma valid_bytes_last:
  assumes "valid_bytes r"
  shows "snd (byteLast (rg_Start r) (rg_Length r))"
    and "unat (fst (byteLast (rg_Start r) (rg_Length r))) = hi r - 1"
  using assms byteLast_valid [of "rg_Length r" "rg_Start r"] by (auto simp: valid_bytes_def hi_def)

lemma valid_bytes_lo_hi: "valid_bytes r \<Longrightarrow> lo r < hi r"
  by (auto simp: valid_bytes_def lo_def hi_def unat_gt_0)

lemma covers_iff: "valid_bytes r \<Longrightarrow> covers r x \<longleftrightarrow> lo r \<le> unat x \<and> unat x < hi r"
  using valid_bytes_last [of r] valid_bytes_lo_hi [of r]
  by (auto simp: covers_def word_le_nat_alt lo_def valid_bytes_def)

lemma overlaps_iff:
  assumes "valid_bytes a" and "valid_bytes b"
  shows "overlaps a b \<longleftrightarrow> lo a < hi b \<and> lo b < hi a"
proof -
  have k: "rg_Kind a = Bytes" "rg_Kind b = Bytes" using assms by (auto simp: valid_bytes_def)
  show ?thesis
    using k valid_bytes_last [OF assms(1)] valid_bytes_last [OF assms(2)]
      valid_bytes_lo_hi [OF assms(1)] valid_bytes_lo_hi [OF assms(2)]
    by (auto simp: overlaps_def bytesOverlap_def word_le_nat_alt lo_def case_prod_beta)
qed

lemma overlaps_common_byte:
  assumes "valid_bytes a" and "valid_bytes b"
  shows "overlaps a b \<longleftrightarrow> (\<exists>x. covers a x \<and> covers b x)"
proof
  assume "overlaps a b"
  with assms have o: "lo a < hi b" "lo b < hi a" by (auto simp: overlaps_iff)
  let ?x = "if lo a \<le> lo b then rg_Start b else rg_Start a"
  have "unat ?x = max (lo a) (lo b)" by (simp add: lo_def max_def)
  with o assms valid_bytes_lo_hi have "covers a ?x \<and> covers b ?x"
    by (auto simp: covers_iff)
  then show "\<exists>x. covers a x \<and> covers b x" by blast
next
  assume "\<exists>x. covers a x \<and> covers b x"
  with assms show "overlaps a b" by (auto simp: covers_iff overlaps_iff)
qed

lemma Range_Check_valid_bytes: "Range_Check r = None \<Longrightarrow> rg_Kind r = Bytes \<Longrightarrow> valid_bytes r"
  using Range_Check_Bytes by (simp add: valid_bytes_def hi_def)

lemma setRange_simps [simp]:
  "claimRange (setRange s l c) = (claimRange c)\<lparr>rg_Start := s, rg_Length := l\<rparr>"
  "claimMode (setRange s l c) = claimMode c"
  "claimPolicy (setRange s l c) = claimPolicy c"
  "cmd_Domain (rc_command (setRange s l c)) = cmd_Domain (rc_command c)"
  "rc_id (setRange s l c) = rc_id c"
  by (simp_all add: setRange_def)

lemma settled_simps [simp]:
  "cmd_Range (settled c) = cmd_Range c" "cmd_Mode (settled c) = cmd_Mode c"
  "cmd_Policy (settled c) = cmd_Policy c" "cmd_Domain (settled c) = cmd_Domain c"
  by (simp_all add: settled_def)

text \<open>The two remainders of a cut claim.\<close>

lemma cut_left:
  assumes "valid_bytes r" and "valid_bytes q" and "lo r < lo q" 
  defines "p \<equiv> r\<lparr>rg_Start := rg_Start r, rg_Length := rg_Start q - rg_Start r\<rparr>"
  shows "valid_bytes p" and "lo p = lo r" and "hi p = lo q"
proof -
  have "unat (rg_Start q - rg_Start r) = lo q - lo r"
    using assms(3) by (subst unat_sub) (auto simp: lo_def word_le_nat_alt)
  then have len: "unat (rg_Length p) = lo q - lo r" by (simp add: p_def)
  then show hp: "hi p = lo q" using assms(3) by (simp add: hi_def p_def lo_def)
  show "lo p = lo r" by (simp add: p_def lo_def)
  have "rg_Length p \<noteq> 0" using len assms(3) by auto
  moreover have "lo q \<le> 2 ^ 64" using unat_u64_lt [of "rg_Start q"] by (simp add: lo_def)
  ultimately show "valid_bytes p"
    using assms(1) hp by (simp add: valid_bytes_def p_def)
qed

lemma cut_right:
  assumes "valid_bytes r" and "valid_bytes q" and "hi q < hi r"
  defines "p \<equiv> r\<lparr>rg_Start := fst (byteLast (rg_Start q) (rg_Length q)) + 1,
      rg_Length := fst (byteLast (rg_Start r) (rg_Length r)) - fst (byteLast (rg_Start q) (rg_Length q))\<rparr>"
  shows "valid_bytes p" and "lo p = hi q" and "hi p = hi r"
proof -
  let ?ql = "fst (byteLast (rg_Start q) (rg_Length q))" and ?rl = "fst (byteLast (rg_Start r) (rg_Length r))"
  have q: "unat ?ql = hi q - 1" and r: "unat ?rl = hi r - 1"
    using valid_bytes_last assms(1,2) by auto
  have hq: "0 < hi q" using valid_bytes_lo_hi [OF assms(2)] by simp
  have hr: "hi r \<le> 2 ^ 64" using assms(1) by (simp add: valid_bytes_def)
  have "unat (?ql + 1) = hi q"
    using q hq hr assms(3) by (subst unat_plus_if') simp
  then show lp: "lo p = hi q" by (simp add: p_def lo_def)
  have "unat (?rl - ?ql) = hi r - hi q"
    using q r hq assms(3) by (subst unat_sub) (auto simp: word_le_nat_alt)
  then have len: "unat (rg_Length p) = hi r - hi q" by (simp add: p_def)
  with lp assms(3) show hp: "hi p = hi r" by (simp add: hi_def lo_def)
  have "rg_Length p \<noteq> 0" using len assms(3) by auto
  with assms(1) hp hr show "valid_bytes p" by (simp add: valid_bytes_def p_def)
qed


section \<open>Cutting claims\<close>

lemma cutClaim_disjoint:
  assumes "valid_bytes (cmd_Range q)" and "bytes_claim c"
    and "hi (claimRange c) \<le> lo (cmd_Range q) \<or> hi (cmd_Range q) \<le> lo (claimRange c)"
  shows "cutClaim q c = [c]"
  using assms by (auto simp: cutClaim_def overlaps_iff Let_def)

lemma last_less_iff:
  assumes "valid_bytes a" and "valid_bytes b"
  shows "fst (byteLast (rg_Start a) (rg_Length a)) < fst (byteLast (rg_Start b) (rg_Length b))
    \<longleftrightarrow> hi a < hi b"
  using valid_bytes_last [OF assms(1)] valid_bytes_last [OF assms(2)]
    valid_bytes_lo_hi [OF assms(1)] valid_bytes_lo_hi [OF assms(2)]
  by (auto simp: word_less_nat_alt)

lemma cutClaim_piece:
  assumes q: "valid_bytes (cmd_Range q)" and c: "bytes_claim c" and p: "p \<in> set (cutClaim q c)"
  shows "bytes_claim p" and "lo (claimRange c) \<le> lo (claimRange p)" and "hi (claimRange p) \<le> hi (claimRange c)"
    and "hi (claimRange p) \<le> lo (cmd_Range q) \<or> hi (cmd_Range q) \<le> lo (claimRange p)"
    and "claimMode p = claimMode c" and "claimPolicy p = claimPolicy c"
proof -
  let ?q = "cmd_Range q" and ?c = "claimRange c"
  consider (whole) "p = c" "\<not> overlaps ?c ?q"
    | (left) "p = setRange (rg_Start ?c) (rg_Start ?q - rg_Start ?c) c" "lo ?c < lo ?q" "overlaps ?c ?q"
    | (right) "p = setRange (fst (byteLast (rg_Start ?q) (rg_Length ?q)) + 1)
         (fst (byteLast (rg_Start ?c) (rg_Length ?c)) - fst (byteLast (rg_Start ?q) (rg_Length ?q))) c"
        "hi ?q < hi ?c" "overlaps ?c ?q"
    using p last_less_iff [OF q c]
    by (auto simp: cutClaim_def Let_def word_less_nat_alt lo_def split: if_splits)
  then have "bytes_claim p \<and> lo ?c \<le> lo (claimRange p) \<and> hi (claimRange p) \<le> hi ?c
    \<and> (hi (claimRange p) \<le> lo ?q \<or> hi ?q \<le> lo (claimRange p))
    \<and> claimMode p = claimMode c \<and> claimPolicy p = claimPolicy c"
  proof cases
    case whole
    with q c show ?thesis by (auto simp: overlaps_iff)
  next
    case left
    with q c cut_left [OF c q] show ?thesis by (auto simp: overlaps_iff)
  next
    case right
    with q c cut_right [OF c q] show ?thesis by (auto simp: overlaps_iff)
  qed
  then show "bytes_claim p" "lo ?c \<le> lo (claimRange p)" "hi (claimRange p) \<le> hi ?c"
    "hi (claimRange p) \<le> lo ?q \<or> hi ?q \<le> lo (claimRange p)"
    "claimMode p = claimMode c" "claimPolicy p = claimPolicy c"
    by auto
qed

lemma cutClaim_covers:
  assumes q: "valid_bytes (cmd_Range q)" and c: "bytes_claim c"
  shows "(\<exists>p \<in> set (cutClaim q c). covers (claimRange p) x) \<longleftrightarrow>
    covers (claimRange c) x \<and> \<not> covers (cmd_Range q) x"
proof
  assume "\<exists>p \<in> set (cutClaim q c). covers (claimRange p) x"
  then obtain p where p: "p \<in> set (cutClaim q c)" "covers (claimRange p) x" by blast
  with cutClaim_piece [OF q c p(1)] q c show "covers (claimRange c) x \<and> \<not> covers (cmd_Range q) x"
    by (auto simp: covers_iff)
next
  let ?q = "cmd_Range q" and ?c = "claimRange c"
  assume x: "covers ?c x \<and> \<not> covers ?q x"
  show "\<exists>p \<in> set (cutClaim q c). covers (claimRange p) x"
  proof (cases "overlaps ?c ?q")
    case False
    with x show ?thesis by (simp add: cutClaim_def Let_def)
  next
    case True
    from x q c consider "unat x < lo ?q" | "hi ?q \<le> unat x" by (auto simp: covers_iff)
    then show ?thesis
    proof cases
      case 1
      with x c have "lo ?c < lo ?q" by (auto simp: covers_iff)
      with True have "setRange (rg_Start ?c) (rg_Start ?q - rg_Start ?c) c \<in> set (cutClaim q c)"
        by (simp add: cutClaim_def Let_def word_less_nat_alt lo_def)
      with 1 x c cut_left [OF c q \<open>lo ?c < lo ?q\<close>] show ?thesis
        by (auto simp: covers_iff intro!: bexI)
    next
      case 2
      with x c have "hi ?q < hi ?c" by (auto simp: covers_iff)
      then have "setRange (fst (byteLast (rg_Start ?q) (rg_Length ?q)) + 1)
         (fst (byteLast (rg_Start ?c) (rg_Length ?c)) - fst (byteLast (rg_Start ?q) (rg_Length ?q))) c
         \<in> set (cutClaim q c)"
        using True by (simp add: cutClaim_def Let_def last_less_iff [OF q c])
      with 2 x c cut_right [OF c q \<open>hi ?q < hi ?c\<close>] show ?thesis
        by (auto simp: covers_iff intro!: bexI)
    qed
  qed
qed

lemma cutClaim_sorted:
  assumes q: "valid_bytes (cmd_Range q)" and c: "bytes_claim c"
  shows "sorted_wrt before (cutClaim q c)"
proof (cases "overlaps (claimRange c) (cmd_Range q)")
  case False
  then show ?thesis by (simp add: cutClaim_def Let_def)
next
  case True
  let ?q = "cmd_Range q" and ?c = "claimRange c"
  have "lo ?q < hi ?q" using q by (rule valid_bytes_lo_hi)
  then show ?thesis
    using True cut_left [OF c q] cut_right [OF c q]
    by (auto simp: cutClaim_def Let_def before_def word_less_nat_alt lo_def last_less_iff [OF q c, unfolded word_less_nat_alt])
qed

lemma length_cutClaim: "length (cutClaim q c) \<le> 2"
  by (simp add: cutClaim_def Let_def)

section \<open>Sorting\<close>

definition apart :: "rangeClaim \<Rightarrow> rangeClaim \<Rightarrow> bool" where
  "apart a b = (before a b \<or> before b a)"

lemma sorted_wrt_insort_sym:
  assumes "\<And>a b. R a b \<Longrightarrow> R b a"
  shows "sorted_wrt R (insort_key f x xs) \<longleftrightarrow> (\<forall>y \<in> set xs. R x y) \<and> sorted_wrt R xs"
  using assms by (induction xs) (auto simp: set_insort_key)

lemma sorted_wrt_sort_key_sym:
  assumes "\<And>a b. R a b \<Longrightarrow> R b a"
  shows "sorted_wrt R (sort_key f xs) \<longleftrightarrow> sorted_wrt R xs"
  by (induction xs) (auto simp: sorted_wrt_insort_sym [of R, OF assms])

lemma apart_sym: "apart a b \<Longrightarrow> apart b a"
  by (auto simp: apart_def)

lemma apart_sorted_before:
  assumes "list_all bytes_claim xs" and "sorted_wrt apart xs"
    and "sorted (map (\<lambda>c. rg_Start (claimRange c)) xs)"
  shows "sorted_wrt before xs"
  using assms
proof (induction xs)
  case (Cons a xs)
  have "before a b" if "b \<in> set xs" for b
  proof -
    from that Cons.prems have b: "bytes_claim b" and ap: "apart a b"
      and le: "rg_Start (claimRange a) \<le> rg_Start (claimRange b)"
      by (auto simp: list_all_iff)
    from le have "lo (claimRange a) \<le> lo (claimRange b)" by (simp add: lo_def word_le_nat_alt)
    moreover have "lo (claimRange b) < hi (claimRange b)" using b by (rule valid_bytes_lo_hi)
    ultimately show ?thesis using ap by (auto simp: apart_def before_def)
  qed
  with Cons show ?case by simp
qed simp

lemma table_ok_sort:
  assumes "list_all bytes_claim xs" and "sorted_wrt apart xs"
  shows "table_ok (sort_key (\<lambda>c. rg_Start (claimRange c)) xs)"
  unfolding table_ok_def
proof (intro conjI apart_sorted_before)
  show "list_all bytes_claim (sort_key (\<lambda>c. rg_Start (claimRange c)) xs)"
    using assms(1) by (simp add: list_all_iff)
  then show "list_all bytes_claim (sort_key (\<lambda>c. rg_Start (claimRange c)) xs)" .
  show "sorted_wrt apart (sort_key (\<lambda>c. rg_Start (claimRange c)) xs)"
    using assms(2) by (simp add: sorted_wrt_sort_key_sym [of apart, OF apart_sym])
  show "sorted (map (\<lambda>c. rg_Start (claimRange c)) (sort_key (\<lambda>c. rg_Start (claimRange c)) xs))"
    by (rule sorted_sort_key)
qed

lemma before_imp_apart: "sorted_wrt before xs \<Longrightarrow> sorted_wrt apart xs"
  by (rule sorted_wrt_mono_rel) (auto simp: apart_def)

section \<open>Coalescing\<close>

definition joined :: "rangeClaim \<Rightarrow> rangeClaim \<Rightarrow> rangeClaim" where
  "joined p c = setRange (rg_Start (claimRange p)) (rg_Length (claimRange p) + rg_Length (claimRange c)) p"

lemma joined_bounds:
  assumes "bytes_claim p" and "bytes_claim c" and "mergeable p c"
  shows "bytes_claim (joined p c)" and "lo (claimRange (joined p c)) = lo (claimRange p)"
    and "hi (claimRange (joined p c)) = hi (claimRange c)" and "hi (claimRange p) = lo (claimRange c)"
    and "claimMode c = claimMode p" and "claimPolicy c = claimPolicy p"
proof -
  let ?p = "claimRange p" and ?c = "claimRange c"
  let ?l = "fst (byteLast (rg_Start ?p) (rg_Length ?p))"
  from assms(3) have m: "?l \<noteq> MaxUint64" "?l + 1 = rg_Start ?c"
    "claimMode p = claimMode c" "claimPolicy p = claimPolicy c"
    "rg_Length ?c \<le> MaxUint64 - rg_Length ?p"
    by (auto simp: mergeable_def Let_def)
  show "claimMode c = claimMode p" "claimPolicy c = claimPolicy p" using m by auto
  have l: "unat ?l = hi ?p - 1" "0 < hi ?p"
    using valid_bytes_last [OF assms(1)] valid_bytes_lo_hi [OF assms(1)] by auto
  have "unat ?l \<noteq> 2 ^ 64 - 1" using m(1) unat_MaxUint64 by (metis word_unat_eq_iff)
  moreover have "unat ?l < 2 ^ 64" by (rule unat_u64_lt)
  ultimately have "unat (?l + 1) = hi ?p"
    using l by (subst unat_plus_if') auto
  then show hp: "hi ?p = lo ?c" using m(2) by (simp add: lo_def)
  have fits: "unat (rg_Length ?c) + unat (rg_Length ?p) < 2 ^ 64"
    using m(5) unat_u64_lt [of "rg_Length ?p"] by (simp add: word_le_nat_alt unat_MaxUint64_minus)
  then have len: "unat (rg_Length ?p + rg_Length ?c) = unat (rg_Length ?p) + unat (rg_Length ?c)"
    by (subst unat_plus_if') simp
  show "lo (claimRange (joined p c)) = lo ?p" by (simp add: joined_def lo_def)
  show hj: "hi (claimRange (joined p c)) = hi ?c"
    using hp len by (simp add: joined_def hi_def lo_def)
  have "rg_Length ?p + rg_Length ?c \<noteq> 0"
    using len assms(1) by (auto simp: valid_bytes_def unat_eq_0)
  with hj assms show "bytes_claim (joined p c)"
    by (auto simp: valid_bytes_def joined_def)
qed

lemma coalesce_Cons:
  "coalesce (p # acc) (c # rest) =
     (if mergeable p c then coalesce (joined p c # acc) rest else coalesce (c # p # acc) rest)"
  by (simp add: joined_def)

declare coalesce.simps(3) [simp del]

lemma coalesce_ok:
  "table_ok (rev acc @ rest) \<Longrightarrow> table_ok (coalesce acc rest)
   \<and> (\<forall>x m. (\<exists>c \<in> set (coalesce acc rest). covers (claimRange c) x \<and> (claimMode c, claimPolicy c) = m)
        \<longleftrightarrow> (\<exists>c \<in> set (acc @ rest). covers (claimRange c) x \<and> (claimMode c, claimPolicy c) = m))
   \<and> length (coalesce acc rest) \<le> length acc + length rest"
proof (induction acc rest rule: coalesce.induct)
  case (1 acc)
  then show ?case by simp
next
  case (2 c rest)
  then show ?case by simp
next
  case (3 p acc c rest)
  show ?case
  proof (cases "mergeable p c")
    case False
    with 3 show ?thesis by (auto simp: coalesce_Cons)
  next
    case True
    let ?j = "joined p c"
    from 3(3) have pc: "bytes_claim p" "bytes_claim c" by (auto simp: table_ok_def)
    note j = joined_bounds [OF pc True]
    have ok: "table_ok (rev (?j # acc) @ rest)"
      using 3(3) j by (auto simp: table_ok_def sorted_wrt_append before_def)
    have cov: "covers (claimRange ?j) x \<longleftrightarrow> covers (claimRange p) x \<or> covers (claimRange c) x" for x
      using j pc valid_bytes_lo_hi [OF pc(1)] valid_bytes_lo_hi [OF pc(2)] by (auto simp: covers_iff)
    have mode: "claimMode ?j = claimMode p" "claimPolicy ?j = claimPolicy p"
      by (simp_all add: joined_def)
    from 3(1) [OF True] ok have IH: "table_ok (coalesce (?j # acc) rest)
      \<and> (\<forall>x m. (\<exists>c \<in> set (coalesce (?j # acc) rest). covers (claimRange c) x \<and> (claimMode c, claimPolicy c) = m)
        \<longleftrightarrow> (\<exists>c \<in> set ((?j # acc) @ rest). covers (claimRange c) x \<and> (claimMode c, claimPolicy c) = m))
      \<and> length (coalesce (?j # acc) rest) \<le> length (?j # acc) + length rest"
      by (simp add: joined_def)
    with True show ?thesis
      by (auto simp: coalesce_Cons cov mode j(5,6))
  qed
qed

section \<open>The edit as a whole\<close>

lemma cut_all_sorted:
  assumes q: "valid_bytes (cmd_Range q)" and ok: "table_ok old"
  shows "table_ok (concat (map (cutClaim q) old))"
  using ok
proof (induction old)
  case (Cons c old)
  then have c: "bytes_claim c" and old: "table_ok old" and bf: "\<And>d. d \<in> set old \<Longrightarrow> before c d"
    by (auto simp: table_ok_def)
  have "before p p'" if "p \<in> set (cutClaim q c)" "p' \<in> set (concat (map (cutClaim q) old))" for p p'
  proof -
    from that(2) obtain d where d: "d \<in> set old" "p' \<in> set (cutClaim q d)" by auto
    then have "bytes_claim d" using old by (auto simp: table_ok_def list_all_iff)
    with bf [OF d(1)] cutClaim_piece(3) [OF q c that(1)] cutClaim_piece(2) [OF q _ d(2)]
    show ?thesis by (auto simp: before_def)
  qed
  moreover have "table_ok (concat (map (cutClaim q) old))" using Cons.IH old by simp
  ultimately show ?case
    using cutClaim_sorted [OF q c] cutClaim_piece(1) [OF q c]
    by (auto simp: table_ok_def sorted_wrt_append list_all_iff)
qed (simp add: table_ok_def)

lemma cut_all_apart:
  assumes q: "valid_bytes (cmd_Range q)" and ok: "table_ok old"
    and p: "p \<in> set (concat (map (cutClaim q) old))"
  shows "hi (claimRange p) \<le> lo (cmd_Range q) \<or> hi (cmd_Range q) \<le> lo (claimRange p)"
  using p ok cutClaim_piece(4) [OF q] by (auto simp: table_ok_def list_all_iff)

lemma concat_map_single: "(\<And>d. d \<in> set xs \<Longrightarrow> f d = [d]) \<Longrightarrow> concat (map f xs) = xs"
  by (induction xs) auto

lemma cut_all_length:
  assumes q: "valid_bytes (cmd_Range q)" and ok: "table_ok old"
  shows "length (concat (map (cutClaim q) old)) \<le> length old + 1"
  using ok
proof (induction old)
  case (Cons c old)
  then have c: "bytes_claim c" and old: "table_ok old" and bf: "\<And>d. d \<in> set old \<Longrightarrow> before c d"
    by (auto simp: table_ok_def)
  show ?case
  proof (cases "hi (cmd_Range q) < hi (claimRange c)")
    case True
    have "cutClaim q d = [d]" if "d \<in> set old" for d
      using bf [OF that] True old that q
      by (intro cutClaim_disjoint) (auto simp: table_ok_def list_all_iff before_def)
    then have "concat (map (cutClaim q) old) = old" by (rule concat_map_single)
    with length_cutClaim [of q c] show ?thesis by simp
  next
    case False
    then have "length (cutClaim q c) \<le> 1"
      by (simp add: cutClaim_def Let_def last_less_iff [OF q c])
    with Cons.IH old show ?thesis by simp
  qed
qed simp

abbreviation newClaim :: "RangeCommand \<Rightarrow> rangeClaim" where
  "newClaim q \<equiv> \<lparr>rc_id = [], rc_command = settled q\<rparr>"

definition uncoalesced :: "rangeClaim list \<Rightarrow> RangeCommand \<Rightarrow> rangeClaim list" where
  "uncoalesced old q = concat (map (cutClaim q) old) @ (if cmd_Edit q \<noteq> Subtract then [newClaim q] else [])"

lemma replaceRanges_alt:
  "replaceRanges old q = coalesce [] (sort_key (\<lambda>c. rg_Start (claimRange c)) (uncoalesced old q))"
  by (simp add: replaceRanges_def uncoalesced_def Let_def)

lemma uncoalesced_ok:
  assumes "valid_bytes (cmd_Range q)" and "table_ok old"
  shows "list_all bytes_claim (uncoalesced old q) \<and> sorted_wrt apart (uncoalesced old q)"
proof -
  let ?ps = "concat (map (cutClaim q) old)"
  have ps: "table_ok ?ps" using assms by (rule cut_all_sorted)
  have "apart p (newClaim q)" if "p \<in> set ?ps" for p
    using cut_all_apart [OF assms that] by (auto simp: apart_def before_def)
  moreover have "sorted_wrt apart ?ps" using ps by (auto simp: table_ok_def intro: before_imp_apart)
  ultimately show ?thesis
    using ps assms(1) by (auto simp: uncoalesced_def table_ok_def sorted_wrt_append)
qed

lemma uncoalesced_covers:
  assumes q: "valid_bytes (cmd_Range q)" and ok: "table_ok old"
  shows "(\<exists>c \<in> set (uncoalesced old q). covers (claimRange c) x \<and> (claimMode c, claimPolicy c) = m) \<longleftrightarrow>
    (if covers (cmd_Range q) x then cmd_Edit q \<noteq> Subtract \<and> m = (cmd_Mode q, cmd_Policy q)
     else \<exists>c \<in> set old. covers (claimRange c) x \<and> (claimMode c, claimPolicy c) = m)"
proof -
  have "(\<exists>p \<in> set (cutClaim q c). covers (claimRange p) x \<and> (claimMode p, claimPolicy p) = m) \<longleftrightarrow>
      covers (claimRange c) x \<and> \<not> covers (cmd_Range q) x \<and> (claimMode c, claimPolicy c) = m"
    if "c \<in> set old" for c
  proof -
    from that ok have c: "bytes_claim c" by (auto simp: table_ok_def list_all_iff)
    then show ?thesis
      using cutClaim_covers [OF q c, of x] cutClaim_piece(5,6) [OF q c] by fastforce
  qed
  then have "(\<exists>p \<in> set (concat (map (cutClaim q) old)).
        covers (claimRange p) x \<and> (claimMode p, claimPolicy p) = m) \<longleftrightarrow>
      (\<exists>c \<in> set old. covers (claimRange c) x \<and> \<not> covers (cmd_Range q) x \<and> (claimMode c, claimPolicy c) = m)"
    by auto
  then show ?thesis
    by (auto simp: uncoalesced_def)
qed

lemma lock_at_Some:
  assumes "table_ok t"
  shows "lock_at t x = Some m \<longleftrightarrow> (\<exists>c \<in> set t. covers (claimRange c) x \<and> (claimMode c, claimPolicy c) = m)"
  using assms
proof (induction t)
  case (Cons c t)
  have excl: "\<not> covers (claimRange d) x" if "covers (claimRange c) x" "d \<in> set t" for d
  proof -
    from Cons.prems that have "bytes_claim c" "bytes_claim d" "before c d"
      by (auto simp: table_ok_def list_all_iff)
    with that(1) show ?thesis by (auto simp: covers_iff before_def)
  qed
  from Cons have "lock_at t x = Some m \<longleftrightarrow> (\<exists>c \<in> set t. covers (claimRange c) x \<and> (claimMode c, claimPolicy c) = m)"
    by (simp add: table_ok_def)
  with excl show ?case by (auto simp: lock_at_def)
qed (simp add: lock_at_def)

lemma replaceRanges_ok:
  assumes "valid_bytes (cmd_Range q)" and "table_ok old"
  shows "table_ok (replaceRanges old q)"
  using coalesce_ok [of "[]"] table_ok_sort uncoalesced_ok [OF assms]
  by (auto simp: replaceRanges_alt)

lemma replaceRanges_covers:
  assumes "valid_bytes (cmd_Range q)" and "table_ok old"
  shows "(\<exists>c \<in> set (replaceRanges old q). covers (claimRange c) x \<and> (claimMode c, claimPolicy c) = m) \<longleftrightarrow>
    (if covers (cmd_Range q) x then cmd_Edit q \<noteq> Subtract \<and> m = (cmd_Mode q, cmd_Policy q)
     else \<exists>c \<in> set old. covers (claimRange c) x \<and> (claimMode c, claimPolicy c) = m)"
proof -
  let ?s = "sort_key (\<lambda>c. rg_Start (claimRange c)) (uncoalesced old q)"
  have "table_ok ?s" using uncoalesced_ok [OF assms] by (auto intro: table_ok_sort)
  then have "(\<exists>c \<in> set (replaceRanges old q). covers (claimRange c) x \<and> (claimMode c, claimPolicy c) = m) \<longleftrightarrow>
    (\<exists>c \<in> set ?s. covers (claimRange c) x \<and> (claimMode c, claimPolicy c) = m)"
    using coalesce_ok [of "[]" ?s] by (cases m) (simp add: replaceRanges_alt)
  then show ?thesis using uncoalesced_covers [OF assms] by simp
qed

lemma replaceRanges_lock_at:
  assumes "valid_bytes (cmd_Range q)" and "table_ok old"
  shows "lock_at (replaceRanges old q) x =
    (if covers (cmd_Range q) x
     then if cmd_Edit q = Subtract then None else Some (cmd_Mode q, cmd_Policy q)
     else lock_at old x)"
proof -
  note eq = lock_at_Some [OF replaceRanges_ok [OF assms], of x] replaceRanges_covers [OF assms, of x]
    lock_at_Some [OF assms(2), of x]
  show ?thesis
  proof (cases "covers (cmd_Range q) x")
    case True
    show ?thesis
    proof (cases "cmd_Edit q = Subtract")
      case True
      with eq \<open>covers (cmd_Range q) x\<close> have "lock_at (replaceRanges old q) x \<noteq> Some m" for m by simp
      with True \<open>covers (cmd_Range q) x\<close> show ?thesis by (metis not_None_eq)
    next
      case False
      with eq True have "lock_at (replaceRanges old q) x = Some (cmd_Mode q, cmd_Policy q)" by simp
      with False True show ?thesis by simp
    qed
  next
    case False
    with eq have "lock_at (replaceRanges old q) x = Some m \<longleftrightarrow> lock_at old x = Some m" for m by simp
    with False show ?thesis by (metis option.exhaust)
  qed
qed

lemma replaceRanges_length:
  assumes "valid_bytes (cmd_Range q)" and "table_ok old"
  shows "length (replaceRanges old q) \<le> length old + 2"
proof -
  let ?s = "sort_key (\<lambda>c. rg_Start (claimRange c)) (uncoalesced old q)"
  have "table_ok ?s" using uncoalesced_ok [OF assms] by (auto intro: table_ok_sort)
  then have "length (replaceRanges old q) \<le> length (uncoalesced old q)"
    using coalesce_ok [of "[]" ?s] by (simp add: replaceRanges_alt)
  also have "\<dots> \<le> length old + 2"
    using cut_all_length [OF assms] by (simp add: uncoalesced_def)
  finally show ?thesis .
qed

section \<open>Normal form\<close>

lemma mergeable_joined:
  assumes "bytes_claim p" and "bytes_claim c" and "mergeable p c" and "\<not> mergeable b p"
  shows "\<not> mergeable b (joined p c)"
proof
  assume j: "mergeable b (joined p c)"
  let ?p = "claimRange p" and ?c = "claimRange c"
  have "unat (rg_Length (claimRange (joined p c))) = unat (rg_Length ?p) + unat (rg_Length ?c)"
    using joined_bounds(2,3,4) [OF assms(1-3)] by (simp add: lo_def hi_def)
  then have "rg_Length ?p \<le> rg_Length (claimRange (joined p c))"
    by (simp add: word_le_nat_alt)
  with j have "mergeable b p"
    by (auto simp: mergeable_def joined_def Let_def)
  with assms(4) show False by simp
qed

lemma coalesce_normal:
  "table_ok (rev acc @ rest) \<Longrightarrow> successively (\<lambda>a b. \<not> mergeable a b) (rev acc)
   \<Longrightarrow> successively (\<lambda>a b. \<not> mergeable a b) (coalesce acc rest)"
proof (induction acc rest rule: coalesce.induct)
  case (3 p acc c rest)
  from 3(3) have pc: "bytes_claim p" "bytes_claim c" by (auto simp: table_ok_def)
  show ?case
  proof (cases "mergeable p c")
    case False
    with 3 show ?thesis by (simp add: coalesce_Cons successively_append_iff)
  next
    case True
    note j = joined_bounds [OF pc True]
    have "table_ok (rev (joined p c # acc) @ rest)"
      using 3(3) j by (auto simp: table_ok_def sorted_wrt_append before_def)
    moreover have "successively (\<lambda>a b. \<not> mergeable a b) (rev (joined p c # acc))"
      using 3(4) mergeable_joined [OF pc True] by (auto simp: successively_append_iff)
    ultimately show ?thesis
      using 3(1) True by (simp add: coalesce_Cons joined_def)
  qed
qed auto

lemma replaceRanges_normal:
  assumes "valid_bytes (cmd_Range q)" and "table_ok old"
  shows "successively (\<lambda>a b. \<not> mergeable a b) (replaceRanges old q)"
proof -
  have "table_ok (sort_key (\<lambda>c. rg_Start (claimRange c)) (uncoalesced old q))"
    using uncoalesced_ok [OF assms] by (auto intro: table_ok_sort)
  then show ?thesis
    unfolding replaceRanges_alt by (intro coalesce_normal) simp_all
qed

lemma sort_key_unique:
  assumes "mset ys = mset xs" and "sorted (map f ys)" and "distinct (map f xs)"
  shows "sort_key f xs = ys"
proof (rule properties_for_sort_key)
  show "mset ys = mset xs" by fact
  show "sorted (map f ys)" by fact
  fix k assume "k \<in> set ys"
  from assms(1) have st: "set ys = set xs" by (metis set_mset_mset)
  have dys: "distinct (map f ys)" using assms(1,3) by (metis mset_eq_imp_distinct_iff mset_map)
  have single: "filter (\<lambda>x. f k = f x) zs = [k]" if "k \<in> set zs" "distinct (map f zs)" for zs
    using that by (induction zs) (auto simp: filter_empty_conv, (metis image_eqI)+)
  show "filter (\<lambda>x. f k = f x) ys = filter (\<lambda>x. f k = f x) xs"
    using single [of ys] single [of xs] \<open>k \<in> set ys\<close> st dys assms(3) by simp
qed

lemma apart_distinct_starts:
  assumes "list_all bytes_claim xs" and "sorted_wrt apart xs"
  shows "distinct (map (\<lambda>c. rg_Start (claimRange c)) xs)"
  using assms
proof (induction xs)
  case (Cons a xs)
  have "rg_Start (claimRange a) \<noteq> rg_Start (claimRange b)" if "b \<in> set xs" for b
  proof -
    from that Cons.prems have "bytes_claim a" "bytes_claim b" "apart a b" by (auto simp: list_all_iff)
    then show ?thesis using valid_bytes_lo_hi by (fastforce simp: apart_def before_def lo_def)
  qed
  with Cons show ?case by auto
qed simp

section \<open>The interface of a byte table\<close>

locale byte_table =
  fixes at :: "'t \<Rightarrow> u64 \<Rightarrow> 'm option"
    and edit :: "'t \<Rightarrow> 'c \<Rightarrow> 't"
    and extent :: "'c \<Rightarrow> u64 \<Rightarrow> bool"
    and effect :: "'c \<Rightarrow> 'm option"
    and ok :: "'t \<Rightarrow> bool"
    and admissible :: "'c \<Rightarrow> bool"
  assumes at_edit: "ok t \<Longrightarrow> admissible c \<Longrightarrow> at (edit t c) x = (if extent c x then effect c else at t x)"
    and ok_edit: "ok t \<Longrightarrow> admissible c \<Longrightarrow> ok (edit t c)"
begin

lemma ok_edits: "ok t \<Longrightarrow> list_all admissible cs \<Longrightarrow> ok (foldl edit t cs)"
  by (induction cs arbitrary: t) (auto intro: ok_edit)

text \<open>In a batch, the last command over a byte decides it.\<close>

lemma at_edits:
  "ok t \<Longrightarrow> list_all admissible cs \<Longrightarrow>
   at (foldl edit t cs) x = (case find (\<lambda>c. extent c x) (rev cs) of None \<Rightarrow> at t x | Some c \<Rightarrow> effect c)"
proof (induction cs rule: rev_induct)
  case (snoc c cs)
  then have "ok (foldl edit t cs)" by (simp add: ok_edits)
  with snoc show ?case by (simp add: at_edit)
qed simp

text \<open>Tables of two owners stay compatible when an edit's effect is compatible with what
  the other table has on the edited bytes.\<close>

lemma edit_compatible:
  assumes "ok t" and "admissible c"
    and "\<And>x m m'. at t x = Some m \<Longrightarrow> at u x = Some m' \<Longrightarrow> R m m'"
    and "\<And>x m m'. extent c x \<Longrightarrow> effect c = Some m \<Longrightarrow> at u x = Some m' \<Longrightarrow> R m m'"
  shows "at (edit t c) x = Some m \<Longrightarrow> at u x = Some m' \<Longrightarrow> R m m'"
  using assms by (auto simp: at_edit split: if_splits)

end

definition command_effect :: "RangeCommand \<Rightarrow> (RangeMode \<times> RangePolicy) option" where
  "command_effect c = (if cmd_Edit c = Subtract then None else Some (cmd_Mode c, cmd_Policy c))"

interpretation rt: byte_table lock_at replaceRanges "\<lambda>c. covers (cmd_Range c)" command_effect
  table_ok "\<lambda>c. valid_bytes (cmd_Range c)"
  by unfold_locales (auto simp: replaceRanges_lock_at command_effect_def intro: replaceRanges_ok)

section \<open>Properties\<close>

lemma overlaps_sym:
  assumes "Range_Check a = None" and "Range_Check b = None"
  shows "overlaps a b = overlaps b a"
  using Range_Check_kind [OF assms(1)] Range_Check_kind [OF assms(2)]
  by (auto simp: overlaps_def bytesOverlap_def Let_def)

text \<open>A sample table and commands, at the low end of the offset space.\<close>

definition bytes_at :: "u64 \<Rightarrow> u64 \<Rightarrow> Range" where
  "bytes_at start len = \<lparr>rg_Kind = Bytes, rg_Start = start, rg_Length = len, rg_CutAt = 0\<rparr>"

definition boundary_at :: "u64 \<Rightarrow> Range" where
  "boundary_at at = \<lparr>rg_Kind = Boundary, rg_Start = 0, rg_Length = 0, rg_CutAt = at\<rparr>"

definition record_command :: "RangeEdit \<Rightarrow> RangeMode \<Rightarrow> u64 \<Rightarrow> u64 \<Rightarrow> RangeCommand" where
  "record_command edit mode start len =
     \<lparr>cmd_Domain = DomainRecord, cmd_Mode = mode, cmd_Range = bytes_at start len, cmd_Edit = edit,
      cmd_Claim = [], cmd_Wait = False, cmd_Conversion = PreserveBeforeAcquire, cmd_Policy = zeroPolicy\<rparr>"

lemmas sample_defs = bytes_at_def record_command_def

section \<open>Properties\<close>

text \<open>
  C34: on a well-formed table, \<open>replaceRanges\<close> with a valid byte range gives a
  well-formed table in which exactly the bytes of the range carry the command's mode and
  policy (nothing, for a subtraction) and every other byte keeps its lock.
\<close>

theorem replaceRanges_byte_semantics:
  assumes "table_ok old" and "valid_bytes (cmd_Range command)"
  shows "table_ok (replaceRanges old command) \<and>
    lock_at (replaceRanges old command) x =
      (if covers (cmd_Range command) x
       then if cmd_Edit command = Subtract then None else Some (cmd_Mode command, cmd_Policy command)
       else lock_at old x)"
  using assms by (simp add: replaceRanges_ok replaceRanges_lock_at)

definition sample_table :: "rangeClaim list" where
  "sample_table = [newClaim (record_command Replace RangeExclusive 10 10)]"

lemma sample_table_ok: "table_ok sample_table"
  by (simp add: sample_table_def table_ok_def valid_bytes_def hi_def sample_defs)

theorem replaceRanges_byte_semantics_witness:
  "lock_at (replaceRanges sample_table (record_command Subtract RangeExclusive 12 3)) 13 = None
   \<and> lock_at (replaceRanges sample_table (record_command Subtract RangeExclusive 12 3)) 15
      = Some (RangeExclusive, zeroPolicy)"
proof -
  have valid: "valid_bytes (cmd_Range (record_command Subtract RangeExclusive 12 3))"
    by (simp add: valid_bytes_def hi_def sample_defs)
  show ?thesis
    using replaceRanges_byte_semantics [OF sample_table_ok valid, of 13]
      replaceRanges_byte_semantics [OF sample_table_ok valid, of 15]
    by (simp add: covers_def byteLast_def MaxUint64_def sample_table_def lock_at_def sample_defs)
qed

text \<open>
  The result of \<open>replaceRanges\<close> does not depend on how the unstable
  \<open>sort.Slice\<close> orders its input: coalescing any sorted permutation of the cut
  claims gives the same table. That table has at most two fragments more than the old one
  and no two neighbours that could still be merged.
\<close>

lemma replaceRanges_sort_independent:
  assumes "table_ok old" and "valid_bytes (cmd_Range command)"
    and "mset ys = mset (uncoalesced old command)"
    and "sorted (map (\<lambda>c. rg_Start (claimRange c)) ys)"
  shows "coalesce [] ys = replaceRanges old command
    \<and> length (replaceRanges old command) \<le> length old + 2
    \<and> successively (\<lambda>a b. \<not> mergeable a b) (replaceRanges old command)"
proof -
  have "distinct (map (\<lambda>c. rg_Start (claimRange c)) (uncoalesced old command))"
    using uncoalesced_ok [OF assms(2,1)] by (simp add: apart_distinct_starts)
  then have "sort_key (\<lambda>c. rg_Start (claimRange c)) (uncoalesced old command) = ys"
    using assms(3,4) by (intro sort_key_unique)
  then show ?thesis
    using replaceRanges_length [OF assms(2,1)] replaceRanges_normal [OF assms(2,1)]
    by (simp add: replaceRanges_alt)
qed

lemma bytes_overlap_nat:
  assumes "Range_Check a = None" and "Range_Check b = None" and "rg_Kind a = Bytes" and "rg_Kind b = Bytes"
  shows "overlaps a b \<longleftrightarrow> (\<exists>x. unat (rg_Start a) \<le> x \<and> x < unat (rg_Start a) + unat (rg_Length a)
    \<and> unat (rg_Start b) \<le> x \<and> x < unat (rg_Start b) + unat (rg_Length b))"
proof -
  note v = Range_Check_valid_bytes [OF assms(1,3)] Range_Check_valid_bytes [OF assms(2,4)]
  show ?thesis
    using valid_bytes_lo_hi [OF v(1)] valid_bytes_lo_hi [OF v(2)] unfolding overlaps_iff [OF v] lo_def hi_def
    by (auto intro!: exI [of _ "max (unat (rg_Start a)) (unat (rg_Start b))"])
qed

lemma boundary_overlap_nat:
  assumes "rg_Kind a = Boundary" and "rg_Kind b = Bytes" and "Range_Check b = None"
  shows "overlaps a b \<longleftrightarrow> unat (rg_Start b) < unat (rg_CutAt a) \<and> unat (rg_CutAt a) < unat (rg_Start b) + unat (rg_Length b)"
proof -
  have "snd (byteLast (rg_Start b) (rg_Length b))"
    using Range_Check_valid_bytes [OF assms(3,2)] valid_bytes_last by blast
  moreover have "rg_CutAt a - rg_Start b < rg_Length b \<longleftrightarrow> unat (rg_CutAt a) < unat (rg_Start b) + unat (rg_Length b)"
    if "rg_Start b < rg_CutAt a"
    using that by (simp add: word_less_nat_alt unat_sub word_le_nat_alt less_diff_conv2 add.commute)
  ultimately show ?thesis
    using assms by (auto simp: overlaps_def boundaryOverlaps_def word_less_nat_alt split: prod.splits)
qed

text \<open>
  C35: two valid extents overlap exactly as the bytes they stand for do, without wrap-around
  anywhere in the 64 bit space: two byte ranges when some byte is in both, a boundary and a
  byte range when the boundary lies strictly inside the range, two boundaries never, not even
  at the same place. The relation is symmetric.
\<close>

theorem overlaps_exact:
  assumes "Range_Check a = None" and "Range_Check b = None"
  shows "overlaps a b = overlaps b a \<and> (overlaps a b \<longleftrightarrow>
    (if rg_Kind a = Bytes \<and> rg_Kind b = Bytes
     then \<exists>x. unat (rg_Start a) \<le> x \<and> x < unat (rg_Start a) + unat (rg_Length a) \<and> unat (rg_Start b) \<le> x \<and> x < unat (rg_Start b) + unat (rg_Length b)
     else if rg_Kind b = Bytes then unat (rg_Start b) < unat (rg_CutAt a) \<and> unat (rg_CutAt a) < unat (rg_Start b) + unat (rg_Length b)
     else if rg_Kind a = Bytes then unat (rg_Start a) < unat (rg_CutAt b) \<and> unat (rg_CutAt b) < unat (rg_Start a) + unat (rg_Length a)
     else False))"
proof -
  have none: "\<not> overlaps a b" if "rg_Kind a = Boundary" "rg_Kind b = Boundary" using that by (simp add: overlaps_def)
  have swap: "overlaps a b \<longleftrightarrow> unat (rg_Start a) < unat (rg_CutAt b) \<and> unat (rg_CutAt b) < unat (rg_Start a) + unat (rg_Length a)"
    if "rg_Kind a = Bytes" "rg_Kind b = Boundary" using boundary_overlap_nat [of b a] that assms overlaps_sym by simp
  show ?thesis
    using Range_Check_kind [OF assms(1)] Range_Check_kind [OF assms(2)] overlaps_sym [OF assms]
    by (elim disjE) (simp_all only: bytes_overlap_nat none boundary_overlap_nat swap assms simp_thms if_True if_False ExtentKind.distinct)
qed

theorem overlaps_exact_witness:
  "overlaps (bytes_at (MaxUint64 - 1) 2) (bytes_at MaxUint64 1) \<and> overlaps (boundary_at 8) (bytes_at 7 2)
   \<and> \<not> overlaps (boundary_at 7) (bytes_at 7 2) \<and> \<not> overlaps (boundary_at 7) (boundary_at 7)"
proof -
  have ok: "Range_Check (bytes_at (MaxUint64 - 1) 2) = None" "Range_Check (bytes_at MaxUint64 1) = None" "Range_Check (bytes_at 7 2) = None"
    "Range_Check (boundary_at 7) = None" "Range_Check (boundary_at 8) = None"
    by (simp_all add: Range_Check_def bytes_at_def boundary_at_def MaxUint64_def)
  have top: "unat MaxUint64 = 18446744073709551615" "unat (MaxUint64 - 1) = 18446744073709551614"
    using unat_MaxUint64_minus [of 0] unat_MaxUint64_minus [of 1] by simp_all
  have "\<exists>x. unat (MaxUint64 - 1) \<le> x \<and> x < unat (MaxUint64 - 1) + 2 \<and> unat MaxUint64 \<le> x \<and> x < unat MaxUint64 + 1"
    unfolding top by (rule exI [of _ 18446744073709551615]) simp
  with overlaps_exact [OF ok(1,2), THEN conjunct2] overlaps_exact [OF ok(5,3), THEN conjunct2] overlaps_exact [OF ok(4,3), THEN conjunct2] overlaps_exact [OF ok(4,4), THEN conjunct2] show ?thesis
    by (simp add: bytes_at_def boundary_at_def)
qed

text \<open>
  C36: a batch of edits is a byte-level override: after applying the commands in order, the
  last command over a byte decides its lock, and a byte that no command covers keeps the
  lock it had.
\<close>

theorem replaceRanges_batch:
  assumes "table_ok old" and "list_all (\<lambda>c. valid_bytes (cmd_Range c)) commands"
  shows "lock_at (foldl replaceRanges old commands) x =
    (case find (\<lambda>c. covers (cmd_Range c) x) (rev commands) of
       None \<Rightarrow> lock_at old x | Some c \<Rightarrow> command_effect c)"
  using assms by (rule rt.at_edits)

theorem replaceRanges_batch_witness:
  "lock_at (foldl replaceRanges sample_table
      [record_command Replace RangeShared 0 100, record_command Subtract RangeShared 12 3]) 12 = None"
  by (subst replaceRanges_batch [OF sample_table_ok])
    (simp_all add: covers_def byteLast_def MaxUint64_def command_effect_def valid_bytes_def hi_def sample_defs)

end
