(* ===== verification/Advisory.thy ===== *)
theory Advisory
  imports Extents
begin

text \<open>
  The advisory coordinator of one volume, \<^verbatim>\<open>packages/advisory\<close>: sessions, owners,
  byte-range claims, pending requests and their retained receipts.

  Objects that the source links by pointers are addressed by their keys: a request by its
  session and its identity (\<open>actref\<close>), an owner's state by its \<open>ownerKey\<close>.
  A session object outlives its removal from the coordinator's map, because callers keep a
  handle to it; \<open>c_retired\<close> holds those objects.

  Every function whose name ends in \<open>Locked\<close> runs under the coordinator mutex.
  The clock is an argument (\<open>now\<close>): the instant of the critical section. The native
  ordering callback \<open>Order\<close> and the caller's context belong to the callers; their
  answers are arguments of type \<open>order_answer\<close>.

  Where the source would dereference a missing map entry, the model takes a neutral branch;
  the invariant of \<^verbatim>\<open>CoordInv\<close> shows that these branches are never reached.
\<close>

section \<open>Configuration and state\<close>

record Config =
  MaxSessions :: int
  MaxOwners :: int
  MaxRanges :: int
  MaxRequests :: int
  MaxWaiters :: int
  MaxDeadlockEdges :: int
  MaxCommands :: int
  MaxMaterializedBytes :: int
  MaxMaterializations :: int
  MaxFileBytes :: int
  MaxFileAttempts :: int
  FileOperationTimeout :: duration

definition DefaultConfig :: Config where
  "DefaultConfig =
     \<lparr>MaxSessions = 1024, MaxOwners = 32768, MaxRanges = 262144, MaxRequests = 262144,
      MaxWaiters = 8192, MaxDeadlockEdges = 65536, MaxCommands = 64,
      MaxMaterializedBytes = 2 ^ 31, MaxMaterializations = 32, MaxFileBytes = 2 ^ 30,
      MaxFileAttempts = 8, FileOperationTimeout = 30 * 10 ^ 9\<rparr>"

text \<open>\<open>Config.Check\<close>, on a platform with 64 bit slice sizes.\<close>

definition Config_Check :: "Config \<Rightarrow> goerror option" where
  "Config_Check c = first_error
     [fail_if (MaxSessions c \<le> 0 \<or> MaxOwners c \<le> 0 \<or> MaxRanges c \<le> 0 \<or> MaxRequests c \<le> 0
        \<or> MaxWaiters c < 0 \<or> MaxDeadlockEdges c \<le> 0 \<or> MaxCommands c \<le> 0
        \<or> MaxMaterializedBytes c \<le> 0 \<or> MaxMaterializations c \<le> 0 \<or> MaxFileBytes c \<le> 0
        \<or> MaxFileAttempts c \<le> 0 \<or> FileOperationTimeout c \<le> 0) (Errno EINVAL),
      fail_if (MaxFileBytes c > 2 ^ 63 - 1) (Errno EINVAL),
      fail_if (MaxFileBytes c > MaxMaterializedBytes c div 2) (Errno EINVAL)]"

record ownerKey =
  key_session :: u64
  key_owner :: UseOwner
  key_node :: u64
  key_domain :: ConflictDomain

record ownerBinding =
  bind_node :: u64
  bind_scope :: UseScope
  bind_options :: OwnerOptions

record ownerState =
  os_ranges :: "rangeClaim list"
  os_pending :: int

record request =
  rq_key :: ownerKey
  rq_id :: LockRequestID
  rq_epoch :: u64
  rq_commands :: "RangeCommand list"
  rq_result :: RangeAttempt
  rq_expires :: instant
  rq_order :: bool \<comment> \<open>an ordering callback is retained\<close>
  rq_pending :: bool
  rq_prepared :: bool
  rq_converting :: bool
  rq_released :: "bool list"

type_synonym actref = "u64 \<times> LockRequestID"

record Session =
  s_id :: u64
  s_options :: FileSessionOptions
  s_epoch :: u64
  s_epochUntil :: instant
  s_actions :: "(LockRequestID, request) gomap"
  s_bindings :: "(UseOwner, ownerBinding) gomap"
  s_nextOwner :: UseOwner
  s_owners :: int
  s_ranges :: int
  s_pending :: int
  s_retiring :: bool
  s_retired :: bool
  s_retireDone :: bool \<comment> \<open>a retirement is in progress (its channel is open)\<close>
  s_retireErr :: "goerror option"

record useClaim =
  use_node :: u64
  use_claim :: UseClaim

record Coordinator =
  c_config :: Config
  c_nextSession :: u64
  c_sessions :: "(u64, Session) gomap"
  c_retired :: "(u64, Session) gomap"
  c_owners :: "(ownerKey, ownerState) gomap"
  c_waiting :: "actref list"
  c_ranges :: int
  c_requests :: int
  c_registeredOwners :: int
  c_uses :: "(UseScope, useClaim) gomap"
  c_materializedBytes :: int
  c_materializations :: int

section \<open>Access paths\<close>

definition sessionObj :: "Coordinator \<Rightarrow> u64 \<Rightarrow> Session option" where
  "sessionObj c sid =
     (case gget (c_sessions c) sid of Some s \<Rightarrow> Some s | None \<Rightarrow> gget (c_retired c) sid)"

definition updSession :: "u64 \<Rightarrow> (Session \<Rightarrow> Session) \<Rightarrow> Coordinator \<Rightarrow> Coordinator" where
  "updSession sid f c = c\<lparr>c_sessions := gupd sid f (c_sessions c)\<rparr>"

definition getAction :: "Coordinator \<Rightarrow> actref \<Rightarrow> request option" where
  "getAction c ref =
     (case gget (c_sessions c) (fst ref) of None \<Rightarrow> None | Some s \<Rightarrow> gget (s_actions s) (snd ref))"

definition updAction :: "actref \<Rightarrow> (request \<Rightarrow> request) \<Rightarrow> Coordinator \<Rightarrow> Coordinator" where
  "updAction ref f c =
     updSession (fst ref) (\<lambda>s. s\<lparr>s_actions := gupd (snd ref) f (s_actions s)\<rparr>) c"

definition updOwner :: "ownerKey \<Rightarrow> (ownerState \<Rightarrow> ownerState) \<Rightarrow> Coordinator \<Rightarrow> Coordinator" where
  "updOwner key f c = c\<lparr>c_owners := gupd key f (c_owners c)\<rparr>"

definition held :: "Coordinator \<Rightarrow> ownerKey \<Rightarrow> rangeClaim list" where
  "held c key = (case gget (c_owners c) key of None \<Rightarrow> [] | Some st \<Rightarrow> os_ranges st)"

definition keyOf :: "u64 \<Rightarrow> u64 \<Rightarrow> UseOwner \<Rightarrow> ConflictDomain \<Rightarrow> ownerKey" where
  "keyOf sid node owner domain =
     \<lparr>key_session = sid, key_owner = owner, key_node = node, key_domain = domain\<rparr>"

section \<open>Construction\<close>

definition New :: "Config \<Rightarrow> goerror + Coordinator" where
  "New config =
     (case Config_Check config of
        Some e \<Rightarrow> Inl e
      | None \<Rightarrow> Inr \<lparr>c_config = config, c_nextSession = 0, c_sessions = [], c_retired = [],
          c_owners = [], c_waiting = [], c_ranges = 0, c_requests = 0, c_registeredOwners = 0,
          c_uses = [], c_materializedBytes = 0, c_materializations = 0\<rparr>)"

definition NewSession ::
    "instant \<Rightarrow> FileSessionOptions \<Rightarrow> bool \<Rightarrow> Coordinator \<Rightarrow> Coordinator \<times> (goerror + u64)" where
  "NewSession now options hasFence c =
     (case FileSessionOptions_Check options of
        Some e \<Rightarrow> (c, Inl e)
      | None \<Rightarrow>
          if \<not> hasFence then (c, Inl (Errno EINVAL))
          else if int (length (c_sessions c)) \<ge> MaxSessions (c_config c) \<or> c_nextSession c = MaxUint64
          then (c, Inl (Errno ENOLCK))
          else
            let sid = c_nextSession c + 1;
                s = \<lparr>s_id = sid, s_options = options, s_epoch = 1,
                     s_epochUntil = now + fs_History options, s_actions = [], s_bindings = [],
                     s_nextOwner = 0, s_owners = 0, s_ranges = 0, s_pending = 0,
                     s_retiring = False, s_retired = False, s_retireDone = False, s_retireErr = None\<rparr>
            in (c\<lparr>c_nextSession := sid, c_sessions := gput sid s (c_sessions c)\<rparr>, Inr sid))"

section \<open>Owner states and range accounting\<close>

definition ownerLocked :: "ownerKey \<Rightarrow> Coordinator \<Rightarrow> Coordinator" where
  "ownerLocked key c =
     (case gget (c_owners c) key of
        Some _ \<Rightarrow> c
      | None \<Rightarrow> c\<lparr>c_owners := gput key \<lparr>os_ranges = [], os_pending = 0\<rparr> (c_owners c)\<rparr>)"

definition pruneOwnerLocked :: "ownerKey \<Rightarrow> Coordinator \<Rightarrow> Coordinator" where
  "pruneOwnerLocked key c =
     (case gget (c_owners c) key of
        None \<Rightarrow> c
      | Some st \<Rightarrow> if os_ranges st = [] \<and> os_pending st = 0
                  then c\<lparr>c_owners := gdel key (c_owners c)\<rparr> else c)"

definition replacementFitsLocked :: "Coordinator \<Rightarrow> ownerKey \<Rightarrow> nat \<Rightarrow> bool" where
  "replacementFitsLocked c key fragments =
     (case (gget (c_owners c) key, gget (c_sessions c) (key_session key)) of
        (Some st, Some s) \<Rightarrow>
          let delta = int fragments - int (length (os_ranges st))
          in delta \<le> MaxRanges (c_config c) - c_ranges c
             \<and> delta \<le> fs_MaxLockRanges (s_options s) - s_ranges s
      | _ \<Rightarrow> False)"

definition installRangesLocked :: "ownerKey \<Rightarrow> rangeClaim list \<Rightarrow> Coordinator \<Rightarrow> Coordinator" where
  "installRangesLocked key ranges c =
     (let delta = int (length ranges) - int (length (held c key))
      in updSession (key_session key) (\<lambda>s. s\<lparr>s_ranges := s_ranges s + delta\<rparr>)
           ((updOwner key (\<lambda>st. st\<lparr>os_ranges := ranges\<rparr>) c)\<lparr>c_ranges := c_ranges c + delta\<rparr>))"

text \<open>\<open>None\<close> is the error \<open>ENOLCK\<close>.\<close>

definition replaceLocked :: "ownerKey \<Rightarrow> rangeClaim list \<Rightarrow> Coordinator \<Rightarrow> Coordinator option" where
  "replaceLocked key ranges c =
     (if \<not> replacementFitsLocked c key (length ranges) then None
      else Some (installRangesLocked key ranges c))"

definition checkCall :: "goerror option \<Rightarrow> u64 \<Rightarrow> goerror option" where
  "checkCall ctxErr node = first_error [ctxErr, fail_if (node = 0) (Errno EINVAL)]"


section \<open>Conflicts\<close>

definition ownerBefore :: "ownerKey \<Rightarrow> ownerKey \<Rightarrow> bool" where
  "ownerBefore a b =
     (key_session a < key_session b \<or> key_session a = key_session b \<and> key_owner a < key_owner b)"

text \<open>A held claim stands in the way of a command.\<close>

definition blocks :: "rangeClaim \<Rightarrow> RangeCommand \<Rightarrow> bool" where
  "blocks hc command =
     (overlaps (claimRange hc) (cmd_Range command)
      \<and> \<not> (claimMode hc = RangeShared \<and> cmd_Mode command = RangeShared))"

definition rivals :: "ownerKey \<Rightarrow> ownerKey \<Rightarrow> bool" where
  "rivals key other = (other \<noteq> key \<and> key_node other = key_node key \<and> key_domain other = key_domain key)"

definition ownerDiagnostic :: "Coordinator \<Rightarrow> ownerKey \<Rightarrow> OwnerDiagnostic" where
  "ownerDiagnostic c key =
     (case gget (c_sessions c) (key_session key) of
        None \<Rightarrow> 0
      | Some s \<Rightarrow> (case gget (s_bindings s) (key_owner key) of
                    None \<Rightarrow> 0 | Some b \<Rightarrow> oo_Diagnostic (bind_options b)))"

text \<open>The bodies of the inner and of the outer loop of \<open>conflictLocked\<close>; the
  accumulator is the best conflict so far and the owner it was found at.\<close>

definition considerHeld ::
    "Coordinator \<Rightarrow> RangeCommand \<Rightarrow> ownerKey \<Rightarrow> rangeClaim \<Rightarrow>
     RangeConflict \<times> ownerKey \<Rightarrow> RangeConflict \<times> ownerKey" where
  "considerHeld c command other hc acc =
     (let (conflict, selected) = acc
      in if \<not> blocks hc command then acc
         else if cf_Found conflict
                 \<and> (rangeStart (claimRange hc) > rangeStart (cf_Range conflict)
                     \<or> rangeStart (claimRange hc) = rangeStart (cf_Range conflict)
                        \<and> \<not> ownerBefore other selected)
         then acc
         else (\<lparr>cf_Found = True, cf_Owner = ownerDiagnostic c other,
                cf_Range = claimRange hc, cf_Mode = claimMode hc\<rparr>, other))"

definition considerOwner ::
    "Coordinator \<Rightarrow> ownerKey \<Rightarrow> RangeCommand \<Rightarrow> ownerKey \<times> ownerState \<Rightarrow>
     RangeConflict \<times> ownerKey \<Rightarrow> RangeConflict \<times> ownerKey" where
  "considerOwner c key command entry acc =
     (let (other, st) = entry
      in if \<not> rivals key other then acc else fold (considerHeld c command other) (os_ranges st) acc)"

definition conflictLocked :: "Coordinator \<Rightarrow> ownerKey \<Rightarrow> RangeCommand \<Rightarrow> RangeConflict" where
  "conflictLocked c key command =
     fst (fold (considerOwner c key command) (c_owners c) (zeroConflict, keyOf 0 0 0 InvalidDomain))"

section \<open>Drafting an edit\<close>

record editResult =
  ed_ranges :: "rangeClaim list"
  ed_effects :: "RangeEffect list"
  ed_claims :: "ClaimID list"
  ed_releaseRanges :: "rangeClaim list"
  ed_releaseEffects :: "RangeEffect list"
  ed_releaseIndexes :: "nat list"
  ed_acquired :: bool
  ed_conflict :: RangeConflict
  ed_rejected :: RejectionCode
  ed_failedAt :: "nat option"

definition rejectDraft :: "RejectionCode \<Rightarrow> nat \<Rightarrow> editResult \<Rightarrow> editResult" where
  "rejectDraft code index result = result\<lparr>ed_rejected := code, ed_failedAt := Some index\<rparr>"

text \<open>\<open>slices.IndexFunc\<close> for a claim identity, and \<open>slices.Delete\<close> of
  that one element.\<close>

definition claimIndex :: "ClaimID \<Rightarrow> rangeClaim list \<Rightarrow> nat option" where
  "claimIndex claim ranges =
     (case filter (\<lambda>i. rc_id (ranges ! i) = claim) [0..<length ranges] of [] \<Rightarrow> None | i # _ \<Rightarrow> Some i)"

definition deleteAt :: "nat \<Rightarrow> 'a list \<Rightarrow> 'a list" where
  "deleteAt i xs = take i xs @ drop (Suc i) xs"

text \<open>The tail of the loop body: record the effect, check the fragment budget.\<close>

definition recordEffect ::
    "Coordinator \<Rightarrow> ownerKey \<Rightarrow> nat \<Rightarrow> RangeEffect \<Rightarrow> editResult \<Rightarrow> editResult" where
  "recordEffect c key index effect result =
     (let result = result\<lparr>ed_effects := ed_effects result @ [effect]\<rparr>
      in if \<not> replacementFitsLocked c key (length (ed_ranges result))
         then rejectDraft RangeExhausted index result else result)"

definition claimIDOf :: "LockRequestID \<Rightarrow> nat \<Rightarrow> ClaimID" where
  "claimIDOf request index = (case NewClaimID request (int index) of Inl _ \<Rightarrow> [] | Inr claim \<Rightarrow> claim)"

text \<open>One command of the batch. The result is rejected (and the loop returns) exactly
  when \<open>ed_rejected\<close> is set.\<close>

definition draftCommand ::
    "Coordinator \<Rightarrow> ownerKey \<Rightarrow> LockRequestID \<Rightarrow> nat \<Rightarrow> RangeCommand \<Rightarrow> editResult \<Rightarrow> editResult" where
  "draftCommand c key request index command result =
     (let conflict = conflictLocked c key command
      in if (cmd_Edit command = Replace \<or> cmd_Edit command = AddExact) \<and> cf_Found conflict
         then rejectDraft RangeBlocked index (result\<lparr>ed_conflict := conflict\<rparr>)
         else
      (case cmd_Edit command of
         Replace \<Rightarrow>
           recordEffect c key index \<lparr>eff_Claim = [], eff_Command = command, eff_Released = False\<rparr>
             (result\<lparr>ed_ranges := replaceRanges (ed_ranges result) command, ed_acquired := True\<rparr>)
       | Subtract \<Rightarrow>
           let effect = \<lparr>eff_Claim = [], eff_Command = command, eff_Released = True\<rparr>;
               result = result\<lparr>ed_ranges := replaceRanges (ed_ranges result) command\<rparr>;
               next = replaceRanges (ed_releaseRanges result) command
           in if \<not> replacementFitsLocked c key (length next)
              then rejectDraft RangeExhausted index result
              else recordEffect c key index effect
                     (result\<lparr>ed_releaseRanges := next,
                             ed_releaseEffects := ed_releaseEffects result @ [effect],
                             ed_releaseIndexes := ed_releaseIndexes result @ [index]\<rparr>)
       | AddExact \<Rightarrow>
           let claim = claimIDOf request index
           in recordEffect c key index \<lparr>eff_Claim = claim, eff_Command = command, eff_Released = False\<rparr>
                (result\<lparr>ed_ranges := ed_ranges result @ [\<lparr>rc_id = claim, rc_command = settled command\<rparr>],
                        ed_claims := ed_claims result @ [claim], ed_acquired := True\<rparr>)
       | RemoveExact \<Rightarrow>
           (case claimIndex (cmd_Claim command) (ed_ranges result) of
              None \<Rightarrow> rejectDraft RangeNotHeld index result
            | Some found \<Rightarrow>
                let hc = rc_command (ed_ranges result ! found)
                in if cmd_Range hc \<noteq> cmd_Range command \<or> cmd_Mode hc \<noteq> cmd_Mode command
                      \<or> cmd_Policy hc \<noteq> cmd_Policy command
                   then rejectDraft RangeInvalid index result
                   else
                     let effect = \<lparr>eff_Claim = cmd_Claim command, eff_Command = command, eff_Released = True\<rparr>
                     in recordEffect c key index effect
                          (result\<lparr>ed_ranges := deleteAt found (ed_ranges result),
                             ed_releaseRanges :=
                               (case claimIndex (cmd_Claim command) (ed_releaseRanges result) of
                                  None \<Rightarrow> ed_releaseRanges result
                                | Some release \<Rightarrow> deleteAt release (ed_releaseRanges result)),
                             ed_releaseEffects := ed_releaseEffects result @ [effect],
                             ed_releaseIndexes := ed_releaseIndexes result @ [index]\<rparr>))
       | InvalidEdit \<Rightarrow>
           recordEffect c key index \<lparr>eff_Claim = [], eff_Command = command, eff_Released = False\<rparr> result))"

fun draftLoop ::
    "Coordinator \<Rightarrow> ownerKey \<Rightarrow> LockRequestID \<Rightarrow> (RangeCommand \<times> bool) list \<Rightarrow> nat \<Rightarrow> editResult \<Rightarrow> editResult" where
  "draftLoop c key request [] index result = result"
| "draftLoop c key request ((command, released) # rest) index result =
     (if released then draftLoop c key request rest (Suc index) result
      else let result = draftCommand c key request index command result
           in if ed_rejected result \<noteq> NoRejection then result
              else draftLoop c key request rest (Suc index) result)"

definition draftLocked :: "Coordinator \<Rightarrow> request \<Rightarrow> editResult" where
  "draftLocked c action =
     (let live = held c (rq_key action)
      in draftLoop c (rq_key action) (rq_id action) (zip (rq_commands action) (rq_released action)) 0
           \<lparr>ed_ranges = live, ed_effects = [], ed_claims = [], ed_releaseRanges = live,
            ed_releaseEffects = [], ed_releaseIndexes = [], ed_acquired = False,
            ed_conflict = zeroConflict, ed_rejected = NoRejection, ed_failedAt = None\<rparr>)"

section \<open>Completing requests\<close>

text \<open>The end of a wait: the request leaves the queue and its owner's and session's counts.\<close>

definition dequeueLocked :: "actref \<Rightarrow> ownerKey \<Rightarrow> Coordinator \<Rightarrow> Coordinator" where
  "dequeueLocked ref key c =
     pruneOwnerLocked key
       ((updSession (key_session key) (\<lambda>s. s\<lparr>s_pending := s_pending s - 1\<rparr>)
          (updOwner key (\<lambda>st. st\<lparr>os_pending := os_pending st - 1\<rparr>)
             (updAction ref (\<lambda>a. a\<lparr>rq_pending := False\<rparr>) c)))
        \<lparr>c_waiting := remove1 ref (c_waiting c)\<rparr>)"

definition finishAttempt :: "AttemptState \<Rightarrow> RejectionCode \<Rightarrow> RangeAttempt \<Rightarrow> RangeAttempt" where
  "finishAttempt state rejection r =
     (let r = r\<lparr>att_State := state, att_Rejection := rejection\<rparr>
      in if state = Granted then r\<lparr>att_EverGranted := True, att_Conflict := zeroConflict\<rparr> else r)"

definition historyOf :: "Coordinator \<Rightarrow> u64 \<Rightarrow> duration" where
  "historyOf c sid = (case gget (c_sessions c) sid of None \<Rightarrow> 0 | Some s \<Rightarrow> fs_History (s_options s))"

definition completeLocked ::
    "instant \<Rightarrow> actref \<Rightarrow> AttemptState \<Rightarrow> RejectionCode \<Rightarrow> Coordinator \<Rightarrow> Coordinator" where
  "completeLocked now ref state rejection c =
     (case getAction c ref of
        None \<Rightarrow> c
      | Some action \<Rightarrow>
          let c' = updAction ref (\<lambda>a. a\<lparr>rq_result := finishAttempt state rejection (rq_result a),
                     rq_expires := now + historyOf c (key_session (rq_key action)), rq_order := False\<rparr>) c
          in if rq_pending action then dequeueLocked ref (rq_key action) c' else c')"

definition receiptLocked :: "Session \<Rightarrow> request \<Rightarrow> instant \<Rightarrow> RangeAttempt" where
  "receiptLocked s action now =
     (if att_State (rq_result action) = Pending
      then (rq_result action)\<lparr>att_HistoryRemaining := fs_History (s_options s)\<rparr>
      else (rq_result action)\<lparr>att_HistoryRemaining := max 0 (rq_expires action - now)\<rparr>)"


section \<open>Committing a draft\<close>

definition claimRequest :: "RangeEffect \<Rightarrow> LockRequestID option" where
  "claimRequest effect =
     (if \<not> eff_Released effect \<or> eff_Claim effect = [] then None
      else map_option fst (cut_last CHR '':'' (eff_Claim effect)))"

text \<open>One removed request identity: a granted request of this owner with no live claim
  left is released.\<close>

definition reconcileOne ::
    "instant \<Rightarrow> ownerKey \<Rightarrow> ClaimID list \<Rightarrow> LockRequestID \<Rightarrow> Coordinator \<Rightarrow> Coordinator" where
  "reconcileOne now key live request c =
     (case getAction c (key_session key, request) of
        None \<Rightarrow> c
      | Some action \<Rightarrow>
          if rq_key action \<noteq> key \<or> att_State (rq_result action) \<noteq> Granted then c
          else if list_ex (\<lambda>claim. claim \<in> set live) (att_Claims (rq_result action)) then c
          else completeLocked now (key_session key, request) Released NoRejection c)"

definition reconcileRemovedClaimsLocked ::
    "instant \<Rightarrow> ownerKey \<Rightarrow> RangeEffect list \<Rightarrow> Coordinator \<Rightarrow> Coordinator" where
  "reconcileRemovedClaimsLocked now key effects c =
     fold (reconcileOne now key (map rc_id (held c key)))
       (remdups (List.map_filter claimRequest effects)) c"

definition markReleased :: "nat list \<Rightarrow> bool list \<Rightarrow> bool list" where
  "markReleased indexes released = fold (\<lambda>i flags. flags[i := True]) indexes released"

definition commitReleasePrefixLocked ::
    "instant \<Rightarrow> actref \<Rightarrow> ownerKey \<Rightarrow> editResult \<Rightarrow> Coordinator \<Rightarrow> Coordinator" where
  "commitReleasePrefixLocked now ref key edit c =
     (if ed_releaseEffects edit = [] then c
      else reconcileRemovedClaimsLocked now key (ed_releaseEffects edit)
             (updAction ref (\<lambda>a. a\<lparr>rq_result := (rq_result a)\<lparr>att_Effects := att_Effects (rq_result a) @ ed_releaseEffects edit\<rparr>,
                                 rq_released := markReleased (ed_releaseIndexes edit) (rq_released a)\<rparr>)
                (installRangesLocked key (ed_releaseRanges edit) c)))"

definition commitEditLocked ::
    "instant \<Rightarrow> actref \<Rightarrow> ownerKey \<Rightarrow> editResult \<Rightarrow> Coordinator \<Rightarrow> Coordinator" where
  "commitEditLocked now ref key edit c =
     (case replaceLocked key (ed_ranges edit) c of
        None \<Rightarrow> completeLocked now ref Rejected RangeExhausted (commitReleasePrefixLocked now ref key edit c)
      | Some c1 \<Rightarrow>
          reconcileRemovedClaimsLocked now key (ed_effects edit)
            (completeLocked now ref (if ed_acquired edit then Granted else Released) NoRejection
               (updAction ref (\<lambda>a. a\<lparr>rq_result := (rq_result a)
                    \<lparr>att_Effects := att_Effects (rq_result a) @ ed_effects edit, att_Claims := ed_claims edit\<rparr>\<rparr>) c1)))"

section \<open>Deadlock detection\<close>

record deadlockParticipant =
  dp_session :: u64
  dp_identity :: u64
  dp_grouped :: bool

type_synonym wait_edges = "(deadlockParticipant \<times> deadlockParticipant) list"

definition ownerGroup :: "Coordinator \<Rightarrow> ownerKey \<Rightarrow> u64" where
  "ownerGroup c key =
     (case gget (c_sessions c) (key_session key) of
        None \<Rightarrow> 0
      | Some s \<Rightarrow> (case gget (s_bindings s) (key_owner key) of None \<Rightarrow> 0 | Some b \<Rightarrow> oo_Group (bind_options b)))"

definition participant :: "Coordinator \<Rightarrow> ownerKey \<Rightarrow> deadlockParticipant" where
  "participant c key =
     (if ownerGroup c key \<noteq> 0
      then \<lparr>dp_session = key_session key, dp_identity = ownerGroup c key, dp_grouped = True\<rparr>
      else \<lparr>dp_session = key_session key, dp_identity = key_owner key, dp_grouped = False\<rparr>)"

definition contends :: "RangeCommand list \<Rightarrow> rangeClaim list \<Rightarrow> bool" where
  "contends commands ranges =
     list_ex (\<lambda>command. list_ex (\<lambda>lock. overlaps (claimRange lock) (cmd_Range command)
         \<and> (claimMode lock = RangeExclusive \<or> cmd_Mode command = RangeExclusive)) ranges) commands"

text \<open>The closure \<open>add\<close> over the owners of the volume; \<open>None\<close> when the
  edge budget is spent.\<close>

fun addOwnerEdges ::
    "Coordinator \<Rightarrow> request \<Rightarrow> (ownerKey \<times> ownerState) list \<Rightarrow> wait_edges \<Rightarrow> wait_edges option" where
  "addOwnerEdges c r [] edges = Some edges"
| "addOwnerEdges c r ((key, st) # rest) edges =
     (if key = rq_key r \<or> key_node key \<noteq> key_node (rq_key r) \<or> key_domain key \<noteq> DomainRecord
      then addOwnerEdges c r rest edges
      else if contends (rq_commands r) (os_ranges st)
      then if int (length edges) = MaxDeadlockEdges (c_config c) then None
           else addOwnerEdges c r rest (edges @ [(participant c (rq_key r), participant c key)])
      else addOwnerEdges c r rest edges)"

definition addEdges :: "Coordinator \<Rightarrow> request \<Rightarrow> wait_edges \<Rightarrow> wait_edges option" where
  "addEdges c r edges =
     (if key_domain (rq_key r) \<noteq> DomainRecord then Some edges else addOwnerEdges c r (c_owners c) edges)"

fun addAllEdges :: "Coordinator \<Rightarrow> request list \<Rightarrow> wait_edges \<Rightarrow> wait_edges option" where
  "addAllEdges c [] edges = Some edges"
| "addAllEdges c (r # rs) edges =
     (case addEdges c r edges of None \<Rightarrow> None | Some edges' \<Rightarrow> addAllEdges c rs edges')"

definition successors :: "wait_edges \<Rightarrow> deadlockParticipant \<Rightarrow> deadlockParticipant list" where
  "successors edges from = map snd (filter (\<lambda>e. fst e = from) edges)"

text \<open>The search loop; the head of the list is the top of the stack.\<close>

function deadlockSearch ::
    "wait_edges \<Rightarrow> deadlockParticipant \<Rightarrow> deadlockParticipant list \<Rightarrow> deadlockParticipant list \<Rightarrow> bool" where
  "deadlockSearch edges target seen [] = False"
| "deadlockSearch edges target seen (current # stack) =
     (if current = target then True
      else if current \<in> set seen then deadlockSearch edges target seen stack
      else deadlockSearch edges target (current # seen) (rev (successors edges current) @ stack))"
  by pat_completeness auto
termination
proof (relation "inv_image (finite_psubset <*lex*> less_than)
    (\<lambda>(edges, target, seen, stack). (fst ` set edges - set seen, length stack))")
  fix edges target current and seen stack :: "deadlockParticipant list"
  assume "current \<notin> set seen"
  show "((edges, target, current # seen, rev (successors edges current) @ stack), edges, target, seen, current # stack)
    \<in> inv_image (finite_psubset <*lex*> less_than)
        (\<lambda>(edges, target, seen, stack). (fst ` set edges - set seen, length stack))"
  proof (cases "current \<in> fst ` set edges")
    case True
    with \<open>current \<notin> set seen\<close> show ?thesis by (auto simp: finite_psubset_def)
  next
    case False
    then have "successors edges current = []"
      by (force simp: successors_def filter_empty_conv)
    moreover from False have "fst ` set edges - set (current # seen) = fst ` set edges - set seen"
      by auto
    ultimately show ?thesis by simp
  qed
qed (auto simp: wf_finite_psubset)

definition waitingRequests :: "Coordinator \<Rightarrow> request list" where
  "waitingRequests c = List.map_filter (getAction c) (c_waiting c)"

text \<open>First component: a deadlock was found; second: the graph was within its bound.\<close>

definition deadlockLocked :: "Coordinator \<Rightarrow> request \<Rightarrow> bool \<times> bool" where
  "deadlockLocked c candidate =
     (case addAllEdges c (waitingRequests c @ [candidate]) [] of
        None \<Rightarrow> (False, False)
      | Some edges \<Rightarrow>
          (let p = participant c (rq_key candidate)
           in (deadlockSearch edges p [] (rev (successors edges p)), True)))"

section \<open>Starting a request\<close>

definition rejectStart ::
    "instant \<Rightarrow> actref \<Rightarrow> editResult \<Rightarrow> RejectionCode \<Rightarrow> Coordinator \<Rightarrow> Coordinator" where
  "rejectStart now ref edit code c =
     completeLocked now ref Rejected code
       (updAction ref (\<lambda>a. a\<lparr>rq_result := (rq_result a)\<lparr>att_FailedAt := ed_failedAt edit\<rparr>\<rparr>) c)"

definition enqueueLocked :: "actref \<Rightarrow> ownerKey \<Rightarrow> Coordinator \<Rightarrow> Coordinator" where
  "enqueueLocked ref key c =
     (updSession (key_session key) (\<lambda>s. s\<lparr>s_pending := s_pending s + 1\<rparr>)
        (updOwner key (\<lambda>st. st\<lparr>os_pending := os_pending st + 1\<rparr>)
           (updAction ref (\<lambda>a. a\<lparr>rq_pending := True\<rparr>) c)))
     \<lparr>c_waiting := c_waiting c @ [ref]\<rparr>"

definition waitersExhausted :: "Coordinator \<Rightarrow> u64 \<Rightarrow> bool" where
  "waitersExhausted c sid =
     (case gget (c_sessions c) sid of
        None \<Rightarrow> True
      | Some s \<Rightarrow> int (length (c_waiting c)) \<ge> MaxWaiters (c_config c)
          \<or> s_pending s \<ge> fs_MaxPendingLocks (s_options s) \<or> s_pending s \<ge> fs_MaxWaiters (s_options s))"

text \<open>The part of \<open>startLocked\<close> after a draft was rejected.\<close>

definition startRejected ::
    "instant \<Rightarrow> actref \<Rightarrow> request \<Rightarrow> editResult \<Rightarrow> Coordinator \<Rightarrow> Coordinator" where
  "startRejected now ref action edit c =
     (let key = rq_key action;
          c = updAction ref (\<lambda>a. a\<lparr>rq_result := (rq_result a)\<lparr>att_Conflict := ed_conflict edit\<rparr>\<rparr>)
                (commitReleasePrefixLocked now ref key edit c)
      in if ed_rejected edit \<noteq> RangeBlocked \<or> \<not> cmd_Wait (hd (rq_commands action))
         then rejectStart now ref edit (ed_rejected edit) c
         else if waitersExhausted c (key_session key) then rejectStart now ref edit RangeExhausted c
         else if key_domain key = DomainRecord
                 \<and> (fst (deadlockLocked c action) \<or> \<not> snd (deadlockLocked c action))
         then rejectStart now ref edit
                (if fst (deadlockLocked c action) then RangeDeadlock else RangeExhausted) c
         else enqueueLocked ref key c)"

text \<open>A conversion that first drops the owner's ranges.\<close>

definition dropForConversion :: "actref \<Rightarrow> ownerKey \<Rightarrow> Coordinator \<Rightarrow> Coordinator" where
  "dropForConversion ref key c =
     (let dropped = map (\<lambda>hc. \<lparr>eff_Claim = rc_id hc, eff_Command = rc_command hc, eff_Released = True\<rparr>) (held c key);
          c1 = updAction ref (\<lambda>a. a\<lparr>rq_result := (rq_result a)\<lparr>att_Effects := att_Effects (rq_result a) @ dropped\<rparr>\<rparr>) c;
          c2 = (case replaceLocked key [] c1 of None \<Rightarrow> c1 | Some c' \<Rightarrow> c')
      in updAction ref (\<lambda>a. a\<lparr>rq_prepared := True, rq_converting := True\<rparr>) c2)"

definition startBody :: "instant \<Rightarrow> actref \<Rightarrow> request \<Rightarrow> Coordinator \<Rightarrow> Coordinator" where
  "startBody now ref action c =
     (let key = rq_key action;
          ranges = held c key;
          first = hd (rq_commands action);
          dropping = (\<not> rq_prepared action \<and> cmd_Conversion first = DropBeforeAcquire
                      \<and> ranges \<noteq> [] \<and> claimMode (hd ranges) \<noteq> cmd_Mode first);
          projectedEffects = length (att_Effects (rq_result action))
             + length (filter Not (rq_released action)) + (if dropping then length ranges else 0);
          projectedClaims = length (filter (\<lambda>command. cmd_Edit command = AddExact) (rq_commands action))
      in if projectedEffects > MaxRangeEffects \<or> projectedClaims > MaxRangeClaims
         then completeLocked now ref Rejected RangeTooLarge c
         else if dropping then dropForConversion ref key c
         else
           let edit = draftLocked c action
           in if ed_rejected edit = NoRejection then commitEditLocked now ref key edit c
              else startRejected now ref action edit c)"

definition startLocked :: "instant \<Rightarrow> actref \<Rightarrow> Coordinator \<Rightarrow> Coordinator" where
  "startLocked now ref c =
     (case getAction c ref of
        None \<Rightarrow> c
      | Some action \<Rightarrow>
          pruneOwnerLocked (rq_key action)
            (startBody now ref action (ownerLocked (rq_key action) c)))"


section \<open>Sessions: activity, epochs and history\<close>

definition activeLocked :: "Session \<Rightarrow> goerror option" where
  "activeLocked s = first_error
     [fail_if (s_retired s) (Errno ESTALE), fail_if (s_retiring s) (Errno EIO)]"

definition active :: "Coordinator \<Rightarrow> u64 \<Rightarrow> goerror option" where
  "active c sid = (case sessionObj c sid of None \<Rightarrow> Some (Errno ESTALE) | Some s \<Rightarrow> activeLocked s)"

definition expiredAction :: "instant \<Rightarrow> Session \<Rightarrow> request \<Rightarrow> bool" where
  "expiredAction now s a =
     ((rq_epoch a < s_epoch s \<or> \<not> now < s_epochUntil s)
      \<and> att_State (rq_result a) \<noteq> Pending \<and> \<not> now < rq_expires a)"

definition pruneHistoryLocked :: "instant \<Rightarrow> u64 \<Rightarrow> Coordinator \<Rightarrow> Coordinator" where
  "pruneHistoryLocked now sid c =
     (case gget (c_sessions c) sid of
        None \<Rightarrow> c
      | Some s \<Rightarrow>
          let kept = filter (\<lambda>(_, a). \<not> expiredAction now s a) (s_actions s)
          in (updSession sid (\<lambda>s. s\<lparr>s_actions := kept\<rparr>) c)
               \<lparr>c_requests := c_requests c - (int (length (s_actions s)) - int (length kept))\<rparr>)"

definition nextEpoch :: "instant \<Rightarrow> Session \<Rightarrow> Session" where
  "nextEpoch now s = s\<lparr>s_epoch := s_epoch s + 1, s_epochUntil := now + fs_History (s_options s)\<rparr>"

definition advanceLocked :: "instant \<Rightarrow> u64 \<Rightarrow> Coordinator \<Rightarrow> Coordinator \<times> goerror option" where
  "advanceLocked now sid c =
     (case sessionObj c sid of
        None \<Rightarrow> (c, Some (Errno ESTALE))
      | Some s \<Rightarrow>
          if \<not> now < s_epochUntil s
          then if s_epoch s = MaxUint64 then (c, Some (Errno EOVERFLOW))
               else (pruneHistoryLocked now sid
                       (c\<lparr>c_sessions := gupd sid (nextEpoch now) (c_sessions c),
                          c_retired := gupd sid (nextEpoch now) (c_retired c)\<rparr>), None)
          else (pruneHistoryLocked now sid c, None))"

definition History ::
    "instant \<Rightarrow> goerror option \<Rightarrow> u64 \<Rightarrow> Coordinator \<Rightarrow> Coordinator \<times> (goerror + u64 \<times> duration)" where
  "History now ctxErr sid c =
     (case first_error [ctxErr, active c sid] of
        Some e \<Rightarrow> (c, Inl e)
      | None \<Rightarrow>
          (case advanceLocked now sid c of
             (c', Some e) \<Rightarrow> (c', Inl e)
           | (c', None) \<Rightarrow>
               (c', case sessionObj c' sid of None \<Rightarrow> Inl (Errno ESTALE)
                    | Some s \<Rightarrow> Inr (s_epoch s, s_epochUntil s - now))))"

text \<open>The caller's \<open>admit\<close> callback decides on the epoch it is given.\<close>

definition WithCloseAdmission ::
    "instant \<Rightarrow> goerror option \<Rightarrow> (u64 \<Rightarrow> goerror option) option \<Rightarrow> u64 \<Rightarrow> Coordinator \<Rightarrow> Coordinator \<times> goerror option" where
  "WithCloseAdmission now ctxErr admit sid c =
     (case admit of
        None \<Rightarrow> (c, Some (Errno EINVAL))
      | Some decide \<Rightarrow>
          (case ctxErr of
             Some e \<Rightarrow> (c, Some e)
           | None \<Rightarrow>
               (case advanceLocked now sid c of
                  (c', Some e) \<Rightarrow> (c', Some e)
                | (c', None) \<Rightarrow>
                    (c', case sessionObj c' sid of None \<Rightarrow> Some (Errno ESTALE) | Some s \<Rightarrow> decide (s_epoch s)))))"

definition IOHealth :: "goerror option \<Rightarrow> u64 \<Rightarrow> u64 \<Rightarrow> Coordinator \<Rightarrow> goerror option" where
  "IOHealth ctxErr node sid c = first_error [checkCall ctxErr node, active c sid]"

section \<open>Owners\<close>

definition NewOwner ::
    "(string \<Rightarrow> bool) \<Rightarrow> goerror option \<Rightarrow> u64 \<Rightarrow> u64 \<Rightarrow> UseScope \<Rightarrow> OwnerOptions \<Rightarrow> Coordinator
     \<Rightarrow> Coordinator \<times> (goerror + UseOwner)" where
  "NewOwner validUTF8 ctxErr sid node scope options c =
     (case first_error [checkCall ctxErr node, UseScope_Check validUTF8 scope,
          fail_if (oo_Lifetime options \<noteq> OwnerReference \<and> oo_Lifetime options \<noteq> OwnerExplicit) (Errno EINVAL),
          active c sid] of
        Some e \<Rightarrow> (c, Inl e)
      | None \<Rightarrow>
          (case gget (c_sessions c) sid of
             None \<Rightarrow> (c, Inl (Errno ESTALE))
           | Some s \<Rightarrow>
               if c_registeredOwners c + int (length (c_uses c)) \<ge> MaxOwners (c_config c)
                  \<or> int (length (s_bindings s)) \<ge> fs_MaxLockOwners (s_options s) \<or> s_nextOwner s = MaxUint64
               then (c, Inl (Errno ENOLCK))
               else
                 let owner = s_nextOwner s + 1;
                     binding = \<lparr>bind_node = node, bind_scope = scope, bind_options = options\<rparr>
                 in ((updSession sid (\<lambda>s. s\<lparr>s_nextOwner := owner,
                          s_bindings := gput owner binding (s_bindings s), s_owners := s_owners s + 1\<rparr>) c)
                       \<lparr>c_registeredOwners := c_registeredOwners c + 1\<rparr>, Inr owner)))"

definition bindingOf :: "Coordinator \<Rightarrow> u64 \<Rightarrow> UseOwner \<Rightarrow> ownerBinding option" where
  "bindingOf c sid owner = (case sessionObj c sid of None \<Rightarrow> None | Some s \<Rightarrow> gget (s_bindings s) owner)"

definition OwnerNode :: "goerror option \<Rightarrow> u64 \<Rightarrow> UseOwner \<Rightarrow> Coordinator \<Rightarrow> goerror + u64" where
  "OwnerNode ctxErr sid owner c =
     (case first_error [ctxErr, active c sid] of
        Some e \<Rightarrow> Inl e
      | None \<Rightarrow> (case bindingOf c sid owner of None \<Rightarrow> Inl (Errno ESTALE) | Some b \<Rightarrow> Inr (bind_node b)))"

definition OwnerScope :: "goerror option \<Rightarrow> u64 \<Rightarrow> UseOwner \<Rightarrow> Coordinator \<Rightarrow> goerror + UseScope" where
  "OwnerScope ctxErr sid owner c =
     (case first_error [ctxErr, active c sid] of
        Some e \<Rightarrow> Inl e
      | None \<Rightarrow> (case bindingOf c sid owner of None \<Rightarrow> Inl (Errno ESTALE) | Some b \<Rightarrow> Inr (bind_scope b)))"

definition checkOwnerLocked :: "Coordinator \<Rightarrow> u64 \<Rightarrow> u64 \<Rightarrow> UseOwner \<Rightarrow> goerror option" where
  "checkOwnerLocked c sid node owner =
     (case bindingOf c sid owner of
        None \<Rightarrow> Some (Errno ESTALE)
      | Some b \<Rightarrow> fail_if (bind_node b \<noteq> node) (Errno EINVAL))"

section \<open>Waiting requests\<close>

text \<open>The answer of the native ordering callback: it refuses, or it runs the transition.\<close>

datatype order_answer = OrderPass | OrderFail goerror

text \<open>The transition that \<open>advance\<close> runs under the native gate.\<close>

definition advanceSection :: "instant \<Rightarrow> actref \<Rightarrow> Coordinator \<Rightarrow> Coordinator \<times> goerror option" where
  "advanceSection now ref c =
     (case getAction c ref of
        None \<Rightarrow> (c, None)
      | Some action \<Rightarrow>
          if att_State (rq_result action) \<noteq> Pending then (c, None)
          else
            (case first_error [active c (fst ref),
                checkOwnerLocked c (fst ref) (key_node (rq_key action)) (key_owner (rq_key action))] of
               Some e \<Rightarrow> (c, Some e)
             | None \<Rightarrow>
                 if rq_converting action
                 then (startLocked now ref (updAction ref (\<lambda>a. a\<lparr>rq_converting := False\<rparr>) c), None)
                 else
                   let edit = draftLocked c action
                   in if ed_rejected edit = RangeBlocked
                      then (updAction ref (\<lambda>a. a\<lparr>rq_result := (rq_result a)\<lparr>att_Conflict := ed_conflict edit\<rparr>\<rparr>) c, None)
                      else if ed_rejected edit \<noteq> NoRejection
                      then (completeLocked now ref Rejected (ed_rejected edit) c, None)
                      else (commitEditLocked now ref (rq_key action) edit c, None)))"

definition advance :: "instant \<Rightarrow> actref \<Rightarrow> order_answer \<Rightarrow> Coordinator \<Rightarrow> Coordinator \<times> goerror option" where
  "advance now ref answer c =
     (case (gget (c_sessions c) (fst ref), getAction c ref) of
        (Some s, Some action) \<Rightarrow>
          if s_retiring s \<or> att_State (rq_result action) \<noteq> Pending \<or> \<not> rq_order action then (c, None)
          else (case answer of OrderFail e \<Rightarrow> (c, Some e) | OrderPass \<Rightarrow> advanceSection now ref c)
      | _ \<Rightarrow> (c, None))"

definition readyLocked :: "Coordinator \<Rightarrow> actref \<Rightarrow> bool" where
  "readyLocked c ref =
     (case (gget (c_sessions c) (fst ref), getAction c ref) of
        (Some s, Some action) \<Rightarrow>
          \<not> s_retiring s
          \<and> list_all (\<lambda>command. (cmd_Edit command = Replace \<or> cmd_Edit command = AddExact)
                 \<longrightarrow> \<not> cf_Found (conflictLocked c (rq_key action) command)) (rq_commands action)
      | _ \<Rightarrow> False)"

text \<open>What the environment answers for a candidate in a pass: the context has ended, or the
  native ordering callback is reached.\<close>

datatype pump_answer = CtxStopped | Ordered order_answer

fun pumpCandidates ::
    "instant \<Rightarrow> (actref \<Rightarrow> pump_answer) \<Rightarrow> actref list \<Rightarrow> Coordinator \<Rightarrow> Coordinator \<times> bool" where
  "pumpCandidates now env [] c = (c, False)"
| "pumpCandidates now env (ref # rest) c =
     (case env ref of
        CtxStopped \<Rightarrow> (c, True)
      | Ordered answer \<Rightarrow> pumpCandidates now env rest (fst (advance now ref answer c)))"

text \<open>The first argument is the number of passes that the loop bound still allows.\<close>

fun pumpPasses ::
    "nat \<Rightarrow> instant \<Rightarrow> (nat \<Rightarrow> actref \<Rightarrow> pump_answer) \<Rightarrow> nat \<Rightarrow> Coordinator \<Rightarrow> Coordinator" where
  "pumpPasses 0 now env pass c = c"
| "pumpPasses (Suc left) now env pass c =
     (let candidates = filter (readyLocked c) (c_waiting c)
      in if candidates = [] then c
         else (case pumpCandidates now (env pass) candidates c of
             (c', stopped) \<Rightarrow>
               if stopped then c'
               else if length (c_waiting c') \<ge> length (c_waiting c) then c'
               else pumpPasses left now env (Suc pass) c'))"

definition pump :: "instant \<Rightarrow> (nat \<Rightarrow> actref \<Rightarrow> pump_answer) \<Rightarrow> Coordinator \<Rightarrow> Coordinator" where
  "pump now env c = pumpPasses (Suc (length (c_waiting c))) now env 0 c"

section \<open>Dropping and retiring\<close>

definition dropAction :: "instant \<Rightarrow> ownerKey \<Rightarrow> LockRequestID \<Rightarrow> Coordinator \<Rightarrow> Coordinator" where
  "dropAction now key request c =
     (case getAction c (key_session key, request) of
        None \<Rightarrow> c
      | Some action \<Rightarrow>
          if rq_key action \<noteq> key then c
          else (case att_State (rq_result action) of
              Pending \<Rightarrow> completeLocked now (key_session key, request) Cancelled NoRejection c
            | Granted \<Rightarrow> completeLocked now (key_session key, request) Released NoRejection c
            | _ \<Rightarrow> c))"

definition actionIDs :: "Coordinator \<Rightarrow> u64 \<Rightarrow> LockRequestID list" where
  "actionIDs c sid = (case gget (c_sessions c) sid of None \<Rightarrow> [] | Some s \<Rightarrow> map fst (s_actions s))"

definition dropLocked :: "instant \<Rightarrow> ownerKey \<Rightarrow> Coordinator \<Rightarrow> Coordinator" where
  "dropLocked now key c =
     (let c1 = (case gget (c_owners c) key of
                  None \<Rightarrow> c
                | Some _ \<Rightarrow> (case replaceLocked key [] c of None \<Rightarrow> c | Some c' \<Rightarrow> c'))
      in pruneOwnerLocked key (fold (dropAction now key) (actionIDs c1 (key_session key)) c1))"

definition Drop ::
    "instant \<Rightarrow> (nat \<Rightarrow> actref \<Rightarrow> pump_answer) \<Rightarrow> goerror option \<Rightarrow> u64 \<Rightarrow> u64 \<Rightarrow> UseOwner \<Rightarrow> ConflictDomain
     \<Rightarrow> Coordinator \<Rightarrow> Coordinator \<times> goerror option" where
  "Drop now env ctxErr sid node owner domain c =
     (case first_error [checkCall ctxErr node, fail_if (domain = InvalidDomain) (Errno EINVAL),
          active c sid, checkOwnerLocked c sid node owner] of
        Some e \<Rightarrow> (c, Some e)
      | None \<Rightarrow> (pump now env (dropLocked now (keyOf sid node owner domain) c), None))"

text \<open>The critical section of \<open>RetireOwner\<close>.\<close>

definition retireOwnerSection :: "instant \<Rightarrow> u64 \<Rightarrow> UseOwner \<Rightarrow> Coordinator \<Rightarrow> Coordinator" where
  "retireOwnerSection now sid owner c =
     (case bindingOf c sid owner of
        None \<Rightarrow> c
      | Some b \<Rightarrow>
          let c1 = fold (\<lambda>domain. dropLocked now (keyOf sid (bind_node b) owner domain))
                     [DomainRecord, DomainWholeFile, DomainEnforced] c
          in (updSession sid (\<lambda>s. s\<lparr>s_bindings := gdel owner (s_bindings s), s_owners := s_owners s - 1\<rparr>) c1)
               \<lparr>c_registeredOwners := c_registeredOwners c1 - 1\<rparr>)"

definition RetireOwner ::
    "instant \<Rightarrow> (nat \<Rightarrow> actref \<Rightarrow> pump_answer) \<Rightarrow> goerror option \<Rightarrow> u64 \<Rightarrow> UseOwner \<Rightarrow> Coordinator
     \<Rightarrow> Coordinator \<times> goerror option" where
  "RetireOwner now env ctxErr sid owner c =
     (case ctxErr of
        Some e \<Rightarrow> (c, Some e)
      | None \<Rightarrow>
          (case sessionObj c sid of
             None \<Rightarrow> (c, Some (Errno EINVAL))
           | Some s \<Rightarrow>
               if owner = 0 \<or> owner > s_nextOwner s then (c, Some (Errno EINVAL))
               else (pump now env (retireOwnerSection now sid owner c), None)))"

text \<open>\<open>Retire\<close> has two critical sections around the caller's fence. The first decides
  whether this call runs the fence.\<close>

datatype retire_start = AlreadyRetired | JoinRetirement | RetireRefused goerror | RunFence

definition retireBegin :: "goerror option \<Rightarrow> u64 \<Rightarrow> Coordinator \<Rightarrow> Coordinator \<times> retire_start" where
  "retireBegin ctxErr sid c =
     (case gget (c_sessions c) sid of
        None \<Rightarrow> (c, AlreadyRetired)
      | Some s \<Rightarrow>
          if s_retired s then (c, AlreadyRetired)
          else if s_retireDone s then (c, JoinRetirement)
          else (case ctxErr of
              Some e \<Rightarrow> (c, RetireRefused e)
            | None \<Rightarrow> (updSession sid (\<lambda>s. s\<lparr>s_retiring := True, s_retireDone := True\<rparr>) c, RunFence)))"

text \<open>The second section, with the fence's result.\<close>

definition retireFinish :: "goerror option \<Rightarrow> u64 \<Rightarrow> Coordinator \<Rightarrow> Coordinator" where
  "retireFinish fenceErr sid c =
     (case gget (c_sessions c) sid of
        None \<Rightarrow> c
      | Some s \<Rightarrow>
          (case fenceErr of
             Some e \<Rightarrow> updSession sid (\<lambda>s. s\<lparr>s_retireErr := Some e, s_retireDone := False\<rparr>) c
           | None \<Rightarrow>
               c\<lparr>c_ranges := c_ranges c
                    - gsum (\<lambda>key st. if key_session key = sid then int (length (os_ranges st)) else 0) (c_owners c),
                 c_owners := filter (\<lambda>(key, _). key_session key \<noteq> sid) (c_owners c),
                 c_waiting := filter (\<lambda>ref. fst ref \<noteq> sid) (c_waiting c),
                 c_requests := c_requests c - int (length (s_actions s)),
                 c_registeredOwners := c_registeredOwners c - int (length (s_bindings s)),
                 c_sessions := gdel sid (c_sessions c),
                 c_retired := gput sid
                   (s\<lparr>s_actions := [], s_bindings := [], s_owners := 0, s_ranges := 0, s_pending := 0,
                      s_retired := True, s_retireErr := None, s_retireDone := False\<rparr>) (c_retired c)\<rparr>))"

text \<open>A call that finds a retirement in progress waits for it: either its channel is closed,
  in a later state of the coordinator, or the caller's context ends first.\<close>

datatype retire_wake = DoneClosed Coordinator | ContextEnded goerror

definition Retire ::
    "instant \<Rightarrow> (nat \<Rightarrow> actref \<Rightarrow> pump_answer) \<Rightarrow> goerror option \<Rightarrow> goerror option \<Rightarrow> retire_wake
     \<Rightarrow> u64 \<Rightarrow> Coordinator \<Rightarrow> Coordinator \<times> goerror option" where
  "Retire now env ctxErr fenceErr wake sid c =
     (case retireBegin ctxErr sid c of
        (c1, RunFence) \<Rightarrow>
          let c2 = retireFinish fenceErr sid c1
          in (if fenceErr = None then pump now env c2 else c2, fenceErr)
      | (c1, RetireRefused e) \<Rightarrow> (c1, Some e)
      | (c1, JoinRetirement) \<Rightarrow>
          (case wake of
             ContextEnded e \<Rightarrow> (c1, Some e)
           | DoneClosed later \<Rightarrow>
               (later, case sessionObj later sid of None \<Rightarrow> None | Some s \<Rightarrow> s_retireErr s))
      | (c1, AlreadyRetired) \<Rightarrow> (c1, None))"

section \<open>Range actions\<close>

definition Session_Epoch ::
    "instant \<Rightarrow> goerror option \<Rightarrow> u64 \<Rightarrow> Coordinator \<Rightarrow> Coordinator \<times> (goerror + u64)" where
  "Session_Epoch now ctxErr sid c =
     (case History now ctxErr sid c of (c', r) \<Rightarrow> (c', map_sum id fst r))"

text \<open>\<open>CloseEpoch\<close> admits every epoch and reports the one it was given.\<close>

definition CloseEpoch ::
    "instant \<Rightarrow> goerror option \<Rightarrow> u64 \<Rightarrow> Coordinator \<Rightarrow> Coordinator \<times> (goerror + u64)" where
  "CloseEpoch now ctxErr sid c =
     (case WithCloseAdmission now ctxErr (Some (\<lambda>_. None)) sid c of
        (c', Some e) \<Rightarrow> (c', Inl e)
      | (c', None) \<Rightarrow>
          (c', case sessionObj c' sid of None \<Rightarrow> Inl (Errno ESTALE) | Some s \<Rightarrow> Inr (s_epoch s)))"

text \<open>The ordering callback is \<open>None\<close> where the source receives nil.\<close>

definition GetConflict ::
    "goerror option \<Rightarrow> u64 \<Rightarrow> u64 \<Rightarrow> UseOwner \<Rightarrow> RangeCommand \<Rightarrow> order_answer option \<Rightarrow> Coordinator
     \<Rightarrow> goerror + RangeConflict" where
  "GetConflict ctxErr sid node owner command order c =
     (case first_error [checkCall ctxErr node, RangeCommand_Check command,
          fail_if (order = None \<or> cmd_Edit command = Subtract \<or> cmd_Edit command = RemoveExact) (Errno EINVAL)] of
        Some e \<Rightarrow> Inl e
      | None \<Rightarrow>
          (case order of
             Some (OrderFail e) \<Rightarrow> Inl e
           | _ \<Rightarrow>
               (case first_error [active c sid, checkOwnerLocked c sid node owner] of
                  Some e \<Rightarrow> Inl e
                | None \<Rightarrow> Inr (conflictLocked c (keyOf sid node owner (cmd_Domain command)) command))))"

definition checkCommand :: "RangeCommand list \<Rightarrow> RangeCommand \<Rightarrow> goerror option" where
  "checkCommand commands command = first_error
     [RangeCommand_Check command,
      fail_if (cmd_Domain command \<noteq> cmd_Domain (hd commands) \<or> cmd_Wait command \<noteq> cmd_Wait (hd commands)) (Errno EINVAL),
      fail_if (cmd_Conversion command = DropBeforeAcquire \<and> length commands \<noteq> 1) (Errno EINVAL),
      fail_if (cmd_Domain command \<noteq> DomainEnforced \<and> rg_Kind (cmd_Range command) \<noteq> Bytes) (Errno EINVAL)]"

definition checkCommands :: "Config \<Rightarrow> RangeCommand list \<Rightarrow> goerror option" where
  "checkCommands config commands = first_error
     (fail_if (commands = [] \<or> int (length commands) > MaxCommands config \<or> length commands > MaxRangeCommands) (Errno EINVAL)
      # map (checkCommand commands) commands)"

definition newRequest :: "ownerKey \<Rightarrow> LockRequestID \<Rightarrow> u64 \<Rightarrow> RangeCommand list \<Rightarrow> request" where
  "newRequest key request epoch commands =
     \<lparr>rq_key = key, rq_id = request, rq_epoch = epoch, rq_commands = commands,
      rq_result = \<lparr>att_Request = request, att_State = Pending, att_Commands = commands, att_Claims = [],
        att_Conflict = zeroConflict, att_Rejection = NoRejection, att_FailedAt = None, att_Effects = [],
        att_EverGranted = False, att_HistoryRemaining = 0\<rparr>,
      rq_expires = 0, rq_order = True, rq_pending = False, rq_prepared = False, rq_converting = False,
      rq_released = replicate (length commands) False\<rparr>"

text \<open>When the volume's request budget is spent, every session drops expired receipts.\<close>

definition pruneAllHistory :: "instant \<Rightarrow> Coordinator \<Rightarrow> Coordinator" where
  "pruneAllHistory now c = fold (pruneHistoryLocked now) (map fst (c_sessions c)) c"

definition makeRoom :: "instant \<Rightarrow> Coordinator \<Rightarrow> Coordinator" where
  "makeRoom now c = (if c_requests c \<ge> MaxRequests (c_config c) then pruneAllHistory now c else c)"

definition registerAction :: "instant \<Rightarrow> u64 \<Rightarrow> request \<Rightarrow> Coordinator \<Rightarrow> Coordinator" where
  "registerAction now sid action c =
     startLocked now (sid, rq_id action)
       ((updSession sid (\<lambda>s. s\<lparr>s_actions := gput (rq_id action) action (s_actions s)\<rparr>) c)
          \<lparr>c_requests := c_requests c + 1\<rparr>)"

definition actionReceipt :: "instant \<Rightarrow> actref \<Rightarrow> Coordinator \<Rightarrow> goerror + RangeAttempt" where
  "actionReceipt now ref c =
     (case (sessionObj c (fst ref), getAction c ref) of
        (Some s, Some action) \<Rightarrow> Inr (receiptLocked s action now)
      | _ \<Rightarrow> Inl (Errno ESTALE))"

text \<open>The transition that \<open>Apply\<close> runs under the native gate.\<close>

definition applySection ::
    "instant \<Rightarrow> u64 \<Rightarrow> u64 \<Rightarrow> UseOwner \<Rightarrow> RangeCommand list \<Rightarrow> LockRequestID \<Rightarrow> u64 \<Rightarrow> Coordinator
     \<Rightarrow> Coordinator \<times> (goerror + RangeAttempt)" where
  "applySection now sid node owner commands request epoch c0 =
     (case first_error [active c0 sid, checkOwnerLocked c0 sid node owner] of
        Some e \<Rightarrow> (c0, Inl e)
      | None \<Rightarrow>
     (case advanceLocked now sid c0 of
        (c, Some e) \<Rightarrow> (c, Inl e)
      | (c, None) \<Rightarrow>
     (let key = keyOf sid node owner (cmd_Domain (hd commands))
      in case (gget (c_sessions c) sid, getAction c (sid, request)) of
        (None, _) \<Rightarrow> (c, Inl (Errno ESTALE))
      | (Some s, Some old) \<Rightarrow>
          if rq_key old \<noteq> key \<or> rq_commands old \<noteq> commands then (c, Inl (Errno EINVAL))
          else (c, Inr (receiptLocked s old now))
      | (Some s, None) \<Rightarrow>
          if epoch \<noteq> s_epoch s then (c, Inl (Errno ESTALE))
          else
            let c1 = makeRoom now c
            in if int (length (actionIDs c1 sid)) \<ge> fs_MaxLockActions (s_options s)
                  \<or> c_requests c1 \<ge> MaxRequests (c_config c1)
               then (c1, Inl (Errno ENOLCK))
               else let c2 = registerAction now sid (newRequest key request epoch commands) c1
                    in (c2, actionReceipt now (sid, request) c2))))"

text \<open>\<open>Apply\<close>: the transition, the wakeups it causes, a last attempt for this request
  and its receipt. The first result is the receipt, \<open>None\<close> for the zero receipt; the
  source returns the transition's receipt together with an error of the last attempt.
  \<open>order\<close> answers the transition, \<open>retry\<close> the last attempt.\<close>

definition Apply ::
    "instant \<Rightarrow> (nat \<Rightarrow> actref \<Rightarrow> pump_answer) \<Rightarrow> goerror option \<Rightarrow> u64 \<Rightarrow> u64 \<Rightarrow> UseOwner \<Rightarrow> RangeCommand list
     \<Rightarrow> LockRequestID \<Rightarrow> order_answer option \<Rightarrow> order_answer \<Rightarrow> Coordinator
     \<Rightarrow> Coordinator \<times> RangeAttempt option \<times> goerror option" where
  "Apply now env ctxErr sid node owner commands request order retry c =
     (case (first_error [checkCall ctxErr node, checkCommands (c_config c) commands], Epoch request, order) of
        (Some e, _, _) \<Rightarrow> (c, None, Some e)
      | (None, Inl e, _) \<Rightarrow> (c, None, Some e)
      | (None, Inr _, None) \<Rightarrow> (c, None, Some (Errno EINVAL))
      | (None, Inr _, Some (OrderFail e)) \<Rightarrow> (c, None, Some e)
      | (None, Inr epoch, Some OrderPass) \<Rightarrow>
          (case applySection now sid node owner commands request epoch c of
             (c1, Inl e) \<Rightarrow> (c1, None, Some e)
           | (c1, Inr receipt) \<Rightarrow>
               (case advance now (sid, request) retry (pump now env c1) of
                  (c2, Some e) \<Rightarrow> (c2, Some receipt, Some e)
                | (c2, None) \<Rightarrow>
                    (case active c2 sid of
                       Some e \<Rightarrow> (c2, None, Some e)
                     | None \<Rightarrow>
                         (case actionReceipt now (sid, request) c2 of
                            Inl e \<Rightarrow> (c2, None, Some e)
                          | Inr latest \<Rightarrow> (c2, Some latest, None))))))"

section \<open>Reconciling a request\<close>

definition requestLocked ::
    "instant \<Rightarrow> u64 \<Rightarrow> UseOwner \<Rightarrow> LockRequestID \<Rightarrow> Coordinator \<Rightarrow> Coordinator \<times> (goerror + request)" where
  "requestLocked now sid owner request c =
     (case Epoch request of
        Inl e \<Rightarrow> (c, Inl e)
      | Inr _ \<Rightarrow>
          (case active c sid of
             Some e \<Rightarrow> (c, Inl e)
           | None \<Rightarrow>
               (case advanceLocked now sid c of
                  (c', Some e) \<Rightarrow> (c', Inl e)
                | (c', None) \<Rightarrow>
                    (c', case getAction c' (sid, request) of
                           None \<Rightarrow> Inl (Errno ESTALE)
                         | Some action \<Rightarrow>
                             if key_owner (rq_key action) \<noteq> owner then Inl (Errno EINVAL) else Inr action))))"

definition findLocked ::
    "instant \<Rightarrow> u64 \<Rightarrow> u64 \<Rightarrow> UseOwner \<Rightarrow> LockRequestID \<Rightarrow> Coordinator \<Rightarrow> Coordinator \<times> (goerror + request)" where
  "findLocked now sid node owner request c =
     (case requestLocked now sid owner request c of
        (c', Inl e) \<Rightarrow> (c', Inl e)
      | (c', Inr action) \<Rightarrow>
          (c', if key_node (rq_key action) \<noteq> node then Inl (Errno EINVAL) else Inr action))"

definition RequestNode ::
    "instant \<Rightarrow> goerror option \<Rightarrow> u64 \<Rightarrow> UseOwner \<Rightarrow> LockRequestID \<Rightarrow> Coordinator \<Rightarrow> Coordinator \<times> (goerror + u64)" where
  "RequestNode now ctxErr sid owner request c =
     (case ctxErr of
        Some e \<Rightarrow> (c, Inl e)
      | None \<Rightarrow> (case requestLocked now sid owner request c of
                   (c', r) \<Rightarrow> (c', map_sum id (\<lambda>action. key_node (rq_key action)) r)))"

definition Query ::
    "instant \<Rightarrow> goerror option \<Rightarrow> u64 \<Rightarrow> u64 \<Rightarrow> UseOwner \<Rightarrow> LockRequestID \<Rightarrow> order_answer \<Rightarrow> Coordinator
     \<Rightarrow> Coordinator \<times> (goerror + RangeAttempt)" where
  "Query now ctxErr sid node owner request order c =
     (case checkCall ctxErr node of
        Some e \<Rightarrow> (c, Inl e)
      | None \<Rightarrow>
          (case findLocked now sid node owner request c of
             (c1, Inl e) \<Rightarrow> (c1, Inl e)
           | (c1, Inr _) \<Rightarrow>
               (case advance now (sid, request) order c1 of
                  (c2, Some e) \<Rightarrow> (c2, Inl e)
                | (c2, None) \<Rightarrow>
                    (c2, case active c2 sid of
                           Some e \<Rightarrow> Inl e
                         | None \<Rightarrow> actionReceipt now (sid, request) c2))))"

text \<open>The critical section of \<open>Cancel\<close>.\<close>

definition cancelSection ::
    "instant \<Rightarrow> u64 \<Rightarrow> u64 \<Rightarrow> UseOwner \<Rightarrow> LockRequestID \<Rightarrow> Coordinator \<Rightarrow> Coordinator \<times> (goerror + RangeAttempt)" where
  "cancelSection now sid node owner request c =
     (case findLocked now sid node owner request c of
        (c1, Inl e) \<Rightarrow> (c1, Inl e)
      | (c1, Inr action) \<Rightarrow>
          let c2 = (if att_State (rq_result action) = Pending
                    then completeLocked now (sid, request) Cancelled NoRejection c1 else c1)
          in (c2, actionReceipt now (sid, request) c2))"

definition Cancel ::
    "instant \<Rightarrow> (nat \<Rightarrow> actref \<Rightarrow> pump_answer) \<Rightarrow> goerror option \<Rightarrow> u64 \<Rightarrow> u64 \<Rightarrow> UseOwner \<Rightarrow> LockRequestID \<Rightarrow> Coordinator
     \<Rightarrow> Coordinator \<times> (goerror + RangeAttempt)" where
  "Cancel now env ctxErr sid node owner request c =
     (case checkCall ctxErr node of
        Some e \<Rightarrow> (c, Inl e)
      | None \<Rightarrow>
          (case cancelSection now sid node owner request c of
             (c1, Inl e) \<Rightarrow> (c1, Inl e)
           | (c1, Inr receipt) \<Rightarrow> (pump now env c1, Inr receipt)))"

end
