(* ===== verification/Samples.thy ===== *)
theory Samples
  imports UseClaims
begin

text \<open>
  Concrete coordinators, each the result of running the modelled operations from
  \<open>New\<close>. The witnesses of the properties evaluate the model on them.
\<close>

definition sampleOwner :: OwnerOptions where
  "sampleOwner = \<lparr>oo_Lifetime = OwnerExplicit, oo_Group = 0, oo_Diagnostic = 5\<rparr>"

text \<open>Two sessions, each with one owner on node 7.\<close>

definition sampleInit :: Coordinator where
  "sampleInit =
     (case New DefaultConfig of
        Inr c \<Rightarrow>
          let c = fst (NewSession 0 DefaultFileSessionOptions True c);
              c = fst (NewSession 0 DefaultFileSessionOptions True c);
              c = fst (NewOwner (\<lambda>_. True) None 1 7 ''ref'' sampleOwner c)
          in fst (NewOwner (\<lambda>_. True) None 2 7 ''ref'' sampleOwner c))"

definition sampleKey :: "u64 \<Rightarrow> ownerKey" where
  "sampleKey sid = keyOf sid 7 1 DomainRecord"

definition lockBytes :: "u64 \<Rightarrow> u64 \<Rightarrow> bool \<Rightarrow> RangeCommand" where
  "lockBytes start len wait = (record_command Replace RangeExclusive start len)\<lparr>cmd_Wait := wait\<rparr>"

definition firstRequest :: LockRequestID where
  "firstRequest = ''1:00000000000000000000000000000001''"

definition secondRequest :: LockRequestID where
  "secondRequest = ''1:00000000000000000000000000000002''"

text \<open>Session 1 holds the first ten bytes; then session 2 waits for bytes 5 to 14.\<close>

definition sampleHeld :: Coordinator where
  "sampleHeld = fst (applySection 0 1 7 1 [lockBytes 0 10 False] firstRequest 1 sampleInit)"

definition sampleWaiting :: Coordinator where
  "sampleWaiting = fst (applySection 0 2 7 1 [lockBytes 5 10 True] secondRequest 1 sampleHeld)"

end
