(* ===== verification/Conflicts.thy ===== *)
theory Conflicts
  imports Samples
begin

text \<open>
  The conflict search of \<^verbatim>\<open>packages/advisory/ranges.go\<close>. \<open>conflictLocked\<close>
  walks a Go map, so its loop sees the owners in any order; the lemmas say that it finds a
  conflict exactly when some rival owner holds a blocking claim, and that the conflict it
  reports is the first one by range start and owner, whatever the order of the walk.
\<close>

section \<open>The claims of the rivals\<close>

text \<open>Every claim the search looks at, in the order of the walk, and the order in which it
  prefers them.\<close>

definition rivalClaims :: "Coordinator \<Rightarrow> ownerKey \<Rightarrow> (ownerKey \<times> rangeClaim) list" where
  "rivalClaims c key =
     concat (map (\<lambda>(other, st). if rivals key other then map (Pair other) (os_ranges st) else []) (c_owners c))"

definition earlier :: "ownerKey \<times> rangeClaim \<Rightarrow> ownerKey \<times> rangeClaim \<Rightarrow> bool" where
  "earlier x y =
     (rangeStart (claimRange (snd x)) < rangeStart (claimRange (snd y))
      \<or> rangeStart (claimRange (snd x)) = rangeStart (claimRange (snd y)) \<and> ownerBefore (fst x) (fst y))"

definition reported :: "Coordinator \<Rightarrow> ownerKey \<times> rangeClaim \<Rightarrow> RangeConflict" where
  "reported c x = \<lparr>cf_Found = True, cf_Owner = ownerDiagnostic c (fst x),
     cf_Range = claimRange (snd x), cf_Mode = claimMode (snd x)\<rparr>"

lemma conflict_flat:
  "fold (considerOwner c key command) entries acc =
   fold (\<lambda>x. considerHeld c command (fst x) (snd x))
     (concat (map (\<lambda>(other, st). if rivals key other then map (Pair other) (os_ranges st) else []) entries)) acc"
  by (induction entries arbitrary: acc)
    (auto simp: considerOwner_def fold_map comp_def split: prod.splits)

lemma earlier_asym: "earlier x y \<Longrightarrow> \<not> earlier y x"
  by (auto simp: earlier_def ownerBefore_def)

lemma earlier_irrefl [simp]: "\<not> earlier x x"
  by (simp add: earlier_def ownerBefore_def)

lemma earlier_weak: "earlier x z \<Longrightarrow> earlier x y \<or> earlier y z"
  by (auto simp: earlier_def ownerBefore_def)

definition first_blocker ::
    "RangeCommand \<Rightarrow> (ownerKey \<times> rangeClaim) list \<Rightarrow> ownerKey \<times> rangeClaim \<Rightarrow> bool" where
  "first_blocker command L x \<longleftrightarrow>
     (\<exists>pre post. L = pre @ x # post \<and> blocks (snd x) command
        \<and> (\<forall>y\<in>set pre. blocks (snd y) command \<longrightarrow> earlier x y)
        \<and> (\<forall>y\<in>set post. blocks (snd y) command \<longrightarrow> \<not> earlier y x))"

lemma first_blocker_snoc_keep:
  assumes "first_blocker command L x" and "\<not> (blocks (snd y) command \<and> earlier y x)"
  shows "first_blocker command (L @ [y]) x"
  using assms unfolding first_blocker_def by fastforce

lemma first_blocker_least:
  assumes "first_blocker command L x" and "z \<in> set L" and "blocks (snd z) command"
  shows "\<not> earlier z x"
  using assms earlier_asym [of x z] unfolding first_blocker_def by auto

lemma first_blocker_snoc_new:
  assumes "first_blocker command L x" and "blocks (snd y) command" and "earlier y x"
  shows "first_blocker command (L @ [y]) y"
proof -
  have "earlier y z" if "z \<in> set L" "blocks (snd z) command" for z
    using first_blocker_least [OF assms(1) that] assms(3) earlier_weak [of y x z] by blast
  with assms(2) show ?thesis
    unfolding first_blocker_def by (intro exI [of _ L] exI [of _ "[]"]) simp
qed

lemma considerHeld_first:
  "considerHeld c command (fst y) (snd y) (zeroConflict, sel) =
   (if blocks (snd y) command then (reported c y, fst y) else (zeroConflict, sel))"
  by (simp add: considerHeld_def zeroConflict_def reported_def)

lemma considerHeld_next:
  "considerHeld c command (fst y) (snd y) (reported c x, fst x) =
   (if blocks (snd y) command \<and> earlier y x then (reported c y, fst y) else (reported c x, fst x))"
  by (auto simp: considerHeld_def reported_def earlier_def)

lemma fold_considerHeld:
  "(let r = fold (\<lambda>x. considerHeld c command (fst x) (snd x)) L (zeroConflict, sel)
    in (\<forall>x\<in>set L. \<not> blocks (snd x) command) \<and> r = (zeroConflict, sel)
       \<or> (\<exists>x. first_blocker command L x \<and> r = (reported c x, fst x)))"
proof (induction L rule: rev_induct)
  case Nil
  then show ?case by simp
next
  case (snoc y L)
  let ?r = "fold (\<lambda>x. considerHeld c command (fst x) (snd x)) L (zeroConflict, sel)"
  show ?case
  proof (cases "\<forall>x\<in>set L. \<not> blocks (snd x) command")
    case True
    then have "?r = (zeroConflict, sel)"
      using snoc unfolding Let_def first_blocker_def by auto
    moreover have "blocks (snd y) command \<Longrightarrow> first_blocker command (L @ [y]) y"
      unfolding first_blocker_def using True by (intro exI [of _ L] exI [of _ "[]"]) auto
    ultimately show ?thesis
      using True by (cases "blocks (snd y) command") (auto simp: Let_def considerHeld_first simp del: split_paired_Ex)
  next
    case False
    then obtain x where x: "first_blocker command L x" "?r = (reported c x, fst x)"
      using snoc unfolding Let_def by auto
    show ?thesis
    proof (cases "blocks (snd y) command \<and> earlier y x")
      case True
      then have "first_blocker command (L @ [y]) y"
        using x(1) first_blocker_snoc_new by blast
      with True x(2) show ?thesis by (auto simp: Let_def considerHeld_next simp del: split_paired_Ex)
    next
      case False
      then have "first_blocker command (L @ [y]) x"
        using x(1) first_blocker_snoc_keep by blast
      with False x(2) show ?thesis by (auto simp: Let_def considerHeld_next simp del: split_paired_Ex)
    qed
  qed
qed

lemma conflictLocked_cases:
  "(\<forall>x\<in>set (rivalClaims c key). \<not> blocks (snd x) command) \<and> conflictLocked c key command = zeroConflict
   \<or> (\<exists>x. first_blocker command (rivalClaims c key) x \<and> conflictLocked c key command = reported c x)"
proof -
  have "conflictLocked c key command =
      fst (fold (\<lambda>x. considerHeld c command (fst x) (snd x)) (rivalClaims c key)
        (zeroConflict, keyOf 0 0 0 InvalidDomain))"
    by (simp only: conflictLocked_def conflict_flat rivalClaims_def)
  then show ?thesis
    using fold_considerHeld [of c command "rivalClaims c key" "keyOf 0 0 0 InvalidDomain"]
    unfolding Let_def by (elim disjE exE conjE) (simp_all del: split_paired_Ex, blast)
qed

lemma rivalClaims_set:
  assumes "distinct_keys (c_owners c)"
  shows "x \<in> set (rivalClaims c key) \<longleftrightarrow> rivals key (fst x) \<and> snd x \<in> set (held c (fst x))"
proof -
  have "x \<in> set (rivalClaims c key) \<longleftrightarrow>
      (\<exists>st. (fst x, st) \<in> set (c_owners c) \<and> rivals key (fst x) \<and> snd x \<in> set (os_ranges st))"
    by (cases x) (force simp: rivalClaims_def split: if_splits)
  then show ?thesis
    using assms by (auto simp: held_def in_set_gget split: option.splits)
qed

lemma conflict_found_iff:
  assumes "distinct_keys (c_owners c)"
  shows "cf_Found (conflictLocked c key command) \<longleftrightarrow>
    (\<exists>other hc. rivals key other \<and> hc \<in> set (held c other) \<and> blocks hc command)"
proof -
  have "cf_Found (conflictLocked c key command) \<longleftrightarrow>
      (\<exists>x\<in>set (rivalClaims c key). blocks (snd x) command)"
    using conflictLocked_cases [of c key command]
    by (auto simp: zeroConflict_def reported_def first_blocker_def)
  then show ?thesis using rivalClaims_set [OF assms] by fastforce
qed


lemma rival_incomparable:
  assumes "rivals key (fst x)" and "rivals key (fst y)" and "\<not> earlier x y" and "\<not> earlier y x"
  shows "fst x = fst y" and "rangeStart (claimRange (snd x)) = rangeStart (claimRange (snd y))"
  using assms by (auto simp: rivals_def earlier_def ownerBefore_def intro!: ownerKey.equality)

text \<open>The claims of one owner in the flattened list.\<close>

lemma filter_rivalClaims:
  assumes "distinct_keys (c_owners c)" and "rivals key other"
  shows "filter (\<lambda>x. fst x = other) (rivalClaims c key) = map (Pair other) (held c other)"
proof -
  have "distinct_keys m \<Longrightarrow>
      filter (\<lambda>x. fst x = other)
        (concat (map (\<lambda>(o', st). if rivals key o' then map (Pair o') (os_ranges st) else []) m)) =
      map (Pair other) (case gget m other of None \<Rightarrow> [] | Some st \<Rightarrow> os_ranges st)" for m
  proof (induction m)
    case (Cons kv m)
    obtain k st where kv: "kv = (k, st)" by (cases kv)
    show ?case
    proof (cases "k = other")
      case True
      with Cons.prems kv have "gget m other = None" by (auto simp: gget_eq_None)
      with Cons True kv assms(2) show ?thesis by (simp add: gget_Cons filter_map comp_def)
    next
      case False
      with Cons kv show ?thesis by (simp add: gget_Cons filter_map comp_def)
    qed
  qed simp
  from this [OF assms(1)] show ?thesis by (simp add: rivalClaims_def held_def)
qed

lemma first_blocker_unique:
  assumes x: "first_blocker command L x" and y: "first_blocker command L' y"
    and riv: "\<forall>z\<in>set L \<union> set L'. rivals key (fst z)" and same: "set L = set L'"
    and owner: "\<And>other. rivals key other \<Longrightarrow> filter (\<lambda>z. fst z = other) L = filter (\<lambda>z. fst z = other) L'"
  shows "x = y"
proof -
  from x obtain pre post where L: "L = pre @ x # post" and bx: "blocks (snd x) command"
    and pre: "\<forall>z\<in>set pre. blocks (snd z) command \<longrightarrow> earlier x z"
    and post: "\<forall>z\<in>set post. blocks (snd z) command \<longrightarrow> \<not> earlier z x"
    unfolding first_blocker_def by blast
  from y obtain pre' post' where L': "L' = pre' @ y # post'" and b_y: "blocks (snd y) command"
    and pre': "\<forall>z\<in>set pre'. blocks (snd z) command \<longrightarrow> earlier y z"
    and post': "\<forall>z\<in>set post'. blocks (snd z) command \<longrightarrow> \<not> earlier z y"
    unfolding first_blocker_def by blast
  have "y \<in> set L" and "x \<in> set L'"
    using same L L' by auto
  then have yx: "\<not> earlier y x" and xy: "\<not> earlier x y"
    using first_blocker_least [OF x] first_blocker_least [OF y] bx b_y by auto
  have "rivals key (fst x)" and "rivals key (fst y)"
    using riv L L' by auto
  then have eq: "fst x = fst y"
    using xy yx by (rule rival_incomparable)
  let ?P = "\<lambda>z. fst z = fst x"
  let ?Q = "\<lambda>z. blocks (snd z) command \<and> \<not> earlier x z"
  have "filter ?Q (filter ?P pre) = []"
    using pre by (simp add: filter_empty_conv)
  then have "filter ?Q (filter ?P L) = x # filter ?Q (filter ?P post)"
    by (simp add: L bx)
  moreover have "filter ?Q (filter ?P L') = y # filter ?Q (filter ?P post')"
  proof -
    have "earlier x z" if "earlier y z" for z
      using that yx earlier_weak [of y z x] by blast
    then have "filter ?Q (filter ?P pre') = []"
      using pre' by (simp add: filter_empty_conv)
    then show ?thesis
      by (simp add: L' b_y eq xy)
  qed
  moreover have "filter ?P L = filter ?P L'"
    using owner riv L by (metis UnCI in_set_conv_decomp)
  ultimately show "x = y" by simp
qed

lemma conflict_order_independent:
  assumes "distinct_keys (c_owners c)" and "mset owners = mset (c_owners c)"
  shows "conflictLocked (c\<lparr>c_owners := owners\<rparr>) key command = conflictLocked c key command"
proof -
  let ?c = "c\<lparr>c_owners := owners\<rparr>"
  have dist: "distinct_keys (c_owners ?c)"
  proof -
    have "mset (map fst owners) = mset (map fst (c_owners c))"
      using assms(2) by simp
    from mset_eq_imp_distinct_iff [OF this] assms(1) show ?thesis by simp
  qed
  have heldeq: "held ?c other = held c other" for other
    using gget_eqI [OF assms(2)] dist by (simp add: held_def)
  have seteq: "set (rivalClaims ?c key) = set (rivalClaims c key)"
    by (rule set_eqI) (simp only: rivalClaims_set [OF dist] rivalClaims_set [OF assms(1)] heldeq)
  have rep: "reported ?c x = reported c x" for x
    by (simp add: reported_def ownerDiagnostic_def)
  have uniq: "x = y" if "first_blocker command (rivalClaims ?c key) x" "first_blocker command (rivalClaims c key) y" for x y
    using that
  proof (rule first_blocker_unique)
    show "\<forall>z\<in>set (rivalClaims ?c key) \<union> set (rivalClaims c key). rivals key (fst z)"
      unfolding seteq using rivalClaims_set [OF assms(1)] by simp
    show "set (rivalClaims ?c key) = set (rivalClaims c key)" by (rule seteq)
    show "filter (\<lambda>z. fst z = other) (rivalClaims ?c key) = filter (\<lambda>z. fst z = other) (rivalClaims c key)"
      if "rivals key other" for other
      using filter_rivalClaims [OF dist that] filter_rivalClaims [OF assms(1) that] heldeq by simp
  qed
  have some: "\<exists>z\<in>set L. blocks (snd z) command" if "first_blocker command L x" for L x
    using that unfolding first_blocker_def by auto
  show ?thesis
  proof (cases "\<exists>z\<in>set (rivalClaims c key). blocks (snd z) command")
    case True
    then obtain x y where "first_blocker command (rivalClaims ?c key) x" "conflictLocked ?c key command = reported ?c x"
      and "first_blocker command (rivalClaims c key) y" "conflictLocked c key command = reported c y"
      using conflictLocked_cases [of ?c key command] conflictLocked_cases [of c key command] seteq by auto
    moreover from this(1,3) have "x = y" by (rule uniq)
    ultimately show ?thesis using rep by simp
  next
    case False
    then have "conflictLocked ?c key command = zeroConflict" and "conflictLocked c key command = zeroConflict"
      using conflictLocked_cases [of ?c key command] conflictLocked_cases [of c key command] some seteq by blast+
    then show ?thesis by simp
  qed
qed

end
