(* ===== verification/CoordFrame.thy ===== *)
theory CoordFrame
  imports Conflicts
begin

text \<open>
  What the critical sections on ranges leave alone. \<open>frame c\<close> blanks the owner
  states, the queue, the range counters and the progress of each request; everything else
  of the coordinator is in the frame: configuration, sessions, epochs, owner bindings, use
  claims, materialization budget, and the identity, key, epoch and commands of every request.
  Every operation on ranges and waiting requests keeps the frame.
\<close>

section \<open>The frame\<close>

definition stripAttempt :: "RangeAttempt \<Rightarrow> RangeAttempt" where
  "stripAttempt r = r\<lparr>att_State := Pending, att_Claims := [], att_Conflict := zeroConflict,
     att_Rejection := NoRejection, att_FailedAt := None, att_Effects := [], att_EverGranted := False\<rparr>"

definition stripAction :: "request \<Rightarrow> request" where
  "stripAction a = a\<lparr>rq_result := stripAttempt (rq_result a), rq_expires := 0, rq_order := True,
     rq_pending := False, rq_prepared := False, rq_converting := False,
     rq_released := replicate (length (rq_released a)) False\<rparr>"

definition stripSession :: "Session \<Rightarrow> Session" where
  "stripSession s = s\<lparr>s_actions := map (map_prod id stripAction) (s_actions s), s_ranges := 0, s_pending := 0\<rparr>"

definition frame :: "Coordinator \<Rightarrow> Coordinator" where
  "frame c = c\<lparr>c_sessions := map (map_prod id stripSession) (c_sessions c), c_owners := [],
     c_waiting := [], c_ranges := 0\<rparr>"

lemma map_gupd_absorb:
  "(\<And>v. g (f v) = g v) \<Longrightarrow> map (map_prod id g) (gupd k f m) = map (map_prod id g) m"
  by (auto simp: gupd_def)

lemma frame_updSession:
  assumes "\<And>s. stripSession (f s) = stripSession s"
  shows "frame (updSession sid f c) = frame c"
  by (simp add: frame_def updSession_def map_gupd_absorb assms)

lemma frame_updAction:
  assumes "\<And>a. stripAction (f a) = stripAction a"
  shows "frame (updAction ref f c) = frame c"
  unfolding updAction_def by (rule frame_updSession) (simp add: stripSession_def map_gupd_absorb assms)

lemma frame_owners [simp]: "frame (c\<lparr>c_owners := m\<rparr>) = frame c"
  and frame_waiting [simp]: "frame (c\<lparr>c_waiting := w\<rparr>) = frame c"
  and frame_ranges [simp]: "frame (c\<lparr>c_ranges := n\<rparr>) = frame c"
  by (simp_all add: frame_def)

lemma frame_updOwner [simp]: "frame (updOwner key f c) = frame c"
  by (simp add: updOwner_def)

lemma frame_pruneOwnerLocked [simp]: "frame (pruneOwnerLocked key c) = frame c"
  by (simp add: pruneOwnerLocked_def split: option.split)

lemma frame_ownerLocked [simp]: "frame (ownerLocked key c) = frame c"
  by (simp add: ownerLocked_def split: option.split)

lemma frame_installRangesLocked [simp]: "frame (installRangesLocked key ranges c) = frame c"
  by (simp add: installRangesLocked_def Let_def frame_updSession stripSession_def)

lemma frame_replaceLocked: "replaceLocked key ranges c = Some c' \<Longrightarrow> frame c' = frame c"
  by (auto simp: replaceLocked_def split: if_splits)

lemma frame_dequeueLocked [simp]: "frame (dequeueLocked ref key c) = frame c"
  by (simp add: dequeueLocked_def frame_updSession frame_updAction stripSession_def stripAction_def)

lemma frame_enqueueLocked [simp]: "frame (enqueueLocked ref key c) = frame c"
  by (simp add: enqueueLocked_def frame_updSession frame_updAction stripSession_def stripAction_def)

lemma stripAttempt_finish [simp]: "stripAttempt (finishAttempt state rejection r) = stripAttempt r"
  by (simp add: finishAttempt_def stripAttempt_def Let_def)

lemma frame_completeLocked [simp]: "frame (completeLocked now ref state rejection c) = frame c"
  by (simp add: completeLocked_def frame_updAction stripAction_def Let_def split: option.split)

lemma fold_invariant_eq: "(\<And>x c. g (f x c) = g c) \<Longrightarrow> g (fold f xs c) = g c"
  by (induction xs arbitrary: c) auto

lemma frame_reconcileOne [simp]: "frame (reconcileOne now key live request c) = frame c"
  by (simp add: reconcileOne_def split: option.split)

lemma frame_reconcile [simp]: "frame (reconcileRemovedClaimsLocked now key effects c) = frame c"
  unfolding reconcileRemovedClaimsLocked_def by (rule fold_invariant_eq) simp

lemma length_markReleased [simp]: "length (markReleased indexes released) = length released"
  unfolding markReleased_def by (rule fold_invariant_eq) simp

lemma frame_commitReleasePrefixLocked [simp]: "frame (commitReleasePrefixLocked now ref key edit c) = frame c"
  by (simp add: commitReleasePrefixLocked_def frame_updAction stripAction_def stripAttempt_def)

lemma frame_commitEditLocked [simp]: "frame (commitEditLocked now ref key edit c) = frame c"
  by (auto simp: commitEditLocked_def frame_updAction stripAction_def stripAttempt_def
      dest: frame_replaceLocked split: option.split)

lemma frame_startLocked [simp]: "frame (startLocked now ref c) = frame c"
proof -
  have reject: "frame (rejectStart now ref edit code c) = frame c" for edit code c
    by (simp add: rejectStart_def frame_updAction stripAction_def stripAttempt_def)
  have "frame (startRejected now ref action edit c) = frame c" for action edit c
    by (simp add: startRejected_def Let_def reject frame_updAction stripAction_def stripAttempt_def)
  moreover have "frame (dropForConversion ref key c) = frame c" for key c
    by (auto simp: dropForConversion_def Let_def frame_updAction stripAction_def stripAttempt_def
        dest: frame_replaceLocked split: option.split)
  ultimately have "frame (startBody now ref action c) = frame c" for action c
    by (simp add: startBody_def Let_def)
  then show ?thesis by (simp add: startLocked_def split: option.split)
qed

lemma frame_advanceSection [simp]: "frame (fst (advanceSection now ref c)) = frame c"
  by (simp add: advanceSection_def Let_def frame_updAction stripAction_def stripAttempt_def split: option.split)

lemma frame_advance [simp]: "frame (fst (advance now ref answer c)) = frame c"
  by (simp add: advance_def split: option.split order_answer.split)

lemma frame_pumpCandidates: "frame (fst (pumpCandidates now env refs c)) = frame c"
  by (induction now env refs c rule: pumpCandidates.induct) (auto split: pump_answer.split)

lemma frame_pumpPasses: "frame (pumpPasses left now env pass c) = frame c"
proof (induction left now env pass c rule: pumpPasses.induct)
  case (2 left now env pass c)
  then show ?case
    using frame_pumpCandidates [of now "env pass" "filter (readyLocked c) (c_waiting c)" c]
    by (auto simp: Let_def split: prod.split)
qed simp

lemma frame_pump [simp]: "frame (pump now env c) = frame c"
  unfolding pump_def by (rule frame_pumpPasses)

lemma frame_dropLocked [simp]: "frame (dropLocked now key c) = frame c"
proof -
  have one: "frame (dropAction now key request c) = frame c" for request c
    by (simp add: dropAction_def split: option.split AttemptState.split)
  show ?thesis
    by (auto simp: dropLocked_def Let_def fold_invariant_eq [where g = frame, OF one]
        dest: frame_replaceLocked split: option.split)
qed


section \<open>What the frame determines\<close>

lemma frame_fields:
  assumes "frame c' = frame c"
  shows "c_config c' = c_config c" and "c_nextSession c' = c_nextSession c" and "c_retired c' = c_retired c"
    and "c_requests c' = c_requests c" and "c_registeredOwners c' = c_registeredOwners c"
    and "c_uses c' = c_uses c" and "c_materializedBytes c' = c_materializedBytes c"
    and "c_materializations c' = c_materializations c"
    and "map (map_prod id stripSession) (c_sessions c') = map (map_prod id stripSession) (c_sessions c)"
  using assms by (cases c, cases c', simp add: frame_def)+

lemma gget_map_prod: "gget (map (map_prod id g) m) k = map_option g (gget m k)"
  by (induction m) (auto simp: gget_def)

lemma frame_session:
  assumes "frame c' = frame c"
  shows "map_option stripSession (gget (c_sessions c') sid) = map_option stripSession (gget (c_sessions c) sid)"
  using frame_fields(9) [OF assms] by (metis gget_map_prod)

lemma frame_session_keys:
  assumes "frame c' = frame c"
  shows "map fst (c_sessions c') = map fst (c_sessions c)"
proof -
  have "map fst (map (map_prod id stripSession) m) = map fst m" for m :: "(u64, Session) gomap"
    by (induction m) auto
  then show ?thesis using frame_fields(9) [OF assms] by metis
qed

lemma stripSession_fields:
  assumes "stripSession s' = stripSession s"
  shows "s_id s' = s_id s" and "s_options s' = s_options s" and "s_epoch s' = s_epoch s"
    and "s_epochUntil s' = s_epochUntil s" and "s_bindings s' = s_bindings s" and "s_nextOwner s' = s_nextOwner s"
    and "s_owners s' = s_owners s" and "s_retiring s' = s_retiring s" and "s_retired s' = s_retired s"
    and "s_retireDone s' = s_retireDone s" and "s_retireErr s' = s_retireErr s"
    and "map (map_prod id stripAction) (s_actions s') = map (map_prod id stripAction) (s_actions s)"
  using assms by (cases s, cases s', simp add: stripSession_def)+

lemma frame_session_cases:
  assumes "frame c' = frame c"
  obtains (none) "gget (c_sessions c') sid = None" "gget (c_sessions c) sid = None"
  | (some) s s' where "gget (c_sessions c') sid = Some s'" "gget (c_sessions c) sid = Some s"
      "stripSession s' = stripSession s"
  using frame_session [OF assms, of sid]
  by (cases "gget (c_sessions c') sid"; cases "gget (c_sessions c) sid") auto

lemma frame_bindingOf:
  assumes "frame c' = frame c"
  shows "bindingOf c' sid owner = bindingOf c sid owner"
  using assms
proof (cases rule: frame_session_cases [where sid = sid])
  case none
  then show ?thesis by (simp add: bindingOf_def sessionObj_def frame_fields(3) [OF assms])
next
  case (some s s')
  then show ?thesis
    using stripSession_fields(5) [OF some(3)] by (simp add: bindingOf_def sessionObj_def)
qed

lemma frame_active:
  assumes "frame c' = frame c"
  shows "active c' sid = active c sid"
  using assms
proof (cases rule: frame_session_cases [where sid = sid])
  case none
  then show ?thesis by (simp add: active_def sessionObj_def activeLocked_def frame_fields(3) [OF assms])
next
  case (some s s')
  then show ?thesis
    using stripSession_fields(8,9) [OF some(3)] by (simp add: active_def sessionObj_def activeLocked_def)
qed

lemma frame_action:
  assumes "frame c' = frame c"
  shows "map_option stripAction (getAction c' ref) = map_option stripAction (getAction c ref)"
proof -
  have "map_option stripAction (gget (s_actions s') k) = map_option stripAction (gget (s_actions s) k)"
    if "stripSession s' = stripSession s" for s s' k
    using stripSession_fields(12) [OF that] by (metis gget_map_prod)
  note same = this
  from assms show ?thesis
  proof (cases rule: frame_session_cases [where sid = "fst ref"])
    case (some s s')
    with same [OF some(3)] show ?thesis by (simp add: getAction_def)
  qed (simp add: getAction_def)
qed

lemma stripAction_fields:
  assumes "stripAction a' = stripAction a"
  shows "rq_key a' = rq_key a" and "rq_id a' = rq_id a" and "rq_epoch a' = rq_epoch a"
    and "rq_commands a' = rq_commands a" and "length (rq_released a') = length (rq_released a)"
  using assms by (cases a, cases a', auto simp: stripAction_def dest: arg_cong [of _ _ length])+

lemma frame_action_cases:
  assumes "frame c' = frame c"
  obtains (none) "getAction c' ref = None" "getAction c ref = None"
  | (some) a a' where "getAction c' ref = Some a'" "getAction c ref = Some a" "stripAction a' = stripAction a"
  using frame_action [OF assms, of ref] by (cases "getAction c' ref"; cases "getAction c ref") auto

lemma frame_action_key:
  assumes "frame c' = frame c"
  shows "map_option rq_key (getAction c' ref) = map_option rq_key (getAction c ref)"
  using assms
proof (cases rule: frame_action_cases [where ref = ref])
  case (some a a')
  with stripAction_fields(1) [OF some(3)] show ?thesis by simp
qed simp

lemma frame_actionIDs:
  assumes "frame c' = frame c"
  shows "actionIDs c' sid = actionIDs c sid"
proof -
  have "map fst (map (map_prod id stripAction) m) = map fst m" for m :: "(LockRequestID, request) gomap"
    by (induction m) auto
  then have ids: "map fst (s_actions s') = map fst (s_actions s)" if "stripSession s' = stripSession s" for s s'
    using stripSession_fields(12) [OF that] by metis
  from assms show ?thesis
  proof (cases rule: frame_session_cases [where sid = sid])
    case (some s s')
    with ids [OF some(3)] show ?thesis by (simp add: actionIDs_def)
  qed (simp add: actionIDs_def)
qed

end
