(* ===== verification/QueueInv.thy ===== *)
theory QueueInv
  imports CoordFrame
begin

text \<open>
  The queue of waiting requests. \<open>queue_inv\<close> ties the queue to the requests and to the
  counts kept in owners and sessions; in particular a queued request always has its owner
  state and its session, so that the map entries the code dereferences are present.
  \<open>stranded\<close> collects requests that are pending but neither queued nor converting.
  Every operation on ranges keeps the invariant and strands nobody.
\<close>

declare split_paired_All [simp del] split_paired_Ex [simp del]

section \<open>Projections\<close>

definition ownerPending :: "Coordinator \<Rightarrow> ownerKey \<Rightarrow> int" where
  "ownerPending c key = (case gget (c_owners c) key of None \<Rightarrow> 0 | Some st \<Rightarrow> os_pending st)"

definition sessionPending :: "Coordinator \<Rightarrow> u64 \<Rightarrow> int" where
  "sessionPending c sid = (case gget (c_sessions c) sid of None \<Rightarrow> 0 | Some s \<Rightarrow> s_pending s)"

lemma getAction_updAction:
  "getAction (updAction ref f c) ref' = (if ref' = ref then map_option f (getAction c ref') else getAction c ref')"
  by (cases ref; cases ref') (auto simp: getAction_def updAction_def updSession_def split: option.split)

lemma getAction_updSession:
  "(\<And>s. s_actions (f s) = s_actions s) \<Longrightarrow> getAction (updSession sid f c) ref = getAction c ref"
  by (auto simp: getAction_def updSession_def split: option.split)

lemma getAction_fields [simp]:
  "getAction (c\<lparr>c_owners := m\<rparr>) ref = getAction c ref"
  "getAction (c\<lparr>c_waiting := w\<rparr>) ref = getAction c ref"
  "getAction (c\<lparr>c_ranges := n\<rparr>) ref = getAction c ref"
  "getAction (c\<lparr>c_requests := n\<rparr>) ref = getAction c ref"
  "getAction (c\<lparr>c_registeredOwners := n\<rparr>) ref = getAction c ref"
  "getAction (updOwner key f c) ref = getAction c ref"
  by (simp_all add: getAction_def updOwner_def)

lemma getAction_pruneOwner [simp]: "getAction (pruneOwnerLocked key c) = getAction c"
  by (simp add: pruneOwnerLocked_def fun_eq_iff split: option.split)

lemma getAction_ownerLocked [simp]: "getAction (ownerLocked key c) = getAction c"
  by (simp add: ownerLocked_def fun_eq_iff split: option.split)

lemma getAction_install [simp]: "getAction (installRangesLocked key ranges c) = getAction c"
  by (simp add: installRangesLocked_def Let_def getAction_updSession fun_eq_iff)

lemma waiting_frame [simp]:
  "c_waiting (updSession sid f c) = c_waiting c"
  "c_waiting (updAction ref g c) = c_waiting c"
  "c_waiting (updOwner key h c) = c_waiting c"
  "c_waiting (pruneOwnerLocked key c) = c_waiting c"
  "c_waiting (ownerLocked key c) = c_waiting c"
  "c_waiting (installRangesLocked key ranges c) = c_waiting c"
  by (simp_all add: updSession_def updAction_def updOwner_def pruneOwnerLocked_def ownerLocked_def
      installRangesLocked_def Let_def split: option.split)

lemma owners_frame [simp]:
  "c_owners (updSession sid f c) = c_owners c"
  "c_owners (updAction ref g c) = c_owners c"
  by (simp_all add: updSession_def updAction_def)

lemma ownerPending_frame [simp]:
  "ownerPending (updSession sid f c) = ownerPending c"
  "ownerPending (updAction ref g c) = ownerPending c"
  "ownerPending (c\<lparr>c_waiting := w\<rparr>) = ownerPending c"
  "ownerPending (c\<lparr>c_ranges := n\<rparr>) = ownerPending c"
  "ownerPending (pruneOwnerLocked key c) = ownerPending c"
  "ownerPending (ownerLocked key c) = ownerPending c"
  "ownerPending (installRangesLocked key ranges c) = ownerPending c"
  by (auto simp: ownerPending_def updSession_def updAction_def pruneOwnerLocked_def ownerLocked_def
      installRangesLocked_def updOwner_def Let_def fun_eq_iff split: option.split)

lemma ownerPending_updOwner:
  "ownerPending (updOwner key (\<lambda>st. st\<lparr>os_pending := g (os_pending st)\<rparr>) c) key' =
   (if key' = key \<and> gget (c_owners c) key \<noteq> None then g (ownerPending c key) else ownerPending c key')"
  by (auto simp: ownerPending_def updOwner_def split: option.split)

lemma sessionPending_fields [simp]:
  "sessionPending (c\<lparr>c_owners := m\<rparr>) = sessionPending c"
  "sessionPending (c\<lparr>c_waiting := w\<rparr>) = sessionPending c"
  "sessionPending (c\<lparr>c_ranges := n\<rparr>) = sessionPending c"
  "sessionPending (updOwner key f c) = sessionPending c"
  "sessionPending (updAction ref g c) = sessionPending c"
  "sessionPending (pruneOwnerLocked key c) = sessionPending c"
  "sessionPending (ownerLocked key c) = sessionPending c"
  "sessionPending (installRangesLocked key ranges c) = sessionPending c"
  by (auto simp: sessionPending_def updOwner_def updAction_def updSession_def pruneOwnerLocked_def
      ownerLocked_def installRangesLocked_def Let_def fun_eq_iff split: option.split)

lemma sessionPending_updSession:
  "sessionPending (updSession sid (\<lambda>s. s\<lparr>s_pending := g (s_pending s)\<rparr>) c) sid' =
   (if sid' = sid \<and> gget (c_sessions c) sid \<noteq> None then g (sessionPending c sid) else sessionPending c sid')"
  by (auto simp: sessionPending_def updSession_def split: option.split)

lemma live_frame [simp]:
  "gget (c_sessions (updSession sid f c)) sid' = None \<longleftrightarrow> gget (c_sessions c) sid' = None"
  "gget (c_sessions (updAction ref g c)) sid' = None \<longleftrightarrow> gget (c_sessions c) sid' = None"
  "c_sessions (updOwner key h c) = c_sessions c"
  by (auto simp: updSession_def updAction_def updOwner_def)

section \<open>The invariant\<close>

text \<open>Requests are stored under their own session, so that a reference names the owner's session.\<close>

definition keyed :: "Coordinator \<Rightarrow> bool" where
  "keyed c \<longleftrightarrow> (\<forall>ref a. getAction c ref = Some a \<longrightarrow> key_session (rq_key a) = fst ref \<and> rq_id a = snd ref)"

definition waitingOn :: "Coordinator \<Rightarrow> ownerKey \<Rightarrow> actref list" where
  "waitingOn c key = filter (\<lambda>ref. map_option rq_key (getAction c ref) = Some key) (c_waiting c)"

definition queue_inv :: "Coordinator \<Rightarrow> bool" where
  "queue_inv c \<longleftrightarrow> keyed c \<and> distinct (c_waiting c)
     \<and> (\<forall>ref. ref \<in> set (c_waiting c) \<longleftrightarrow> (\<exists>a. getAction c ref = Some a \<and> rq_pending a))
     \<and> (\<forall>ref a. getAction c ref = Some a \<longrightarrow> rq_pending a
           \<longrightarrow> att_State (rq_result a) = Pending \<and> \<not> rq_converting a \<and> rq_order a)
     \<and> (\<forall>key. ownerPending c key = int (length (waitingOn c key)))
     \<and> (\<forall>sid. sessionPending c sid = int (length (filter (\<lambda>ref. fst ref = sid) (c_waiting c))))"

text \<open>Requests that are pending although nothing will ever resume them.\<close>

definition stranded :: "Coordinator \<Rightarrow> actref set" where
  "stranded c = {ref. \<exists>a. getAction c ref = Some a \<and> att_State (rq_result a) = Pending
     \<and> \<not> (rq_order a \<and> (rq_pending a \<or> rq_converting a))}"

lemma keyed_frame:
  assumes "frame c' = frame c" and "keyed c"
  shows "keyed c'"
  unfolding keyed_def
proof (intro allI impI)
  fix ref a' assume a': "getAction c' ref = Some a'"
  from assms(1) show "key_session (rq_key a') = fst ref \<and> rq_id a' = snd ref"
  proof (cases rule: frame_action_cases [where ref = ref])
    case (some a b)
    with a' assms(2) stripAction_fields(1,2) [OF some(3)] show ?thesis by (auto simp: keyed_def)
  qed (use a' in simp)
qed

text \<open>Operations that touch neither the queue nor the counts nor the scheduling fields.\<close>

lemma queue_inv_transfer:
  assumes "queue_inv c" and "frame c' = frame c" and "c_waiting c' = c_waiting c"
    and "ownerPending c' = ownerPending c" and "sessionPending c' = sessionPending c"
    and "\<And>ref a'. getAction c' ref = Some a' \<Longrightarrow> \<exists>a. getAction c ref = Some a \<and> rq_pending a' = rq_pending a
          \<and> (rq_pending a \<longrightarrow> att_State (rq_result a') = att_State (rq_result a) \<and> rq_converting a' = rq_converting a
               \<and> rq_order a' = rq_order a)"
  shows "queue_inv c'"
proof -
  have none: "getAction c' ref = None \<longleftrightarrow> getAction c ref = None" for ref
    using frame_action [OF assms(2), of ref] by (metis map_option_is_None)
  note key = frame_action_key [OF assms(2)]
  have pend: "(\<exists>a. getAction c' ref = Some a \<and> rq_pending a) \<longleftrightarrow> (\<exists>a. getAction c ref = Some a \<and> rq_pending a)" for ref
    using assms(6) [of ref] none [of ref] by (cases "getAction c' ref"; cases "getAction c ref") auto
  have sched: "att_State (rq_result a') = Pending \<and> \<not> rq_converting a' \<and> rq_order a'"
    if "getAction c' ref = Some a'" "rq_pending a'" for ref a'
    using assms(6) [OF that(1)] that(2) assms(1) by (auto simp: queue_inv_def)
  show ?thesis
    using assms(1,3,4,5) keyed_frame [OF assms(2)] pend sched
    unfolding queue_inv_def waitingOn_def key by simp
qed

lemma stranded_transfer:
  assumes "\<And>ref a'. getAction c' ref = Some a' \<Longrightarrow> att_State (rq_result a') = Pending \<Longrightarrow> ref \<notin> R \<Longrightarrow>
      \<exists>a. getAction c ref = Some a \<and> att_State (rq_result a) = Pending
        \<and> ((rq_order a \<and> (rq_pending a \<or> rq_converting a)) \<longrightarrow> (rq_order a' \<and> (rq_pending a' \<or> rq_converting a')))"
    and "\<And>ref. ref \<in> R \<Longrightarrow> ref \<notin> stranded c'"
  shows "stranded c' \<subseteq> stranded c - R"
  using assms unfolding stranded_def by fastforce


section \<open>Queue operations\<close>

text \<open>Updates of a request that leave its scheduling state alone.\<close>

definition quiet :: "(request \<Rightarrow> request) \<Rightarrow> bool" where
  "quiet f \<longleftrightarrow> (\<forall>a. stripAction (f a) = stripAction a \<and> rq_pending (f a) = rq_pending a
     \<and> att_State (rq_result (f a)) = att_State (rq_result a) \<and> rq_converting (f a) = rq_converting a
     \<and> rq_order (f a) = rq_order a)"

lemma queue_updAction: "queue_inv c \<Longrightarrow> quiet f \<Longrightarrow> queue_inv (updAction ref f c)"
  by (erule queue_inv_transfer)
    (auto simp: quiet_def frame_updAction getAction_updAction split: if_splits)

lemma stranded_updAction: "quiet f \<Longrightarrow> stranded (updAction ref f c) = stranded c"
  by (auto simp: stranded_def quiet_def getAction_updAction split: if_splits)

lemma queue_ranges:
  assumes "queue_inv c"
  shows "queue_inv (pruneOwnerLocked key c)" and "queue_inv (ownerLocked key c)"
    and "queue_inv (installRangesLocked key ranges c)"
  using assms by (auto intro!: queue_inv_transfer [of c])

lemma stranded_ranges [simp]:
  "stranded (pruneOwnerLocked key c) = stranded c"
  "stranded (ownerLocked key c) = stranded c"
  "stranded (installRangesLocked key ranges c) = stranded c"
  by (simp_all add: stranded_def)

lemma length_filter_remove1:
  "x \<in> set xs \<Longrightarrow> int (length (filter P (remove1 x xs))) = int (length (filter P xs)) - (if P x then 1 else 0)"
  by (induction xs) auto

lemma waiting_owner:
  assumes "queue_inv c" and "ref \<in> set (c_waiting c)" and "getAction c ref = Some a"
  shows "gget (c_owners c) (rq_key a) \<noteq> None" and "gget (c_sessions c) (fst ref) \<noteq> None"
proof -
  have "ref \<in> set (waitingOn c (rq_key a))"
    using assms by (simp add: waitingOn_def)
  then have "length (waitingOn c (rq_key a)) \<noteq> 0"
    by (cases "waitingOn c (rq_key a)") auto
  then have "ownerPending c (rq_key a) \<noteq> 0"
    using assms(1) by (simp add: queue_inv_def)
  then show "gget (c_owners c) (rq_key a) \<noteq> None"
    by (auto simp: ownerPending_def split: option.splits)
  show "gget (c_sessions c) (fst ref) \<noteq> None"
    using assms(3) by (auto simp: getAction_def split: option.splits)
qed

lemma waitingOn_remove:
  assumes "ref \<in> set (c_waiting c)" and "getAction c ref = Some a" and "frame c' = frame c"
    and "c_waiting c' = remove1 ref (c_waiting c)"
  shows "int (length (waitingOn c' key)) = int (length (waitingOn c key)) - (if rq_key a = key then 1 else 0)"
  unfolding waitingOn_def frame_action_key [OF assms(3)] assms(4)
  using assms(1,2) by (subst length_filter_remove1) auto

text \<open>The state after a pending request left the queue.\<close>

lemma queue_dequeue:
  assumes inv: "queue_inv c" and a: "getAction c ref = Some a" and p: "rq_pending a"
    and f: "\<And>x. stripAction (f x) = stripAction x" and key: "key = rq_key a"
  shows "queue_inv (dequeueLocked ref key (updAction ref f c))"
proof -
  let ?c = "dequeueLocked ref key (updAction ref f c)"
  have w: "ref \<in> set (c_waiting c)" using inv a p by (auto simp: queue_inv_def)
  have sid: "key_session (rq_key a) = fst ref" using inv a by (auto simp: queue_inv_def keyed_def)
  have fr: "frame ?c = frame c" by (simp add: frame_updAction f)
  have wait: "c_waiting ?c = remove1 ref (c_waiting c)" by (simp add: dequeueLocked_def)
  have act: "getAction ?c ref' = (if ref' = ref then Some ((f a)\<lparr>rq_pending := False\<rparr>) else getAction c ref')" for ref'
    by (simp add: dequeueLocked_def getAction_updSession getAction_updAction a)
  have own: "ownerPending ?c key' = ownerPending c key' - (if rq_key a = key' then 1 else 0)" for key'
    using waiting_owner(1) [OF inv w a] by (auto simp: dequeueLocked_def key ownerPending_updOwner [where g = "\<lambda>n. n - 1"])
  have sess: "sessionPending ?c sid' = sessionPending c sid' - (if fst ref = sid' then 1 else 0)" for sid'
    using waiting_owner(2) [OF inv w a]
    by (auto simp del: not_None_eq simp: dequeueLocked_def key sid sessionPending_updSession [where g = "\<lambda>n. n - 1"])
  have d: "distinct (c_waiting c)" using inv by (simp add: queue_inv_def)
  show ?thesis
    unfolding queue_inv_def
  proof (intro conjI allI impI)
    show "keyed ?c" using keyed_frame [OF fr] inv by (simp add: queue_inv_def)
    show "distinct (c_waiting ?c)" using d by (simp add: wait)
    show "(ref' \<in> set (c_waiting ?c)) = (\<exists>b. getAction ?c ref' = Some b \<and> rq_pending b)" for ref'
      using inv d by (auto simp: act wait queue_inv_def)
    show "ownerPending ?c key' = int (length (waitingOn ?c key'))" for key'
      using inv waitingOn_remove [OF w a fr wait, of key'] by (simp add: own queue_inv_def)
    show "sessionPending ?c sid' = int (length (filter (\<lambda>ref. fst ref = sid') (c_waiting ?c)))" for sid'
      using inv w by (simp add: sess wait queue_inv_def length_filter_remove1)
  qed (use inv act in \<open>auto simp: queue_inv_def split: if_splits\<close>)
qed


lemma queue_completeLocked:
  assumes inv: "queue_inv c" and st: "state \<noteq> Pending"
  shows "queue_inv (completeLocked now ref state rejection c)"
proof (cases "getAction c ref")
  case None
  with inv show ?thesis by (simp add: completeLocked_def)
next
  case (Some a)
  let ?f = "\<lambda>x. x\<lparr>rq_result := finishAttempt state rejection (rq_result x),
      rq_expires := now + historyOf c (key_session (rq_key a)), rq_order := False\<rparr>"
  have f: "stripAction (?f x) = stripAction x" for x by (simp add: stripAction_def)
  show ?thesis
  proof (cases "rq_pending a")
    case True
    with Some queue_dequeue [OF inv Some True f refl] show ?thesis by (simp add: completeLocked_def Let_def)
  next
    case False
    have "queue_inv (updAction ref ?f c)"
      using inv by (rule queue_inv_transfer)
        (use Some False f in \<open>auto simp: frame_updAction getAction_updAction split: if_splits\<close>)
    with Some False show ?thesis by (simp add: completeLocked_def Let_def)
  qed
qed

lemma state_finishAttempt [simp]: "att_State (finishAttempt state rejection r) = state"
  by (simp add: finishAttempt_def Let_def)

lemma getAction_completeLocked:
  "getAction (completeLocked now ref state rejection c) ref' =
   (if ref' = ref then map_option (\<lambda>a. a\<lparr>rq_result := finishAttempt state rejection (rq_result a),
        rq_expires := now + historyOf c (key_session (rq_key a)), rq_order := False, rq_pending := False\<rparr>) (getAction c ref)
    else getAction c ref')"
proof (cases "getAction c ref")
  case (Some a)
  then show ?thesis
    by (cases "rq_pending a") (simp_all add: completeLocked_def dequeueLocked_def Let_def getAction_updSession getAction_updAction)
qed (simp add: completeLocked_def)

lemma stranded_completeLocked: "state \<noteq> Pending \<Longrightarrow> stranded (completeLocked now ref state rejection c) = stranded c - {ref}"
  by (auto simp: stranded_def getAction_completeLocked split: if_splits)

lemma queue_reconcileOne: "queue_inv c \<Longrightarrow> queue_inv (reconcileOne now key live request c)"
  by (simp add: reconcileOne_def queue_completeLocked split: option.split)

lemma not_stranded: "getAction c ref = Some a \<Longrightarrow> att_State (rq_result a) \<noteq> Pending \<Longrightarrow> ref \<notin> stranded c"
  by (simp add: stranded_def)

lemma stranded_reconcileOne: "stranded (reconcileOne now key live request c) = stranded c"
  by (simp add: reconcileOne_def stranded_completeLocked not_stranded split: option.split)

lemma fold_preserves: "(\<And>x c. P c \<Longrightarrow> P (f x c)) \<Longrightarrow> P c \<Longrightarrow> P (fold f xs c)"
  by (induction xs arbitrary: c) auto

lemma queue_reconcile: "queue_inv c \<Longrightarrow> queue_inv (reconcileRemovedClaimsLocked now key effects c)"
  unfolding reconcileRemovedClaimsLocked_def by (rule fold_preserves) (auto intro: queue_reconcileOne)

lemma stranded_reconcile: "stranded (reconcileRemovedClaimsLocked now key effects c) = stranded c"
  unfolding reconcileRemovedClaimsLocked_def by (rule fold_invariant_eq) (rule stranded_reconcileOne)

lemma quiet_result:
  "quiet (\<lambda>a. a\<lparr>rq_result := (rq_result a)\<lparr>att_Conflict := x\<rparr>\<rparr>)"
  "quiet (\<lambda>a. a\<lparr>rq_result := (rq_result a)\<lparr>att_FailedAt := y\<rparr>\<rparr>)"
  "quiet (\<lambda>a. a\<lparr>rq_result := (rq_result a)\<lparr>att_Effects := att_Effects (rq_result a) @ es\<rparr>\<rparr>)"
  "quiet (\<lambda>a. a\<lparr>rq_result := (rq_result a)\<lparr>att_Effects := att_Effects (rq_result a) @ es, att_Claims := cs\<rparr>\<rparr>)"
  "quiet (\<lambda>a. a\<lparr>rq_result := (rq_result a)\<lparr>att_Effects := att_Effects (rq_result a) @ es\<rparr>,
              rq_released := markReleased is (rq_released a)\<rparr>)"
  by (simp_all add: quiet_def stripAction_def stripAttempt_def)

lemma queue_prefix: "queue_inv c \<Longrightarrow> queue_inv (commitReleasePrefixLocked now ref key edit c)"
  by (simp add: commitReleasePrefixLocked_def queue_reconcile queue_updAction quiet_result queue_ranges)

lemma stranded_prefix: "stranded (commitReleasePrefixLocked now ref key edit c) = stranded c"
  by (simp add: commitReleasePrefixLocked_def stranded_reconcile stranded_updAction quiet_result)

lemma queue_commitEdit: "queue_inv c \<Longrightarrow> queue_inv (commitEditLocked now ref key edit c)"
  by (auto simp: commitEditLocked_def replaceLocked_def queue_prefix queue_reconcile queue_completeLocked
      queue_updAction quiet_result queue_ranges split: option.split)

lemma stranded_commitEdit: "stranded (commitEditLocked now ref key edit c) = stranded c - {ref}"
  by (simp add: commitEditLocked_def replaceLocked_def stranded_prefix stranded_reconcile stranded_completeLocked
      stranded_updAction quiet_result)


section \<open>Starting, resuming and dropping requests\<close>

text \<open>A request that is about to be started: pending, not queued, with its callback.\<close>

definition startable :: "Coordinator \<Rightarrow> actref \<Rightarrow> bool" where
  "startable c ref \<longleftrightarrow> (\<exists>a. getAction c ref = Some a \<and> att_State (rq_result a) = Pending
     \<and> \<not> rq_pending a \<and> \<not> rq_converting a \<and> rq_order a)"

lemma startable_quiet: "startable c ref \<Longrightarrow> quiet f \<Longrightarrow> startable (updAction ref' f c) ref"
  by (auto simp: startable_def quiet_def getAction_updAction)

lemma startable_reconcile: "startable c ref \<Longrightarrow> startable (reconcileRemovedClaimsLocked now key effects c) ref"
  unfolding reconcileRemovedClaimsLocked_def
  by (rule fold_preserves) (auto simp: reconcileOne_def startable_def getAction_completeLocked split: option.split)

lemma startable_ranges [simp]:
  "startable (installRangesLocked key ranges c) ref = startable c ref"
  "startable (ownerLocked key c) ref = startable c ref"
  by (simp_all add: startable_def)

lemma startable_prefix: "startable c ref \<Longrightarrow> startable (commitReleasePrefixLocked now ref' key edit c) ref"
  by (simp add: commitReleasePrefixLocked_def startable_reconcile startable_quiet quiet_result)

lemma queue_enqueue:
  assumes inv: "queue_inv c" and a: "startable c ref" "map_option rq_key (getAction c ref) = Some key"
    and own: "gget (c_owners c) key \<noteq> None"
  shows "queue_inv (enqueueLocked ref key c)"
proof -
  let ?c = "enqueueLocked ref key c"
  from a obtain a where act0: "getAction c ref = Some a" and k: "rq_key a = key"
    and s: "att_State (rq_result a) = Pending" "\<not> rq_pending a" "\<not> rq_converting a" "rq_order a"
    by (auto simp: startable_def)
  have w: "ref \<notin> set (c_waiting c)" using inv act0 s by (auto simp: queue_inv_def)
  have sid: "key_session key = fst ref" using inv act0 k by (auto simp: queue_inv_def keyed_def)
  have live: "gget (c_sessions c) (fst ref) \<noteq> None" using act0 by (auto simp: getAction_def split: option.splits)
  have wait: "c_waiting ?c = c_waiting c @ [ref]" by (simp add: enqueueLocked_def)
  have act: "getAction ?c ref' = (if ref' = ref then Some (a\<lparr>rq_pending := True\<rparr>) else getAction c ref')" for ref'
    by (simp add: enqueueLocked_def getAction_updSession getAction_updAction act0)
  have "ownerPending ?c key' = ownerPending c key' + (if key = key' then 1 else 0)" for key'
    using own by (auto simp: enqueueLocked_def ownerPending_updOwner [where g = "\<lambda>n. n + 1"])
  moreover have "sessionPending ?c sid' = sessionPending c sid' + (if fst ref = sid' then 1 else 0)" for sid'
    using live by (auto simp del: not_None_eq simp: enqueueLocked_def sid sessionPending_updSession [where g = "\<lambda>n. n + 1"])
  moreover have "int (length (waitingOn ?c key')) = int (length (waitingOn c key')) + (if key = key' then 1 else 0)" for key'
    using act0 k by (simp add: waitingOn_def wait frame_action_key [where c' = "?c" and c = c])
  ultimately show ?thesis
    using inv w s keyed_frame [of ?c c] unfolding queue_inv_def by (auto simp: wait act split: if_splits)
qed

lemma queue_dropForConversion: "queue_inv c \<Longrightarrow> startable c ref \<Longrightarrow> queue_inv (dropForConversion ref key c)"
proof -
  assume inv: "queue_inv c" and st: "startable c ref"
  let ?conv = "\<lambda>a. a\<lparr>rq_prepared := True, rq_converting := True\<rparr>"
  have "queue_inv (updAction ref ?conv c')" if "queue_inv c'" "startable c' ref" for c'
    using that(1) by (rule queue_inv_transfer)
      (use that(2) in \<open>auto simp: startable_def frame_updAction stripAction_def getAction_updAction split: if_splits\<close>)
  moreover have "queue_inv (updAction ref (\<lambda>a. a\<lparr>rq_result := (rq_result a)\<lparr>att_Effects := att_Effects (rq_result a) @ es\<rparr>\<rparr>) c)"
    and "startable (updAction ref (\<lambda>a. a\<lparr>rq_result := (rq_result a)\<lparr>att_Effects := att_Effects (rq_result a) @ es\<rparr>\<rparr>) c) ref" for es
    using inv st by (simp_all add: queue_updAction startable_quiet quiet_result)
  ultimately show ?thesis
    by (auto simp: dropForConversion_def replaceLocked_def Let_def queue_ranges startable_def split: option.split)
qed


lemma queue_inv_pending:
  "queue_inv c \<Longrightarrow> getAction c ref = Some a \<Longrightarrow> rq_pending a \<Longrightarrow>
   att_State (rq_result a) = Pending \<and> \<not> rq_converting a \<and> rq_order a \<and> ref \<in> set (c_waiting c)"
  unfolding queue_inv_def by blast

lemma owners_complete_idle:
  "getAction c ref = Some a \<Longrightarrow> \<not> rq_pending a \<Longrightarrow> c_owners (completeLocked now ref state rejection c) = c_owners c"
  by (simp add: completeLocked_def Let_def)

lemma owners_reconcileOne:
  assumes "queue_inv c"
  shows "c_owners (reconcileOne now key live request c) = c_owners c"
proof (cases "getAction c (key_session key, request)")
  case (Some a)
  show ?thesis
  proof (cases "rq_pending a")
    case True
    with queue_inv_pending [OF assms Some] Some show ?thesis by (simp add: reconcileOne_def)
  qed (use Some in \<open>simp add: reconcileOne_def owners_complete_idle\<close>)
qed (simp add: reconcileOne_def)

lemma owners_reconcile:
  assumes "queue_inv c"
  shows "c_owners (reconcileRemovedClaimsLocked now key effects c) = c_owners c"
proof -
  have one: "queue_inv c' \<and> c_owners c' = m \<Longrightarrow>
      queue_inv (reconcileOne now key live request c') \<and> c_owners (reconcileOne now key live request c') = m"
    for c' m live request
    by (simp add: queue_reconcileOne owners_reconcileOne)
  have "queue_inv (fold (reconcileOne now key live) xs c) \<and> c_owners (fold (reconcileOne now key live) xs c) = c_owners c"
    for live xs
    by (rule fold_preserves [where P = "\<lambda>c'. queue_inv c' \<and> c_owners c' = c_owners c"]) (auto simp: assms one)
  then show ?thesis by (simp add: reconcileRemovedClaimsLocked_def)
qed

lemma owner_install [simp]:
  "gget (c_owners (installRangesLocked key ranges c)) key' = None \<longleftrightarrow> gget (c_owners c) key' = None"
  by (simp add: installRangesLocked_def updOwner_def Let_def)

lemma owner_prefix:
  assumes "queue_inv c" and "gget (c_owners c) key' \<noteq> None"
  shows "gget (c_owners (commitReleasePrefixLocked now ref key edit c)) key' \<noteq> None"
  using assms
  by (simp del: not_None_eq add: commitReleasePrefixLocked_def owners_reconcile queue_updAction quiet_result queue_ranges)

lemma stranded_enqueue:
  assumes "startable c ref"
  shows "stranded (enqueueLocked ref key c) \<subseteq> stranded c - {ref}"
  using assms by (auto simp: stranded_def startable_def enqueueLocked_def getAction_updSession getAction_updAction split: if_splits)

lemma stranded_dropForConversion:
  assumes "startable c ref"
  shows "stranded (dropForConversion ref key c) \<subseteq> stranded c - {ref}"
proof -
  let ?e = "\<lambda>es a. a\<lparr>rq_result := (rq_result a)\<lparr>att_Effects := att_Effects (rq_result a) @ es\<rparr>\<rparr>"
  have conv: "stranded (updAction ref (\<lambda>a. a\<lparr>rq_prepared := True, rq_converting := True\<rparr>) c') \<subseteq> stranded c - {ref}"
    if "startable c' ref" "stranded c' = stranded c" for c'
    using that(1) unfolding that(2) [symmetric]
    by (auto simp: stranded_def startable_def getAction_updAction split: if_splits)
  have "startable (updAction ref (?e es) c) ref" "stranded (updAction ref (?e es) c) = stranded c" for es
    using assms by (simp_all add: startable_quiet quiet_result stranded_updAction)
  then show ?thesis
    unfolding dropForConversion_def Let_def by (intro conv) (simp_all add: replaceLocked_def)
qed

lemma queue_startRejected:
  assumes inv: "queue_inv c" and st: "startable c ref" and a: "getAction c ref = Some action"
    and own: "gget (c_owners c) (rq_key action) \<noteq> None"
  shows "queue_inv (startRejected now ref action edit c)"
    and "stranded (startRejected now ref action edit c) \<subseteq> stranded c - {ref}"
proof -
  let ?c = "updAction ref (\<lambda>a. a\<lparr>rq_result := (rq_result a)\<lparr>att_Conflict := ed_conflict edit\<rparr>\<rparr>)
      (commitReleasePrefixLocked now ref (rq_key action) edit c)"
  have inv': "queue_inv ?c" using inv by (simp add: queue_updAction queue_prefix quiet_result)
  have st': "startable ?c ref" using st by (simp add: startable_quiet startable_prefix quiet_result)
  have strand: "stranded ?c = stranded c" by (simp add: stranded_updAction stranded_prefix quiet_result)
  have key: "map_option rq_key (getAction ?c ref) = Some (rq_key action)"
    using frame_action_key [of ?c c ref] a by (simp add: frame_updAction stripAction_def stripAttempt_def)
  have own': "gget (c_owners ?c) (rq_key action) \<noteq> None"
    using owner_prefix [OF inv own] by simp
  have rej: "queue_inv (rejectStart now ref edit code ?c)" "stranded (rejectStart now ref edit code ?c) \<subseteq> stranded c - {ref}" for code
    using inv' by (simp_all add: rejectStart_def queue_completeLocked queue_updAction quiet_result stranded_completeLocked stranded_updAction strand)
  have enq: "queue_inv (enqueueLocked ref (rq_key action) ?c)" "stranded (enqueueLocked ref (rq_key action) ?c) \<subseteq> stranded c - {ref}"
    using queue_enqueue [OF inv' st' key own'] stranded_enqueue [OF st'] by (simp_all add: strand)
  show "queue_inv (startRejected now ref action edit c)"
    using rej(1) enq(1) by (simp add: startRejected_def Let_def)
  show "stranded (startRejected now ref action edit c) \<subseteq> stranded c - {ref}"
    using rej(2) enq(2) by (simp add: startRejected_def Let_def)
qed

lemma queue_startBody:
  assumes "queue_inv c" and "startable c ref" and "getAction c ref = Some action"
    and "gget (c_owners c) (rq_key action) \<noteq> None"
  shows "queue_inv (startBody now ref action c)" and "stranded (startBody now ref action c) \<subseteq> stranded c - {ref}"
proof -
  note rest = queue_startRejected [OF assms] stranded_dropForConversion [OF assms(2)]
  show "queue_inv (startBody now ref action c)"
    using assms(1,2) rest(1) by (simp add: startBody_def Let_def queue_completeLocked queue_dropForConversion queue_commitEdit)
  show "stranded (startBody now ref action c) \<subseteq> stranded c - {ref}"
    using rest(2,3) by (simp add: startBody_def Let_def stranded_completeLocked stranded_commitEdit)
qed

lemma queue_startLocked:
  assumes "queue_inv c" and "startable c ref"
  shows "queue_inv (startLocked now ref c)" and "stranded (startLocked now ref c) \<subseteq> stranded c - {ref}"
proof -
  from assms(2) obtain action where a: "getAction c ref = Some action" by (auto simp: startable_def)
  have "gget (c_owners (ownerLocked (rq_key action) c)) (rq_key action) \<noteq> None"
    by (auto simp: ownerLocked_def split: option.split)
  with queue_startBody [of "ownerLocked (rq_key action) c" ref action now] assms a
  show "queue_inv (startLocked now ref c)" and "stranded (startLocked now ref c) \<subseteq> stranded c - {ref}"
    by (simp_all add: startLocked_def queue_ranges)
qed


definition queue_ok :: "Coordinator \<Rightarrow> bool" where
  "queue_ok c \<longleftrightarrow> queue_inv c \<and> stranded c = {}"

lemma queue_ok_pending:
  assumes "queue_ok c" and "getAction c ref = Some a" and "att_State (rq_result a) = Pending"
  shows "rq_order a" and "rq_pending a \<longleftrightarrow> \<not> rq_converting a"
  using assms queue_inv_pending [of c ref a] by (auto simp: queue_ok_def stranded_def)

lemma queue_ok_advanceSection:
  assumes ok: "queue_ok c"
  shows "queue_ok (fst (advanceSection now ref c))"
proof (cases "getAction c ref")
  case None
  with ok show ?thesis by (simp add: advanceSection_def)
next
  case (Some a)
  have inv: "queue_inv c" and str: "stranded c = {}" using ok by (simp_all add: queue_ok_def)
  let ?c = "updAction ref (\<lambda>a. a\<lparr>rq_converting := False\<rparr>) c"
  have conv: "queue_ok (startLocked now ref ?c)" if "att_State (rq_result a) = Pending" "rq_converting a"
  proof -
    have "queue_inv ?c"
      using inv by (rule queue_inv_transfer)
        (use Some queue_ok_pending [OF ok Some] that in \<open>auto simp: frame_updAction stripAction_def getAction_updAction split: if_splits\<close>)
    moreover have "startable ?c ref"
      using Some queue_ok_pending [OF ok Some] that by (simp add: startable_def getAction_updAction)
    moreover have "stranded ?c \<subseteq> {ref}"
      using str by (auto simp: stranded_def getAction_updAction split: if_splits)
    ultimately show ?thesis
      using queue_startLocked [of ?c ref now] by (auto simp: queue_ok_def)
  qed
  have simple: "queue_ok (updAction ref (\<lambda>a. a\<lparr>rq_result := (rq_result a)\<lparr>att_Conflict := x\<rparr>\<rparr>) c)"
    "queue_ok (completeLocked now ref Rejected code c)" "queue_ok (commitEditLocked now ref key edit c)" for x code key edit
    using ok by (simp_all add: queue_ok_def queue_updAction stranded_updAction quiet_result queue_completeLocked
        stranded_completeLocked queue_commitEdit stranded_commitEdit)
  show ?thesis
    using ok Some conv simple by (simp add: advanceSection_def Let_def split: option.split)
qed

lemma queue_ok_advance: "queue_ok c \<Longrightarrow> queue_ok (fst (advance now ref answer c))"
  by (simp add: advance_def queue_ok_advanceSection split: option.split order_answer.split)

lemma queue_ok_dropLocked:
  assumes "queue_ok c"
  shows "queue_ok (dropLocked now key c)"
proof -
  have one: "queue_ok c' \<Longrightarrow> queue_ok (dropAction now key request c')" for request c'
    by (simp add: dropAction_def queue_ok_def queue_completeLocked stranded_completeLocked split: option.split AttemptState.split)
  have "queue_ok (case gget (c_owners c) key of None \<Rightarrow> c
      | Some _ \<Rightarrow> (case replaceLocked key [] c of None \<Rightarrow> c | Some c' \<Rightarrow> c'))"
    using assms by (simp add: replaceLocked_def queue_ok_def queue_ranges split: option.split)
  then have "queue_ok (fold (dropAction now key) ids (case gget (c_owners c) key of None \<Rightarrow> c
      | Some _ \<Rightarrow> (case replaceLocked key [] c of None \<Rightarrow> c | Some c' \<Rightarrow> c')))" for ids
    by (rule fold_preserves [rotated]) (rule one)
  then show ?thesis
    by (simp add: dropLocked_def Let_def queue_ok_def queue_ranges)
qed

section \<open>Everything the wakeups do is made of resumptions\<close>

text \<open>A property that every resumption keeps is kept by the wakeup loop.\<close>

lemma pump_preserves:
  assumes step: "\<And>c ref answer. P c \<Longrightarrow> P (fst (advance now ref answer c))" and "P c"
  shows "P (pump now env c)"
proof -
  have cand: "P c \<Longrightarrow> P (fst (pumpCandidates now e refs c))" for c e refs
    by (induction refs arbitrary: c) (auto simp: step split: pump_answer.split)
  have "P c \<Longrightarrow> P (pumpPasses left now env pass c)" for left pass c
  proof (induction left arbitrary: pass c)
    case (Suc left)
    then show ?case
      using cand [of c "env pass" "filter (readyLocked c) (c_waiting c)"]
      by (auto simp: Let_def split: prod.split)
  qed simp
  with \<open>P c\<close> show ?thesis unfolding pump_def by blast
qed

end
