(* ===== verification/RangeTable.thy ===== *)
theory RangeTable
  imports QueueInv
begin

text \<open>
  The promise of the coordinator about ranges, as a table of claims per owner with one
  transition, \<open>table_install\<close>, and its invariant \<open>table_inv\<close>: claims of
  rival owners that overlap are both shared, every owner's claims are well formed, and the
  counters and limits are exact. \<open>rangeView\<close> reads this table off a coordinator;
  \<open>installRangesLocked\<close> is \<open>table_install\<close> and nothing else changes it.
  The central lemma is that every draft is admissible (\<open>draft_ok_draftLocked\<close>).
\<close>

section \<open>The specification of a range table\<close>

definition compatible :: "rangeClaim \<Rightarrow> rangeClaim \<Rightarrow> bool" where
  "compatible x y \<longleftrightarrow>
     (overlaps (claimRange x) (claimRange y) \<longrightarrow> claimMode x = RangeShared \<and> claimMode y = RangeShared)"

definition claims_ok :: "ConflictDomain \<Rightarrow> rangeClaim list \<Rightarrow> bool" where
  "claims_ok domain ranges \<longleftrightarrow>
     (if domain = DomainEnforced then list_all (\<lambda>x. Range_Check (claimRange x) = None) ranges else table_ok ranges)"

definition exclusive :: "(ownerKey \<Rightarrow> rangeClaim list) \<Rightarrow> bool" where
  "exclusive h \<longleftrightarrow> (\<forall>a b. rivals a b \<longrightarrow> (\<forall>x\<in>set (h a). \<forall>y\<in>set (h b). compatible x y))"

definition admitted :: "(ownerKey \<Rightarrow> rangeClaim list) \<Rightarrow> ownerKey \<Rightarrow> rangeClaim list \<Rightarrow> bool" where
  "admitted h key ranges \<longleftrightarrow> (\<forall>other. rivals key other \<longrightarrow> (\<forall>y\<in>set (h other). \<forall>x\<in>set ranges. compatible y x))"

definition claimCount :: "(ownerKey \<Rightarrow> bool) \<Rightarrow> (ownerKey \<Rightarrow> rangeClaim list) \<Rightarrow> int" where
  "claimCount P h = (\<Sum>k | h k \<noteq> [] \<and> P k. int (length (h k)))"

definition table_inv :: "Config \<Rightarrow> (u64 \<Rightarrow> FileSessionOptions option)
    \<Rightarrow> (ownerKey \<Rightarrow> rangeClaim list) \<times> int \<times> (u64 \<Rightarrow> int option) \<Rightarrow> bool" where
  "table_inv config opts view \<longleftrightarrow> (case view of (h, amount, used) \<Rightarrow>
     finite {k. h k \<noteq> []} \<and> (\<forall>k. h k \<noteq> [] \<longrightarrow> used (key_session k) \<noteq> None)
     \<and> (\<forall>k. claims_ok (key_domain k) (h k)) \<and> exclusive h
     \<and> amount = claimCount (\<lambda>_. True) h \<and> amount \<le> MaxRanges config
     \<and> (\<forall>sid n. used sid = Some n \<longrightarrow> n = claimCount (\<lambda>k. key_session k = sid) h
           \<and> (\<exists>limits. opts sid = Some limits \<and> n \<le> fs_MaxLockRanges limits)))"

lemma rivals_sym: "rivals a b \<longleftrightarrow> rivals b a"
  by (auto simp: rivals_def)

lemma rivals_domain: "rivals a b \<Longrightarrow> key_domain b = key_domain a"
  by (simp add: rivals_def)

lemma claims_ok_Nil [simp]: "claims_ok domain []"
  by (simp add: claims_ok_def table_ok_def)

lemma compatible_sym:
  assumes "claims_ok domain xs" and "claims_ok domain ys" and "x \<in> set xs" and "y \<in> set ys" and "compatible x y"
  shows "compatible y x"
proof (cases "domain = DomainEnforced")
  case True
  with assms show ?thesis
    by (auto simp: compatible_def claims_ok_def list_all_iff overlaps_sym)
next
  case False
  with assms have "bytes_claim x" "bytes_claim y"
    by (auto simp: claims_ok_def table_ok_def list_all_iff)
  with assms(5) show ?thesis by (auto simp: compatible_def overlaps_iff)
qed

lemma claimCount_superset:
  assumes "finite A" and "\<And>k. h k \<noteq> [] \<Longrightarrow> P k \<Longrightarrow> k \<in> A"
  shows "claimCount P h = (\<Sum>k\<in>A. if P k then int (length (h k)) else 0)"
proof -
  have "claimCount P h = (\<Sum>k | h k \<noteq> [] \<and> P k. if P k then int (length (h k)) else 0)"
    unfolding claimCount_def by (rule sum.cong) auto
  also have "\<dots> = (\<Sum>k\<in>A. if P k then int (length (h k)) else 0)"
    using assms by (intro sum.mono_neutral_left) auto
  finally show ?thesis .
qed

lemma claimCount_upd:
  assumes "finite {k. h k \<noteq> []}"
  shows "claimCount P (h(key := ranges)) =
    claimCount P h + (if P key then int (length ranges) - int (length (h key)) else 0)"
proof -
  let ?A = "insert key {k. h k \<noteq> []}"
  have A: "finite ?A" using assms by simp
  have eq: "(\<Sum>k\<in>?A. if P k then int (length (g k)) else 0) =
      (if P key then int (length (g key)) else 0) + (\<Sum>k\<in>?A - {key}. if P k then int (length (g k)) else 0)" for g :: "ownerKey \<Rightarrow> rangeClaim list"
    using A by (subst sum.remove [of ?A key]) auto
  have "claimCount P (h(key := ranges)) = (\<Sum>k\<in>?A. if P k then int (length ((h(key := ranges)) k)) else 0)"
    by (rule claimCount_superset [OF A]) (auto split: if_splits)
  moreover have "claimCount P h = (\<Sum>k\<in>?A. if P k then int (length (h k)) else 0)"
    by (rule claimCount_superset [OF A]) auto
  moreover have "(\<Sum>k\<in>?A - {key}. if P k then int (length ((h(key := ranges)) k)) else 0) =
      (\<Sum>k\<in>?A - {key}. if P k then int (length (h k)) else 0)"
    by (rule sum.cong) auto
  ultimately show ?thesis using eq [of h] eq [of "h(key := ranges)"] by simp
qed

lemma exclusive_upd:
  assumes "exclusive h" and "admitted h key ranges" and "\<And>k. claims_ok (key_domain k) (h k)"
    and "claims_ok (key_domain key) ranges"
  shows "exclusive (h(key := ranges))"
  unfolding exclusive_def
proof (intro allI impI ballI)
  fix a b x y
  assume ab: "rivals a b" and x: "x \<in> set ((h(key := ranges)) a)" and y: "y \<in> set ((h(key := ranges)) b)"
  have ne: "a \<noteq> b" using ab by (auto simp: rivals_def)
  consider "a = key" | "b = key" | "a \<noteq> key" "b \<noteq> key" by blast
  then show "compatible x y"
  proof cases
    case 1
    with ab ne x y assms(2) have "compatible y x" and "y \<in> set (h b)" and "x \<in> set ranges"
      by (auto simp: admitted_def)
    with compatible_sym [OF assms(3) [of b], of ranges y x] assms(4) rivals_domain [OF ab] 1
    show ?thesis by simp
  next
    case 2
    with ab have "rivals key a" by (simp add: rivals_sym [of a])
    with 2 ne x y assms(2) show ?thesis by (auto simp: admitted_def)
  next
    case 3
    with ab x y assms(1) show ?thesis by (auto simp: exclusive_def)
  qed
qed

text \<open>The one transition of the table: an owner's claims are replaced.\<close>

definition table_install :: "ownerKey \<Rightarrow> rangeClaim list
    \<Rightarrow> (ownerKey \<Rightarrow> rangeClaim list) \<times> int \<times> (u64 \<Rightarrow> int option)
    \<Rightarrow> (ownerKey \<Rightarrow> rangeClaim list) \<times> int \<times> (u64 \<Rightarrow> int option)" where
  "table_install key ranges view = (case view of (h, amount, used) \<Rightarrow>
     let delta = int (length ranges) - int (length (h key))
     in (h(key := ranges), amount + delta,
         used(key_session key := map_option (\<lambda>n. n + delta) (used (key_session key)))))"

definition table_fits :: "Config \<Rightarrow> (u64 \<Rightarrow> FileSessionOptions option) \<Rightarrow> ownerKey \<Rightarrow> nat
    \<Rightarrow> (ownerKey \<Rightarrow> rangeClaim list) \<times> int \<times> (u64 \<Rightarrow> int option) \<Rightarrow> bool" where
  "table_fits config opts key fragments view = (case view of (h, amount, used) \<Rightarrow>
     (\<exists>limits n. opts (key_session key) = Some limits \<and> used (key_session key) = Some n
        \<and> int fragments - int (length (h key)) \<le> MaxRanges config - amount
        \<and> int fragments - int (length (h key)) \<le> fs_MaxLockRanges limits - n))"

lemma table_inv_install:
  assumes inv: "table_inv config opts view" and fits: "table_fits config opts key (length ranges) view"
    and adm: "admitted (fst view) key ranges" and ok: "claims_ok (key_domain key) ranges"
  shows "table_inv config opts (table_install key ranges view)"
proof -
  obtain h amount used where view: "view = (h, amount, used)" by (cases view)
  have fin: "finite {k. h k \<noteq> []}" using inv by (simp add: view table_inv_def)
  then have fin': "finite {k. (h(key := ranges)) k \<noteq> []}"
    by (rule finite_subset [rotated, OF finite.insertI [of _ key]]) auto
  have "exclusive (h(key := ranges))"
    using inv adm ok by (intro exclusive_upd) (auto simp: view table_inv_def)
  with inv fits ok fin fin' claimCount_upd [OF fin] show ?thesis
    by (fastforce simp: view table_inv_def table_install_def table_fits_def Let_def)
qed


section \<open>The coordinator's table\<close>

definition rangeView :: "Coordinator \<Rightarrow> (ownerKey \<Rightarrow> rangeClaim list) \<times> int \<times> (u64 \<Rightarrow> int option)" where
  "rangeView c = (held c, c_ranges c, \<lambda>sid. map_option s_ranges (gget (c_sessions c) sid))"

definition limitsOf :: "Coordinator \<Rightarrow> u64 \<Rightarrow> FileSessionOptions option" where
  "limitsOf c sid = map_option s_options (gget (c_sessions c) sid)"

definition range_inv :: "Coordinator \<Rightarrow> bool" where
  "range_inv c \<longleftrightarrow> distinct_keys (c_owners c) \<and> table_inv (c_config c) (limitsOf c) (rangeView c)"

lemma frame_limitsOf:
  assumes "frame c' = frame c"
  shows "limitsOf c' = limitsOf c"
proof
  fix sid
  from assms show "limitsOf c' sid = limitsOf c sid"
  proof (cases rule: frame_session_cases [where sid = sid])
    case (some s s')
    with stripSession_fields(2) [OF some(3)] show ?thesis by (simp add: limitsOf_def)
  qed (simp add: limitsOf_def)
qed

lemma range_inv_transfer:
  assumes "range_inv c" and "frame c' = frame c" and "rangeView c' = rangeView c"
    and "distinct_keys (c_owners c) \<Longrightarrow> distinct_keys (c_owners c')"
  shows "range_inv c'"
  using assms frame_limitsOf [OF assms(2)] frame_fields(1) [OF assms(2)] by (simp add: range_inv_def)

lemma fits_iff:
  assumes "gget (c_owners c) key \<noteq> None"
  shows "replacementFitsLocked c key n \<longleftrightarrow> table_fits (c_config c) (limitsOf c) key n (rangeView c)"
  using assms
  by (auto simp: replacementFitsLocked_def table_fits_def rangeView_def limitsOf_def held_def Let_def split: option.splits)

lemma rangeView_install:
  assumes "gget (c_owners c) key \<noteq> None"
  shows "rangeView (installRangesLocked key ranges c) = table_install key ranges (rangeView c)"
  using assms
  by (auto simp: rangeView_def table_install_def installRangesLocked_def updSession_def updOwner_def held_def Let_def fun_eq_iff
      option.map_comp comp_def split: option.splits)

lemma owners_distinct_install [simp]:
  "distinct_keys (c_owners (installRangesLocked key ranges c)) = distinct_keys (c_owners c)"
  by (simp add: installRangesLocked_def updOwner_def Let_def)

lemma range_inv_install:
  assumes inv: "range_inv c" and own: "gget (c_owners c) key \<noteq> None"
    and fits: "replacementFitsLocked c key (length ranges)"
    and adm: "admitted (held c) key ranges" and ok: "claims_ok (key_domain key) ranges"
  shows "range_inv (installRangesLocked key ranges c)"
proof -
  have fr: "frame (installRangesLocked key ranges c) = frame c" by simp
  have "table_inv (c_config c) (limitsOf c) (table_install key ranges (rangeView c))"
    using inv fits adm ok own by (intro table_inv_install) (auto simp: range_inv_def fits_iff rangeView_def)
  then show ?thesis
    using inv frame_limitsOf [OF fr] frame_fields(1) [OF fr] by (simp add: range_inv_def rangeView_install [OF own])
qed

lemma fits_mono: "replacementFitsLocked c key n \<Longrightarrow> m \<le> n \<Longrightarrow> replacementFitsLocked c key m"
  by (auto simp: replacementFitsLocked_def Let_def split: option.splits)

lemma fits_live:
  assumes "range_inv c" and "gget (c_owners c) key \<noteq> None" and "gget (c_sessions c) (key_session key) \<noteq> None"
    and "n \<le> length (held c key)"
  shows "replacementFitsLocked c key n"
proof -
  obtain st s where "gget (c_owners c) key = Some st" "gget (c_sessions c) (key_session key) = Some s"
    using assms(2,3) by auto
  with assms(1,4) show ?thesis
    by (fastforce simp: replacementFitsLocked_def range_inv_def table_inv_def rangeView_def limitsOf_def held_def Let_def)
qed


section \<open>Drafts\<close>

text \<open>A command that may be drafted for the owner.\<close>

definition command_ok :: "ownerKey \<Rightarrow> RangeCommand \<Rightarrow> bool" where
  "command_ok key command \<longleftrightarrow> RangeCommand_Check command = None \<and> cmd_Domain command = key_domain key
     \<and> (key_domain key \<noteq> DomainEnforced \<longrightarrow> rg_Kind (cmd_Range command) = Bytes)"

definition draft_ok :: "Coordinator \<Rightarrow> ownerKey \<Rightarrow> editResult \<Rightarrow> bool" where
  "draft_ok c key result \<longleftrightarrow>
     claims_ok (key_domain key) (ed_ranges result) \<and> claims_ok (key_domain key) (ed_releaseRanges result)
     \<and> admitted (held c) key (ed_ranges result) \<and> admitted (held c) key (ed_releaseRanges result)
     \<and> replacementFitsLocked c key (length (ed_releaseRanges result))
     \<and> (ed_rejected result = NoRejection \<longrightarrow> replacementFitsLocked c key (length (ed_ranges result)))"

lemma command_ok_bytes:
  assumes "command_ok key command" and "key_domain key \<noteq> DomainEnforced"
  shows "valid_bytes (cmd_Range command)"
  using assms Range_Check_valid_bytes RangeCommand_Check_None(1) by (auto simp: command_ok_def)

lemma claims_ok_replace:
  assumes "command_ok key command" and "cmd_Edit command = Replace \<or> cmd_Edit command = Subtract"
    and "claims_ok (key_domain key) ranges"
  shows "claims_ok (key_domain key) (replaceRanges ranges command)" and "key_domain key \<noteq> DomainEnforced"
proof -
  show dom: "key_domain key \<noteq> DomainEnforced"
    using assms(1,2) RangeCommand_Check_None(6) [of command] by (auto simp: command_ok_def)
  with assms command_ok_bytes [OF assms(1) dom] show "claims_ok (key_domain key) (replaceRanges ranges command)"
    by (auto simp: claims_ok_def intro: replaceRanges_ok)
qed

text \<open>Replacing or removing a range keeps a draft admissible when no rival blocks the range.\<close>

lemma admitted_replace:
  assumes inv: "range_inv c" and cmd: "command_ok key command"
    and edit: "cmd_Edit command = Replace \<or> cmd_Edit command = Subtract"
    and ok: "claims_ok (key_domain key) ranges" and adm: "admitted (held c) key ranges"
    and free: "cmd_Edit command = Replace \<Longrightarrow> \<not> cf_Found (conflictLocked c key command)"
  shows "admitted (held c) key (replaceRanges ranges command)"
  unfolding admitted_def
proof (intro allI impI ballI)
  fix other y x
  assume riv: "rivals key other" and y: "y \<in> set (held c other)" and x: "x \<in> set (replaceRanges ranges command)"
  note dom = claims_ok_replace(2) [OF cmd edit ok]
  have vb: "valid_bytes (cmd_Range command)" by (rule command_ok_bytes [OF cmd dom])
  have tab: "table_ok ranges" using ok dom by (simp add: claims_ok_def)
  have tab': "table_ok (replaceRanges ranges command)" by (rule replaceRanges_ok [OF vb tab])
  have "claims_ok (key_domain other) (held c other)"
    using inv by (simp add: range_inv_def table_inv_def rangeView_def)
  then have vy: "bytes_claim y"
    using y dom riv by (auto simp: claims_ok_def table_ok_def list_all_iff rivals_def)
  have vx: "bytes_claim x" using x tab' by (auto simp: table_ok_def list_all_iff)
  show "compatible y x"
    unfolding compatible_def
  proof
    assume "overlaps (claimRange y) (claimRange x)"
    then obtain b where b: "covers (claimRange y) b" "covers (claimRange x) b"
      using overlaps_common_byte [OF vy vx] by blast
    have "lock_at (replaceRanges ranges command) b = Some (claimMode x, claimPolicy x)"
      using lock_at_Some [OF tab'] x b by blast
    then consider (new) "covers (cmd_Range command) b" "cmd_Edit command = Replace" "claimMode x = cmd_Mode command"
      | (old) "lock_at ranges b = Some (claimMode x, claimPolicy x)"
      using edit unfolding replaceRanges_lock_at [OF vb tab] by (auto split: if_splits)
    then show "claimMode y = RangeShared \<and> claimMode x = RangeShared"
    proof cases
      case new
      then have "overlaps (claimRange y) (cmd_Range command)"
        using overlaps_common_byte [OF vy vb] b by blast
      moreover have "\<not> blocks y command"
        using free [OF new(2)] riv y inv by (auto simp: conflict_found_iff range_inv_def)
      ultimately show ?thesis using new(3) by (auto simp: blocks_def)
    next
      case old
      then obtain z where z: "z \<in> set ranges" "covers (claimRange z) b" "claimMode z = claimMode x"
        using lock_at_Some [OF tab] by auto
      have "bytes_claim z" using z(1) tab by (auto simp: table_ok_def list_all_iff)
      then have "overlaps (claimRange y) (claimRange z)"
        using overlaps_common_byte [OF vy] b(1) z(2) by blast
      with adm riv y z show ?thesis by (auto simp: admitted_def compatible_def)
    qed
  qed
qed


lemma set_deleteAt: "set (deleteAt i xs) \<subseteq> set xs"
  by (auto simp: deleteAt_def dest: in_set_takeD in_set_dropD)

lemma length_deleteAt: "length (deleteAt i xs) \<le> length xs"
  by (simp add: deleteAt_def)

lemma claims_ok_deleteAt:
  assumes "key_domain key = DomainEnforced" and "claims_ok (key_domain key) ranges"
  shows "claims_ok (key_domain key) (deleteAt i ranges)"
  using assms set_deleteAt [of i ranges] by (auto simp: claims_ok_def list_all_iff)

lemma admitted_subset: "admitted h key ranges \<Longrightarrow> set ranges' \<subseteq> set ranges \<Longrightarrow> admitted h key ranges'"
  by (auto simp: admitted_def)

lemma admitted_deleteAt: "admitted h key ranges \<Longrightarrow> admitted h key (deleteAt i ranges)"
  by (rule admitted_subset [OF _ set_deleteAt])

lemma admitted_add:
  assumes "range_inv c" and "admitted (held c) key ranges" and "\<not> cf_Found (conflictLocked c key command)"
  shows "admitted (held c) key (ranges @ [\<lparr>rc_id = claim, rc_command = settled command\<rparr>])"
  unfolding admitted_def
proof (intro allI impI ballI)
  fix other y x
  assume riv: "rivals key other" and y: "y \<in> set (held c other)"
    and "x \<in> set (ranges @ [\<lparr>rc_id = claim, rc_command = settled command\<rparr>])"
  then consider "x \<in> set ranges" | "x = \<lparr>rc_id = claim, rc_command = settled command\<rparr>" by auto
  then show "compatible y x"
  proof cases
    case 1
    with assms(2) riv y show ?thesis by (simp add: admitted_def)
  next
    case 2
    have "\<not> blocks y command"
      using assms(1,3) riv y by (auto simp: conflict_found_iff range_inv_def)
    with 2 show ?thesis by (auto simp: compatible_def blocks_def)
  qed
qed

lemma recordEffect_fields [simp]:
  "ed_ranges (recordEffect c key index effect r) = ed_ranges r"
  "ed_releaseRanges (recordEffect c key index effect r) = ed_releaseRanges r"
  by (simp_all add: recordEffect_def rejectDraft_def Let_def)

lemma recordEffect_fits:
  "ed_rejected (recordEffect c key index effect r) = NoRejection \<Longrightarrow> replacementFitsLocked c key (length (ed_ranges r))"
  by (simp add: recordEffect_def rejectDraft_def Let_def split: if_splits)

lemma rejectDraft_fields [simp]:
  "ed_ranges (rejectDraft code index r) = ed_ranges r"
  "ed_releaseRanges (rejectDraft code index r) = ed_releaseRanges r"
  "ed_rejected (rejectDraft code index r) = code"
  by (simp_all add: rejectDraft_def)

lemma draft_ok_command:
  assumes inv: "range_inv c" and cmd: "command_ok key command" and ok: "draft_ok c key r"
    and go: "ed_rejected r = NoRejection"
  shows "draft_ok c key (draftCommand c key request index command r)"
proof (cases "(cmd_Edit command = Replace \<or> cmd_Edit command = AddExact) \<and> cf_Found (conflictLocked c key command)")
  case True
  with ok go show ?thesis by (simp add: draftCommand_def Let_def draft_ok_def)
next
  case False
  note parts = ok [unfolded draft_ok_def]
  note replaced = admitted_replace [OF inv cmd] claims_ok_replace [OF cmd]
  show ?thesis
  proof (cases "cmd_Edit command")
    case Replace
    with False parts replaced show ?thesis
      by (auto simp: draftCommand_def Let_def draft_ok_def dest: recordEffect_fits)
  next
    case Subtract
    with False parts replaced go show ?thesis
      by (auto simp: draftCommand_def Let_def draft_ok_def dest: recordEffect_fits)
  next
    case AddExact
    have "key_domain key = DomainEnforced" and "Range_Check (cmd_Range command) = None"
      using cmd AddExact RangeCommand_Check_None(1,6) [of command] by (auto simp: command_ok_def)
    with AddExact False parts admitted_add [OF inv] show ?thesis
      by (auto simp: draftCommand_def Let_def draft_ok_def claims_ok_def dest: recordEffect_fits)
  next
    case RemoveExact
    have dom: "key_domain key = DomainEnforced"
      using cmd RemoveExact RangeCommand_Check_None(6) [of command] by (auto simp: command_ok_def)
    have rel: "replacementFitsLocked c key (length (deleteAt i (ed_releaseRanges r)))" for i
      using parts fits_mono length_deleteAt by blast
    from RemoveExact parts claims_ok_deleteAt [OF dom] admitted_deleteAt rel show ?thesis
      by (auto simp: draftCommand_def Let_def draft_ok_def split: option.split dest: recordEffect_fits)
  next
    case InvalidEdit
    with cmd RangeCommand_Check_None(4) [of command] show ?thesis by (simp add: command_ok_def)
  qed
qed

lemma draft_ok_loop:
  assumes "range_inv c" and "list_all (command_ok key) (map fst entries)" and "draft_ok c key r" and "ed_rejected r = NoRejection"
  shows "draft_ok c key (draftLoop c key request entries index r)"
  using assms
proof (induction c key request entries index r rule: draftLoop.induct)
  case (2 c key request command released rest index r)
  then show ?case using draft_ok_command [of c key command r request index] by (auto simp: Let_def)
qed simp

text \<open>What a request must satisfy for its draft to be admissible.\<close>

definition batch_ok :: "request \<Rightarrow> bool" where
  "batch_ok a \<longleftrightarrow> rq_commands a \<noteq> [] \<and> list_all (command_ok (rq_key a)) (rq_commands a)
     \<and> length (rq_released a) = length (rq_commands a)"

lemma draft_ok_draftLocked:
  assumes inv: "range_inv c" and own: "gget (c_owners c) (rq_key a) \<noteq> None"
    and live: "gget (c_sessions c) (key_session (rq_key a)) \<noteq> None" and batch: "batch_ok a"
  shows "draft_ok c (rq_key a) (draftLocked c a)"
proof -
  have "admitted (held c) (rq_key a) (held c (rq_key a))"
    unfolding admitted_def
  proof (intro allI impI ballI)
    fix other y x
    assume "rivals (rq_key a) other" and "y \<in> set (held c other)" and "x \<in> set (held c (rq_key a))"
    with inv show "compatible y x"
      by (auto simp: range_inv_def table_inv_def rangeView_def exclusive_def rivals_sym [of "rq_key a"])
  qed
  moreover have "claims_ok (key_domain (rq_key a)) (held c (rq_key a))"
    using inv by (simp add: range_inv_def table_inv_def rangeView_def)
  ultimately show ?thesis
    unfolding draftLocked_def Let_def
    using inv batch fits_live [OF inv own live]
    by (intro draft_ok_loop) (auto simp: draft_ok_def batch_ok_def)
qed


section \<open>Operations\<close>

text \<open>The claims of the owners and their counts do not change outside \<open>installRangesLocked\<close>.\<close>

lemma rangeView_fields [simp]:
  "rangeView (c\<lparr>c_waiting := w\<rparr>) = rangeView c"
  "rangeView (updAction ref f c) = rangeView c"
  "rangeView (updSession sid (\<lambda>s. s\<lparr>s_pending := g (s_pending s)\<rparr>) c) = rangeView c"
  "rangeView (updOwner key (\<lambda>st. st\<lparr>os_pending := g' (os_pending st)\<rparr>) c) = rangeView c"
  by (auto simp: rangeView_def updAction_def updSession_def updOwner_def held_def fun_eq_iff option.map_comp comp_def
      split: option.split)

lemma rangeView_owner [simp]:
  "rangeView (pruneOwnerLocked key c) = rangeView c"
  "rangeView (ownerLocked key c) = rangeView c"
  by (auto simp: rangeView_def pruneOwnerLocked_def ownerLocked_def held_def fun_eq_iff split: option.split)

lemma rangeView_dequeue [simp]: "rangeView (dequeueLocked ref key c) = rangeView c"
  using rangeView_fields(3) [of _ "\<lambda>n. n - 1"] rangeView_fields(4) [of _ "\<lambda>n. n - 1"]
  by (simp add: dequeueLocked_def)

lemma rangeView_enqueue [simp]: "rangeView (enqueueLocked ref key c) = rangeView c"
  using rangeView_fields(3) [of _ "\<lambda>n. n + 1"] rangeView_fields(4) [of _ "\<lambda>n. n + 1"]
  by (simp add: enqueueLocked_def)

lemma rangeView_completeLocked [simp]: "rangeView (completeLocked now ref state rejection c) = rangeView c"
  by (simp add: completeLocked_def Let_def split: option.split)

lemma rangeView_reconcile [simp]: "rangeView (reconcileRemovedClaimsLocked now key effects c) = rangeView c"
  unfolding reconcileRemovedClaimsLocked_def
  by (rule fold_invariant_eq) (simp add: reconcileOne_def split: option.split)

lemma owners_distinct [simp]:
  "distinct_keys (c_owners (updOwner key f c)) = distinct_keys (c_owners c)"
  "distinct_keys (c_owners c) \<Longrightarrow> distinct_keys (c_owners (pruneOwnerLocked key c))"
  "distinct_keys (c_owners c) \<Longrightarrow> distinct_keys (c_owners (ownerLocked key c))"
  by (auto simp: updOwner_def pruneOwnerLocked_def ownerLocked_def split: option.split)

lemma owners_distinct_complete:
  "distinct_keys (c_owners c) \<Longrightarrow> distinct_keys (c_owners (completeLocked now ref state rejection c))"
  by (simp add: completeLocked_def dequeueLocked_def Let_def split: option.split)

lemma owners_distinct_reconcile:
  "distinct_keys (c_owners c) \<Longrightarrow> distinct_keys (c_owners (reconcileRemovedClaimsLocked now key effects c))"
  unfolding reconcileRemovedClaimsLocked_def
  by (rule fold_preserves) (auto simp: reconcileOne_def owners_distinct_complete split: option.split)

lemma owners_distinct_enqueue: "distinct_keys (c_owners (enqueueLocked ref key c)) = distinct_keys (c_owners c)"
  by (simp add: enqueueLocked_def)

lemma range_updAction: "range_inv c \<Longrightarrow> (\<And>a. stripAction (f a) = stripAction a) \<Longrightarrow> range_inv (updAction ref f c)"
  by (erule range_inv_transfer) (simp_all add: frame_updAction)

lemma range_quiet: "range_inv c \<Longrightarrow> quiet f \<Longrightarrow> range_inv (updAction ref f c)"
  by (simp add: range_updAction quiet_def)

lemma range_simple:
  assumes "range_inv c"
  shows "range_inv (pruneOwnerLocked key c)" and "range_inv (ownerLocked key c)"
    and "range_inv (completeLocked now ref state rejection c)"
    and "range_inv (reconcileRemovedClaimsLocked now key effects c)"
    and "range_inv (enqueueLocked ref key c)"
  using assms
  by (auto intro!: range_inv_transfer [of c] simp: owners_distinct_complete owners_distinct_reconcile owners_distinct_enqueue)

lemma range_drop_all:
  assumes "range_inv c"
  shows "range_inv (case replaceLocked key [] c of None \<Rightarrow> c | Some c' \<Rightarrow> c')"
proof (cases "replacementFitsLocked c key 0")
  case True
  then have "gget (c_owners c) key \<noteq> None" by (auto simp: replacementFitsLocked_def split: option.splits)
  with True assms show ?thesis
    by (simp add: replaceLocked_def range_inv_install admitted_def)
qed (simp add: replaceLocked_def assms)

lemma range_prefix:
  assumes "range_inv c" and "gget (c_owners c) key \<noteq> None" and "draft_ok c key edit"
  shows "range_inv (commitReleasePrefixLocked now ref key edit c)"
  using assms
  by (simp add: commitReleasePrefixLocked_def range_simple range_quiet quiet_result range_inv_install draft_ok_def)

lemma range_commitEdit:
  assumes "range_inv c" and "gget (c_owners c) key \<noteq> None" and "draft_ok c key edit"
  shows "range_inv (commitEditLocked now ref key edit c)"
  using assms range_prefix [OF assms]
  by (auto simp: commitEditLocked_def replaceLocked_def range_simple range_quiet quiet_result range_inv_install draft_ok_def)

lemma range_startBody:
  assumes inv: "range_inv c" and own: "gget (c_owners c) (rq_key action) \<noteq> None"
    and live: "gget (c_sessions c) (key_session (rq_key action)) \<noteq> None" and batch: "batch_ok action"
  shows "range_inv (startBody now ref action c)"
proof -
  note draft = draft_ok_draftLocked [OF inv own live batch]
  have "range_inv (startRejected now ref action (draftLocked c action) c)"
    using range_prefix [OF inv own draft]
    by (simp add: startRejected_def rejectStart_def Let_def range_simple range_quiet quiet_result)
  moreover have "range_inv (dropForConversion ref (rq_key action) c)"
    using inv by (simp add: dropForConversion_def Let_def range_drop_all range_quiet quiet_result
        range_updAction stripAction_def)
  ultimately show ?thesis
    using range_commitEdit [OF inv own draft] inv by (simp add: startBody_def Let_def range_simple)
qed

lemma range_startLocked:
  assumes inv: "range_inv c" and a: "getAction c ref = Some action" "batch_ok action" "key_session (rq_key action) = fst ref"
  shows "range_inv (startLocked now ref c)"
proof -
  let ?c = "ownerLocked (rq_key action) c"
  have "gget (c_owners ?c) (rq_key action) \<noteq> None"
    by (auto simp: ownerLocked_def split: option.split)
  moreover have "gget (c_sessions ?c) (key_session (rq_key action)) \<noteq> None"
    using a by (auto simp: ownerLocked_def getAction_def split: option.splits)
  ultimately show ?thesis
    using inv a by (simp add: startLocked_def range_simple range_startBody)
qed


text \<open>Every stored request carries an admissible batch; the frame decides this.\<close>

definition batches_ok :: "Coordinator \<Rightarrow> bool" where
  "batches_ok c \<longleftrightarrow> (\<forall>ref a. getAction c ref = Some a \<longrightarrow> batch_ok a)"

lemma batches_ok_frame:
  assumes "frame c' = frame c" and "batches_ok c"
  shows "batches_ok c'"
  unfolding batches_ok_def
proof (intro allI impI)
  fix ref a' assume a': "getAction c' ref = Some a'"
  from assms(1) show "batch_ok a'"
  proof (cases rule: frame_action_cases [where ref = ref])
    case (some a b)
    then have "batch_ok a" using assms(2) by (auto simp: batches_ok_def)
    with some a' stripAction_fields [OF some(3)] show ?thesis by (simp add: batch_ok_def)
  qed (use a' in simp)
qed

definition tables_ok :: "Coordinator \<Rightarrow> bool" where
  "tables_ok c \<longleftrightarrow> queue_ok c \<and> range_inv c \<and> batches_ok c"

lemma keyed_queue: "queue_inv c \<Longrightarrow> getAction c ref = Some a \<Longrightarrow> key_session (rq_key a) = fst ref"
  by (simp add: queue_inv_def keyed_def)

lemma range_advanceSection:
  assumes ok: "tables_ok c"
  shows "range_inv (fst (advanceSection now ref c))"
proof (cases "getAction c ref")
  case None
  with ok show ?thesis by (simp add: advanceSection_def tables_ok_def)
next
  case (Some a)
  have inv: "range_inv c" and q: "queue_ok c" and qi: "queue_inv c" and b: "batch_ok a"
    using ok Some by (auto simp: tables_ok_def queue_ok_def batches_ok_def)
  let ?c = "updAction ref (\<lambda>a. a\<lparr>rq_converting := False\<rparr>) c"
  have "range_inv (startLocked now ref ?c)"
    by (rule range_startLocked [where action = "a\<lparr>rq_converting := False\<rparr>"])
      (use inv Some b keyed_queue [OF qi Some] in \<open>simp_all add: range_updAction stripAction_def getAction_updAction batch_ok_def\<close>)
  moreover have "range_inv (commitEditLocked now ref (rq_key a) (draftLocked c a) c)"
    if "att_State (rq_result a) = Pending" "\<not> rq_converting a"
  proof -
    have "ref \<in> set (c_waiting c)"
      using that queue_ok_pending [OF q Some] queue_inv_pending [OF qi Some] by simp
    from waiting_owner [OF qi this Some] keyed_queue [OF qi Some] inv b show ?thesis
      by (auto intro!: range_commitEdit draft_ok_draftLocked)
  qed
  ultimately show ?thesis
    using inv Some by (simp add: advanceSection_def Let_def range_simple range_quiet quiet_result split: option.split)
qed

lemma tables_ok_advance: "tables_ok c \<Longrightarrow> tables_ok (fst (advance now ref answer c))"
proof -
  assume ok: "tables_ok c"
  then have "range_inv (fst (advance now ref answer c))"
    using range_advanceSection by (auto simp: advance_def tables_ok_def split: option.split order_answer.split)
  with ok show ?thesis
    by (auto simp: tables_ok_def queue_ok_advance intro: batches_ok_frame [OF frame_advance])
qed

lemma tables_ok_advanceSection: "tables_ok c \<Longrightarrow> tables_ok (fst (advanceSection now ref c))"
  using range_advanceSection
  by (auto simp: tables_ok_def queue_ok_advanceSection intro: batches_ok_frame [OF frame_advanceSection])

lemma tables_ok_pump: "tables_ok c \<Longrightarrow> tables_ok (pump now env c)"
  by (rule pump_preserves) (rule tables_ok_advance)

lemma range_dropLocked:
  assumes "range_inv c"
  shows "range_inv (dropLocked now key c)"
proof -
  have "range_inv (fold (dropAction now key) ids c')" if "range_inv c'" for ids c'
    using that by (rule fold_preserves [rotated]) (simp add: dropAction_def range_simple split: option.split AttemptState.split)
  moreover have "range_inv (case gget (c_owners c) key of None \<Rightarrow> c
      | Some _ \<Rightarrow> (case replaceLocked key [] c of None \<Rightarrow> c | Some c' \<Rightarrow> c'))"
    using assms range_drop_all [OF assms, of key] by (simp split: option.split)
  ultimately show ?thesis by (simp add: dropLocked_def Let_def range_simple)
qed

lemma tables_ok_dropLocked: "tables_ok c \<Longrightarrow> tables_ok (dropLocked now key c)"
  by (auto simp: tables_ok_def queue_ok_dropLocked range_dropLocked intro: batches_ok_frame [OF frame_dropLocked])

lemma tables_ok_startLocked:
  assumes "queue_inv c" and "startable c ref" and "stranded c \<subseteq> {ref}" and "range_inv c" and "batches_ok c"
  shows "tables_ok (startLocked now ref c)"
proof -
  from assms(2) obtain a where a: "getAction c ref = Some a" by (auto simp: startable_def)
  with assms(5) have "batch_ok a" by (auto simp: batches_ok_def)
  from range_startLocked [OF assms(4) a this keyed_queue [OF assms(1) a]] queue_startLocked [OF assms(1,2), of now]
    batches_ok_frame [OF frame_startLocked assms(5)] assms(3)
  show ?thesis by (auto simp: tables_ok_def queue_ok_def)
qed

lemma tables_ok_complete:
  "tables_ok c \<Longrightarrow> state \<noteq> Pending \<Longrightarrow> tables_ok (completeLocked now ref state rejection c)"
  by (auto simp: tables_ok_def queue_ok_def queue_completeLocked stranded_completeLocked range_simple
      intro: batches_ok_frame [OF frame_completeLocked])

end
