(* ===== verification/SessionInv.thy ===== *)
theory SessionInv
  imports RangeTable
begin

text \<open>
  Sessions, stored requests and owner bindings. \<open>session_inv\<close> describes every session
  object, live or retired, and every stored request; \<open>budget_inv\<close> the coordinator's
  request, owner and session budgets; \<open>bound_inv\<close> says that the owner of every entry
  of the owner table and of every pending request is registered at a live session. Both
  survive every operation that keeps the frame.
\<close>

section \<open>Sessions and requests\<close>

definition action_ok :: "Config \<Rightarrow> u64 \<Rightarrow> Session \<Rightarrow> LockRequestID \<Rightarrow> request \<Rightarrow> bool" where
  "action_ok config sid s request a \<longleftrightarrow>
     rq_id a = request \<and> key_session (rq_key a) = sid \<and> batch_ok a \<and> checkCommands config (rq_commands a) = None
     \<and> Epoch request = Inr (rq_epoch a) \<and> rq_epoch a \<le> s_epoch s
     \<and> att_Request (rq_result a) = request \<and> att_Commands (rq_result a) = rq_commands a"

definition session_ok :: "Config \<Rightarrow> u64 \<Rightarrow> u64 \<times> Session \<Rightarrow> bool" where
  "session_ok config newest entry \<longleftrightarrow> (case entry of (sid, s) \<Rightarrow>
     s_id s = sid \<and> sid \<le> newest \<and> \<not> s_retired s \<and> (s_retireDone s \<longrightarrow> s_retiring s)
     \<and> FileSessionOptions_Check (s_options s) = None
     \<and> distinct_keys (s_actions s) \<and> distinct_keys (s_bindings s)
     \<and> s_owners s = int (length (s_bindings s))
     \<and> list_all (\<lambda>owner. 0 < owner \<and> owner \<le> s_nextOwner s) (map fst (s_bindings s))
     \<and> int (length (s_bindings s)) \<le> fs_MaxLockOwners (s_options s)
     \<and> int (length (s_actions s)) \<le> fs_MaxLockActions (s_options s)
     \<and> list_all (\<lambda>(request, a). action_ok config sid s request a) (s_actions s))"

definition retired_ok :: "u64 \<Rightarrow> u64 \<times> Session \<Rightarrow> bool" where
  "retired_ok newest entry \<longleftrightarrow> (case entry of (sid, s) \<Rightarrow>
     sid \<le> newest \<and> s_retired s \<and> s_actions s = [] \<and> s_bindings s = [])"

definition session_inv :: "Coordinator \<Rightarrow> bool" where
  "session_inv c \<longleftrightarrow> distinct_keys (c_sessions c) \<and> distinct_keys (c_retired c) \<and> distinct_keys (c_uses c)
     \<and> list_all (session_ok (c_config c) (c_nextSession c)) (c_sessions c)
     \<and> list_all (retired_ok (c_nextSession c)) (c_retired c)
     \<and> set (map fst (c_sessions c)) \<inter> set (map fst (c_retired c)) = {}"

definition budget_inv :: "Coordinator \<Rightarrow> bool" where
  "budget_inv c \<longleftrightarrow> Config_Check (c_config c) = None
     \<and> c_requests c = gsum (\<lambda>_ s. int (length (s_actions s))) (c_sessions c)
     \<and> c_registeredOwners c = gsum (\<lambda>_ s. int (length (s_bindings s))) (c_sessions c)
     \<and> c_requests c \<le> MaxRequests (c_config c)
     \<and> c_registeredOwners c + int (length (c_uses c)) \<le> MaxOwners (c_config c)
     \<and> int (length (c_sessions c)) \<le> MaxSessions (c_config c)"

lemma strip_fields [simp]:
  "rq_id (stripAction a) = rq_id a" "rq_key (stripAction a) = rq_key a" "rq_epoch (stripAction a) = rq_epoch a"
  "rq_commands (stripAction a) = rq_commands a" "batch_ok (stripAction a) = batch_ok a"
  "att_Request (rq_result (stripAction a)) = att_Request (rq_result a)"
  "att_Commands (rq_result (stripAction a)) = att_Commands (rq_result a)"
  by (simp_all add: stripAction_def stripAttempt_def batch_ok_def)

lemma strip_session_fields [simp]:
  "s_id (stripSession s) = s_id s" "s_options (stripSession s) = s_options s" "s_epoch (stripSession s) = s_epoch s"
  "s_bindings (stripSession s) = s_bindings s" "s_nextOwner (stripSession s) = s_nextOwner s"
  "s_owners (stripSession s) = s_owners s" "s_retiring (stripSession s) = s_retiring s"
  "s_retired (stripSession s) = s_retired s" "s_retireDone (stripSession s) = s_retireDone s"
  "s_actions (stripSession s) = map (map_prod id stripAction) (s_actions s)"
  by (simp_all add: stripSession_def)

lemma map_fst_map_prod [simp]: "map fst (map (map_prod id g) m) = map fst m"
  by (induction m) auto

lemma gsum_map_prod: "gsum w (map (map_prod id g) m) = gsum (\<lambda>k v. w k (g v)) m"
  by (induction m) auto

lemma action_ok_strip: "action_ok config sid (stripSession s) request (stripAction a) = action_ok config sid s request a"
  by (simp add: action_ok_def)

lemma session_ok_strip: "session_ok config newest (map_prod id stripSession entry) = session_ok config newest entry"
  by (cases entry) (simp add: session_ok_def list_all_length action_ok_strip case_prod_beta)

lemma session_inv_frame: "session_inv (frame c) = session_inv c"
  by (simp add: session_inv_def frame_def list_all_length session_ok_strip del: map_map)

lemma budget_inv_frame: "budget_inv (frame c) = budget_inv c"
  by (simp add: budget_inv_def frame_def gsum_map_prod)

lemma session_inv_transfer: "frame c' = frame c \<Longrightarrow> session_inv c' = session_inv c"
  by (metis session_inv_frame)

lemma budget_inv_transfer: "frame c' = frame c \<Longrightarrow> budget_inv c' = budget_inv c"
  by (metis budget_inv_frame)

lemma session_inv_get:
  assumes "session_inv c" and "gget (c_sessions c) sid = Some s"
  shows "session_ok (c_config c) (c_nextSession c) (sid, s)"
  using assms gget_in_set [OF assms(2)] by (auto simp: session_inv_def list_all_iff)

lemma action_ok_get:
  assumes "session_inv c" and "gget (c_sessions c) sid = Some s" and "gget (s_actions s) request = Some a"
  shows "action_ok (c_config c) sid s request a"
  using session_inv_get [OF assms(1,2)] gget_in_set [OF assms(3)] by (auto simp: session_ok_def list_all_iff)

lemma session_inv_keyed:
  assumes "session_inv c"
  shows "keyed c" and "batches_ok c"
  using action_ok_get [OF assms]
  by (auto simp: keyed_def batches_ok_def getAction_def action_ok_def split: option.splits)

section \<open>Bindings of owners\<close>

definition bound :: "Coordinator \<Rightarrow> ownerKey \<Rightarrow> bool" where
  "bound c key \<longleftrightarrow> key_domain key \<noteq> InvalidDomain
     \<and> (\<exists>s b. gget (c_sessions c) (key_session key) = Some s \<and> gget (s_bindings s) (key_owner key) = Some b
          \<and> bind_node b = key_node key)"

definition ownerKeys :: "Coordinator \<Rightarrow> ownerKey set" where
  "ownerKeys c = {key. gget (c_owners c) key \<noteq> None}"

definition pendingRefs :: "Coordinator \<Rightarrow> actref set" where
  "pendingRefs c = {ref. \<exists>a. getAction c ref = Some a \<and> att_State (rq_result a) = Pending}"

definition bound_inv :: "Coordinator \<Rightarrow> bool" where
  "bound_inv c \<longleftrightarrow> (\<forall>key\<in>ownerKeys c. bound c key)
     \<and> (\<forall>ref\<in>pendingRefs c. \<forall>a. getAction c ref = Some a \<longrightarrow> bound c (rq_key a))"

lemma bound_frame:
  assumes "frame c' = frame c"
  shows "bound c' key = bound c key"
  using assms
proof (cases rule: frame_session_cases [where sid = "key_session key"])
  case (some s s')
  with stripSession_fields(5) [OF some(3)] show ?thesis by (simp add: bound_def)
qed (simp add: bound_def)

text \<open>An operation that keeps the frame may add the entry of a bound owner, and may only
  settle requests.\<close>

lemma bound_inv_step:
  assumes "bound_inv c" and "frame c' = frame c" and "ownerKeys c' \<subseteq> ownerKeys c \<union> {key. bound c key}"
    and "pendingRefs c' \<subseteq> pendingRefs c"
  shows "bound_inv c'"
proof -
  have "bound c (rq_key a')" if "ref \<in> pendingRefs c'" "getAction c' ref = Some a'" for ref a'
  proof -
    from that assms(4) obtain a where "getAction c ref = Some a" "ref \<in> pendingRefs c"
      by (auto simp: pendingRefs_def)
    moreover from this frame_action_key [OF assms(2), of ref] that(2) have "rq_key a' = rq_key a" by simp
    ultimately show ?thesis using assms(1) by (auto simp: bound_inv_def)
  qed
  with assms(1,3) show ?thesis
    by (auto simp: bound_inv_def bound_frame [OF assms(2)])
qed

section \<open>Entries and pending requests under the range operations\<close>

lemma ownerKeys_fields [simp]:
  "ownerKeys (updAction ref f c) = ownerKeys c"
  "ownerKeys (updSession sid g c) = ownerKeys c"
  "ownerKeys (updOwner key h c) = ownerKeys c"
  "ownerKeys (c\<lparr>c_waiting := w\<rparr>) = ownerKeys c"
  "ownerKeys (installRangesLocked key ranges c) = ownerKeys c"
  by (auto simp: ownerKeys_def updOwner_def installRangesLocked_def Let_def)

lemma ownerKeys_prune: "ownerKeys (pruneOwnerLocked key c) \<subseteq> ownerKeys c"
  by (auto simp: ownerKeys_def pruneOwnerLocked_def split: option.splits)

lemma ownerKeys_ownerLocked: "ownerKeys (ownerLocked key c) = insert key (ownerKeys c)"
  by (auto simp: ownerKeys_def ownerLocked_def split: option.splits)

lemma ownerKeys_complete: "ownerKeys (completeLocked now ref state rejection c) \<subseteq> ownerKeys c"
  by (auto simp: completeLocked_def dequeueLocked_def Let_def split: option.split dest: set_mp [OF ownerKeys_prune])

lemma fold_decreases: "(\<And>x c. g (f x c) \<subseteq> g c) \<Longrightarrow> g (fold f xs c) \<subseteq> g c"
  by (induction xs arbitrary: c) (auto, blast)

lemma ownerKeys_reconcile: "ownerKeys (reconcileRemovedClaimsLocked now key effects c) \<subseteq> ownerKeys c"
  unfolding reconcileRemovedClaimsLocked_def
  by (rule fold_decreases) (simp add: reconcileOne_def ownerKeys_complete split: option.split)

lemma ownerKeys_replace: "replaceLocked key ranges c = Some c' \<Longrightarrow> ownerKeys c' = ownerKeys c"
  by (auto simp: replaceLocked_def split: if_splits)

lemma ownerKeys_prefix: "ownerKeys (commitReleasePrefixLocked now ref key edit c) \<subseteq> ownerKeys c"
  unfolding commitReleasePrefixLocked_def by (auto dest: set_mp [OF ownerKeys_reconcile])

lemma ownerKeys_commitEdit: "ownerKeys (commitEditLocked now ref key edit c) \<subseteq> ownerKeys c"
proof (cases "replaceLocked key (ed_ranges edit) c")
  case None
  then show ?thesis
    using ownerKeys_prefix ownerKeys_complete unfolding commitEditLocked_def by (simp, blast)
next
  case (Some c')
  have "ownerKeys (commitEditLocked now ref key edit c) \<subseteq> ownerKeys c'"
    using Some ownerKeys_reconcile ownerKeys_complete
    unfolding commitEditLocked_def by (simp, metis (no_types, lifting) ownerKeys_fields(1) order_trans)
  with ownerKeys_replace [OF Some] show ?thesis by simp
qed

lemma ownerKeys_startLocked:
  assumes "getAction c ref = Some a"
  shows "ownerKeys (startLocked now ref c) \<subseteq> insert (rq_key a) (ownerKeys c)"
proof -
  have rej: "ownerKeys (rejectStart now ref edit code c') \<subseteq> ownerKeys c'" for edit code c'
    using ownerKeys_complete unfolding rejectStart_def by (metis ownerKeys_fields(1))
  have enq: "ownerKeys (enqueueLocked ref key c') = ownerKeys c'" for key c'
    by (simp add: enqueueLocked_def)
  have "ownerKeys (startRejected now ref action edit c') \<subseteq> ownerKeys c'" for action edit c'
    using rej ownerKeys_prefix
    unfolding startRejected_def Let_def by (simp add: enq) (metis (no_types, lifting) ownerKeys_fields(1) order_trans)
  moreover have "ownerKeys (dropForConversion ref key c') = ownerKeys c'" for key c'
    by (auto simp: dropForConversion_def Let_def dest: ownerKeys_replace split: option.split)
  ultimately have "ownerKeys (startBody now ref action c') \<subseteq> ownerKeys c'" for action c'
    by (simp add: startBody_def Let_def ownerKeys_complete ownerKeys_commitEdit)
  then show ?thesis
    using assms ownerKeys_prune ownerKeys_ownerLocked by (simp add: startLocked_def) (metis order_trans)
qed


lemma pendingRefs_fields [simp]:
  "pendingRefs (pruneOwnerLocked key c) = pendingRefs c"
  "pendingRefs (ownerLocked key c) = pendingRefs c"
  "pendingRefs (installRangesLocked key ranges c) = pendingRefs c"
  "pendingRefs (enqueueLocked ref key c) = pendingRefs c"
  by (auto simp: pendingRefs_def enqueueLocked_def getAction_updSession getAction_updAction split: if_splits)

lemma pendingRefs_updAction:
  "(\<And>a. att_State (rq_result (f a)) = att_State (rq_result a)) \<Longrightarrow> pendingRefs (updAction ref f c) = pendingRefs c"
  by (auto simp: pendingRefs_def getAction_updAction split: if_splits)

lemma pendingRefs_complete: "state \<noteq> Pending \<Longrightarrow> pendingRefs (completeLocked now ref state rejection c) = pendingRefs c - {ref}"
  by (auto simp: pendingRefs_def getAction_completeLocked split: if_splits)

lemma pendingRefs_reconcile: "pendingRefs (reconcileRemovedClaimsLocked now key effects c) \<subseteq> pendingRefs c"
  unfolding reconcileRemovedClaimsLocked_def
  by (rule fold_decreases) (auto simp: reconcileOne_def pendingRefs_complete split: option.split)

lemma pendingRefs_prefix: "pendingRefs (commitReleasePrefixLocked now ref key edit c) \<subseteq> pendingRefs c"
  unfolding commitReleasePrefixLocked_def
  by (auto simp: pendingRefs_updAction dest: set_mp [OF pendingRefs_reconcile])

lemma pendingRefs_commitEdit: "pendingRefs (commitEditLocked now ref key edit c) \<subseteq> pendingRefs c"
  unfolding commitEditLocked_def replaceLocked_def
  by (auto simp: pendingRefs_complete pendingRefs_updAction dest: set_mp [OF pendingRefs_reconcile] set_mp [OF pendingRefs_prefix])

lemma pendingRefs_startLocked: "pendingRefs (startLocked now ref c) \<subseteq> pendingRefs c"
proof -
  have "pendingRefs (startRejected now ref action edit c') \<subseteq> pendingRefs c'" for action edit c'
    unfolding startRejected_def rejectStart_def Let_def
    by (auto simp: pendingRefs_complete pendingRefs_updAction dest: set_mp [OF pendingRefs_prefix])
  moreover have "pendingRefs (dropForConversion ref key c') = pendingRefs c'" for key c'
    by (simp add: dropForConversion_def replaceLocked_def Let_def pendingRefs_updAction)
  ultimately have "pendingRefs (startBody now ref action c') \<subseteq> pendingRefs c'" for action c'
    by (auto simp: startBody_def Let_def pendingRefs_complete dest: set_mp [OF pendingRefs_commitEdit])
  then show ?thesis by (simp add: startLocked_def split: option.split) (metis pendingRefs_fields(2))
qed

lemma checkOwner_bound:
  assumes "active c sid = None" and "checkOwnerLocked c sid node owner = None" and "session_inv c"
    and "domain \<noteq> InvalidDomain"
  shows "bound c (keyOf sid node owner domain)"
proof -
  obtain b where b: "bindingOf c sid owner = Some b" "bind_node b = node"
    using assms(2) by (auto simp: checkOwnerLocked_def split: option.splits)
  have "gget (c_sessions c) sid \<noteq> None"
  proof
    assume none: "gget (c_sessions c) sid = None"
    with b obtain s where s: "gget (c_retired c) sid = Some s"
      by (auto simp: bindingOf_def sessionObj_def split: option.splits)
    then have "retired_ok (c_nextSession c) (sid, s)"
      using assms(3) gget_in_set [OF s] by (auto simp: session_inv_def list_all_iff)
    with b none s show False by (simp add: bindingOf_def sessionObj_def retired_ok_def)
  qed
  with b assms(4) show ?thesis by (auto simp: bound_def keyOf_def bindingOf_def sessionObj_def)
qed

lemma bound_advanceSection:
  assumes inv: "bound_inv c"
  shows "bound_inv (fst (advanceSection now ref c))"
proof (cases "getAction c ref")
  case None
  with inv show ?thesis by (simp add: advanceSection_def)
next
  case (Some a)
  let ?c' = "fst (advanceSection now ref c)"
  let ?c = "updAction ref (\<lambda>a. a\<lparr>rq_converting := False\<rparr>) c"
  have a: "getAction ?c ref = Some (a\<lparr>rq_converting := False\<rparr>)" using Some by (simp add: getAction_updAction)
  have own: "ownerKeys ?c' \<subseteq> ownerKeys c \<union> (if att_State (rq_result a) = Pending then {rq_key a} else {})"
    using Some ownerKeys_startLocked [OF a, of now]
    by (auto simp: advanceSection_def Let_def split: option.splits if_splits
        dest: set_mp [OF ownerKeys_complete] set_mp [OF ownerKeys_commitEdit])
  moreover have "pendingRefs ?c' \<subseteq> pendingRefs c"
    using Some pendingRefs_startLocked [of now ref ?c]
    by (auto simp: advanceSection_def Let_def pendingRefs_complete pendingRefs_updAction split: option.splits if_splits
        dest: set_mp [OF pendingRefs_commitEdit])
  moreover have "att_State (rq_result a) = Pending \<Longrightarrow> bound c (rq_key a)"
    using inv Some by (auto simp: bound_inv_def pendingRefs_def)
  ultimately show ?thesis
    by (intro bound_inv_step [OF inv]) (auto split: if_splits)
qed

lemma bound_advance: "bound_inv c \<Longrightarrow> bound_inv (fst (advance now ref answer c))"
  by (simp add: advance_def bound_advanceSection split: option.split order_answer.split)

lemma bound_complete:
  "bound_inv c \<Longrightarrow> state \<noteq> Pending \<Longrightarrow> bound_inv (completeLocked now ref state rejection c)"
  by (rule bound_inv_step [of c]) (auto simp: pendingRefs_complete dest: set_mp [OF ownerKeys_complete])

lemma bound_dropLocked:
  assumes "bound_inv c"
  shows "bound_inv (dropLocked now key c)"
proof -
  have one: "bound_inv c' \<Longrightarrow> bound_inv (dropAction now key request c')" for request c'
    by (simp add: dropAction_def bound_complete split: option.split AttemptState.split)
  have "bound_inv (installRangesLocked key ranges c')" if "bound_inv c'" for ranges c'
    using that by (rule bound_inv_step) auto
  then have "bound_inv (case gget (c_owners c) key of None \<Rightarrow> c
      | Some _ \<Rightarrow> (case replaceLocked key [] c of None \<Rightarrow> c | Some c' \<Rightarrow> c'))"
    using assms by (simp add: replaceLocked_def split: option.split)
  then have "bound_inv (fold (dropAction now key) ids (case gget (c_owners c) key of None \<Rightarrow> c
      | Some _ \<Rightarrow> (case replaceLocked key [] c of None \<Rightarrow> c | Some c' \<Rightarrow> c')))" for ids
    by (rule fold_preserves [rotated]) (rule one)
  moreover have "bound_inv (pruneOwnerLocked key c')" if "bound_inv c'" for c'
    using that by (rule bound_inv_step) (auto dest: set_mp [OF ownerKeys_prune])
  ultimately show ?thesis by (simp add: dropLocked_def Let_def)
qed

end
