(* ===== verification/CoordInv.thy ===== *)
theory CoordInv
  imports SessionInv
begin

text \<open>
  The invariant of the advisory coordinator as a whole, \<open>coord_inv\<close>, and the
  proof that every critical section of \<open>packages/advisory\<close> keeps it: creating
  sessions and owners, pruning history, registering, advancing, pumping and
  cancelling requests, dropping owners, retiring sessions and the use table.
\<close>

section \<open>The invariant of a coordinator\<close>

definition coord_inv :: "Coordinator \<Rightarrow> bool" where
  "coord_inv c \<longleftrightarrow> session_inv c \<and> budget_inv c \<and> tables_ok c \<and> bound_inv c"

lemma queue_same:
  assumes "getAction c' = getAction c" and "c_waiting c' = c_waiting c" and "c_owners c' = c_owners c"
    and "sessionPending c' = sessionPending c"
  shows "queue_ok c' = queue_ok c" and "batches_ok c' = batches_ok c"
proof -
  have "ownerPending c' = ownerPending c" using assms(3) by (simp add: ownerPending_def fun_eq_iff)
  with assms show "queue_ok c' = queue_ok c" and "batches_ok c' = batches_ok c"
    by (simp_all add: queue_ok_def queue_inv_def stranded_def batches_ok_def keyed_def waitingOn_def)
qed

lemma tables_ok_same:
  assumes "getAction c' = getAction c" and "c_waiting c' = c_waiting c" and "c_owners c' = c_owners c"
    and "sessionPending c' = sessionPending c" and "rangeView c' = rangeView c" and "limitsOf c' = limitsOf c"
    and "c_config c' = c_config c"
  shows "tables_ok c' = tables_ok c"
  using assms queue_same [OF assms(1-4)] by (simp add: tables_ok_def range_inv_def)

text \<open>Changes of a session that do not touch its requests, ranges, waiters or limits.\<close>

definition inert :: "(Session \<Rightarrow> Session) \<Rightarrow> bool" where
  "inert f \<longleftrightarrow> (\<forall>s. s_actions (f s) = s_actions s \<and> s_ranges (f s) = s_ranges s
     \<and> s_pending (f s) = s_pending s \<and> s_options (f s) = s_options s)"

lemma tables_ok_inert:
  assumes "inert f"
  shows "tables_ok (updSession sid f c) = tables_ok c"
  using assms
  by (intro tables_ok_same)
    (auto simp: inert_def getAction_def rangeView_def limitsOf_def sessionPending_def updSession_def held_def
      fun_eq_iff option.map_comp comp_def split: option.split)

lemma tables_ok_fields [simp]:
  "tables_ok (c\<lparr>c_registeredOwners := n\<rparr>) = tables_ok c"
  "tables_ok (c\<lparr>c_requests := n\<rparr>) = tables_ok c"
  "tables_ok (c\<lparr>c_uses := u\<rparr>) = tables_ok c"
  "tables_ok (c\<lparr>c_retired := r\<rparr>) = tables_ok c"
  "tables_ok (c\<lparr>c_materializedBytes := b\<rparr>) = tables_ok c"
  "tables_ok (c\<lparr>c_materializations := b\<rparr>) = tables_ok c"
  by (intro tables_ok_same; simp add: getAction_def rangeView_def limitsOf_def sessionPending_def held_def fun_eq_iff)+

lemma bound_inv_fields [simp]:
  "bound_inv (c\<lparr>c_registeredOwners := n\<rparr>) = bound_inv c"
  "bound_inv (c\<lparr>c_requests := n\<rparr>) = bound_inv c"
  "bound_inv (c\<lparr>c_uses := u\<rparr>) = bound_inv c"
  "bound_inv (c\<lparr>c_retired := r\<rparr>) = bound_inv c"
  "bound_inv (c\<lparr>c_materializedBytes := b\<rparr>) = bound_inv c"
  "bound_inv (c\<lparr>c_materializations := b\<rparr>) = bound_inv c"
  by (simp_all add: bound_inv_def bound_def ownerKeys_def pendingRefs_def getAction_def)

lemma session_inv_updSession:
  assumes "session_inv c"
    and "\<And>s. gget (c_sessions c) sid = Some s \<Longrightarrow> session_ok (c_config c) (c_nextSession c) (sid, f s)"
  shows "session_inv (updSession sid f c)"
proof -
  have d: "distinct_keys (c_sessions c)" using assms(1) by (simp add: session_inv_def)
  have "list_all (session_ok (c_config c) (c_nextSession c)) (gupd sid f (c_sessions c))"
    using assms(1) assms(2) by (auto simp: session_inv_def gupd_def list_all_iff in_set_gget [OF d])
  with assms(1) show ?thesis by (simp add: session_inv_def updSession_def)
qed

lemma gsum_updSession:
  assumes "session_inv c"
  shows "gsum w (c_sessions (updSession sid f c)) =
    gsum w (c_sessions c) + (case gget (c_sessions c) sid of None \<Rightarrow> 0 | Some s \<Rightarrow> w sid (f s) - w sid s)"
  using assms by (simp add: updSession_def gsum_gupd session_inv_def)

lemma bound_inv_inert:
  assumes "bound_inv c" and "inert f"
    and "\<And>s owner b. gget (c_sessions c) sid = Some s \<Longrightarrow> gget (s_bindings s) owner = Some b \<Longrightarrow>
        gget (s_bindings (f s)) owner = Some b"
  shows "bound_inv (updSession sid f c)"
proof -
  have "bound c key \<Longrightarrow> bound (updSession sid f c) key" for key
    using assms(3) by (auto simp: bound_def updSession_def split: if_splits)
  moreover have "getAction (updSession sid f c) = getAction c"
    using assms(2) by (simp add: inert_def getAction_updSession fun_eq_iff)
  ultimately show ?thesis using assms(1) by (simp add: bound_inv_def pendingRefs_def)
qed

section \<open>Construction\<close>

lemma coord_inv_New: "New config = Inr c \<Longrightarrow> coord_inv c"
proof -
  assume new: "New config = Inr c"
  then have cfg: "Config_Check config = None" by (simp add: New_def split: option.splits)
  then have "0 < MaxRanges config" "0 < MaxRequests config" "0 < MaxOwners config" "0 < MaxSessions config"
    by (auto simp: Config_Check_def)
  with new cfg show ?thesis
    by (auto simp: New_def coord_inv_def session_inv_def budget_inv_def tables_ok_def queue_ok_def queue_inv_def keyed_def
        stranded_def range_inv_def table_inv_def rangeView_def held_def getAction_def ownerPending_def sessionPending_def
        waitingOn_def exclusive_def claimCount_def batches_ok_def bound_inv_def ownerKeys_def pendingRefs_def)
qed

lemma coord_inv_NewSession:
  assumes inv: "coord_inv c"
  shows "coord_inv (fst (NewSession now options hasFence c))"
proof (cases "FileSessionOptions_Check options = None \<and> hasFence
    \<and> int (length (c_sessions c)) < MaxSessions (c_config c) \<and> c_nextSession c \<noteq> MaxUint64")
  case False
  with inv show ?thesis by (auto simp: NewSession_def split: option.split)
next
  case True
  let ?sid = "c_nextSession c + 1"
  define s where "s = \<lparr>s_id = ?sid, s_options = options, s_epoch = 1,
                     s_epochUntil = now + fs_History options, s_actions = [], s_bindings = [],
                     s_nextOwner = 0, s_owners = 0, s_ranges = 0, s_pending = 0,
                     s_retiring = False, s_retired = False, s_retireDone = False, s_retireErr = None\<rparr>"
  let ?c = "c\<lparr>c_nextSession := ?sid, c_sessions := gput ?sid s (c_sessions c)\<rparr>"
  have eq: "fst (NewSession now options hasFence c) = ?c"
    using True by (simp add: NewSession_def Let_def s_def)
  have above: "sid < ?sid" if "sid \<le> c_nextSession c" for sid
    using True that by (intro word_Suc_fresh) simp_all
  have si: "session_inv c" using inv by (simp add: coord_inv_def)
  have old: "\<And>sid s. gget (c_sessions c) sid = Some s \<Longrightarrow> sid \<le> c_nextSession c"
    using session_inv_get [OF si] by (auto simp: session_ok_def)
  have fresh: "gget (c_sessions c) ?sid = None"
    using old [of ?sid] above [of ?sid] by (cases "gget (c_sessions c) ?sid") auto
  have act: "getAction ?c = getAction c"
    using fresh by (auto simp: fun_eq_iff getAction_def s_def split: option.split)
  have pend: "sessionPending ?c = sessionPending c"
    using fresh by (auto simp: fun_eq_iff sessionPending_def s_def split: option.split)
  have fresh_retired: "?sid \<notin> set (map fst (c_retired c))"
    using si above [of ?sid] by (fastforce simp: session_inv_def list_all_iff retired_ok_def)
  have grow: "list_all (session_ok (c_config c) ?sid) (c_sessions c)" "list_all (retired_ok ?sid) (c_retired c)"
    using si above by (fastforce simp: session_inv_def list_all_iff session_ok_def retired_ok_def dest: less_imp_le)+
  have put: "gput ?sid s (c_sessions c) = c_sessions c @ [(?sid, s)]"
    using fresh by (simp add: gput_new gget_eq_None)
  have "session_ok (c_config c) ?sid (?sid, s)"
    using True by (simp add: session_ok_def s_def FileSessionOptions_Check_def)
  then have "session_inv ?c"
    using si grow fresh fresh_retired by (auto simp: session_inv_def put gget_eq_None)
  moreover have "s_actions s = []" "s_bindings s = []" by (simp_all add: s_def)
  then have "budget_inv ?c"
    using inv True by (simp add: coord_inv_def budget_inv_def put)
  moreover have "bound_inv ?c"
  proof -
    have "bound c key \<Longrightarrow> bound ?c key" for key
      using fresh by (auto simp: bound_def)
    then show ?thesis using inv act by (simp add: coord_inv_def bound_inv_def pendingRefs_def ownerKeys_def)
  qed
  moreover have "range_inv ?c"
  proof -
    have empty: "held c key = []" if "key_session key = ?sid" for key
      using inv fresh that by (auto simp: coord_inv_def tables_ok_def range_inv_def table_inv_def rangeView_def)
    then have "claimCount (\<lambda>k. key_session k = ?sid) (held c) = 0"
      unfolding claimCount_def by (intro sum.neutral) auto
    moreover have "0 \<le> fs_MaxLockRanges options" using True by (simp add: FileSessionOptions_Check_def)
    moreover have "held ?c = held c" by (simp add: held_def fun_eq_iff)
    ultimately show ?thesis
      using inv by (auto simp: coord_inv_def tables_ok_def range_inv_def table_inv_def rangeView_def limitsOf_def s_def)
  qed
  moreover have "queue_ok ?c \<and> batches_ok ?c"
    using inv queue_same [of ?c c] act pend by (simp add: coord_inv_def tables_ok_def)
  ultimately show ?thesis by (simp add: eq coord_inv_def tables_ok_def)
qed

lemma coord_inv_frameI:
  assumes "coord_inv c" and "frame c' = frame c" and "tables_ok c'" and "bound_inv c'"
  shows "coord_inv c'"
  using assms session_inv_transfer [OF assms(2)] budget_inv_transfer [OF assms(2)] by (simp add: coord_inv_def)

lemma coord_inv_advance: "coord_inv c \<Longrightarrow> coord_inv (fst (advance now ref answer c))"
  by (rule coord_inv_frameI) (auto simp: coord_inv_def tables_ok_advance bound_advance)

lemma coord_inv_advanceSection: "coord_inv c \<Longrightarrow> coord_inv (fst (advanceSection now ref c))"
  by (rule coord_inv_frameI) (auto simp: coord_inv_def tables_ok_advanceSection bound_advanceSection)

lemma coord_inv_pump: "coord_inv c \<Longrightarrow> coord_inv (pump now env c)"
  by (rule pump_preserves) (rule coord_inv_advance)

lemma coord_inv_dropLocked: "coord_inv c \<Longrightarrow> coord_inv (dropLocked now key c)"
  by (rule coord_inv_frameI) (auto simp: coord_inv_def tables_ok_dropLocked bound_dropLocked)

lemma coord_inv_complete:
  "coord_inv c \<Longrightarrow> state \<noteq> Pending \<Longrightarrow> coord_inv (completeLocked now ref state rejection c)"
  by (rule coord_inv_frameI) (auto simp: coord_inv_def tables_ok_complete bound_complete)

section \<open>Owners\<close>

lemma coord_inv_NewOwner:
  assumes inv: "coord_inv c"
  shows "coord_inv (fst (NewOwner validUTF8 ctxErr sid node scope options c))"
proof (cases "gget (c_sessions c) sid")
  case None
  with inv show ?thesis by (simp add: NewOwner_def split: option.split)
next
  case (Some s)
  let ?full = "c_registeredOwners c + int (length (c_uses c)) \<ge> MaxOwners (c_config c)
      \<or> int (length (s_bindings s)) \<ge> fs_MaxLockOwners (s_options s) \<or> s_nextOwner s = MaxUint64"
  let ?owner = "s_nextOwner s + 1"
  let ?b = "\<lparr>bind_node = node, bind_scope = scope, bind_options = options\<rparr>"
  let ?f = "\<lambda>s. s\<lparr>s_nextOwner := ?owner, s_bindings := gput ?owner ?b (s_bindings s), s_owners := s_owners s + 1\<rparr>"
  let ?c = "(updSession sid ?f c)\<lparr>c_registeredOwners := c_registeredOwners c + 1\<rparr>"
  have si: "session_inv c" and bi: "budget_inv c" using inv by (simp_all add: coord_inv_def)
  note ok = session_inv_get [OF si Some]
  have "coord_inv ?c" if room: "\<not> ?full"
  proof -
    have above: "x < ?owner" if "x \<le> s_nextOwner s" for x
      using room that by (intro word_Suc_fresh) simp_all
    have fresh: "?owner \<notin> fst ` set (s_bindings s)"
    proof
      assume "?owner \<in> fst ` set (s_bindings s)"
      with ok have "?owner \<le> s_nextOwner s" by (auto simp: session_ok_def list_all_iff)
      from above [OF this] show False by simp
    qed
    then have put: "gput ?owner ?b (s_bindings s) = s_bindings s @ [(?owner, ?b)]"
      by (rule gput_new)
    have "0 < ?owner" using above [of 0] by simp
    moreover have "x \<le> ?owner" if "x \<le> s_nextOwner s" for x using above [OF that] by simp
    ultimately have "session_ok (c_config c) (c_nextSession c) (sid, ?f s)"
      using ok room fresh by (auto simp: session_ok_def put list_all_iff action_ok_def)
    then have "session_inv (updSession sid ?f c)"
      using si Some by (intro session_inv_updSession) auto
    then have "session_inv ?c" by (simp add: session_inv_def)
    moreover have "budget_inv ?c"
      using bi room Some gsum_updSession [OF si, of _ sid ?f]
      by (simp add: budget_inv_def put updSession_def)
    moreover have "inert ?f" by (simp add: inert_def)
    moreover from this have "bound_inv (updSession sid ?f c)"
      using inv fresh Some
      by (intro bound_inv_inert) (auto simp: coord_inv_def dest: gget_Some_key)
    ultimately show ?thesis
      using inv by (simp add: coord_inv_def tables_ok_inert)
  qed
  with inv Some show ?thesis by (simp add: NewOwner_def Let_def split: option.split)
qed

section \<open>History\<close>

lemma gget_filter:
  assumes "distinct_keys m"
  shows "gget (filter P m) k = (case gget m k of None \<Rightarrow> None | Some v \<Rightarrow> if P (k, v) then Some v else None)"
  using assms
proof (induction m)
  case (Cons kv m)
  then show ?case
    by (cases kv) (auto simp: gget_Cons gget_eq_None split: option.splits intro!: gget_eq_None [THEN iffD2])
qed simp

lemma tables_ok_forget:
  assumes ok: "tables_ok c" and wait: "c_waiting c' = c_waiting c" and own: "c_owners c' = c_owners c"
    and pend: "sessionPending c' = sessionPending c" and view: "rangeView c' = rangeView c"
    and lim: "limitsOf c' = limitsOf c" and cfg: "c_config c' = c_config c"
    and act: "\<And>ref. getAction c' ref = getAction c ref \<or>
      getAction c' ref = None \<and> (\<exists>a. getAction c ref = Some a \<and> att_State (rq_result a) \<noteq> Pending)"
  shows "tables_ok c'"
proof -
  have sub: "getAction c' ref = Some a \<Longrightarrow> getAction c ref = Some a" for ref a
    using act [of ref] by auto
  have keep: "getAction c ref = Some a \<Longrightarrow> att_State (rq_result a) = Pending \<Longrightarrow> getAction c' ref = Some a" for ref a
    using act [of ref] by auto
  have q: "queue_inv c" using ok by (simp add: tables_ok_def queue_ok_def)
  have pending: "(\<exists>a. getAction c' ref = Some a \<and> rq_pending a) \<longleftrightarrow> (\<exists>a. getAction c ref = Some a \<and> rq_pending a)" for ref
    using sub keep queue_inv_pending [OF q] by blast
  have "map_option rq_key (getAction c' ref) = map_option rq_key (getAction c ref)" if "ref \<in> set (c_waiting c)" for ref
  proof -
    from q that obtain a where "getAction c ref = Some a" "rq_pending a" by (auto simp: queue_inv_def)
    with keep [of ref a] queue_inv_pending [OF q] show ?thesis by simp
  qed
  then have on: "waitingOn c' key = waitingOn c key" for key
    unfolding waitingOn_def wait by (intro filter_cong) auto
  have opend: "ownerPending c' = ownerPending c" using own by (simp add: ownerPending_def fun_eq_iff)
  have keyed': "keyed c'" using q sub by (auto simp: queue_inv_def keyed_def)
  have sched: "att_State (rq_result a) = Pending \<and> \<not> rq_converting a \<and> rq_order a"
    if "getAction c' ref = Some a" "rq_pending a" for ref a
    using queue_inv_pending [OF q sub [OF that(1)] that(2)] by simp
  have "queue_inv c'"
    using q keyed' sched unfolding queue_inv_def pending on opend pend wait by simp
  moreover have "stranded c' \<subseteq> stranded c" using sub by (auto simp: stranded_def)
  moreover have "batches_ok c'" using ok sub unfolding tables_ok_def batches_ok_def by blast
  ultimately show ?thesis
    using ok view lim cfg own by (auto simp: tables_ok_def queue_ok_def range_inv_def)
qed

lemma bound_inv_shrink:
  assumes "bound_inv c" and "ownerKeys c' \<subseteq> ownerKeys c"
    and "\<And>ref a. getAction c' ref = Some a \<Longrightarrow> getAction c ref = Some a"
    and "\<And>key. bound c key \<Longrightarrow> key \<in> ownerKeys c' \<or> (\<exists>ref a. getAction c' ref = Some a \<and> rq_key a = key
        \<and> att_State (rq_result a) = Pending) \<Longrightarrow> bound c' key"
  shows "bound_inv c'"
  unfolding bound_inv_def
proof (intro conjI ballI allI impI)
  fix key assume "key \<in> ownerKeys c'"
  with assms(1,2,4) show "bound c' key" by (auto simp: bound_inv_def)
next
  fix ref a assume "ref \<in> pendingRefs c'" and a: "getAction c' ref = Some a"
  then have "att_State (rq_result a) = Pending" by (simp add: pendingRefs_def)
  moreover from this assms(3) [OF a] have "bound c (rq_key a)"
    using assms(1) unfolding bound_inv_def pendingRefs_def by blast
  ultimately show "bound c' (rq_key a)" using assms(4) a by blast
qed

lemma coord_inv_pruneHistory:
  assumes inv: "coord_inv c"
  shows "coord_inv (pruneHistoryLocked now sid c)"
proof (cases "gget (c_sessions c) sid")
  case None
  with inv show ?thesis by (simp add: pruneHistoryLocked_def)
next
  case (Some s)
  define kept where "kept = filter (\<lambda>(_, a). \<not> expiredAction now s a) (s_actions s)"
  let ?f = "\<lambda>s. s\<lparr>s_actions := kept\<rparr>"
  let ?u = "updSession sid ?f c"
  let ?c = "?u\<lparr>c_requests := c_requests c - (int (length (s_actions s)) - int (length kept))\<rparr>"
  have eq: "pruneHistoryLocked now sid c = ?c"
    using Some by (simp add: pruneHistoryLocked_def kept_def Let_def)
  have si: "session_inv c" and bi: "budget_inv c" using inv by (simp_all add: coord_inv_def)
  note ok = session_inv_get [OF si Some]
  have d: "distinct_keys (s_actions s)" using ok by (simp add: session_ok_def)
  have len: "length kept \<le> length (s_actions s)" and kept_set: "set kept \<subseteq> set (s_actions s)"
    and kept_distinct: "distinct_keys kept"
    using d by (auto simp: kept_def intro: distinct_map_filter)
  have "session_ok (c_config c) (c_nextSession c) (sid, ?f s)"
    using ok len kept_set kept_distinct
    by (auto simp: session_ok_def list_all_iff action_ok_def)
  then have "session_inv ?u" using si Some by (intro session_inv_updSession) auto
  then have "session_inv ?c" by (simp add: session_inv_def)
  moreover have "budget_inv ?c"
    using bi Some len gsum_updSession [OF si, of _ sid ?f]
    by (simp add: budget_inv_def updSession_def)
  moreover have act: "getAction ?c ref = getAction c ref \<or>
      getAction ?c ref = None \<and> (\<exists>a. getAction c ref = Some a \<and> att_State (rq_result a) \<noteq> Pending)" for ref
    using Some gget_filter [OF d]
    by (auto simp: getAction_def updSession_def kept_def expiredAction_def split: option.splits)
  have "tables_ok ?c"
    by (rule tables_ok_forget [where c = c, OF _ _ _ _ _ _ _ act])
      (use inv Some in \<open>auto simp: coord_inv_def sessionPending_def rangeView_def limitsOf_def held_def updSession_def fun_eq_iff
        split: option.split\<close>)
  moreover have "bound_inv ?c"
  proof (rule bound_inv_shrink [of c])
    show "bound_inv c" using inv by (simp add: coord_inv_def)
    show "ownerKeys ?c \<subseteq> ownerKeys c" by (simp add: ownerKeys_def)
    show "getAction c ref = Some a" if "getAction ?c ref = Some a" for ref a
      using act [of ref] that by auto
    show "bound ?c key" if "bound c key" for key
      using that Some by (auto simp: bound_def updSession_def)
  qed
  ultimately show ?thesis by (simp add: eq coord_inv_def)
qed

lemma coord_inv_updSession:
  assumes inv: "coord_inv c" and f: "inert f" and g: "\<And>s. s_bindings (f s) = s_bindings s"
    and ok: "\<And>s. gget (c_sessions c) sid = Some s \<Longrightarrow> session_ok (c_config c) (c_nextSession c) (sid, f s)"
  shows "coord_inv (updSession sid f c)"
proof -
  have si: "session_inv c" using inv by (simp add: coord_inv_def)
  have "budget_inv (updSession sid f c)"
    using inv gsum_updSession [OF si, of _ sid f] f g
    by (auto simp: coord_inv_def budget_inv_def updSession_def inert_def split: option.splits)
  moreover have "bound_inv (updSession sid f c)"
    using inv f g by (intro bound_inv_inert) (auto simp: coord_inv_def)
  ultimately show ?thesis
    using inv si ok f by (simp add: coord_inv_def session_inv_updSession tables_ok_inert)
qed

lemma coord_inv_retired:
  assumes "coord_inv c" and "\<And>s. retired_ok (c_nextSession c) (sid, s) \<Longrightarrow> retired_ok (c_nextSession c) (sid, f s)"
  shows "coord_inv (c\<lparr>c_retired := gupd sid f (c_retired c)\<rparr>)"
proof -
  have "list_all (retired_ok (c_nextSession c)) (gupd sid f (c_retired c))"
    using assms by (auto simp: coord_inv_def session_inv_def gupd_def list_all_iff)
  then show ?thesis
    using assms(1) by (simp add: coord_inv_def session_inv_def budget_inv_def)
qed

lemma coord_inv_advanceLocked:
  assumes inv: "coord_inv c"
  shows "coord_inv (fst (advanceLocked now sid c))"
proof (cases "sessionObj c sid")
  case None
  with inv show ?thesis by (simp add: advanceLocked_def)
next
  case (Some s)
  let ?c = "c\<lparr>c_sessions := gupd sid (nextEpoch now) (c_sessions c), c_retired := gupd sid (nextEpoch now) (c_retired c)\<rparr>"
  have "coord_inv ?c" if "s_epoch s \<noteq> MaxUint64"
  proof -
    have "coord_inv (updSession sid (nextEpoch now) c)"
    proof (rule coord_inv_updSession [OF inv])
      show "inert (nextEpoch now)" by (simp add: inert_def nextEpoch_def)
      show "s_bindings (nextEpoch now s) = s_bindings s" for s by (simp add: nextEpoch_def)
      fix s' assume s': "gget (c_sessions c) sid = Some s'"
      with Some have "s' = s" by (simp add: sessionObj_def)
      have "e \<le> s_epoch s + 1" if "e \<le> s_epoch s" for e
        using word_Suc_fresh [OF that] \<open>s_epoch s \<noteq> MaxUint64\<close> by simp
      with session_inv_get [OF _ s'] inv \<open>s' = s\<close>
      show "session_ok (c_config c) (c_nextSession c) (sid, nextEpoch now s')"
        by (auto simp: coord_inv_def session_ok_def nextEpoch_def list_all_iff action_ok_def)
    qed
    from coord_inv_retired [OF this, of sid "nextEpoch now"] show ?thesis
      by (simp add: updSession_def retired_ok_def nextEpoch_def)
  qed
  with inv Some show ?thesis by (simp add: advanceLocked_def coord_inv_pruneHistory)
qed

lemma coord_inv_pruneAll: "coord_inv c \<Longrightarrow> coord_inv (pruneAllHistory now c)"
  unfolding pruneAllHistory_def by (rule fold_preserves) (auto intro: coord_inv_pruneHistory)

lemma coord_inv_History: "coord_inv c \<Longrightarrow> coord_inv (fst (History now ctxErr sid c))"
  using coord_inv_advanceLocked [of c now sid] by (auto simp: History_def split: option.split prod.split)

lemma coord_inv_WithCloseAdmission: "coord_inv c \<Longrightarrow> coord_inv (fst (WithCloseAdmission now ctxErr admit sid c))"
  using coord_inv_advanceLocked [of c now sid] by (auto simp: WithCloseAdmission_def split: option.split prod.split)

lemma coord_inv_requestLocked: "coord_inv c \<Longrightarrow> coord_inv (fst (requestLocked now sid owner request c))"
  using coord_inv_advanceLocked [of c now sid] by (auto simp: requestLocked_def split: option.split sum.split prod.split)

lemma coord_inv_findLocked: "coord_inv c \<Longrightarrow> coord_inv (fst (findLocked now sid node owner request c))"
  using coord_inv_requestLocked [of c now sid owner request] by (auto simp: findLocked_def split: sum.split prod.split)

lemma coord_inv_cancelSection: "coord_inv c \<Longrightarrow> coord_inv (fst (cancelSection now sid node owner request c))"
  using coord_inv_findLocked [of c now sid node owner request]
  by (auto simp: cancelSection_def Let_def coord_inv_complete split: sum.split prod.split)

section \<open>Registering a request\<close>

lemma checkCommands_batch:
  assumes "checkCommands config commands = None" and "key = keyOf sid node owner (cmd_Domain (hd commands))"
  shows "batch_ok (newRequest key request epoch commands)" and "key_domain key \<noteq> InvalidDomain"
proof -
  have ne: "commands \<noteq> []" and each: "first_error (map (checkCommand commands) commands) = None"
    using assms(1) by (simp_all add: checkCommands_def)
  have "first_error es = None \<longleftrightarrow> list_all (\<lambda>e. e = None) es" for es :: "goerror option list"
    by (induction es) auto
  with each have all: "\<forall>command\<in>set commands. checkCommand commands command = None"
    by (simp add: list_all_iff)
  then have "command_ok key command" if "command \<in> set commands" for command
    using that assms(2) by (fastforce simp: checkCommand_def command_ok_def keyOf_def)
  with ne show "batch_ok (newRequest key request epoch commands)"
    by (simp add: batch_ok_def newRequest_def list_all_iff)
  from all ne have "checkCommand commands (hd commands) = None" by simp
  with assms(2) RangeCommand_Check_None(2) [of "hd commands"] show "key_domain key \<noteq> InvalidDomain"
    by (simp add: checkCommand_def keyOf_def)
qed

lemma coord_inv_registerAction:
  assumes inv: "coord_inv c" and s: "gget (c_sessions c) sid = Some s" and fresh: "getAction c (sid, request) = None"
    and cmds: "checkCommands (c_config c) commands = None" and key: "key = keyOf sid node owner (cmd_Domain (hd commands))"
    and epoch: "Epoch request = Inr (s_epoch s)" and bnd: "bound c key"
    and room: "int (length (s_actions s)) < fs_MaxLockActions (s_options s)" "c_requests c < MaxRequests (c_config c)"
  shows "coord_inv (registerAction now sid (newRequest key request (s_epoch s) commands) c)"
proof -
  define a where "a = newRequest key request (s_epoch s) commands"
  let ?ref = "(sid, request)"
  let ?f = "\<lambda>s. s\<lparr>s_actions := gput request a (s_actions s)\<rparr>"
  let ?u = "updSession sid ?f c"
  define d where "d = ?u\<lparr>c_requests := c_requests c + 1\<rparr>"
  have si: "session_inv c" and tab: "tables_ok c" and bi: "bound_inv c" using inv by (simp_all add: coord_inv_def)
  note ok = session_inv_get [OF si s]
  have new: "request \<notin> fst ` set (s_actions s)"
    using fresh s by (simp add: getAction_def gget_eq_None)
  then have put: "gput request a (s_actions s) = s_actions s @ [(request, a)]" by (rule gput_new)
  have batch: "batch_ok a" unfolding a_def by (rule checkCommands_batch [OF cmds key])
  have "action_ok (c_config c) sid (?f s) request a"
    using batch cmds epoch key by (simp add: action_ok_def a_def newRequest_def keyOf_def)
  then have "session_ok (c_config c) (c_nextSession c) (sid, ?f s)"
    using ok room new by (auto simp: session_ok_def put list_all_iff action_ok_def)
  then have "session_inv ?u" using si s by (intro session_inv_updSession) auto
  then have sd: "session_inv d" by (simp add: d_def session_inv_def)
  have bd: "budget_inv d"
    using inv s room gsum_updSession [OF si, of _ sid ?f] by (simp add: coord_inv_def budget_inv_def d_def put updSession_def)
  have act: "getAction d ref = (if ref = ?ref then Some a else getAction c ref)" for ref
    using s by (cases ref) (auto simp: d_def getAction_def updSession_def split: option.split)
  have idle: "\<not> rq_pending a" "att_State (rq_result a) = Pending" "\<not> rq_converting a" "rq_order a" "rq_key a = key" "rq_id a = request"
    by (simp_all add: a_def newRequest_def)
  have q: "queue_inv c" using tab by (simp add: tables_ok_def queue_ok_def)
  have w: "?ref \<notin> set (c_waiting c)" using q fresh by (auto simp: queue_inv_def)
  have same: "c_waiting d = c_waiting c" "ownerPending d = ownerPending c" "sessionPending d = sessionPending c"
    by (auto simp: d_def ownerPending_def sessionPending_def updSession_def fun_eq_iff split: option.split)
  have on: "waitingOn d k = waitingOn c k" for k
    unfolding waitingOn_def same(1) using w by (intro filter_cong) (auto simp: act)
  have kd: "keyed d" using session_inv_keyed(1) [OF sd] .
  have "queue_inv d"
    unfolding queue_inv_def on same
  proof (intro conjI allI impI)
    show "keyed d" by (rule kd)
    show "distinct (c_waiting c)" using q by (simp add: queue_inv_def)
    show "(ref \<in> set (c_waiting c)) = (\<exists>b. getAction d ref = Some b \<and> rq_pending b)" for ref
      using q w idle(1) by (auto simp: queue_inv_def act)
    show "ownerPending c k = int (length (waitingOn c k))" for k using q by (simp add: queue_inv_def)
    show "sessionPending c sid' = int (length (filter (\<lambda>ref. fst ref = sid') (c_waiting c)))" for sid'
      using q by (simp add: queue_inv_def)
  qed (use queue_inv_pending [OF q] idle(1) in \<open>auto simp: act split: if_splits\<close>)
  moreover have st: "startable d ?ref" using idle by (simp add: startable_def act)
  moreover have "stranded d \<subseteq> {?ref}"
    using tab by (auto simp: stranded_def act tables_ok_def queue_ok_def split: if_splits)
  moreover have "range_inv d"
  proof -
    have "rangeView d = rangeView c" "limitsOf d = limitsOf c"
      by (auto simp: d_def rangeView_def limitsOf_def updSession_def held_def fun_eq_iff option.map_comp comp_def)
    then show ?thesis using tab by (simp add: tables_ok_def range_inv_def d_def updSession_def)
  qed
  ultimately have tables: "tables_ok (startLocked now ?ref d)"
    using session_inv_keyed(2) [OF sd] by (intro tables_ok_startLocked)
  have bound_d: "bound d k = bound c k" for k
    using s by (auto simp: bound_def d_def updSession_def)
  have own: "ownerKeys d = ownerKeys c" by (simp add: ownerKeys_def d_def updSession_def)
  have "bound_inv d"
    unfolding bound_inv_def bound_d own
  proof (intro conjI ballI allI impI)
    show "bound c k" if "k \<in> ownerKeys c" for k using that bi by (simp add: bound_inv_def)
    show "bound c (rq_key b)" if "ref \<in> pendingRefs d" "getAction d ref = Some b" for ref b
    proof (cases "ref = ?ref")
      case True
      with that(2) idle bnd show ?thesis by (simp add: act)
    next
      case False
      with that have "getAction c ref = Some b" "ref \<in> pendingRefs c" by (simp_all add: act pendingRefs_def)
      with bi show ?thesis by (simp add: bound_inv_def)
    qed
  qed
  then have "bound_inv (startLocked now ?ref d)"
  proof (rule bound_inv_step)
    show "ownerKeys (startLocked now ?ref d) \<subseteq> ownerKeys d \<union> {k. bound d k}"
      using ownerKeys_startLocked [of d ?ref a now] idle bnd by (auto simp: act bound_d)
  qed (simp_all add: pendingRefs_startLocked)
  with tables sd bd show ?thesis
    using session_inv_transfer [of "startLocked now ?ref d" d] budget_inv_transfer [of "startLocked now ?ref d" d]
    by (simp add: coord_inv_def registerAction_def d_def [symmetric] a_def [symmetric] idle(6))
qed

text \<open>A session without its requests: what history pruning leaves alone.\<close>

definition sessionCore :: "Coordinator \<Rightarrow> u64 \<Rightarrow> Session option" where
  "sessionCore c sid = map_option (\<lambda>s. s\<lparr>s_actions := []\<rparr>) (gget (c_sessions c) sid)"

lemma core_pruneHistory [simp]:
  "sessionCore (pruneHistoryLocked now sid' c) = sessionCore c"
  "c_config (pruneHistoryLocked now sid' c) = c_config c"
  "c_retired (pruneHistoryLocked now sid' c) = c_retired c"
  by (auto simp: sessionCore_def pruneHistoryLocked_def updSession_def Let_def fun_eq_iff split: option.split)

lemma core_pruneAll [simp]:
  "sessionCore (pruneAllHistory now c) = sessionCore c" "c_config (pruneAllHistory now c) = c_config c"
  unfolding pruneAllHistory_def by (rule fold_invariant_eq; simp)+

lemma core_get:
  assumes "sessionCore c' = sessionCore c" and "gget (c_sessions c) sid = Some s"
  obtains acts where "gget (c_sessions c') sid = Some (s\<lparr>s_actions := acts\<rparr>)"
proof -
  from assms have "sessionCore c' sid = Some (s\<lparr>s_actions := []\<rparr>)" by (simp add: sessionCore_def)
  then obtain s' where s': "gget (c_sessions c') sid = Some s'" and "s'\<lparr>s_actions := []\<rparr> = s\<lparr>s_actions := []\<rparr>"
    by (auto simp: sessionCore_def)
  then have "s' = s\<lparr>s_actions := s_actions s'\<rparr>" by (cases s, cases s') simp
  with s' that show thesis by metis
qed

lemma bound_core: "sessionCore c' = sessionCore c \<Longrightarrow> bound c key \<Longrightarrow> bound c' key"
  unfolding bound_def by (elim conjE exE core_get [where sid = "key_session key"]) auto

lemma bound_advanceLocked:
  assumes "bound c key"
  shows "bound (fst (advanceLocked now sid c)) key"
proof -
  let ?c = "c\<lparr>c_sessions := gupd sid (nextEpoch now) (c_sessions c), c_retired := gupd sid (nextEpoch now) (c_retired c)\<rparr>"
  have "bound ?c key" using assms by (auto simp: bound_def nextEpoch_def split: if_splits)
  with assms show ?thesis
    by (auto simp: advanceLocked_def split: option.split intro: bound_core [rotated])
qed

lemma config_advanceLocked [simp]: "c_config (fst (advanceLocked now sid c)) = c_config c"
  by (simp add: advanceLocked_def split: option.split)

lemma getAction_pruneHistory:
  assumes "session_inv c" and "getAction c ref = None"
  shows "getAction (pruneHistoryLocked now sid c) ref = None"
proof (cases "gget (c_sessions c) sid")
  case (Some s)
  have "distinct_keys (s_actions s)"
    using session_inv_get [OF assms(1) Some] by (simp add: session_ok_def)
  with Some assms(2) show ?thesis
    by (cases ref) (auto simp: pruneHistoryLocked_def getAction_def updSession_def Let_def gget_filter split: option.splits)
qed (use assms(2) in \<open>simp add: pruneHistoryLocked_def\<close>)

lemma makeRoom_props:
  assumes "coord_inv c"
  shows "coord_inv (makeRoom now c)" and "sessionCore (makeRoom now c) = sessionCore c"
    and "c_config (makeRoom now c) = c_config c"
    and "getAction c ref = None \<Longrightarrow> getAction (makeRoom now c) ref = None"
proof -
  show "coord_inv (makeRoom now c)" "sessionCore (makeRoom now c) = sessionCore c" "c_config (makeRoom now c) = c_config c"
    using assms by (simp_all add: makeRoom_def coord_inv_pruneAll)
  have one: "coord_inv d \<and> getAction d ref = None \<Longrightarrow>
      coord_inv (pruneHistoryLocked now sid d) \<and> getAction (pruneHistoryLocked now sid d) ref = None" for sid d
    by (simp add: coord_inv_pruneHistory getAction_pruneHistory coord_inv_def [of d])
  show "getAction (makeRoom now c) ref = None" if "getAction c ref = None"
  proof -
    have "coord_inv (pruneAllHistory now c) \<and> getAction (pruneAllHistory now c) ref = None"
      unfolding pruneAllHistory_def using assms that
      by (intro fold_preserves [where P = "\<lambda>d. coord_inv d \<and> getAction d ref = None"]) (simp_all add: one)
    with that show ?thesis by (simp add: makeRoom_def)
  qed
qed

lemma coord_inv_applySection:
  assumes inv: "coord_inv c0" and cmds: "checkCommands (c_config c0) commands = None" and ep: "Epoch request = Inr epoch"
  shows "coord_inv (fst (applySection now sid node owner commands request epoch c0))"
proof (cases "first_error [active c0 sid, checkOwnerLocked c0 sid node owner]")
  case (Some e)
  with inv show ?thesis by (simp add: applySection_def)
next
  case None
  let ?key = "keyOf sid node owner (cmd_Domain (hd commands))"
  obtain c err where adv: "advanceLocked now sid c0 = (c, err)" by (cases "advanceLocked now sid c0")
  have ic: "coord_inv c" using coord_inv_advanceLocked [OF inv, of now sid] adv by simp
  have cfg: "c_config c = c_config c0" using config_advanceLocked [of now sid c0] adv by simp
  have "bound c0 ?key"
    using None inv checkCommands_batch(2) [OF cmds refl, of sid node owner]
    by (intro checkOwner_bound) (auto simp: coord_inv_def keyOf_def)
  then have bc: "bound c ?key" using bound_advanceLocked [of c0 ?key now sid] adv by simp
  let ?d = "makeRoom now c"
  note id = makeRoom_props(1) [OF ic, of now] and core = makeRoom_props(2) [OF ic, of now]
    and cfgd = makeRoom_props(3) [OF ic, of now] and fresh = makeRoom_props(4) [OF ic, of _ now]
  have "coord_inv (registerAction now sid (newRequest ?key request (s_epoch s) commands) ?d)"
    if s: "gget (c_sessions c) sid = Some s" and none: "getAction c (sid, request) = None" and e: "epoch = s_epoch s"
      and room: "int (length (actionIDs ?d sid)) < fs_MaxLockActions (s_options s)" "c_requests ?d < MaxRequests (c_config ?d)" for s
  proof -
    from core s obtain acts where t: "gget (c_sessions ?d) sid = Some (s\<lparr>s_actions := acts\<rparr>)" by (rule core_get)
    have len: "int (length acts) < fs_MaxLockActions (s_options s)"
      using room(1) t by (simp add: actionIDs_def)
    show ?thesis
      using coord_inv_registerAction [OF id t fresh [OF none] _ refl, of commands node owner now]
        cmds cfg cfgd ep e bound_core [OF core bc] room(2) len by simp
  qed
  then show ?thesis
    using None adv ic id
    by (cases err) (auto simp: applySection_def Let_def split: option.split)
qed

section \<open>Dropping an owner\<close>

text \<open>After \<open>dropLocked\<close> the owner has no entry and no pending request.\<close>

definition cleared :: "Coordinator \<Rightarrow> ownerKey \<Rightarrow> bool" where
  "cleared c key \<longleftrightarrow> key \<notin> ownerKeys c
     \<and> (\<forall>ref a. getAction c ref = Some a \<longrightarrow> rq_key a = key \<longrightarrow> att_State (rq_result a) \<noteq> Pending)"

lemma ownerKeys_dropLocked: "ownerKeys (dropLocked now key c) \<subseteq> ownerKeys c"
proof -
  have "ownerKeys (fold (dropAction now key) ids c') \<subseteq> ownerKeys c'" for ids c'
    by (rule fold_decreases) (simp add: dropAction_def ownerKeys_complete split: option.split AttemptState.split)
  moreover have "ownerKeys (case gget (c_owners c) key of None \<Rightarrow> c
      | Some _ \<Rightarrow> (case replaceLocked key [] c of None \<Rightarrow> c | Some c' \<Rightarrow> c')) = ownerKeys c"
    by (auto simp: replaceLocked_def split: option.split)
  ultimately show ?thesis
    unfolding dropLocked_def Let_def by (auto dest!: set_mp [OF ownerKeys_prune])
qed

lemma pendingRefs_dropFold: "pendingRefs (fold (dropAction now key) ids c) \<subseteq> pendingRefs c"
  by (rule fold_decreases) (auto simp: dropAction_def pendingRefs_complete split: option.split AttemptState.split)

lemma pendingRefs_dropLocked: "pendingRefs (dropLocked now key c) \<subseteq> pendingRefs c"
proof -
  have "pendingRefs (case gget (c_owners c) key of None \<Rightarrow> c
      | Some _ \<Rightarrow> (case replaceLocked key [] c of None \<Rightarrow> c | Some c' \<Rightarrow> c')) = pendingRefs c"
    by (auto simp: replaceLocked_def split: option.split)
  then show ?thesis
    unfolding dropLocked_def Let_def by (auto dest!: set_mp [OF pendingRefs_dropFold])
qed

lemma dropFold_settles:
  assumes "request \<in> set ids" and "(key_session key, request) \<in> pendingRefs (fold (dropAction now key) ids c)"
    and "map_option rq_key (getAction c (key_session key, request)) = Some key"
  shows False
  using assms
proof (induction ids arbitrary: c)
  case (Cons r ids)
  let ?ref = "(key_session key, request)"
  let ?c = "dropAction now key r c"
  have fr: "frame ?c = frame c"
    by (simp add: dropAction_def split: option.split AttemptState.split)
  have key: "map_option rq_key (getAction ?c ?ref) = Some key"
    using Cons.prems(3) frame_action_key [OF fr] by simp
  show ?case
  proof (cases "r = request")
    case True
    have "?ref \<notin> pendingRefs ?c"
      using Cons.prems(3) True
      by (auto simp: dropAction_def pendingRefs_complete split: option.split AttemptState.split)
        (auto simp: pendingRefs_def)
    with Cons.prems(2) pendingRefs_dropFold [of now key ids ?c] show ?thesis by auto
  next
    case False
    with Cons key show ?thesis by auto
  qed
qed simp

lemma cleared_dropLocked:
  assumes inv: "coord_inv c"
  shows "cleared (dropLocked now key c) key"
proof -
  let ?c1 = "case gget (c_owners c) key of None \<Rightarrow> c
      | Some _ \<Rightarrow> (case replaceLocked key [] c of None \<Rightarrow> c | Some c' \<Rightarrow> c')"
  let ?c2 = "fold (dropAction now key) (actionIDs ?c1 (key_session key)) ?c1"
  have eq: "dropLocked now key c = pruneOwnerLocked key ?c2" by (simp add: dropLocked_def Let_def)
  have q: "queue_inv c" and r: "range_inv c" using inv by (simp_all add: coord_inv_def tables_ok_def queue_ok_def)
  have fr1: "frame ?c1 = frame c"
    by (auto simp: replaceLocked_def split: option.split)
  have fr2: "frame ?c2 = frame ?c1"
    by (rule fold_invariant_eq [where g = frame]) (simp add: dropAction_def split: option.split AttemptState.split)
  have "held ?c1 key = []"
  proof (cases "gget (c_owners c) key")
    case (Some st)
    then have "bound c key" using inv by (auto simp: coord_inv_def bound_inv_def ownerKeys_def)
    then have "replacementFitsLocked c key 0"
      using Some by (intro fits_live [OF r]) (auto simp: bound_def)
    with Some show ?thesis
      by (simp add: replaceLocked_def held_def installRangesLocked_def updSession_def updOwner_def Let_def)
  qed (simp add: held_def)
  moreover have "rangeView ?c2 = rangeView ?c1"
    by (rule fold_invariant_eq [where g = rangeView]) (simp add: dropAction_def split: option.split AttemptState.split)
  ultimately have empty: "held ?c2 key = []" by (simp add: rangeView_def fun_eq_iff)
  have settled: "att_State (rq_result a) \<noteq> Pending" if "getAction ?c2 ref = Some a" "rq_key a = key" for ref a
  proof
    assume p: "att_State (rq_result a) = Pending"
    have k1: "map_option rq_key (getAction ?c1 ref) = Some key"
      using that frame_action_key [OF fr2, of ref] by simp
    then obtain a1 where a1: "getAction ?c1 ref = Some a1" "rq_key a1 = key" by auto
    have "keyed ?c1" using keyed_frame [OF fr1] q by (simp add: queue_inv_def)
    with a1 have ref: "ref = (key_session key, snd ref)" by (cases ref) (auto simp: keyed_def)
    have "snd ref \<in> set (actionIDs ?c1 (key_session key))"
      using a1(1) ref by (cases ref) (auto simp: getAction_def actionIDs_def split: option.splits dest: gget_Some_key)
    moreover have "(key_session key, snd ref) \<in> pendingRefs ?c2"
      using that(1) p ref by (metis (mono_tags, lifting) mem_Collect_eq pendingRefs_def)
    moreover have "map_option rq_key (getAction ?c1 (key_session key, snd ref)) = Some key"
      using k1 ref by metis
    ultimately show False by (rule dropFold_settles)
  qed
  have "queue_ok ?c2"
  proof -
    have "queue_ok ?c1" using inv by (simp add: replaceLocked_def coord_inv_def tables_ok_def queue_ok_def queue_ranges split: option.split)
    then show ?thesis
      by (rule fold_preserves [rotated]) (simp add: dropAction_def queue_ok_def queue_completeLocked stranded_completeLocked
          split: option.split AttemptState.split)
  qed
  then have q2: "queue_inv ?c2" by (simp add: queue_ok_def)
  have "waitingOn ?c2 key = []"
    unfolding waitingOn_def filter_empty_conv
  proof
    fix ref assume "ref \<in> set (c_waiting ?c2)"
    with q2 obtain a where a: "getAction ?c2 ref = Some a" "rq_pending a" by (auto simp: queue_inv_def)
    from queue_inv_pending [OF q2 a] settled [OF a(1)] have "rq_key a \<noteq> key" by blast
    with a(1) show "map_option rq_key (getAction ?c2 ref) \<noteq> Some key" by simp
  qed
  with q2 have "ownerPending ?c2 key = 0" by (simp add: queue_inv_def)
  with empty have "key \<notin> ownerKeys (pruneOwnerLocked key ?c2)"
    by (auto simp: ownerKeys_def pruneOwnerLocked_def ownerPending_def held_def split: option.splits)
  with settled show ?thesis unfolding cleared_def eq getAction_pruneOwner by blast
qed

lemma cleared_stays:
  assumes "cleared c key"
  shows "cleared (dropLocked now other c) key"
  unfolding cleared_def
proof (intro conjI allI impI)
  show "key \<notin> ownerKeys (dropLocked now other c)"
    using assms ownerKeys_dropLocked [of now other c] by (auto simp: cleared_def)
  fix ref a assume a: "getAction (dropLocked now other c) ref = Some a" "rq_key a = key"
  show "att_State (rq_result a) \<noteq> Pending"
  proof
    assume "att_State (rq_result a) = Pending"
    with a pendingRefs_dropLocked [of now other c] obtain b where b: "getAction c ref = Some b" "att_State (rq_result b) = Pending"
      by (auto simp: pendingRefs_def)
    moreover have "rq_key b = key"
      using frame_action_key [of "dropLocked now other c" c ref] a b by simp
    ultimately show False using assms unfolding cleared_def by blast
  qed
qed

lemma coord_inv_retireOwner:
  assumes inv: "coord_inv c"
  shows "coord_inv (retireOwnerSection now sid owner c)"
proof (cases "bindingOf c sid owner")
  case None
  with inv show ?thesis by (simp add: retireOwnerSection_def)
next
  case (Some b)
  let ?k = "keyOf sid (bind_node b) owner"
  define d where "d = fold (\<lambda>domain. dropLocked now (?k domain)) [DomainRecord, DomainWholeFile, DomainEnforced] c"
  have d_eq: "d = dropLocked now (?k DomainEnforced) (dropLocked now (?k DomainWholeFile) (dropLocked now (?k DomainRecord) c))"
    by (simp add: d_def)
  have id: "coord_inv d" unfolding d_eq by (intro coord_inv_dropLocked inv)
  have fr: "frame d = frame c" by (simp add: d_eq)
  have clear: "cleared d (?k domain)" if "domain \<noteq> InvalidDomain" for domain
    using that unfolding d_eq by (cases domain) (auto intro!: cleared_stays cleared_dropLocked coord_inv_dropLocked inv)
  let ?f = "\<lambda>s. s\<lparr>s_bindings := gdel owner (s_bindings s), s_owners := s_owners s - 1\<rparr>"
  let ?e = "(updSession sid ?f d)\<lparr>c_registeredOwners := c_registeredOwners d - 1\<rparr>"
  have si: "session_inv d" using id by (simp add: coord_inv_def)
  have bd: "bindingOf d sid owner = Some b" using Some frame_bindingOf [OF fr] by simp
  have "gget (c_sessions d) sid \<noteq> None"
  proof
    assume "gget (c_sessions d) sid = None"
    with bd obtain s where s: "gget (c_retired d) sid = Some s" "gget (s_bindings s) owner = Some b"
      by (auto simp: bindingOf_def sessionObj_def split: option.splits)
    then have "retired_ok (c_nextSession d) (sid, s)"
      using si gget_in_set [OF s(1)] by (auto simp: session_inv_def list_all_iff)
    with s show False by (simp add: retired_ok_def)
  qed
  then obtain s where s: "gget (c_sessions d) sid = Some s" by auto
  with bd have sb: "gget (s_bindings s) owner = Some b" by (simp add: bindingOf_def sessionObj_def)
  note ok = session_inv_get [OF si s]
  have db: "distinct_keys (s_bindings s)" using ok by (simp add: session_ok_def)
  have len: "int (length (gdel owner (s_bindings s))) = int (length (s_bindings s)) - 1"
    using gsum_gdel [OF db, of "\<lambda>_ _. 1" owner] sb by (simp add: length_gsum)
  have sub: "set (gdel owner (s_bindings s)) \<subseteq> set (s_bindings s)" by (auto simp: gdel_def)
  have "session_ok (c_config d) (c_nextSession d) (sid, ?f s)"
    using ok db len sub by (auto simp: session_ok_def list_all_iff action_ok_def)
  then have "session_inv (updSession sid ?f d)" using si s by (intro session_inv_updSession) auto
  then have "session_inv ?e" by (simp add: session_inv_def)
  moreover have "budget_inv ?e"
    using id s len gsum_updSession [OF si, of _ sid ?f] by (simp add: coord_inv_def budget_inv_def updSession_def)
  moreover have inert: "inert ?f" by (simp add: inert_def)
  moreover have "bound_inv (updSession sid ?f d)"
  proof (rule bound_inv_shrink [of d])
    show "bound_inv d" using id by (simp add: coord_inv_def)
    show "ownerKeys (updSession sid ?f d) \<subseteq> ownerKeys d" by simp
    show "getAction d ref = Some a" if "getAction (updSession sid ?f d) ref = Some a" for ref a
      using that by (simp add: getAction_updSession)
    fix key assume bk: "bound d key" and live: "key \<in> ownerKeys (updSession sid ?f d)
        \<or> (\<exists>ref a. getAction (updSession sid ?f d) ref = Some a \<and> rq_key a = key \<and> att_State (rq_result a) = Pending)"
    have "key_owner key \<noteq> owner \<or> key_session key \<noteq> sid"
    proof (rule ccontr)
      assume "\<not> (key_owner key \<noteq> owner \<or> key_session key \<noteq> sid)"
      with bk s sb have "key = ?k (key_domain key)" "key_domain key \<noteq> InvalidDomain"
        by (auto simp: bound_def keyOf_def)
      with clear have "cleared d key" by metis
      with live show False by (auto simp: cleared_def getAction_updSession)
    qed
    with bk s show "bound (updSession sid ?f d) key" by (auto simp: bound_def updSession_def)
  qed
  ultimately have "coord_inv ?e" using id by (simp add: coord_inv_def tables_ok_inert)
  with Some show ?thesis by (simp add: retireOwnerSection_def Let_def d_def)
qed

section \<open>Retiring a session\<close>

lemma coord_inv_retireBegin:
  assumes "coord_inv c"
  shows "coord_inv (fst (retireBegin ctxErr sid c))"
proof -
  have "coord_inv (updSession sid (\<lambda>s. s\<lparr>s_retiring := True, s_retireDone := True\<rparr>) c)"
    using assms session_inv_get [of c sid]
    by (intro coord_inv_updSession) (auto simp: inert_def coord_inv_def session_ok_def action_ok_def list_all_iff)
  with assms show ?thesis by (simp add: retireBegin_def split: option.split)
qed

lemma gget_filter_key: "gget (filter (\<lambda>(k, _). P k) m) k = (if P k then gget m k else None)"
  by (induction m) (auto simp: gget_Cons)

lemma gsum_claimCount:
  assumes "distinct_keys (c_owners c)"
  shows "gsum (\<lambda>key st. if P key then int (length (os_ranges st)) else 0) (c_owners c) = claimCount P (held c)"
proof -
  have "gsum w m = (\<Sum>k\<in>fst ` set m. case gget m k of None \<Rightarrow> 0 | Some v \<Rightarrow> w k v)"
    if "distinct_keys m" for w and m :: "(ownerKey, ownerState) gomap"
    using that
  proof (induction m)
    case (Cons kv m)
    obtain k v where kv: "kv = (k, v)" by (cases kv)
    have "(\<Sum>x\<in>fst ` set m. case gget (kv # m) x of None \<Rightarrow> 0 | Some v \<Rightarrow> w x v) =
        (\<Sum>x\<in>fst ` set m. case gget m x of None \<Rightarrow> 0 | Some v \<Rightarrow> w x v)"
      using Cons.prems by (intro sum.cong) (auto simp: kv gget_Cons)
    with Cons kv show ?case by (simp add: gget_Cons)
  qed simp
  note this [OF assms, of "\<lambda>key st. if P key then int (length (os_ranges st)) else 0"]
  also have "(\<Sum>k\<in>fst ` set (c_owners c). case gget (c_owners c) k of None \<Rightarrow> 0
      | Some st \<Rightarrow> if P k then int (length (os_ranges st)) else 0) =
      (\<Sum>k\<in>fst ` set (c_owners c). if P k then int (length (held c k)) else 0)"
    by (intro sum.cong) (auto simp: held_def split: option.split)
  also have "\<dots> = claimCount P (held c)"
    by (rule claimCount_superset [symmetric]) (auto simp: held_def split: option.splits dest: gget_Some_key)
  finally show ?thesis .
qed

lemma claimCount_split:
  assumes "finite {k. h k \<noteq> []}" and "\<And>k. h' k = (if Q k then [] else h k)"
  shows "claimCount P h' = claimCount P h - claimCount (\<lambda>k. P k \<and> Q k) h"
proof -
  let ?A = "{k. h k \<noteq> []}"
  have "claimCount P h' = (\<Sum>k\<in>?A. if P k then int (length (h' k)) else 0)"
    using assms by (intro claimCount_superset) (auto split: if_splits)
  moreover have "claimCount R h = (\<Sum>k\<in>?A. if R k then int (length (h k)) else 0)" for R
    using assms(1) by (intro claimCount_superset) auto
  moreover have "(\<Sum>k\<in>?A. if P k then int (length (h' k)) else 0) =
      (\<Sum>k\<in>?A. (if P k then int (length (h k)) else 0) - (if P k \<and> Q k then int (length (h k)) else 0))"
    by (intro sum.cong) (auto simp: assms(2))
  ultimately show ?thesis by (simp add: sum_subtractf)
qed

text \<open>What is left after the fence succeeded.\<close>

lemma retireFinish_view:
  assumes "gget (c_sessions c) sid = Some s" and "d = retireFinish None sid c"
  shows "c_owners d = filter (\<lambda>(key, _). key_session key \<noteq> sid) (c_owners c)"
    and "c_waiting d = filter (\<lambda>ref. fst ref \<noteq> sid) (c_waiting c)"
    and "c_sessions d = gdel sid (c_sessions c)"
    and "c_ranges d = c_ranges c - gsum (\<lambda>key st. if key_session key = sid then int (length (os_ranges st)) else 0) (c_owners c)"
    and "c_config d = c_config c"
    and "getAction d ref = (if fst ref = sid then None else getAction c ref)"
    and "held d k = (if key_session k = sid then [] else held c k)"
  using assms by (simp_all add: retireFinish_def getAction_def held_def gget_filter_key)

lemma retire_session:
  assumes inv: "coord_inv c" and Some: "gget (c_sessions c) sid = Some s" and d: "d = retireFinish None sid c"
  shows "session_inv d"
proof -
  have si: "session_inv c" using inv by (simp add: coord_inv_def)
  note ok = session_inv_get [OF si Some]
have "list_all (session_ok (c_config c) (c_nextSession c)) (gdel sid (c_sessions c))"
  using si by (auto simp: session_inv_def gdel_def list_all_iff)
moreover have "retired_ok (c_nextSession c)
    (sid, s\<lparr>s_actions := [], s_bindings := [], s_owners := 0, s_ranges := 0, s_pending := 0,
        s_retired := True, s_retireErr := None, s_retireDone := False\<rparr>)"
  using ok by (simp add: retired_ok_def session_ok_def)
moreover have "sid \<notin> fst ` set (c_retired c)"
  using si Some gget_Some_key [OF Some] by (auto simp: session_inv_def)
ultimately show ?thesis
  using si Some by (auto simp: session_inv_def d retireFinish_def gput_new keys_gdel)
qed

lemma retire_budget:
  assumes inv: "coord_inv c" and Some: "gget (c_sessions c) sid = Some s" and d: "d = retireFinish None sid c"
  shows "budget_inv d"
proof -
  have dk: "distinct_keys (c_sessions c)" using inv by (simp add: coord_inv_def session_inv_def)
have "int (length (gdel sid (c_sessions c))) = int (length (c_sessions c)) - 1"
  using gsum_gdel [OF dk, of "\<lambda>_ _. 1" sid] Some by (simp add: length_gsum)
with inv Some show ?thesis
  using gsum_gdel [OF dk, of "\<lambda>_ s. int (length (s_actions s))" sid]
    gsum_gdel [OF dk, of "\<lambda>_ s. int (length (s_bindings s))" sid]
  by (simp add: coord_inv_def budget_inv_def d retireFinish_def)
qed

lemma retire_queue:
  assumes inv: "coord_inv c" and Some: "gget (c_sessions c) sid = Some s" and d: "d = retireFinish None sid c"
  shows "queue_ok d"
proof -
  note owners = retireFinish_view(1) [OF Some d]
  note wait = retireFinish_view(2) [OF Some d]
  note sess = retireFinish_view(3) [OF Some d]
  note act = retireFinish_view(6) [OF Some d]
  have q: "queue_inv c" using inv by (simp add: coord_inv_def tables_ok_def queue_ok_def)
  note session = retire_session [OF inv Some d]
have key: "map_option rq_key (getAction d ref) = Some k \<longleftrightarrow> map_option rq_key (getAction c ref) = Some k \<and> key_session k \<noteq> sid"
  if "ref \<in> set (c_waiting c)" for ref k
  using keyed_queue [OF q, of ref] by (auto simp: act)
have on: "waitingOn d k = (if key_session k = sid then [] else waitingOn c k)" for k
proof -
  have "waitingOn d k = filter (\<lambda>ref. map_option rq_key (getAction c ref) = Some k \<and> key_session k \<noteq> sid) (c_waiting c)"
    unfolding waitingOn_def wait filter_filter
    by (intro filter_cong) (auto simp: act dest: keyed_queue [OF q])
  then show ?thesis by (simp add: waitingOn_def)
qed
have "queue_inv d"
  unfolding queue_inv_def
proof (intro conjI allI impI)
  show "keyed d" using session_inv_keyed(1) [OF session] .
  show "distinct (c_waiting d)" using q by (simp add: queue_inv_def wait)
  show "(ref \<in> set (c_waiting d)) = (\<exists>a. getAction d ref = Some a \<and> rq_pending a)" for ref
    using q by (auto simp: queue_inv_def wait act)
  show "ownerPending d k = int (length (waitingOn d k))" for k
    using q by (simp add: queue_inv_def on ownerPending_def owners gget_filter_key split: if_splits option.splits)
  show "sessionPending d sid' = int (length (filter (\<lambda>ref. fst ref = sid') (c_waiting d)))" for sid'
  proof (cases "sid' = sid")
    case False
    then have "filter (\<lambda>ref. fst ref = sid') (c_waiting d) = filter (\<lambda>ref. fst ref = sid') (c_waiting c)"
      unfolding wait filter_filter by (intro filter_cong) auto
    with q False show ?thesis by (simp add: queue_inv_def sessionPending_def sess)
  qed (simp add: sessionPending_def sess wait)
qed (use queue_inv_pending [OF q] in \<open>simp_all add: act split: if_splits\<close>)
moreover have "stranded d = {}"
  using inv by (auto simp: coord_inv_def tables_ok_def queue_ok_def stranded_def act split: if_splits)
ultimately show ?thesis by (simp add: queue_ok_def)
qed

lemma retire_range:
  assumes inv: "coord_inv c" and Some: "gget (c_sessions c) sid = Some s" and d: "d = retireFinish None sid c"
  shows "range_inv d"
proof -
  note owners = retireFinish_view(1) [OF Some d]
  note sess = retireFinish_view(3) [OF Some d]
  note ranges = retireFinish_view(4) [OF Some d]
  note cfg = retireFinish_view(5) [OF Some d]
  note held = retireFinish_view(7) [OF Some d]
  let ?out = "\<lambda>k. key_session k = sid"
  have r: "range_inv c" using inv by (simp add: coord_inv_def tables_ok_def)
have dk: "distinct_keys (c_owners c)" using r by (simp add: range_inv_def)
have fin: "finite {k. held c k \<noteq> []}" using r by (simp add: range_inv_def table_inv_def rangeView_def)
note split = claimCount_split [OF fin held]
have total: "c_ranges d = claimCount (\<lambda>_. True) (held d)"
  using r split [of "\<lambda>_. True"] gsum_claimCount [OF dk, of ?out]
  by (simp add: ranges range_inv_def table_inv_def rangeView_def)
have "0 \<le> claimCount ?out (held c)" unfolding claimCount_def by (intro sum_nonneg) simp
then have "c_ranges d \<le> MaxRanges (c_config c)"
  using r gsum_claimCount [OF dk, of ?out] by (simp add: ranges range_inv_def table_inv_def rangeView_def)
moreover have "claimCount (\<lambda>k. key_session k = sid') (held d) = claimCount (\<lambda>k. key_session k = sid') (held c)"
  if "sid' \<noteq> sid" for sid'
proof -
  have "claimCount (\<lambda>k. key_session k = sid' \<and> ?out k) (held c) = 0"
    unfolding claimCount_def using that by (intro sum.neutral) auto
  with split [of "\<lambda>k. key_session k = sid'"] show ?thesis by simp
qed
moreover have "finite {k. held d k \<noteq> []}"
  by (rule finite_subset [OF _ fin]) (auto simp: held)
moreover have "exclusive (held d)"
  using r by (auto simp: range_inv_def table_inv_def rangeView_def exclusive_def held)
moreover have "distinct_keys (c_owners d)" using dk by (simp add: owners distinct_map_filter)
ultimately show ?thesis
  using r total
  by (auto simp: range_inv_def table_inv_def rangeView_def limitsOf_def cfg sess held split: if_splits)
qed

lemma retire_bound:
  assumes inv: "coord_inv c" and Some: "gget (c_sessions c) sid = Some s" and d: "d = retireFinish None sid c"
  shows "bound_inv d"
proof -
  note owners = retireFinish_view(1) [OF Some d]
  note sess = retireFinish_view(3) [OF Some d]
  note act = retireFinish_view(6) [OF Some d]
  have q: "queue_inv c" and bi: "bound_inv c" using inv by (simp_all add: coord_inv_def tables_ok_def queue_ok_def)
  show ?thesis
proof (rule bound_inv_shrink [OF bi])
show "ownerKeys d \<subseteq> ownerKeys c" by (auto simp: ownerKeys_def owners gget_filter_key split: if_splits)
show "getAction c ref = Some a" if "getAction d ref = Some a" for ref a using that by (simp add: act split: if_splits)
show "bound d key" if "bound c key" and live: "key \<in> ownerKeys d \<or> (\<exists>ref a. getAction d ref = Some a \<and> rq_key a = key
    \<and> att_State (rq_result a) = Pending)" for key
proof -
  have "key_session key \<noteq> sid"
    using live keyed_queue [OF q] by (auto simp: ownerKeys_def owners gget_filter_key act split: if_splits)
  with that(1) show ?thesis by (simp add: bound_def sess)
qed
qed
qed

lemma coord_inv_retireFinish:
  assumes inv: "coord_inv c"
  shows "coord_inv (retireFinish fenceErr sid c)"
proof (cases "gget (c_sessions c) sid")
  case None
  with inv show ?thesis by (simp add: retireFinish_def)
next
  case s: (Some s)
  show ?thesis
  proof (cases fenceErr)
    case (Some e)
    have "coord_inv (updSession sid (\<lambda>s. s\<lparr>s_retireErr := Some e, s_retireDone := False\<rparr>) c)"
      using inv session_inv_get [of c sid]
      by (intro coord_inv_updSession) (auto simp: inert_def coord_inv_def session_ok_def action_ok_def list_all_iff)
    with Some s show ?thesis by (simp add: retireFinish_def)
  next
    case None
    note session = retire_session [OF inv s refl]
    from session session_inv_keyed(2) [OF session] None show ?thesis
      using retire_budget [OF inv s refl] retire_queue [OF inv s refl] retire_range [OF inv s refl]
        retire_bound [OF inv s refl]
      by (simp add: coord_inv_def tables_ok_def)
  qed
qed

section \<open>Use claims\<close>

lemma coord_inv_uses:
  assumes "coord_inv c" and "distinct_keys uses" and "c_registeredOwners c + int (length uses) \<le> MaxOwners (c_config c)"
  shows "coord_inv (c\<lparr>c_uses := uses\<rparr>)"
  using assms by (simp add: coord_inv_def session_inv_def budget_inv_def)

lemma coord_inv_AddUse: "coord_inv c \<Longrightarrow> coord_inv (fst (AddUse validUTF8 ctxErr node scope claim c))"
proof -
  assume inv: "coord_inv c"
  have "coord_inv (c\<lparr>c_uses := gput scope u (c_uses c)\<rparr>)"
    if "gget (c_uses c) scope = None" "int (length (c_uses c)) + c_registeredOwners c < MaxOwners (c_config c)" for u
    using inv that by (intro coord_inv_uses) (auto simp: coord_inv_def session_inv_def gput_new gget_eq_None)
  with inv show ?thesis by (simp add: AddUse_def split: option.split)
qed

lemma coord_inv_gdel_uses: "coord_inv c \<Longrightarrow> coord_inv (c\<lparr>c_uses := gdel scope (c_uses c)\<rparr>)"
  using length_gdel_le [of scope "c_uses c"]
  by (intro coord_inv_uses) (auto simp: coord_inv_def session_inv_def budget_inv_def)

lemma coord_inv_DropUse: "coord_inv c \<Longrightarrow> coord_inv (fst (DropUse validUTF8 ctxErr node scope c))"
  by (simp add: DropUse_def coord_inv_gdel_uses split: option.split)

lemma coord_inv_DropUseExact: "coord_inv c \<Longrightarrow> coord_inv (fst (DropUseExact validUTF8 ctxErr node scope claim c))"
  by (simp add: DropUseExact_def coord_inv_gdel_uses split: option.split)

end
