(* ===== verification/CoordSystem.thy ===== *)
theory CoordSystem
  imports CoordInv
begin

text \<open>
  The coordinator as a system of atomic steps, one per critical section, and what every
  reachable coordinator satisfies: the invariant of \<^verbatim>\<open>CoordInv\<close>, the bounds of the
  wait queue and the compatibility of the use table. The public operations are shown to be
  finite runs of these steps, and a pump that is not interrupted leaves no request behind
  that could run.
\<close>

section \<open>The coordinator as a system of atomic steps\<close>

text \<open>
  One step is one critical section of the coordinator mutex, with the conditions under which
  the code enters it; the ranges over a Go map are in no particular order, so an owner map
  may be permuted between any two steps.
\<close>

definition coord_init :: "Coordinator \<Rightarrow> bool" where
  "coord_init c \<longleftrightarrow> (\<exists>config. New config = Inr c)"

inductive coord_step :: "Coordinator \<Rightarrow> Coordinator \<Rightarrow> bool" where
  step_session: "coord_step c (fst (NewSession now options hasFence c))"
| step_owner: "coord_step c (fst (NewOwner validUTF8 ctxErr sid node scope options c))"
| step_history: "coord_step c (fst (History now ctxErr sid c))"
| step_close: "coord_step c (fst (WithCloseAdmission now ctxErr admit sid c))"
| step_apply:
    "checkCommands (c_config c) commands = None \<Longrightarrow> Epoch request = Inr epoch
     \<Longrightarrow> coord_step c (fst (applySection now sid node owner commands request epoch c))"
| step_advance: "coord_step c (fst (advanceSection now ref c))"
| step_find: "coord_step c (fst (findLocked now sid node owner request c))"
| step_request: "coord_step c (fst (requestLocked now sid owner request c))"
| step_cancel: "coord_step c (fst (cancelSection now sid node owner request c))"
| step_drop: "coord_step c (dropLocked now key c)"
| step_retire_owner: "coord_step c (retireOwnerSection now sid owner c)"
| step_retire_begin: "coord_step c (fst (retireBegin ctxErr sid c))"
| step_retire_finish: "coord_step c (retireFinish fenceErr sid c)"
| step_add_use: "coord_step c (fst (AddUse validUTF8 ctxErr node scope use c))"
| step_drop_use: "coord_step c (fst (DropUse validUTF8 ctxErr node scope c))"
| step_drop_use_exact: "coord_step c (fst (DropUseExact validUTF8 ctxErr node scope use c))"
| step_map_order: "mset m = mset (c_owners c) \<Longrightarrow> coord_step c (c\<lparr>c_owners := m\<rparr>)"

inductive_cases coord_stepE: "coord_step c c'"

lemma owner_order:
  assumes "mset m = mset (c_owners c)" and "distinct_keys (c_owners c)"
  defines "d \<equiv> c\<lparr>c_owners := m\<rparr>"
  shows "gget m = gget (c_owners c)" and "held d = held c" and "ownerPending d = ownerPending c"
    and "ownerKeys d = ownerKeys c" and "distinct_keys m"
proof -
  have "mset (map fst m) = mset (map fst (c_owners c))"
    using assms(1) by (metis mset_map)
  with assms(2) show dist: "distinct_keys m"
    by (metis mset_eq_imp_distinct_iff)
  from assms(1) dist show eq: "gget m = gget (c_owners c)"
    by (rule gget_eqI)
  show "held d = held c" "ownerPending d = ownerPending c" "ownerKeys d = ownerKeys c"
    by (simp_all add: fun_eq_iff d_def held_def ownerPending_def ownerKeys_def eq)
qed

lemma coord_inv_map_order:
  assumes inv: "coord_inv c" and perm: "mset m = mset (c_owners c)"
  shows "coord_inv (c\<lparr>c_owners := m\<rparr>)"
proof -
  have "distinct_keys (c_owners c)"
    using inv by (simp add: coord_inv_def tables_ok_def range_inv_def)
  note same = owner_order [OF perm this]
  have act: "getAction (c\<lparr>c_owners := m\<rparr>) = getAction c"
    by (simp add: getAction_def fun_eq_iff)
  have [simp]: "sessionPending (c\<lparr>c_owners := m\<rparr>) = sessionPending c"
    "limitsOf (c\<lparr>c_owners := m\<rparr>) = limitsOf c" "bound (c\<lparr>c_owners := m\<rparr>) = bound c"
    by (simp_all add: sessionPending_def limitsOf_def bound_def fun_eq_iff)
  show ?thesis
    using inv same unfolding coord_inv_def session_inv_def budget_inv_def tables_ok_def queue_ok_def
      queue_inv_def keyed_def waitingOn_def stranded_def range_inv_def rangeView_def batches_ok_def
      bound_inv_def pendingRefs_def act
    by simp
qed

lemma coord_inv_step: "coord_step c c' \<Longrightarrow> coord_inv c \<Longrightarrow> coord_inv c'"
  by (induction rule: coord_step.induct)
    (simp_all add: coord_inv_NewSession coord_inv_NewOwner coord_inv_History coord_inv_WithCloseAdmission
      coord_inv_applySection coord_inv_advanceSection coord_inv_findLocked coord_inv_requestLocked
      coord_inv_cancelSection coord_inv_dropLocked coord_inv_retireOwner coord_inv_retireBegin
      coord_inv_retireFinish coord_inv_AddUse coord_inv_DropUse coord_inv_DropUseExact coord_inv_map_order)

section \<open>The bounds of the wait queue\<close>

definition pend_ok :: "Session \<Rightarrow> bool" where
  "pend_ok s \<longleftrightarrow> s_pending s \<le> fs_MaxPendingLocks (s_options s) \<and> s_pending s \<le> fs_MaxWaiters (s_options s)"

definition pend_bound :: "Coordinator \<Rightarrow> bool" where
  "pend_bound c \<longleftrightarrow> int (length (c_waiting c)) \<le> MaxWaiters (c_config c)
     \<and> (\<forall>sid s. gget (c_sessions c) sid = Some s \<longrightarrow> pend_ok s)"

lemma pend_bound_updSession:
  "pend_bound c \<Longrightarrow> (\<And>s. s_pending (f s) \<le> s_pending s \<and> s_options (f s) = s_options s) \<Longrightarrow> pend_bound (updSession sid f c)"
proof -
  assume c: "pend_bound c" and f: "\<And>s. s_pending (f s) \<le> s_pending s \<and> s_options (f s) = s_options s"
  have "pend_ok (f s)" if "pend_ok s" for s
    using that f [of s] unfolding pend_ok_def by auto
  with c show ?thesis
    by (auto simp: pend_bound_def updSession_def)
qed

lemma pend_bound_fields [simp]:
  "pend_bound (c\<lparr>c_owners := m\<rparr>) = pend_bound c"
  "pend_bound (c\<lparr>c_ranges := n\<rparr>) = pend_bound c"
  "pend_bound (c\<lparr>c_requests := n\<rparr>) = pend_bound c"
  "pend_bound (c\<lparr>c_registeredOwners := n\<rparr>) = pend_bound c"
  "pend_bound (c\<lparr>c_retired := r\<rparr>) = pend_bound c"
  "pend_bound (c\<lparr>c_uses := u\<rparr>) = pend_bound c"
  by (simp_all add: pend_bound_def)

lemma pend_bound_updAction: "pend_bound c \<Longrightarrow> pend_bound (updAction ref f c)"
  unfolding updAction_def by (rule pend_bound_updSession) simp_all

lemma pend_bound_owner:
  assumes "pend_bound c"
  shows "pend_bound (updOwner key f c)" and "pend_bound (ownerLocked key c)" and "pend_bound (pruneOwnerLocked key c)"
    and "pend_bound (installRangesLocked key ranges c)"
  using assms
  by (simp_all add: updOwner_def ownerLocked_def pruneOwnerLocked_def installRangesLocked_def Let_def
      pend_bound_updSession split: option.split)

lemma pend_bound_replace: "replaceLocked key ranges c = Some d \<Longrightarrow> pend_bound c \<Longrightarrow> pend_bound d"
  by (auto simp: replaceLocked_def pend_bound_owner split: if_splits)

lemma pend_bound_waiting: "pend_bound c \<Longrightarrow> length w \<le> length (c_waiting c) \<Longrightarrow> pend_bound (c\<lparr>c_waiting := w\<rparr>)"
  by (auto simp: pend_bound_def)

lemma pend_bound_dequeue: "pend_bound c \<Longrightarrow> pend_bound (dequeueLocked ref key c)"
  by (auto simp: dequeueLocked_def length_remove1
      intro!: pend_bound_owner(1,3) pend_bound_waiting pend_bound_updSession pend_bound_updAction)

lemma pend_bound_complete: "pend_bound c \<Longrightarrow> pend_bound (completeLocked now ref state rejection c)"
  by (simp add: completeLocked_def Let_def pend_bound_dequeue pend_bound_updAction split: option.split)

lemma pend_bound_reconcile: "pend_bound c \<Longrightarrow> pend_bound (reconcileRemovedClaimsLocked now key effects c)"
  unfolding reconcileRemovedClaimsLocked_def
  by (rule fold_preserves) (auto simp: reconcileOne_def pend_bound_complete split: option.split)

lemma pend_bound_commit:
  assumes "pend_bound c"
  shows "pend_bound (commitReleasePrefixLocked now ref key edit c)" and "pend_bound (commitEditLocked now ref key edit c)"
proof -
  show prefix: "pend_bound (commitReleasePrefixLocked now ref key edit c)"
    using assms by (simp add: commitReleasePrefixLocked_def pend_bound_reconcile pend_bound_updAction pend_bound_owner)
  show "pend_bound (commitEditLocked now ref key edit c)"
    using assms prefix
    by (auto simp: commitEditLocked_def pend_bound_reconcile pend_bound_updAction pend_bound_complete
        dest: pend_bound_replace split: option.split)
qed

lemma pend_bound_enqueue:
  assumes "pend_bound c" and "\<not> waitersExhausted c (key_session key)"
  shows "pend_bound (enqueueLocked ref key c)"
proof -
  let ?d = "updOwner key (\<lambda>st. st\<lparr>os_pending := os_pending st + 1\<rparr>) (updAction ref (\<lambda>a. a\<lparr>rq_pending := True\<rparr>) c)"
  have d: "pend_bound ?d" using assms(1) by (simp add: pend_bound_owner pend_bound_updAction)
  from assms(2) obtain s where s: "gget (c_sessions c) (key_session key) = Some s"
    and w: "int (length (c_waiting c)) < MaxWaiters (c_config c)"
    and p: "s_pending s < fs_MaxPendingLocks (s_options s)" "s_pending s < fs_MaxWaiters (s_options s)"
    by (auto simp: waitersExhausted_def split: option.splits)
  have "map_option (\<lambda>s. (s_pending s, s_options s)) (gget (c_sessions ?d) (key_session key)) = Some (s_pending s, s_options s)"
    using s by (auto simp: updOwner_def updAction_def updSession_def)
  then obtain t where "gget (c_sessions ?d) (key_session key) = Some t" "s_pending t = s_pending s" "s_options t = s_options s"
    by auto
  with d p w show ?thesis
    by (auto simp: enqueueLocked_def pend_bound_def pend_ok_def updSession_def updOwner_def updAction_def split: if_splits)
qed

lemma pend_bound_startLocked: "pend_bound c \<Longrightarrow> pend_bound (startLocked now ref c)"
proof -
  have reject: "pend_bound c \<Longrightarrow> pend_bound (rejectStart now ref edit code c)" for edit code c
    by (simp add: rejectStart_def pend_bound_complete pend_bound_updAction)
  have "pend_bound c \<Longrightarrow> pend_bound (startRejected now ref action edit c)" for action edit c
    by (simp add: startRejected_def Let_def reject pend_bound_enqueue pend_bound_updAction pend_bound_commit)
  moreover have "pend_bound c \<Longrightarrow> pend_bound (dropForConversion ref key c)" for key c
    by (auto simp: dropForConversion_def Let_def pend_bound_updAction dest: pend_bound_replace split: option.split)
  ultimately have "pend_bound c \<Longrightarrow> pend_bound (startBody now ref action c)" for action c
    by (simp add: startBody_def Let_def pend_bound_complete pend_bound_commit)
  then show "pend_bound c \<Longrightarrow> pend_bound (startLocked now ref c)"
    by (simp add: startLocked_def pend_bound_owner split: option.split)
qed

lemma pend_bound_advanceSection: "pend_bound c \<Longrightarrow> pend_bound (fst (advanceSection now ref c))"
  by (simp add: advanceSection_def Let_def pend_bound_startLocked pend_bound_updAction pend_bound_complete
      pend_bound_commit split: option.split)

lemma pend_bound_dropLocked: "pend_bound c \<Longrightarrow> pend_bound (dropLocked now key c)"
proof -
  have one: "pend_bound c \<Longrightarrow> pend_bound (dropAction now key request c)" for request c
    by (simp add: dropAction_def pend_bound_complete split: option.split AttemptState.split)
  show "pend_bound c \<Longrightarrow> pend_bound (dropLocked now key c)"
    unfolding dropLocked_def Let_def
    by (intro pend_bound_owner(3), rule fold_preserves [where P = pend_bound])
      (auto simp: one dest: pend_bound_replace split: option.split)
qed

lemma pend_bound_retireOwner: "pend_bound c \<Longrightarrow> pend_bound (retireOwnerSection now sid owner c)"
  by (simp add: retireOwnerSection_def Let_def pend_bound_updSession pend_bound_dropLocked split: option.split)

lemma pend_bound_prune: "pend_bound c \<Longrightarrow> pend_bound (pruneHistoryLocked now sid c)"
  by (simp add: pruneHistoryLocked_def Let_def pend_bound_updSession split: option.split)

lemma pend_bound_advanceLocked: "pend_bound c \<Longrightarrow> pend_bound (fst (advanceLocked now sid c))"
proof -
  assume "pend_bound c"
  then have "pend_bound (updSession sid (nextEpoch now) c)"
    by (rule pend_bound_updSession) (simp add: nextEpoch_def)
  then have "pend_bound (c\<lparr>c_sessions := gupd sid (nextEpoch now) (c_sessions c), c_retired := gupd sid (nextEpoch now) (c_retired c)\<rparr>)"
    by (simp add: updSession_def)
  with \<open>pend_bound c\<close> show ?thesis
    by (simp add: advanceLocked_def pend_bound_prune split: option.split)
qed

lemma pend_bound_makeRoom: "pend_bound c \<Longrightarrow> pend_bound (makeRoom now c)"
  by (auto simp: makeRoom_def pruneAllHistory_def intro: fold_preserves [where P = pend_bound] pend_bound_prune)

lemma pend_bound_applySection: "pend_bound c \<Longrightarrow> pend_bound (fst (applySection now sid node owner commands request epoch c))"
proof -
  assume c: "pend_bound c"
  have reg: "pend_bound (registerAction now sid a (makeRoom now d))" if "pend_bound d" for a d
    using that by (simp add: registerAction_def pend_bound_startLocked pend_bound_updSession pend_bound_makeRoom)
  obtain d err where adv: "advanceLocked now sid c = (d, err)" by (cases "advanceLocked now sid c")
  have d: "pend_bound d" using pend_bound_advanceLocked [OF c, of now sid] adv by simp
  with adv c show ?thesis
    by (cases err) (auto simp: applySection_def Let_def reg pend_bound_makeRoom split: option.split)
qed

lemma pend_bound_request:
  assumes "pend_bound c"
  shows "pend_bound (fst (requestLocked now sid owner request c))" and "pend_bound (fst (findLocked now sid node owner request c))"
    and "pend_bound (fst (cancelSection now sid node owner request c))"
proof -
  show req: "pend_bound (fst (requestLocked now sid owner request c))"
    using pend_bound_advanceLocked [OF assms, of now sid] assms
    by (auto simp: requestLocked_def split: option.split sum.split prod.split)
  show find: "pend_bound (fst (findLocked now sid node owner request c))"
    using req by (auto simp: findLocked_def split: sum.split prod.split)
  show "pend_bound (fst (cancelSection now sid node owner request c))"
    using find by (auto simp: cancelSection_def Let_def pend_bound_complete split: sum.split prod.split)
qed

lemma pend_bound_retire:
  assumes "pend_bound c"
  shows "pend_bound (fst (retireBegin ctxErr sid c))" and "pend_bound (retireFinish fenceErr sid c)"
proof -
  show "pend_bound (fst (retireBegin ctxErr sid c))"
    using assms by (simp add: retireBegin_def pend_bound_updSession split: option.split)
  have "length (filter (\<lambda>ref. fst ref \<noteq> sid) (c_waiting c)) \<le> length (c_waiting c)" by simp
  with assms have "int (length (filter (\<lambda>ref. fst ref \<noteq> sid) (c_waiting c))) \<le> MaxWaiters (c_config c)"
    by (simp only: pend_bound_def) linarith
  with assms show "pend_bound (retireFinish fenceErr sid c)"
    by (auto simp: retireFinish_def pend_bound_updSession split: option.split) (auto simp: pend_bound_def)
qed

lemma pend_bound_NewSession: "pend_bound c \<Longrightarrow> pend_bound (fst (NewSession now options hasFence c))"
  by (auto simp: NewSession_def Let_def pend_bound_def pend_ok_def FileSessionOptions_Check_def split: option.split)

lemma pend_bound_NewOwner: "pend_bound c \<Longrightarrow> pend_bound (fst (NewOwner validUTF8 ctxErr sid node scope options c))"
  by (simp add: NewOwner_def Let_def pend_bound_updSession split: option.split)

lemma pend_bound_history:
  assumes "pend_bound c"
  shows "pend_bound (fst (History now ctxErr sid c))" and "pend_bound (fst (WithCloseAdmission now ctxErr admit sid c))"
  using pend_bound_advanceLocked [OF assms, of now sid] assms
  by (auto simp: History_def WithCloseAdmission_def split: option.split prod.split)

lemma pend_bound_uses:
  assumes "pend_bound c"
  shows "pend_bound (fst (AddUse validUTF8 ctxErr node scope use c))" and "pend_bound (fst (DropUse validUTF8 ctxErr node scope c))"
    and "pend_bound (fst (DropUseExact validUTF8 ctxErr node scope use c))"
  using assms by (simp_all add: AddUse_def DropUse_def DropUseExact_def split: option.split)

lemma pend_bound_step: "coord_step c c' \<Longrightarrow> pend_bound c \<Longrightarrow> pend_bound c'"
  by (induction rule: coord_step.induct)
    (simp_all add: pend_bound_NewSession pend_bound_NewOwner pend_bound_history pend_bound_applySection
      pend_bound_advanceSection pend_bound_request pend_bound_dropLocked pend_bound_retireOwner pend_bound_retire pend_bound_uses)

lemma pend_bound_New: "New config = Inr c \<Longrightarrow> pend_bound c"
  by (auto simp: New_def pend_bound_def Config_Check_def split: option.splits)

section \<open>The use table\<close>

text \<open>Claims of different references on one node never deny each other's uses.\<close>

definition uses_ok :: "(UseScope, useClaim) gomap \<Rightarrow> bool" where
  "uses_ok uses \<longleftrightarrow> (\<forall>a x b y. gget uses a = Some x \<longrightarrow> gget uses b = Some y \<longrightarrow> a \<noteq> b \<longrightarrow> use_node x = use_node y
     \<longrightarrow> uc_Uses (use_claim x) AND uc_Deny (use_claim y) = 0)"

lemma uses_ok_gdel: "uses_ok uses \<Longrightarrow> uses_ok (gdel scope uses)"
  by (simp add: uses_ok_def)

lemma uses_ok_AddUse: "uses_ok (c_uses c) \<Longrightarrow> uses_ok (c_uses (fst (AddUse validUTF8 ctxErr node scope use c)))"
proof -
  assume ok: "uses_ok (c_uses c)"
  let ?clash = "\<lambda>other. use_node other = node \<and> (uc_Uses use AND uc_Deny (use_claim other) \<noteq> 0
    \<or> uc_Uses (use_claim other) AND uc_Deny use \<noteq> 0)"
  have "uses_ok (gput scope \<lparr>use_node = node, use_claim = use\<rparr> (c_uses c))"
    if "\<not> list_ex (\<lambda>(_, other). ?clash other) (c_uses c)"
  proof -
    have free: "\<not> ?clash y" if "gget (c_uses c) b = Some y" for b y
      using \<open>\<not> list_ex _ _\<close> gget_in_set [OF that] by (auto simp: list_ex_iff)
    show ?thesis
      using ok free unfolding uses_ok_def by (simp split: if_splits)
  qed
  with ok show ?thesis
    by (auto simp: AddUse_def split: option.split)
qed

lemma uses_ok_DropUse:
  assumes "uses_ok (c_uses c)"
  shows "uses_ok (c_uses (fst (DropUse validUTF8 ctxErr node scope c)))"
    and "uses_ok (c_uses (fst (DropUseExact validUTF8 ctxErr node scope use c)))"
  using assms by (simp_all add: DropUse_def DropUseExact_def uses_ok_gdel split: option.split)

text \<open>Every other step leaves the use table alone.\<close>

lemma uses_updSession [simp]: "c_uses (updSession sid f c) = c_uses c"
  by (simp add: updSession_def)

lemma uses_dropLocked [simp]: "c_uses (dropLocked now key c) = c_uses c"
  by (rule frame_fields(6)) simp

lemma uses_retireOwner [simp]: "c_uses (retireOwnerSection now sid owner c) = c_uses c"
  by (simp add: retireOwnerSection_def Let_def split: option.split)

lemma uses_pruneHistory [simp]: "c_uses (pruneHistoryLocked now sid c) = c_uses c"
  by (simp add: pruneHistoryLocked_def Let_def split: option.split)

lemma uses_makeRoom [simp]: "c_uses (makeRoom now c) = c_uses c"
  by (simp add: makeRoom_def pruneAllHistory_def fold_invariant_eq [where g = c_uses])

lemma uses_advanceLocked [simp]: "c_uses (fst (advanceLocked now sid c)) = c_uses c"
  by (simp add: advanceLocked_def split: option.split)

lemma uses_registerAction [simp]: "c_uses (registerAction now sid a c) = c_uses c"
  unfolding registerAction_def by (subst frame_fields(6) [OF frame_startLocked]) simp

lemma uses_applySection [simp]: "c_uses (fst (applySection now sid node owner commands request epoch c)) = c_uses c"
  using uses_advanceLocked [of now sid c]
  by (auto simp: applySection_def Let_def simp del: uses_advanceLocked split: option.split prod.split)

lemma uses_requestLocked [simp]: "c_uses (fst (requestLocked now sid owner request c)) = c_uses c"
  using uses_advanceLocked [of now sid c]
  by (auto simp: requestLocked_def simp del: uses_advanceLocked split: option.split sum.split prod.split)

lemma uses_findLocked [simp]: "c_uses (fst (findLocked now sid node owner request c)) = c_uses c"
  using uses_requestLocked [of now sid owner request c]
  by (auto simp: findLocked_def simp del: uses_requestLocked split: sum.split prod.split)

lemma uses_complete [simp]: "c_uses (completeLocked now ref state rejection c) = c_uses c"
  by (rule frame_fields(6)) simp

lemma uses_cancelSection [simp]: "c_uses (fst (cancelSection now sid node owner request c)) = c_uses c"
  using uses_findLocked [of now sid node owner request c]
  by (auto simp: cancelSection_def Let_def simp del: uses_findLocked split: sum.split prod.split)

lemma uses_history [simp]:
  "c_uses (fst (History now ctxErr sid c)) = c_uses c"
  "c_uses (fst (WithCloseAdmission now ctxErr admit sid c)) = c_uses c"
  using uses_advanceLocked [of now sid c]
  by (auto simp: History_def WithCloseAdmission_def simp del: uses_advanceLocked split: option.split prod.split)

lemma uses_lifecycle [simp]:
  "c_uses (fst (NewSession now options hasFence c)) = c_uses c"
  "c_uses (fst (NewOwner validUTF8 ctxErr sid node scope opts c)) = c_uses c"
  "c_uses (fst (retireBegin ctxErr sid c)) = c_uses c"
  "c_uses (retireFinish fenceErr sid c) = c_uses c"
  by (simp_all add: NewSession_def NewOwner_def retireBegin_def retireFinish_def Let_def split: option.split)

lemma uses_advanceSection [simp]: "c_uses (fst (advanceSection now ref c)) = c_uses c"
  by (rule frame_fields(6)) simp

lemma uses_ok_step: "coord_step c c' \<Longrightarrow> uses_ok (c_uses c) \<Longrightarrow> uses_ok (c_uses c')"
  by (induction rule: coord_step.induct) (simp_all add: uses_ok_AddUse uses_ok_DropUse)

section \<open>What every reachable coordinator satisfies\<close>

definition system_inv :: "Coordinator \<Rightarrow> bool" where
  "system_inv c \<longleftrightarrow> coord_inv c \<and> pend_bound c \<and> uses_ok (c_uses c)"

interpretation coord: guarded_system coord_init coord_step system_inv
proof
  show "system_inv c" if "coord_init c" for c
  proof -
    from that obtain config where new: "New config = Inr c" by (auto simp: coord_init_def)
    then have "c_uses c = []" by (auto simp: New_def split: option.splits)
    with new coord_inv_New pend_bound_New show ?thesis by (simp add: system_inv_def uses_ok_def)
  qed
  show "system_inv c'" if "system_inv c" "coord_step c c'" for c c'
    using that coord_inv_step pend_bound_step uses_ok_step by (auto simp: system_inv_def)
qed

abbreviation reachable :: "Coordinator \<Rightarrow> bool" where
  "reachable \<equiv> reach coord_init coord_step"

lemmas reachable_inv = coord.reach_inv

lemma reachable_parts:
  assumes "reachable c"
  shows "session_inv c" and "budget_inv c" and "queue_inv c" and "stranded c = {}" and "range_inv c"
    and "batches_ok c" and "bound_inv c" and "pend_bound c" and "uses_ok (c_uses c)" and "coord_inv c"
  using coord.reach_inv [OF assms] by (simp_all add: system_inv_def coord_inv_def tables_ok_def queue_ok_def)

section \<open>The public operations as runs of steps\<close>

lemma run_one: "coord_step c c' \<Longrightarrow> coord_step\<^sup>*\<^sup>* c c'"
  by (rule r_into_rtranclp)

lemma advance_run: "coord_step\<^sup>*\<^sup>* c (fst (advance now ref answer c))"
  by (auto simp: advance_def split: option.split order_answer.split intro: run_one step_advance)

lemma pump_run: "coord_step\<^sup>*\<^sup>* c (pump now env c)"
  by (rule pump_preserves [where P = "coord_step\<^sup>*\<^sup>* c"]) (auto intro: rtranclp_trans advance_run)

lemma Drop_run: "coord_step\<^sup>*\<^sup>* c (fst (Drop now env ctxErr sid node owner domain c))"
  by (auto simp: Drop_def split: option.split intro: rtranclp_trans [OF run_one [OF step_drop] pump_run])

lemma RetireOwner_run: "coord_step\<^sup>*\<^sup>* c (fst (RetireOwner now env ctxErr sid owner c))"
  by (auto simp: RetireOwner_def split: option.split intro: rtranclp_trans [OF run_one [OF step_retire_owner] pump_run])

lemma Retire_run:
  assumes "\<And>later. wake = DoneClosed later \<Longrightarrow> coord_step\<^sup>*\<^sup>* c later"
  shows "coord_step\<^sup>*\<^sup>* c (fst (Retire now env ctxErr fenceErr wake sid c))"
proof -
  obtain d start where d: "retireBegin ctxErr sid c = (d, start)" by (cases "retireBegin ctxErr sid c")
  have one: "coord_step\<^sup>*\<^sup>* c d" using step_retire_begin [of c ctxErr sid] d by (auto intro: run_one)
  have two: "coord_step\<^sup>*\<^sup>* c (retireFinish fenceErr sid d)"
    using one step_retire_finish by (rule rtranclp.rtrancl_into_rtrancl)
  show ?thesis
    using d one two rtranclp_trans [OF two pump_run] assms
    by (cases start) (auto simp: Retire_def Let_def split: retire_wake.split)
qed

lemma Cancel_run: "coord_step\<^sup>*\<^sup>* c (fst (Cancel now env ctxErr sid node owner request c))"
proof -
  obtain d r where d: "cancelSection now sid node owner request c = (d, r)" by (cases "cancelSection now sid node owner request c")
  have one: "coord_step\<^sup>*\<^sup>* c d" using step_cancel [of c now sid node owner request] d by (auto intro: run_one)
  show ?thesis
    using d one rtranclp_trans [OF one pump_run] by (auto simp: Cancel_def split: option.split sum.split)
qed

lemma Query_run: "coord_step\<^sup>*\<^sup>* c (fst (Query now ctxErr sid node owner request order c))"
proof -
  obtain d r where d: "findLocked now sid node owner request c = (d, r)" by (cases "findLocked now sid node owner request c")
  have one: "coord_step\<^sup>*\<^sup>* c d" using step_find [of c now sid node owner request] d by (auto intro: run_one)
  have two: "coord_step\<^sup>*\<^sup>* c (fst (advance now (sid, request) order d))"
    using one advance_run by (rule rtranclp_trans)
  show ?thesis
    using d one two by (auto simp: Query_def split: option.split sum.split prod.split)
qed

lemma Apply_run: "coord_step\<^sup>*\<^sup>* c (fst (Apply now env ctxErr sid node owner commands request order retry c))"
proof (cases "checkCommands (c_config c) commands = None \<and> (\<exists>epoch. Epoch request = Inr epoch)")
  case True
  then obtain epoch where ok: "checkCommands (c_config c) commands = None" "Epoch request = Inr epoch" by blast
  obtain d r where d: "applySection now sid node owner commands request epoch c = (d, r)"
    by (cases "applySection now sid node owner commands request epoch c")
  have one: "coord_step\<^sup>*\<^sup>* c d" using step_apply [OF ok, of now sid node owner] d by (auto intro: run_one)
  have two: "coord_step\<^sup>*\<^sup>* c (fst (advance now (sid, request) retry (pump now env d)))"
    by (meson one pump_run advance_run rtranclp_trans)
  show ?thesis
    using ok d one two
    by (auto simp: Apply_def split: option.split sum.split prod.split order_answer.split)
next
  case False
  then show ?thesis
    by (auto simp: Apply_def split: option.split sum.split)
qed

lemma reachable_run: "reachable c \<Longrightarrow> coord_step\<^sup>*\<^sup>* c c' \<Longrightarrow> reachable c'"
  by (rotate_tac, induction rule: rtranclp_induct) (auto intro: reach_step)

section \<open>Wakeups\<close>

text \<open>Requests whose conversion dropped the owner's ranges and that have not resumed yet.\<close>

definition convs :: "Coordinator \<Rightarrow> actref set" where
  "convs c = {ref. \<exists>a. getAction c ref = Some a \<and> rq_converting a}"

lemma waiting_set:
  assumes "queue_ok c"
  shows "set (c_waiting c) = pendingRefs c - convs c"
proof (rule set_eqI)
  fix ref
  have qi: "queue_inv c" using assms by (simp add: queue_ok_def)
  then have "ref \<in> set (c_waiting c) \<longleftrightarrow> (\<exists>a. getAction c ref = Some a \<and> rq_pending a)"
    unfolding queue_inv_def by blast
  then show "ref \<in> set (c_waiting c) \<longleftrightarrow> ref \<in> pendingRefs c - convs c"
    using queue_inv_pending [OF qi, of ref] queue_ok_pending [OF assms, of ref]
    by (cases "getAction c ref") (auto simp: pendingRefs_def convs_def)
qed

lemma convs_complete: "convs (completeLocked now ref state rejection c) = convs c"
  by (auto simp: convs_def getAction_completeLocked split: if_splits)

lemma convs_fields [simp]:
  "convs (pruneOwnerLocked key c) = convs c" "convs (installRangesLocked key ranges c) = convs c"
  by (simp_all add: convs_def)

lemma convs_updAction: "(\<And>a. rq_converting (f a) = rq_converting a) \<Longrightarrow> convs (updAction ref f c) = convs c"
  by (auto simp: convs_def getAction_updAction split: if_splits)

lemma convs_reconcile: "convs (reconcileRemovedClaimsLocked now key effects c) = convs c"
  unfolding reconcileRemovedClaimsLocked_def
  by (rule fold_invariant_eq) (simp add: reconcileOne_def convs_complete split: option.split)

lemma convs_commitEdit: "convs (commitEditLocked now ref key edit c) = convs c"
  by (simp add: commitEditLocked_def commitReleasePrefixLocked_def replaceLocked_def convs_reconcile convs_complete convs_updAction)

lemma convs_advance:
  assumes "ref \<notin> convs c"
  shows "convs (fst (advance now ref answer c)) = convs c"
  using assms
  by (auto simp: advance_def advanceSection_def Let_def convs_complete convs_commitEdit convs_updAction
      convs_def [of c] split: option.split order_answer.split)

lemma pendingRefs_advance: "pendingRefs (fst (advance now ref answer c)) \<subseteq> pendingRefs c"
proof -
  have "pendingRefs (fst (advanceSection now ref c)) \<subseteq> pendingRefs c"
    using pendingRefs_startLocked [of now ref "updAction ref (\<lambda>a. a\<lparr>rq_converting := False\<rparr>) c"]
    by (auto simp: advanceSection_def Let_def pendingRefs_complete pendingRefs_updAction split: option.split
        dest: set_mp [OF pendingRefs_commitEdit])
  then show ?thesis by (auto simp: advance_def split: option.splits order_answer.splits)
qed

lemma waiting_advance:
  assumes "coord_inv c" and "ref \<notin> convs c"
  shows "set (c_waiting (fst (advance now ref answer c))) \<subseteq> set (c_waiting c)"
proof -
  have "queue_ok c" and "queue_ok (fst (advance now ref answer c))"
    using assms(1) coord_inv_advance [OF assms(1), of now ref answer] by (simp_all add: coord_inv_def tables_ok_def)
  then show ?thesis
    using pendingRefs_advance [of now ref answer c] convs_advance [OF assms(2), of now answer]
    by (auto simp: waiting_set)
qed

text \<open>A draft that meets no conflict is not blocked.\<close>

lemma draftCommand_blocked:
  assumes "ed_rejected result \<noteq> RangeBlocked"
    and "ed_rejected (draftCommand c key request index command result) = RangeBlocked"
  shows "cmd_Edit command \<in> {Replace, AddExact}" and "cf_Found (conflictLocked c key command)"
  using assms
  by (auto simp: draftCommand_def recordEffect_def rejectDraft_def Let_def split: if_splits RangeEdit.splits option.splits)

lemma draftLoop_blocked:
  assumes "ed_rejected (draftLoop c key request cs index result) = RangeBlocked" and "ed_rejected result \<noteq> RangeBlocked"
  shows "\<exists>(command, released)\<in>set cs. cmd_Edit command \<in> {Replace, AddExact} \<and> cf_Found (conflictLocked c key command)"
  using assms
proof (induction c key request cs index result rule: draftLoop.induct)
  case (2 c key request command released rest index result)
  show ?case
  proof (cases "released \<or> ed_rejected (draftCommand c key request index command result) = NoRejection")
    case True
    with 2 show ?thesis by (auto simp: Let_def split: if_splits)
  next
    case False
    with 2(3,4) draftCommand_blocked [OF 2(4), of c key request index command] show ?thesis
      by (auto simp: Let_def)
  qed
qed simp

lemma ready_not_blocked:
  assumes "readyLocked c ref" and "getAction c ref = Some a"
  shows "ed_rejected (draftLocked c a) \<noteq> RangeBlocked"
proof
  assume "ed_rejected (draftLocked c a) = RangeBlocked"
  then obtain command released where "(command, released) \<in> set (zip (rq_commands a) (rq_released a))"
    and "cmd_Edit command \<in> {Replace, AddExact}" "cf_Found (conflictLocked c (rq_key a) command)"
    unfolding draftLocked_def Let_def by (auto dest!: draftLoop_blocked)
  with assms show False
    by (auto simp: readyLocked_def list_all_iff dest!: set_zip_leftD split: option.splits)
qed

lemma ready_settles:
  assumes inv: "coord_inv c" and w: "ref \<in> set (c_waiting c)" and r: "readyLocked c ref"
  shows "ref \<notin> pendingRefs (fst (advance now ref OrderPass c))"
proof -
  have q: "queue_ok c" and qi: "queue_inv c" and si: "session_inv c" and bi: "bound_inv c"
    using inv by (simp_all add: coord_inv_def tables_ok_def queue_ok_def)
  from w qi obtain a where a: "getAction c ref = Some a" and p: "rq_pending a"
    unfolding queue_inv_def by blast
  from r a obtain s where s: "gget (c_sessions c) (fst ref) = Some s" and nr: "\<not> s_retiring s"
    by (auto simp: readyLocked_def split: option.splits)
  have st: "att_State (rq_result a) = Pending" "\<not> rq_converting a" "rq_order a"
    using queue_inv_pending [OF qi a p] by auto
  have "bound c (rq_key a)"
    using bi a st(1) by (auto simp: bound_inv_def pendingRefs_def)
  moreover have "key_session (rq_key a) = fst ref" by (rule keyed_queue [OF qi a])
  ultimately have own: "checkOwnerLocked c (fst ref) (key_node (rq_key a)) (key_owner (rq_key a)) = None"
    using s by (auto simp: bound_def checkOwnerLocked_def bindingOf_def sessionObj_def)
  have act: "active c (fst ref) = None"
    using session_inv_get [OF si s] s nr by (simp add: active_def sessionObj_def activeLocked_def session_ok_def)
  have "ref \<notin> pendingRefs (commitEditLocked now ref (rq_key a) edit c)" for edit
    unfolding commitEditLocked_def replaceLocked_def
    by (auto simp: pendingRefs_complete dest!: set_mp [OF pendingRefs_reconcile])
  then show ?thesis
    using s nr a st own act ready_not_blocked [OF r a]
    by (simp add: advance_def advanceSection_def Let_def pendingRefs_complete)
qed

text \<open>One pass over the candidates with an environment that lets every transition run.\<close>

lemma pass_shrinks:
  assumes "coord_inv c" and "\<And>ref. ref \<in> set refs \<Longrightarrow> ref \<notin> convs c" and "\<And>ref. env ref = Ordered OrderPass"
  shows "set (c_waiting (fst (pumpCandidates now env refs c))) \<subseteq> set (c_waiting c)
    \<and> \<not> snd (pumpCandidates now env refs c) \<and> coord_inv (fst (pumpCandidates now env refs c))"
  using assms
proof (induction now env refs c rule: pumpCandidates.induct)
  case (2 now env ref rest c)
  let ?c = "fst (advance now ref OrderPass c)"
  have env: "env ref = Ordered OrderPass" and conv: "ref \<notin> convs c" using 2(4) 2(3) by auto
  note inv = coord_inv_advance [OF 2(2), of now ref OrderPass]
  have "ref' \<notin> convs ?c" if "ref' \<in> set rest" for ref'
    using that 2(3) convs_advance [OF conv, of now OrderPass] by auto
  from 2(1) [OF env inv this 2(4)] show ?case
    using waiting_advance [OF 2(2) conv, of now OrderPass] env by auto
qed auto

lemma pass_progress:
  assumes inv: "coord_inv c" and cand: "filter (readyLocked c) (c_waiting c) \<noteq> []" and env: "\<And>ref. env ref = Ordered OrderPass"
  shows "length (c_waiting (fst (pumpCandidates now env (filter (readyLocked c) (c_waiting c)) c))) < length (c_waiting c)"
proof -
  have q: "queue_ok c" using inv by (simp add: coord_inv_def tables_ok_def)
  obtain ref rest where refs: "filter (readyLocked c) (c_waiting c) = ref # rest"
    using cand by (cases "filter (readyLocked c) (c_waiting c)") auto
  have mem: "r \<in> set (c_waiting c)" if "r \<in> set (ref # rest)" for r
    using that unfolding refs [symmetric] by simp
  have ready: "readyLocked c ref" using refs by (metis filter_eq_ConsD)
  have out: "r \<notin> convs c" if "r \<in> set (ref # rest)" for r
    using mem [OF that] waiting_set [OF q] by auto
  let ?d = "fst (advance now ref OrderPass c)"
  let ?e = "fst (pumpCandidates now env rest ?d)"
  have invd: "coord_inv ?d" using inv by (rule coord_inv_advance)
  have conv: "convs ?d = convs c" by (rule convs_advance) (simp add: out)
  have "set (c_waiting ?e) \<subseteq> set (c_waiting ?d)" and inve: "coord_inv ?e"
    using pass_shrinks [OF invd, of rest env now] out env by (auto simp: conv)
  moreover have "set (c_waiting ?d) \<subseteq> set (c_waiting c)"
    by (rule waiting_advance [OF inv]) (simp add: out)
  moreover have "ref \<notin> set (c_waiting ?d)"
    using ready_settles [OF inv _ ready, of now] mem [of ref] waiting_set [of ?d] invd by (simp add: coord_inv_def tables_ok_def)
  ultimately have sub: "set (c_waiting ?e) \<subseteq> set (c_waiting c) - {ref}" by auto
  have dist: "distinct (c_waiting c)" "distinct (c_waiting ?e)"
    using inv inve by (simp_all add: coord_inv_def tables_ok_def queue_ok_def queue_inv_def)
  have "card (set (c_waiting ?e)) < card (set (c_waiting c))"
    by (rule psubset_card_mono) (use sub mem [of ref] in auto)
  with dist refs env show ?thesis by (simp add: distinct_card)
qed

lemma pumpPasses_settles:
  assumes "coord_inv c" and "length (c_waiting c) < left" and "\<And>p ref. env p ref = Ordered OrderPass"
  shows "filter (readyLocked (pumpPasses left now env pass c)) (c_waiting (pumpPasses left now env pass c)) = []"
  using assms
proof (induction left now env pass c rule: pumpPasses.induct)
  case (2 left now env pass c)
  let ?refs = "filter (readyLocked c) (c_waiting c)"
  show ?case
  proof (cases "?refs = []")
    case False
    obtain d stopped where d: "pumpCandidates now (env pass) ?refs c = (d, stopped)"
      by (cases "pumpCandidates now (env pass) ?refs c")
    have less: "length (c_waiting d) < length (c_waiting c)"
      using pass_progress [OF 2(2) False, of "env pass" now] 2(4) d by simp
    have out: "ref \<notin> convs c" if "ref \<in> set ?refs" for ref
      using that waiting_set [of c] 2(2) by (auto simp: coord_inv_def tables_ok_def)
    have ok: "\<not> stopped" "coord_inv d"
      using pass_shrinks [OF 2(2) out, of ?refs "env pass" now] 2(4) d by auto
    have "filter (readyLocked (pumpPasses left now env (Suc pass) d)) (c_waiting (pumpPasses left now env (Suc pass) d)) = []"
      using 2(1) [OF refl False d [symmetric] ok(1) _ ok(2) _ 2(4)] less 2(3) by simp
    with False d ok(1) less show ?thesis by (simp add: Let_def)
  qed simp
qed simp

end
