(* ===== verification/Deadlock.thy ===== *)
theory Deadlock
  imports Samples
begin

text \<open>
  Deadlock detection of \<^verbatim>\<open>packages/advisory/ranges.go\<close>. The search over the bounded
  edge list decides whether the waiting participant can reach itself in the wait graph of
  the record domain.
\<close>

section \<open>The wait graph\<close>

definition waitEdges :: "Coordinator \<Rightarrow> request \<Rightarrow> wait_edges" where
  "waitEdges c r =
     (if key_domain (rq_key r) \<noteq> DomainRecord then []
      else map (\<lambda>(key, st). (participant c (rq_key r), participant c key))
             (filter (\<lambda>(key, st). rivals (rq_key r) key \<and> contends (rq_commands r) (os_ranges st)) (c_owners c)))"

definition waitGraph :: "Coordinator \<Rightarrow> request \<Rightarrow> wait_edges" where
  "waitGraph c candidate = concat (map (waitEdges c) (waitingRequests c @ [candidate]))"

definition within :: "Coordinator \<Rightarrow> wait_edges \<Rightarrow> wait_edges option" where
  "within c edges = (if int (length edges) \<le> MaxDeadlockEdges (c_config c) then Some edges else None)"

lemma addOwnerEdges_within:
  assumes "int (length edges) \<le> MaxDeadlockEdges (c_config c)" and "key_domain (rq_key r) = DomainRecord"
  shows "addOwnerEdges c r m edges =
    within c (edges @ map (\<lambda>(key, st). (participant c (rq_key r), participant c key))
      (filter (\<lambda>(key, st). rivals (rq_key r) key \<and> contends (rq_commands r) (os_ranges st)) m))"
  using assms
proof (induction m arbitrary: edges)
  case Nil
  then show ?case by (simp add: within_def)
next
  case (Cons kv m)
  obtain key st where kv: "kv = (key, st)" by (cases kv)
  show ?case
  proof (cases "rivals (rq_key r) key \<and> contends (rq_commands r) (os_ranges st)")
    case True
    then have guard: "\<not> (key = rq_key r \<or> key_node key \<noteq> key_node (rq_key r) \<or> key_domain key \<noteq> DomainRecord)"
      using Cons.prems(2) by (simp add: rivals_def)
    show ?thesis
    proof (cases "int (length edges) = MaxDeadlockEdges (c_config c)")
      case full: True
      with True guard kv show ?thesis by (simp add: within_def)
    next
      case False
      with Cons.prems(1) have "int (length (edges @ [(participant c (rq_key r), participant c key)])) \<le> MaxDeadlockEdges (c_config c)"
        by simp
      from Cons.IH [OF this Cons.prems(2)] True guard False kv show ?thesis by simp
    qed
  next
    case False
    then have "key = rq_key r \<or> key_node key \<noteq> key_node (rq_key r) \<or> key_domain key \<noteq> DomainRecord
        \<or> \<not> contends (rq_commands r) (os_ranges st)"
      using Cons.prems(2) by (auto simp: rivals_def)
    then have "addOwnerEdges c r (kv # m) edges = addOwnerEdges c r m edges"
      unfolding kv by auto
    moreover have "filter (\<lambda>(key, st). rivals (rq_key r) key \<and> contends (rq_commands r) (os_ranges st)) (kv # m)
        = filter (\<lambda>(key, st). rivals (rq_key r) key \<and> contends (rq_commands r) (os_ranges st)) m"
      using False by (auto simp: kv)
    ultimately show ?thesis using Cons.IH [OF Cons.prems] by (simp only:)
  qed
qed

lemma addAllEdges_within:
  assumes "int (length edges) \<le> MaxDeadlockEdges (c_config c)"
  shows "addAllEdges c rs edges = within c (edges @ concat (map (waitEdges c) rs))"
  using assms
proof (induction rs arbitrary: edges)
  case Nil
  then show ?case by (simp add: within_def)
next
  case (Cons r rs)
  have "addEdges c r edges = within c (edges @ waitEdges c r)"
    using Cons.prems addOwnerEdges_within [of edges c r "c_owners c"]
    by (auto simp: addEdges_def waitEdges_def within_def)
  with Cons show ?case by (auto simp: within_def)
qed

lemma leaves_seen:
  assumes "(v, target) \<in> E\<^sup>*" and "v \<in> S" and "target \<notin> S"
    and "\<And>x y. x \<in> S \<Longrightarrow> (x, y) \<in> E \<Longrightarrow> y \<in> S \<union> T"
  shows "\<exists>x\<in>T. (x, target) \<in> E\<^sup>*"
  using assms by (induction rule: converse_rtrancl_induct) auto

lemma set_successors: "w \<in> set (successors edges v) \<longleftrightarrow> (v, w) \<in> set edges"
  by (force simp: successors_def)

lemma deadlockSearch_reaches:
  assumes "target \<notin> set seen"
    and "\<And>x y. x \<in> set seen \<Longrightarrow> (x, y) \<in> set edges \<Longrightarrow> y \<in> set seen \<union> set stack"
  shows "deadlockSearch edges target seen stack \<longleftrightarrow> (\<exists>x\<in>set stack. (x, target) \<in> (set edges)\<^sup>*)"
  using assms
proof (induction edges target seen stack rule: deadlockSearch.induct)
  case (1 edges target seen)
  then show ?case by simp
next
  case (2 edges target seen current stack)
  consider "current = target" | "current \<noteq> target" "current \<in> set seen"
    | "current \<noteq> target" "current \<notin> set seen" by blast
  then show ?case
  proof cases
    case 1
    then show ?thesis by auto
  next
    case 2
    have closed: "y \<in> set seen \<union> set stack" if "x \<in> set seen" "(x, y) \<in> set edges" for x y
      using "2.prems"(2) [OF that] 2 by auto
    have "\<exists>x\<in>set stack. (x, target) \<in> (set edges)\<^sup>*" if "(current, target) \<in> (set edges)\<^sup>*"
      using that 2(2) "2.prems"(1) closed by (rule leaves_seen)
    moreover have "deadlockSearch edges target seen stack \<longleftrightarrow> (\<exists>x\<in>set stack. (x, target) \<in> (set edges)\<^sup>*)"
      using "2.IH"(1) [OF 2 "2.prems"(1) closed] .
    ultimately show ?thesis using 2 by simp blast
  next
    case 3
    have "deadlockSearch edges target (current # seen) (rev (successors edges current) @ stack) \<longleftrightarrow>
        (\<exists>x\<in>set (rev (successors edges current) @ stack). (x, target) \<in> (set edges)\<^sup>*)"
      using 3
    proof (rule "2.IH"(2))
      show "target \<notin> set (current # seen)" using 3 "2.prems"(1) by simp
      show "y \<in> set (current # seen) \<union> set (rev (successors edges current) @ stack)"
        if "x \<in> set (current # seen)" "(x, y) \<in> set edges" for x y
        using that "2.prems"(2) [of x y] by (auto simp: set_successors)
    qed
    moreover have "(\<exists>x\<in>set (successors edges current). (x, target) \<in> (set edges)\<^sup>*)
        \<longleftrightarrow> (current, target) \<in> (set edges)\<^sup>*"
      using 3(1) by (metis converse_rtranclE converse_rtrancl_into_rtrancl set_successors)
    ultimately show ?thesis using 3 by (simp add: bex_Un)
  qed
qed

lemma deadlock_decides_cycle:
  assumes "0 \<le> MaxDeadlockEdges (c_config c)"
  shows "deadlockLocked c candidate =
    (let p = participant c (rq_key candidate); edges = waitGraph c candidate
     in if int (length edges) \<le> MaxDeadlockEdges (c_config c) then ((p, p) \<in> (set edges)\<^sup>+, True)
        else (False, False))"
proof -
  have "addAllEdges c (waitingRequests c @ [candidate]) [] = within c (waitGraph c candidate)"
    using addAllEdges_within [of "[]" c] assms by (simp add: waitGraph_def)
  moreover have "deadlockSearch edges p [] (rev (successors edges p)) \<longleftrightarrow> (p, p) \<in> (set edges)\<^sup>+" for edges p
    by (subst deadlockSearch_reaches) (auto simp: set_successors trancl_unfold_left relcomp_unfold)
  ultimately show ?thesis
    by (simp add: deadlockLocked_def within_def Let_def)
qed

lemma waitGraph_edges:
  assumes "distinct_keys (c_owners c)"
  shows "set (waitGraph c candidate) =
    {(participant c (rq_key r), participant c key) | r key.
       r \<in> set (waitingRequests c) \<union> {candidate} \<and> key_domain (rq_key r) = DomainRecord
       \<and> rivals (rq_key r) key \<and> contends (rq_commands r) (held c key)}"
proof -
  have "contends cmds [] = False" for cmds by (induction cmds) (auto simp: contends_def)
  then have "(\<exists>st. (key, st) \<in> set (c_owners c) \<and> contends cmds (os_ranges st)) \<longleftrightarrow> contends cmds (held c key)" for key cmds
    using assms by (auto simp: held_def in_set_gget split: option.splits)
  then have "e \<in> set (waitEdges c r) \<longleftrightarrow>
      (\<exists>key. e = (participant c (rq_key r), participant c key) \<and> key_domain (rq_key r) = DomainRecord
        \<and> rivals (rq_key r) key \<and> contends (rq_commands r) (held c key))" for e r
    unfolding waitEdges_def by (cases "key_domain (rq_key r) = DomainRecord") (auto simp: image_iff Bex_def, blast)
  then show ?thesis
    unfolding waitGraph_def by (intro set_eqI) (simp, blast)
qed

lemma waitGraph_shuffle:
  assumes "mset owners = mset (c_owners c)"
  shows "mset (waitGraph (c\<lparr>c_owners := owners\<rparr>) candidate) = mset (waitGraph c candidate)"
proof -
  let ?c = "c\<lparr>c_owners := owners\<rparr>"
  have p: "participant ?c = participant c" by (simp add: fun_eq_iff participant_def ownerGroup_def)
  have "mset (waitEdges ?c r) = mset (waitEdges c r)" for r
    using assms by (simp add: waitEdges_def p mset_filter mset_map)
  moreover have "waitingRequests ?c = waitingRequests c"
    by (simp add: waitingRequests_def getAction_def [abs_def])
  ultimately show ?thesis
    by (simp add: waitGraph_def mset_concat comp_def)
qed

end
