(* ===== verification/AdvisoryProps.thy ===== *)
theory AdvisoryProps
  imports CoordSystem Deadlock Samples
begin

text \<open>
  What the advisory coordinator promises its callers, for every reachable state: exclusion of
  rival claims, exact counters and budgets, no dangling links and no lost requests or wakeups,
  exact conflict and deadlock reports that do not depend on map order, the byte-level effect
  of a granted batch, at-most-once execution of a request identity, and the outcome of
  cancelling, retiring an owner and retiring a session; then the use claims.
\<close>

section \<open>Reachable samples\<close>

text \<open>Two sessions that share bytes 5 to 9.\<close>

definition shareBytes :: "u64 \<Rightarrow> u64 \<Rightarrow> RangeCommand" where
  "shareBytes start len = record_command Replace RangeShared start len"

definition sampleShared :: Coordinator where
  "sampleShared = fst (applySection 0 2 7 1 [shareBytes 5 10] secondRequest 1
     (fst (applySection 0 1 7 1 [shareBytes 0 10] firstRequest 1 sampleInit)))"

lemma sampleInit_reachable: "reachable sampleInit"
proof -
  have new: "New DefaultConfig = Inr (case New DefaultConfig of Inr c \<Rightarrow> c)"
    by code_simp
  have "reachable (case New DefaultConfig of Inr c \<Rightarrow> c)"
    using new by (intro reach_init) (auto simp: coord_init_def)
  from reach_step [OF this step_session] have "reachable (fst (NewSession 0 DefaultFileSessionOptions True
      (fst (NewSession 0 DefaultFileSessionOptions True (case New DefaultConfig of Inr c \<Rightarrow> c)))))"
    by (rule reach_step) (rule step_session)
  from reach_step [OF reach_step [OF this step_owner] step_owner] show ?thesis
    unfolding sampleInit_def by (subst new) (simp add: Let_def)
qed

lemma sample_requests:
  "Epoch firstRequest = Inr 1" "Epoch secondRequest = Inr 1"
proof -
  have "FormatUint 1 = ''1''" by code_simp
  moreover have "is_digit CHR ''0''" "is_digit CHR ''1''" "is_digit CHR ''2''" by code_simp+
  ultimately show "Epoch firstRequest = Inr 1" "Epoch secondRequest = Inr 1"
    using Epoch_complete [of 1 "''00000000000000000000000000000001''"] Epoch_complete [of 1 "''00000000000000000000000000000002''"]
    by (simp_all add: firstRequest_def secondRequest_def is_lower_hex_def)
qed

lemma sample_commands:
  "checkCommands (c_config sampleInit) [lockBytes 0 10 False] = None"
  "checkCommands (c_config sampleHeld) [lockBytes 5 10 True] = None"
  "checkCommands (c_config sampleInit) [shareBytes 0 10] = None"
  "checkCommands (c_config (fst (applySection 0 1 7 1 [shareBytes 0 10] firstRequest 1 sampleInit))) [shareBytes 5 10] = None"
  by code_simp+

lemma sample_reachable: "reachable sampleHeld" "reachable sampleWaiting" "reachable sampleShared"
proof -
  show "reachable sampleHeld"
    unfolding sampleHeld_def
    by (rule reach_step [OF sampleInit_reachable step_apply [OF sample_commands(1) sample_requests(1)]])
  then show "reachable sampleWaiting"
    unfolding sampleWaiting_def by (rule reach_step) (rule step_apply [OF sample_commands(2) sample_requests(2)])
  have "reachable (fst (applySection 0 1 7 1 [shareBytes 0 10] firstRequest 1 sampleInit))"
    by (rule reach_step [OF sampleInit_reachable step_apply [OF sample_commands(3) sample_requests(1)]])
  then show "reachable sampleShared"
    unfolding sampleShared_def by (rule reach_step) (rule step_apply [OF sample_commands(4) sample_requests(2)])
qed

section \<open>Safety of the range table\<close>

text \<open>C1: in every reachable coordinator, two different owners of the same node and domain never hold
  overlapping ranges unless both hold them shared.\<close>

theorem rival_claims_exclude:
  assumes "reachable c" and "rivals a b" and "x \<in> set (held c a)" and "y \<in> set (held c b)"
    and "overlaps (claimRange x) (claimRange y)"
  shows "claimMode x = RangeShared \<and> claimMode y = RangeShared"
  using reachable_parts(5) [OF assms(1)] assms(2-)
  by (auto simp: range_inv_def rangeView_def table_inv_def exclusive_def compatible_def)

lemma sampleShared_claims:
  "held sampleShared (sampleKey 1) = [newClaim (shareBytes 0 10)]"
  "held sampleShared (sampleKey 2) = [newClaim (shareBytes 5 10)]"
  "rivals (sampleKey 1) (sampleKey 2)" 
  "overlaps (claimRange (newClaim (shareBytes 0 10))) (claimRange (newClaim (shareBytes 5 10)))"
  by code_simp+

theorem rival_claims_exclude_witness:
  "claimMode (newClaim (shareBytes 0 10)) = RangeShared \<and> claimMode (newClaim (shareBytes 5 10)) = RangeShared"
  using rival_claims_exclude [OF sample_reachable(3) sampleShared_claims(3) _ _ sampleShared_claims(4)]
  by (simp add: sampleShared_claims(1,2))

text \<open>C23: the range counters are exact and bounded. The volume counter is the number of fragments held
  by all owners, each session's counter the number held by its own owners, and both respect
  their limits.\<close>

theorem range_counters_exact:
  assumes "reachable c"
  shows "c_ranges c = gsum (\<lambda>_ st. int (length (os_ranges st))) (c_owners c) \<and> c_ranges c \<le> MaxRanges (c_config c)
    \<and> (\<forall>sid s. gget (c_sessions c) sid = Some s \<longrightarrow>
         s_ranges s = gsum (\<lambda>key st. if key_session key = sid then int (length (os_ranges st)) else 0) (c_owners c)
         \<and> s_ranges s \<le> fs_MaxLockRanges (s_options s))"
proof -
  have r: "distinct_keys (c_owners c)" "table_inv (c_config c) (limitsOf c) (rangeView c)"
    using reachable_parts(5) [OF assms] by (simp_all add: range_inv_def)
  have "s_ranges s = claimCount (\<lambda>key. key_session key = sid) (held c) \<and> s_ranges s \<le> fs_MaxLockRanges (s_options s)"
    if "gget (c_sessions c) sid = Some s" for sid s
  proof -
    have "\<forall>sid n. map_option s_ranges (gget (c_sessions c) sid) = Some n \<longrightarrow> n = claimCount (\<lambda>key. key_session key = sid) (held c)
        \<and> (\<exists>limits. limitsOf c sid = Some limits \<and> n \<le> fs_MaxLockRanges limits)"
      using r(2) unfolding table_inv_def rangeView_def by blast
    from this [rule_format, of sid "s_ranges s"] that show ?thesis by (auto simp: limitsOf_def)
  qed
  with r(2) show ?thesis
    using gsum_claimCount [OF r(1), of "\<lambda>_. True"] gsum_claimCount [OF r(1)]
    by (auto simp: table_inv_def rangeView_def)
qed

theorem range_counters_exact_witness:
  "c_ranges sampleShared = gsum (\<lambda>_ st. int (length (os_ranges st))) (c_owners sampleShared)"
  using range_counters_exact [OF sample_reachable(3)] by blast

text \<open>C24: the volume's budgets. The live sessions, the registered owners together with the use claims,
  the retained requests and the waiting requests of a volume never exceed the configuration,
  and a session's waiting requests, owners and requests never exceed its own options; the
  counters equal what they count.\<close>

theorem volume_budgets:
  assumes "reachable c"
  shows "int (length (c_sessions c)) \<le> MaxSessions (c_config c)
    \<and> c_registeredOwners c = gsum (\<lambda>_ s. int (length (s_bindings s))) (c_sessions c)
    \<and> c_registeredOwners c + int (length (c_uses c)) \<le> MaxOwners (c_config c)
    \<and> c_requests c = gsum (\<lambda>_ s. int (length (s_actions s))) (c_sessions c)
    \<and> c_requests c \<le> MaxRequests (c_config c)
    \<and> int (length (c_waiting c)) \<le> MaxWaiters (c_config c)
    \<and> (\<forall>sid s. gget (c_sessions c) sid = Some s \<longrightarrow>
         s_pending s = int (length (filter (\<lambda>ref. fst ref = sid) (c_waiting c)))
         \<and> s_pending s \<le> fs_MaxPendingLocks (s_options s) \<and> s_pending s \<le> fs_MaxWaiters (s_options s)
         \<and> s_owners s = int (length (s_bindings s)) \<and> s_owners s \<le> fs_MaxLockOwners (s_options s)
         \<and> int (length (s_actions s)) \<le> fs_MaxLockActions (s_options s))"
proof -
  note parts = reachable_parts [OF assms]
  have pend: "s_pending s = int (length (filter (\<lambda>ref. fst ref = sid) (c_waiting c)))"
    if "gget (c_sessions c) sid = Some s" for sid s
  proof -
    have "sessionPending c sid = int (length (filter (\<lambda>ref. fst ref = sid) (c_waiting c)))"
      using parts(3) unfolding queue_inv_def by blast
    with that show ?thesis by (simp add: sessionPending_def)
  qed
  show ?thesis
    using parts(2,8) pend session_inv_get [OF parts(1)]
    by (auto simp: budget_inv_def pend_bound_def pend_ok_def session_ok_def)
qed

theorem volume_budgets_witness: "int (length (c_waiting sampleWaiting)) \<le> MaxWaiters (c_config sampleWaiting)"
  using volume_budgets [OF sample_reachable(2)] by blast

text \<open>C25: no dangling links. Every owner entry and every pending request names a live session and a
  registered owner of that session on the same node, so the lookups that follow those links in
  \<open>ownerDiagnostic\<close>, \<open>participant\<close>, \<open>installRangesLocked\<close> and
  \<open>completeLocked\<close> never meet a missing entry.\<close>

theorem links_resolve:
  assumes "reachable c"
    and "gget (c_owners c) key \<noteq> None \<or> (\<exists>ref a. getAction c ref = Some a \<and> rq_key a = key \<and> att_State (rq_result a) = Pending)"
  shows "\<exists>s b. gget (c_sessions c) (key_session key) = Some s \<and> s_id s = key_session key
    \<and> gget (s_bindings s) (key_owner key) = Some b \<and> bind_node b = key_node key"
proof -
  note parts = reachable_parts [OF assms(1)]
  have "bound c key"
    using parts(7) assms(2) unfolding bound_inv_def ownerKeys_def pendingRefs_def by blast
  then show ?thesis
    using session_inv_get [OF parts(1)] by (fastforce simp: bound_def session_ok_def)
qed

lemma sampleHeld_owner: "gget (c_owners sampleHeld) (sampleKey 1) \<noteq> None"
  by code_simp

theorem links_resolve_witness:
  "\<exists>s b. gget (c_sessions sampleHeld) (key_session (sampleKey 1)) = Some s \<and> s_id s = key_session (sampleKey 1)
    \<and> gget (s_bindings s) (key_owner (sampleKey 1)) = Some b \<and> bind_node b = key_node (sampleKey 1)"
  using links_resolve [OF sample_reachable(1)] sampleHeld_owner by blast

text \<open>C22: no request is lost. A pending request keeps its ordering callback and is either in the queue,
  exactly once, or in the middle of a conversion that the next attempt resumes; nothing else is
  in the queue, and an owner's pending count is the number of its queued requests.\<close>

theorem pending_requests_queued:
  assumes "reachable c"
  shows "distinct (c_waiting c)
    \<and> (\<forall>ref. ref \<in> set (c_waiting c) \<longrightarrow> (\<exists>a. getAction c ref = Some a \<and> att_State (rq_result a) = Pending))
    \<and> (\<forall>ref a. getAction c ref = Some a \<longrightarrow> att_State (rq_result a) = Pending \<longrightarrow>
         rq_order a \<and> (ref \<in> set (c_waiting c) \<longleftrightarrow> \<not> rq_converting a))
    \<and> (\<forall>key st. gget (c_owners c) key = Some st \<longrightarrow>
         os_pending st = int (length (filter (\<lambda>ref. map_option rq_key (getAction c ref) = Some key) (c_waiting c))))"
proof -
  note parts = reachable_parts [OF assms]
  have qok: "queue_ok c" using parts(3,4) by (simp add: queue_ok_def)
  have mem: "ref \<in> set (c_waiting c) \<longleftrightarrow> (\<exists>a. getAction c ref = Some a \<and> rq_pending a)" for ref
    using parts(3) unfolding queue_inv_def by blast
  have "os_pending st = int (length (waitingOn c key))" if "gget (c_owners c) key = Some st" for key st
  proof -
    have "ownerPending c key = int (length (waitingOn c key))" using parts(3) unfolding queue_inv_def by blast
    with that show ?thesis by (simp add: ownerPending_def)
  qed
  moreover have "distinct (c_waiting c)" using parts(3) unfolding queue_inv_def by blast
  moreover have "\<exists>a. getAction c ref = Some a \<and> att_State (rq_result a) = Pending" if "ref \<in> set (c_waiting c)" for ref
    using that mem queue_inv_pending [OF parts(3)] by blast
  moreover have "rq_order a \<and> (ref \<in> set (c_waiting c) \<longleftrightarrow> \<not> rq_converting a)"
    if "getAction c ref = Some a" "att_State (rq_result a) = Pending" for ref a
    using queue_ok_pending [OF qok that] mem [of ref] that by auto
  ultimately show ?thesis unfolding waitingOn_def by blast
qed

theorem pending_requests_queued_witness: "distinct (c_waiting sampleWaiting)"
  using pending_requests_queued [OF sample_reachable(2)] by blast

text \<open>C2: no lost wakeup. When the caller's context stays alive and the ordering callbacks let their
  transitions run, \<open>pump\<close> ends in a state where no queued request could run: every
  request still waiting is blocked by a rival's claim, or its session is retiring.\<close>

theorem pump_no_lost_wakeup:
  assumes "reachable c" and "\<And>pass ref. env pass ref = Ordered OrderPass"
    and "ref \<in> set (c_waiting (pump now env c))"
  shows "\<not> readyLocked (pump now env c) ref"
  using pumpPasses_settles [OF reachable_parts(10) [OF assms(1)], of "Suc (length (c_waiting c))" env now 0] assms(2,3)
  by (auto simp: pump_def filter_empty_conv)

lemma sampleWaiting_pump:
  "c_waiting (pump 0 (\<lambda>_ _. Ordered OrderPass) sampleWaiting) = [(2, secondRequest)]"
  by code_simp

theorem pump_no_lost_wakeup_witness:
  "\<not> readyLocked (pump 0 (\<lambda>_ _. Ordered OrderPass) sampleWaiting) (2, secondRequest)"
  using pump_no_lost_wakeup [OF sample_reachable(2), of "\<lambda>_ _. Ordered OrderPass" "(2, secondRequest)" 0] sampleWaiting_pump
  by simp

section \<open>What an operation does to the range table\<close>

lemma held_rangeView: "rangeView c' = rangeView c \<Longrightarrow> held c' = held c"
  by (simp add: rangeView_def)

text \<open>What a batch means for one byte: the last command that covers it decides.\<close>

definition apply_at :: "u64 \<Rightarrow> RangeCommand \<times> bool \<Rightarrow> (RangeMode \<times> RangePolicy) option \<Rightarrow> (RangeMode \<times> RangePolicy) option" where
  "apply_at x entry m = (case entry of (command, released) \<Rightarrow>
     if released \<or> \<not> covers (cmd_Range command) x then m
     else if cmd_Edit command = Subtract then None else Some (cmd_Mode command, cmd_Policy command))"

lemma apply_at_pair:
  "apply_at x (command, released) m = (if released \<or> \<not> covers (cmd_Range command) x then m
     else if cmd_Edit command = Subtract then None else Some (cmd_Mode command, cmd_Policy command))"
  by (simp add: apply_at_def)

lemma command_edit:
  assumes "command_ok key command" and "key_domain key \<noteq> DomainEnforced"
  shows "cmd_Edit command = Replace \<or> cmd_Edit command = Subtract"
  using assms by (cases "cmd_Edit command") (auto simp: command_ok_def RangeCommand_Check_def)

lemma draftCommand_ranges:
  assumes "command_ok key command" and "key_domain key \<noteq> DomainEnforced"
    and "ed_rejected (draftCommand c key request index command result) = NoRejection"
  shows "ed_ranges (draftCommand c key request index command result) = replaceRanges (ed_ranges result) command"
  using command_edit [OF assms(1,2)] assms(3)
  by (auto simp: draftCommand_def recordEffect_def rejectDraft_def Let_def split: if_splits)

lemma draftLoop_lock_at:
  assumes "list_all (\<lambda>(command, _). command_ok key command) cs" and "key_domain key \<noteq> DomainEnforced"
    and "table_ok (ed_ranges result)" and "ed_rejected (draftLoop c key request cs index result) = NoRejection"
  shows "lock_at (ed_ranges (draftLoop c key request cs index result)) x = fold (apply_at x) cs (lock_at (ed_ranges result) x)"
  using assms
proof (induction c key request cs index result rule: draftLoop.induct)
  case (2 c key request command released rest index result)
  show ?case
  proof (cases released)
    case True
    with 2 show ?thesis by (simp add: apply_at_pair)
  next
    case False
    let ?r = "draftCommand c key request index command result"
    from False 2(6) have ok: "ed_rejected ?r = NoRejection" by (auto simp: Let_def split: if_splits)
    have cmd: "command_ok key command" using 2(3) by simp
    have eq: "ed_ranges ?r = replaceRanges (ed_ranges result) command" by (rule draftCommand_ranges [OF cmd 2(4) ok])
    have vb: "valid_bytes (cmd_Range command)" by (rule command_ok_bytes [OF cmd 2(4)])
    have "table_ok (ed_ranges ?r)" unfolding eq by (rule replaceRanges_ok [OF vb 2(5)])
    then have "lock_at (ed_ranges (draftLoop c key request rest (Suc index) ?r)) x = fold (apply_at x) rest (lock_at (ed_ranges ?r) x)"
      using False ok 2(2) [OF False refl] 2(3,4,6) by (simp add: Let_def)
    then show ?thesis
      using False ok by (simp add: Let_def eq replaceRanges_lock_at [OF vb 2(5)] apply_at_pair)
  qed
qed simp

lemma zip_commands_ok:
  assumes "batch_ok a"
  shows "list_all (\<lambda>(command, _). command_ok (rq_key a) command) (zip (rq_commands a) (rq_released a))"
  using assms by (auto simp: batch_ok_def list_all_iff dest: set_zip_leftD)

text \<open>What a batch means in the enforced domain, where a command adds one claim or removes one by its
  identity.\<close>

fun removeClaim :: "ClaimID \<Rightarrow> rangeClaim list \<Rightarrow> rangeClaim list" where
  "removeClaim claim [] = []"
| "removeClaim claim (x # xs) = (if rc_id x = claim then xs else x # removeClaim claim xs)"

fun apply_exact :: "LockRequestID \<Rightarrow> nat \<Rightarrow> (RangeCommand \<times> bool) list \<Rightarrow> rangeClaim list \<Rightarrow> rangeClaim list" where
  "apply_exact request index [] table = table"
| "apply_exact request index ((command, released) # rest) table =
     apply_exact request (Suc index) rest
       (if released then table
        else if cmd_Edit command = AddExact then table @ [\<lparr>rc_id = claimIDOf request index, rc_command = settled command\<rparr>]
        else removeClaim (cmd_Claim command) table)"

lemma enforced_edit:
  assumes "command_ok key command" and "key_domain key = DomainEnforced"
  shows "cmd_Edit command = AddExact \<or> cmd_Edit command = RemoveExact"
  using assms by (cases "cmd_Edit command") (auto simp: command_ok_def RangeCommand_Check_def)

lemma claimIndex_Cons:
  "claimIndex claim (x # xs) = (if rc_id x = claim then Some 0 else map_option Suc (claimIndex claim xs))"
proof -
  have "[0..<length (x # xs)] = 0 # map Suc [0..<length xs]" by (simp only: length_Cons upt_conv_Cons [OF zero_less_Suc] map_Suc_upt)
  then show ?thesis by (simp add: claimIndex_def filter_map comp_def split: list.split)
qed

lemma deleteAt_claimIndex: "claimIndex claim xs = Some i \<Longrightarrow> deleteAt i xs = removeClaim claim xs"
proof (induction xs arbitrary: i)
  case (Cons x xs)
  then show ?case by (auto simp: claimIndex_Cons deleteAt_def split: if_splits)
qed (simp add: claimIndex_def)

lemma draftCommand_exact:
  assumes "command_ok key command" and "key_domain key = DomainEnforced"
    and "ed_rejected (draftCommand c key request index command result) = NoRejection"
  shows "ed_ranges (draftCommand c key request index command result) =
    (if cmd_Edit command = AddExact then ed_ranges result @ [\<lparr>rc_id = claimIDOf request index, rc_command = settled command\<rparr>]
     else removeClaim (cmd_Claim command) (ed_ranges result))"
  using enforced_edit [OF assms(1,2)] assms(3)
  by (auto simp: draftCommand_def recordEffect_def rejectDraft_def Let_def deleteAt_claimIndex split: if_splits option.splits)

lemma draftLoop_exact:
  assumes "list_all (\<lambda>(command, _). command_ok key command) cs" and "key_domain key = DomainEnforced"
    and "ed_rejected (draftLoop c key request cs index result) = NoRejection"
  shows "ed_ranges (draftLoop c key request cs index result) = apply_exact request index cs (ed_ranges result)"
  using assms
proof (induction c key request cs index result rule: draftLoop.induct)
  case (2 c key request command released rest index result)
  show ?case
  proof (cases released)
    case True
    with 2 show ?thesis by simp
  next
    case False
    let ?r = "draftCommand c key request index command result"
    from False 2(5) have ok: "ed_rejected ?r = NoRejection" by (auto simp: Let_def split: if_splits)
    have "ed_ranges (draftLoop c key request rest (Suc index) ?r) = apply_exact request (Suc index) rest (ed_ranges ?r)"
      using False ok 2(2) [OF False refl] 2(3-5) by (simp add: Let_def)
    with False ok draftCommand_exact [OF _ 2(4) ok] 2(3) show ?thesis by (simp add: Let_def)
  qed
qed simp

text \<open>C4: a clean draft is committed as drafted. For a queued request whose draft meets no rejection, the
  commit never runs out of room, and no other owner's table changes. In the record and
  whole-file domains the owner's new table gives every byte the lock of the last command of the
  batch that covers it, and the old lock where none does. In the enforced domain, where commands
  name single claims, the new table is the old one without the claims that the batch removes
  and with the claims it adds, each under the identity of its command. Commands that an earlier
  attempt already released are skipped in both.\<close>

theorem clean_draft_commits:
  assumes "reachable c" and "ref \<in> set (c_waiting c)" and "getAction c ref = Some a"
    and "ed_rejected (draftLocked c a) = NoRejection"
    and "d = commitEditLocked now ref (rq_key a) (draftLocked c a) c"
  shows "(if key_domain (rq_key a) = DomainEnforced
      then held d (rq_key a) = apply_exact (rq_id a) 0 (zip (rq_commands a) (rq_released a)) (held c (rq_key a))
      else \<forall>x. lock_at (held d (rq_key a)) x = fold (apply_at x) (zip (rq_commands a) (rq_released a)) (lock_at (held c (rq_key a)) x))
    \<and> (\<forall>other. other \<noteq> rq_key a \<longrightarrow> held d other = held c other)"
proof -
  let ?key = "rq_key a" and ?edit = "draftLocked c a"
  note parts = reachable_parts [OF assms(1)]
  have live: "gget (c_owners c) ?key \<noteq> None" "gget (c_sessions c) (key_session ?key) \<noteq> None"
    using waiting_owner [OF parts(3) assms(2,3)] keyed_queue [OF parts(3) assms(3)] by simp_all
  have batch: "batch_ok a" using parts(6) assms(3) unfolding batches_ok_def by blast
  have "replacementFitsLocked c ?key (length (ed_ranges ?edit))"
    using draft_ok_draftLocked [OF parts(5) live batch] assms(4) by (simp add: draft_ok_def)
  then have "replaceLocked ?key (ed_ranges ?edit) c = Some (installRangesLocked ?key (ed_ranges ?edit) c)"
    by (simp add: replaceLocked_def)
  then have "rangeView d = rangeView (installRangesLocked ?key (ed_ranges ?edit) c)"
    by (simp add: assms(5) commitEditLocked_def)
  then have held: "held d = (held c)(?key := ed_ranges ?edit)"
    using rangeView_install [OF live(1)] by (simp add: rangeView_def table_install_def Let_def)
  have "table_ok (held c ?key)" if "key_domain ?key \<noteq> DomainEnforced"
    using parts(5) that by (auto simp: range_inv_def table_inv_def rangeView_def claims_ok_def split: if_splits)
  then have "lock_at (ed_ranges ?edit) x = fold (apply_at x) (zip (rq_commands a) (rq_released a)) (lock_at (held c ?key) x)"
    if "key_domain ?key \<noteq> DomainEnforced" for x
    using draftLoop_lock_at [OF zip_commands_ok [OF batch] that, of _ c "rq_id a" 0 x] assms(4) that
    by (simp add: draftLocked_def Let_def)
  moreover have "ed_ranges ?edit = apply_exact (rq_id a) 0 (zip (rq_commands a) (rq_released a)) (held c ?key)" if "key_domain ?key = DomainEnforced"
    using draftLoop_exact [OF zip_commands_ok [OF batch] that, of c "rq_id a" 0] assms(4) by (simp add: draftLocked_def Let_def)
  ultimately show ?thesis by (simp add: held)
qed

text \<open>Session 1 waits behind nobody after session 2's rival claim is gone.\<close>

definition sampleFreed :: Coordinator where
  "sampleFreed = dropLocked 0 (sampleKey 1) sampleWaiting"

lemma sampleFreed_reachable: "reachable sampleFreed"
  unfolding sampleFreed_def by (rule reach_step [OF sample_reachable(2) step_drop])

definition sampleFreedRequest :: request where
  "sampleFreedRequest = (case getAction sampleFreed (2, secondRequest) of Some a \<Rightarrow> a)"

lemma sampleFreed_facts:
  "c_waiting sampleFreed = [(2, secondRequest)]"
  "getAction sampleFreed (2, secondRequest) = Some sampleFreedRequest"
  "rq_key sampleFreedRequest = sampleKey 2"
  "key_domain (sampleKey 2) = DomainRecord"
  "ed_rejected (draftLocked sampleFreed sampleFreedRequest) = NoRejection"
  by code_simp+

theorem clean_draft_commits_witness:
  "(case commitEditLocked 0 (2, secondRequest) (sampleKey 2) (draftLocked sampleFreed sampleFreedRequest) sampleFreed of d \<Rightarrow>
     lock_at (held sampleFreed (sampleKey 2)) 12 = None \<and> map_option fst (lock_at (held d (sampleKey 2)) 12) = Some RangeExclusive
     \<and> held d (sampleKey 1) = held sampleFreed (sampleKey 1))"
proof -
  have "sampleKey 1 \<noteq> sampleKey 2" by code_simp
  moreover have "lock_at (held sampleFreed (sampleKey 2)) 12 = None" by code_simp
  moreover have "map_option fst (fold (apply_at 12) (zip (rq_commands sampleFreedRequest) (rq_released sampleFreedRequest)) None) = Some RangeExclusive"
    by code_simp
  moreover note clean_draft_commits [OF sampleFreed_reachable _ sampleFreed_facts(2) sampleFreed_facts(5) refl, of 0]
  ultimately show ?thesis using sampleFreed_facts by simp
qed

section \<open>Replaying a request\<close>

lemma held_sessions [simp]: "held (c\<lparr>c_sessions := s\<rparr>) = held c" "held (c\<lparr>c_retired := r\<rparr>) = held c" "held (c\<lparr>c_requests := n\<rparr>) = held c"
  by (simp_all add: held_def fun_eq_iff)

lemma held_updSession [simp]: "held (updSession sid f c) = held c"
  by (simp add: updSession_def)

lemma prune_keeps [simp]:
  "held (pruneHistoryLocked now sid c) = held c" "c_waiting (pruneHistoryLocked now sid c) = c_waiting c"
  by (simp_all add: pruneHistoryLocked_def Let_def split: option.split)

lemma advanceLocked_keeps [simp]:
  "held (fst (advanceLocked now sid c)) = held c" "c_waiting (fst (advanceLocked now sid c)) = c_waiting c"
  by (simp_all add: advanceLocked_def split: option.split)




lemma pendingRefs_pump: "pendingRefs (pump now env c) \<subseteq> pendingRefs c"
  by (rule pump_preserves [where P = "\<lambda>d. pendingRefs d \<subseteq> pendingRefs c"])
    (auto dest: set_mp [OF pendingRefs_advance])



lemma frame_registered:
  assumes "frame d = frame c"
  shows "getAction d ref = None \<longleftrightarrow> getAction c ref = None"
  using frame_action [OF assms, of ref] by (cases "getAction d ref"; cases "getAction c ref") auto


lemma advanceLocked_getAction:
  assumes "session_inv c" and "getAction (fst (advanceLocked now sid c)) (sid, request) = Some a"
  shows "getAction c (sid, request) = Some a"
proof (cases "gget (c_sessions c) sid")
  case None
  with assms(2) show ?thesis
    by (auto simp: advanceLocked_def pruneHistoryLocked_def getAction_def split: option.splits if_splits)
next
  case (Some s)
  then have "distinct_keys (s_actions s)" using session_inv_get [OF assms(1)] by (simp add: session_ok_def)
  with Some assms(2) show ?thesis
    by (auto simp: advanceLocked_def sessionObj_def pruneHistoryLocked_def getAction_def updSession_def Let_def gget_filter
        nextEpoch_def split: option.splits if_splits)
qed





lemma sampleHeld_session:
  obtains s where "gget (c_sessions sampleHeld) 1 = Some s" "\<not> s_retireDone s" "\<not> s_retired s"
proof -
  have "(case gget (c_sessions sampleHeld) 1 of None \<Rightarrow> False | Some s \<Rightarrow> \<not> s_retireDone s \<and> \<not> s_retired s)"
    by code_simp
  then show ?thesis using that by (auto split: option.splits)
qed



section \<open>Ending requests, owners and sessions\<close>

lemma held_complete [simp]: "held (completeLocked now ref state rejection c) = held c"
  by (rule held_rangeView) simp

lemma waiting_complete:
  assumes "getAction c ref = Some old"
  shows "c_waiting (completeLocked now ref state rejection c)
    = (if rq_pending old then remove1 ref (c_waiting c) else c_waiting c)"
  using assms by (simp add: completeLocked_def dequeueLocked_def Let_def)

lemma registered_receipt:
  assumes "getAction c ref = Some a"
  shows "actionReceipt now ref c \<noteq> Inl e"
  using assms by (auto simp: actionReceipt_def getAction_def sessionObj_def split: option.splits)

lemma cancelSection_refused:
  assumes "cancelSection now sid node owner request c = (d, Inl e)"
  shows "held d = held c" and "c_waiting d = c_waiting c"
proof -
  have "d = c \<or> d = fst (advanceLocked now sid c)"
    using assms by (auto simp: cancelSection_def findLocked_def requestLocked_def Let_def registered_receipt
        getAction_completeLocked split: sum.splits option.splits prod.splits if_splits)
  then show "held d = held c" and "c_waiting d = c_waiting c" by auto
qed

lemma cancelSection_effect:
  assumes "reachable c" and "cancelSection now sid node owner request c = (d, Inr receipt)"
  shows "\<exists>old. getAction c (sid, request) = Some old \<and> held d = held c \<and> c_waiting d = remove1 (sid, request) (c_waiting c)
    \<and> getAction d (sid, request) \<noteq> None \<and> (sid, request) \<notin> pendingRefs d
    \<and> att_State receipt = (if att_State (rq_result old) = Pending then Cancelled else att_State (rq_result old))"
proof -
  obtain c1 where adv: "advanceLocked now sid c = (c1, None)"
    and act: "\<exists>old. getAction c1 (sid, request) = Some old
      \<and> d = (if att_State (rq_result old) = Pending then completeLocked now (sid, request) Cancelled NoRejection c1 else c1)"
    and rec: "actionReceipt now (sid, request) d = Inr receipt"
    using assms(2)
    by (auto simp: cancelSection_def findLocked_def requestLocked_def Let_def split: sum.splits option.splits prod.splits if_splits)
  from act obtain old where old: "getAction c1 (sid, request) = Some old"
    and d: "d = (if att_State (rq_result old) = Pending then completeLocked now (sid, request) Cancelled NoRejection c1 else c1)"
    by blast
  have keep: "held c1 = held c" "c_waiting c1 = c_waiting c" using advanceLocked_keeps [of now sid c] adv by simp_all
  have oldc: "getAction c (sid, request) = Some old"
    using advanceLocked_getAction [OF reachable_parts(1) [OF assms(1)], of now sid request] adv old by simp
  have qi: "queue_inv c" by (rule reachable_parts(3) [OF assms(1)])
  have out: "(sid, request) \<notin> set (c_waiting c)" if "\<not> rq_pending old"
    using qi that oldc unfolding queue_inv_def by auto
  have settled: "\<not> rq_pending old" if "att_State (rq_result old) \<noteq> Pending"
    using queue_inv_pending [OF qi oldc] that by blast
  have "c_waiting d = remove1 (sid, request) (c_waiting c)"
    using out settled waiting_complete [OF old] keep by (auto simp: d remove1_idem)
  moreover have "(sid, request) \<notin> pendingRefs d"
    using old by (auto simp: d pendingRefs_complete) (auto simp: pendingRefs_def)
  moreover have "att_State receipt = (if att_State (rq_result old) = Pending then Cancelled else att_State (rq_result old))"
    using rec old
    by (auto simp: d actionReceipt_def getAction_completeLocked receiptLocked_def finishAttempt_def Let_def split: option.splits if_splits)
  ultimately show ?thesis using old oldc keep(1) by (simp add: d getAction_completeLocked)
qed

text \<open>C27: \<open>Cancel\<close> ends a wait and nothing else. A refused call changes no claim and no queue
  entry. The transition of a successful one takes the request out of the queue and leaves every
  claim and every other queue entry as they are; what follows are the wakeups that end every
  operation, which may serve other requests. At the end the request is retained, not waiting
  and settled; the answer is that it was cancelled if it was pending, and otherwise how it had ended
  before.\<close>

theorem cancel_settles:
  assumes "reachable c" and "Cancel now env ctxErr sid node owner request c = (d, r)"
  shows "(\<forall>e. r = Inl e \<longrightarrow> held d = held c \<and> c_waiting d = c_waiting c)
    \<and> (\<forall>receipt. r = Inr receipt \<longrightarrow>
        (\<exists>c1 old latest. held c1 = held c \<and> c_waiting c1 = remove1 (sid, request) (c_waiting c) \<and> d = pump now env c1
           \<and> getAction c (sid, request) = Some old \<and> getAction d (sid, request) = Some latest
           \<and> att_State (rq_result latest) \<noteq> Pending
           \<and> (sid, request) \<notin> set (c_waiting d)
           \<and> att_State receipt = (if att_State (rq_result old) = Pending then Cancelled else att_State (rq_result old))))"
proof (cases "checkCall ctxErr node")
  case (Some e)
  with assms(2) show ?thesis by (auto simp: Cancel_def)
next
  case ok: None
  obtain c1 r1 where cs: "cancelSection now sid node owner request c = (c1, r1)"
    by (cases "cancelSection now sid node owner request c")
  show ?thesis
  proof (cases r1)
    case (Inl e)
    with ok cs assms(2) have "d = c1 \<and> r = Inl e" by (simp add: Cancel_def)
    with cancelSection_refused [OF cs [unfolded Inl]] show ?thesis by simp
  next
    case (Inr receipt)
    with ok cs assms(2) have d: "d = pump now env c1" and r: "r = Inr receipt" by (simp_all add: Cancel_def)
    from cancelSection_effect [OF assms(1) cs [unfolded Inr]] obtain old where old: "getAction c (sid, request) = Some old"
      and c1: "held c1 = held c" "c_waiting c1 = remove1 (sid, request) (c_waiting c)" "(sid, request) \<notin> pendingRefs c1"
        "getAction c1 (sid, request) \<noteq> None"
      and rec: "att_State receipt = (if att_State (rq_result old) = Pending then Cancelled else att_State (rq_result old))" by blast
    have settled: "(sid, request) \<notin> pendingRefs d" using c1(3) pendingRefs_pump unfolding d by blast
    have "reachable d" using reachable_run [OF assms(1) Cancel_run [of c now env ctxErr sid node owner request]] assms(2) by simp
    then have "queue_ok d" by (auto dest!: reachable_parts(10) simp: coord_inv_def tables_ok_def)
    then have "(sid, request) \<notin> set (c_waiting d)" using settled by (simp add: waiting_set)
    moreover obtain latest where "getAction d (sid, request) = Some latest" "att_State (rq_result latest) \<noteq> Pending"
      using settled c1(4) frame_registered [OF frame_pump [of now env c1], of "(sid, request)"] unfolding d
      by (auto simp: pendingRefs_def)
    ultimately show ?thesis using r old c1(1,2) d rec by auto
  qed
qed

theorem cancel_settles_witness:
  "(case Cancel 0 (\<lambda>pass ref. CtxStopped) None 2 7 1 secondRequest sampleWaiting of (d, r) \<Rightarrow>
     \<not> isl r \<and> (2, secondRequest) \<in> set (c_waiting sampleWaiting) \<and> (2, secondRequest) \<notin> set (c_waiting d))"
proof -
  have "active sampleWaiting 2 = None \<and> (case advanceLocked 0 2 sampleWaiting of (c1, e) \<Rightarrow> e = None \<and>
      (case getAction c1 (2, secondRequest) of None \<Rightarrow> False | Some a \<Rightarrow> key_owner (rq_key a) = 1 \<and> key_node (rq_key a) = 7
        \<and> \<not> isl (actionReceipt 0 (2, secondRequest)
              (if att_State (rq_result a) = Pending then completeLocked 0 (2, secondRequest) Cancelled NoRejection c1 else c1))))"
    by code_simp
  then have "\<not> isl (snd (cancelSection 0 2 7 1 secondRequest sampleWaiting))"
    using sample_requests(2)
    by (auto simp: cancelSection_def findLocked_def requestLocked_def Let_def split: prod.splits option.splits)
  moreover obtain d r where run: "Cancel 0 (\<lambda>pass ref. CtxStopped) None 2 7 1 secondRequest sampleWaiting = (d, r)"
    by (metis prod.exhaust)
  moreover have "checkCall None 7 = None" by code_simp
  ultimately obtain receipt where r: "r = Inr receipt"
    by (cases "cancelSection 0 2 7 1 secondRequest sampleWaiting"; cases "snd (cancelSection 0 2 7 1 secondRequest sampleWaiting)")
      (auto simp: Cancel_def)
  have "(2, secondRequest) \<in> set (c_waiting sampleWaiting)" by code_simp
  with cancel_settles [OF sample_reachable(2) run] show ?thesis by (auto simp: run r)
qed

lemma no_binding_no_claims:
  assumes "reachable d" and "\<And>s. gget (c_sessions d) (key_session key) = Some s \<Longrightarrow> gget (s_bindings s) (key_owner key) = None"
  shows "held d key = []" and "getAction d ref = Some a \<Longrightarrow> rq_key a = key \<Longrightarrow> att_State (rq_result a) \<noteq> Pending"
proof -
  have nb: "\<not> bound d key" using assms(2) by (auto simp: bound_def)
  note bi = reachable_parts(7) [OF assms(1)]
  from nb bi have "gget (c_owners d) key = None" unfolding bound_inv_def ownerKeys_def by blast
  then show "held d key = []" by (simp add: held_def)
  show "att_State (rq_result a) \<noteq> Pending" if "getAction d ref = Some a" "rq_key a = key"
    using nb bi that unfolding bound_inv_def pendingRefs_def by blast
qed

lemma frame_binding:
  assumes "frame d = frame c" and "gget (c_sessions d) sid = Some s" and "bindingOf c sid owner = None"
  shows "gget (s_bindings s) owner = None"
  using frame_bindingOf [OF assms(1), of sid owner] assms(2,3) by (simp add: bindingOf_def sessionObj_def)

lemma retireOwner_unbinds:
  assumes "coord_inv c"
  shows "bindingOf (retireOwnerSection now sid owner c) sid owner = None"
proof (cases "bindingOf c sid owner")
  case None
  then show ?thesis by (simp add: retireOwnerSection_def)
next
  case (Some b)
  let ?d = "fold (\<lambda>domain. dropLocked now (keyOf sid (bind_node b) owner domain)) [DomainRecord, DomainWholeFile, DomainEnforced] c"
  have fr: "frame ?d = frame c" by simp
  have si: "session_inv c" using assms by (simp add: coord_inv_def)
  have none: "gget (c_retired c) sid = Some s \<Longrightarrow> gget (s_bindings s) owner = None" for s
    using si gget_in_set [of "c_retired c" sid s] by (auto simp: session_inv_def list_all_iff retired_ok_def)
  have ret: "c_retired ?d = c_retired c" by (rule frame_fields(3) [OF fr])
  show ?thesis
    using Some none ret
    by (auto simp: retireOwnerSection_def Let_def bindingOf_def sessionObj_def updSession_def split: option.splits)
qed

text \<open>Retiring an owner leaves nothing of it. After a successful \<open>RetireOwner\<close>, with all the
  wakeups it causes, the owner is unknown to the session, holds no claim on any node and in any
  domain, and has no pending request.\<close>

lemma retire_owner_releases:
  assumes "reachable c" and "RetireOwner now env ctxErr sid owner c = (d, None)"
    and "key_session key = sid" and "key_owner key = owner"
  shows "held d key = [] \<and> bindingOf d sid owner = None
    \<and> (\<forall>ref a. getAction d ref = Some a \<longrightarrow> rq_key a = key \<longrightarrow> att_State (rq_result a) \<noteq> Pending)"
proof -
  let ?e = "retireOwnerSection now sid owner c"
  have d: "d = pump now env ?e"
    using assms(2) by (auto simp: RetireOwner_def split: option.splits if_splits)
  have "reachable d"
    using reachable_run [OF assms(1) RetireOwner_run [of c now env ctxErr sid owner]] assms(2) by simp
  have "bindingOf ?e sid owner = None"
    using retireOwner_unbinds [OF reachable_parts(10) [OF assms(1)]] .
  moreover have fr: "frame d = frame ?e" by (simp add: d)
  ultimately have none: "gget (s_bindings s) owner = None" if "gget (c_sessions d) sid = Some s" for s
    using frame_binding [OF fr that] by simp
  have "bindingOf d sid owner = None"
    using frame_bindingOf [OF fr] \<open>bindingOf ?e sid owner = None\<close> by simp
  with no_binding_no_claims [OF \<open>reachable d\<close>, of key] none assms(3,4) show ?thesis by auto
qed

text \<open>C26: a fenced retirement is complete. When the fence succeeds, the session holds no claim, has no
  queued request, and every later call on it is stale; when the fence fails, every claim, queue
  entry and request is kept, the session refuses further calls with \<open>EIO\<close>, the error is
  reported, and the next retirement runs the fence again.\<close>

theorem retire_outcome:
  assumes "reachable c" and "gget (c_sessions c) sid = Some s" and "\<not> s_retireDone s"
    and "Retire now env None fenceErr wake sid c = (d, err)"
  shows "err = fenceErr \<and>
    (case fenceErr of
       None \<Rightarrow> (\<forall>key. key_session key = sid \<longrightarrow> held d key = []) \<and> (\<forall>ref. ref \<in> set (c_waiting d) \<longrightarrow> fst ref \<noteq> sid)
         \<and> active d sid = Some (Errno ESTALE)
     | Some e \<Rightarrow> held d = held c \<and> c_waiting d = c_waiting c \<and> (\<forall>ref. getAction d ref = getAction c ref)
         \<and> active d sid = Some (Errno EIO) \<and> snd (retireBegin None sid d) = RunFence)"
proof -
  have ok: "\<not> s_retired s" using session_inv_get [OF reachable_parts(1) [OF assms(1)] assms(2)] by (simp add: session_ok_def)
  let ?b = "updSession sid (\<lambda>s. s\<lparr>s_retiring := True, s_retireDone := True\<rparr>) c"
  have start: "retireBegin None sid c = (?b, RunFence)"
    using assms(2,3) ok by (simp add: retireBegin_def)
  have sb: "gget (c_sessions ?b) sid = Some (s\<lparr>s_retiring := True, s_retireDone := True\<rparr>)"
    using assms(2) by (simp add: updSession_def)
  show ?thesis
  proof (cases fenceErr)
    case (Some e)
    with start assms(4) have d: "d = retireFinish (Some e) sid ?b" and err: "err = Some e" by (auto simp: Retire_def)
    have d2: "d = updSession sid (\<lambda>s. s\<lparr>s_retireErr := Some e, s_retireDone := False\<rparr>) ?b"
      using sb by (simp add: d retireFinish_def)
    have sd: "gget (c_sessions d) sid = Some (s\<lparr>s_retiring := True, s_retireDone := False, s_retireErr := Some e\<rparr>)"
      using assms(2) by (simp add: d2 updSession_def)
    show ?thesis
      using Some err sd ok by (simp add: d2 getAction_updSession active_def sessionObj_def activeLocked_def retireBegin_def fail_if_def)
  next
    case None
    with start assms(4) have d: "d = pump now env (retireFinish None sid ?b)" and err: "err = None" by (auto simp: Retire_def)
    have "reachable d"
      using reachable_run [OF assms(1) Retire_run [of "ContextEnded (Errno EIO)" c now env None None sid]] start None d
      by (simp add: Retire_def)
    have fr: "frame d = frame (retireFinish None sid ?b)" by (simp add: d)
    have gone: "gget (c_sessions d) sid = None"
      using frame_session [OF fr, of sid] sb by (simp add: retireFinish_def)
    moreover have "c_retired d = c_retired (retireFinish None sid ?b)" by (rule frame_fields(3) [OF fr])
    ultimately have "active d sid = Some (Errno ESTALE)"
      using sb by (simp add: active_def sessionObj_def retireFinish_def activeLocked_def fail_if_def)
    moreover have "held d key = []" if "key_session key = sid" for key
      using no_binding_no_claims(1) [OF \<open>reachable d\<close>, of key] gone that by simp
    moreover have "fst ref \<noteq> sid" if w: "ref \<in> set (c_waiting d)" for ref
    proof
      assume "fst ref = sid"
      have "queue_inv d" by (rule reachable_parts(3) [OF \<open>reachable d\<close>])
      then obtain a where "getAction d ref = Some a" using w unfolding queue_inv_def by blast
      with gone \<open>fst ref = sid\<close> show False by (simp add: getAction_def)
    qed
    ultimately show ?thesis using None err by simp
  qed
qed

theorem retire_outcome_witness:
  "held (fst (Retire 0 (\<lambda>_ _. Ordered OrderPass) None None (ContextEnded ContextCanceled) 1 sampleHeld)) (sampleKey 1) = []"
proof -
  obtain s where s: "gget (c_sessions sampleHeld) 1 = Some s" "\<not> s_retireDone s" by (rule sampleHeld_session)
  from retire_outcome [OF sample_reachable(1) s surjective_pairing, of 0 "\<lambda>_ _. Ordered OrderPass" None "ContextEnded ContextCanceled"]
  show ?thesis by (simp add: sampleKey_def keyOf_def)
qed

section \<open>Conflicts and deadlocks\<close>

text \<open>C28: conflict detection is exact. A command is reported to conflict exactly when a rival owner holds
  a claim that blocks it; the report then describes such a claim, and no blocking claim starts
  earlier.\<close>

theorem conflict_report_exact:
  assumes "reachable c"
  shows "(cf_Found (conflictLocked c key command) \<longleftrightarrow>
      (\<exists>other hc. rivals key other \<and> hc \<in> set (held c other) \<and> blocks hc command))
    \<and> (cf_Found (conflictLocked c key command) \<longrightarrow>
        (\<exists>other hc. rivals key other \<and> hc \<in> set (held c other) \<and> blocks hc command
           \<and> conflictLocked c key command = \<lparr>cf_Found = True, cf_Owner = ownerDiagnostic c other, cf_Range = claimRange hc, cf_Mode = claimMode hc\<rparr>
           \<and> (\<forall>other' hc'. rivals key other' \<longrightarrow> hc' \<in> set (held c other') \<longrightarrow> blocks hc' command
                \<longrightarrow> rangeStart (claimRange hc) \<le> rangeStart (claimRange hc'))))"
proof -
  have d: "distinct_keys (c_owners c)" using reachable_parts(5) [OF assms] by (simp add: range_inv_def)
  note mem = rivalClaims_set [OF d]
  show ?thesis
    using conflictLocked_cases [of c key command]
  proof (elim disjE conjE exE)
    assume none: "\<forall>x\<in>set (rivalClaims c key). \<not> blocks (snd x) command" and "conflictLocked c key command = zeroConflict"
    moreover have "\<not> blocks hc command" if "rivals key other" "hc \<in> set (held c other)" for other hc
      using bspec [OF none, of "(other, hc)"] that mem [of "(other, hc)" key] by auto
    ultimately show ?thesis by (auto simp: zeroConflict_def)
  next
    fix x assume x: "first_blocker command (rivalClaims c key) x" "conflictLocked c key command = reported c x"
    then have in_x: "x \<in> set (rivalClaims c key)" "blocks (snd x) command"
      by (auto simp: first_blocker_def)
    have "rangeStart (claimRange (snd x)) \<le> rangeStart (claimRange hc')"
      if "rivals key other'" "hc' \<in> set (held c other')" "blocks hc' command" for other' hc'
      using first_blocker_least [OF x(1), of "(other', hc')"] that by (auto simp: mem earlier_def)
    with in_x x(2) show ?thesis by (auto simp: mem reported_def)
  qed
qed

lemma sampleHeld_conflict: "cf_Found (conflictLocked sampleHeld (sampleKey 2) (lockBytes 5 10 True))"
  by code_simp

theorem conflict_report_exact_witness:
  "\<exists>other hc. rivals (sampleKey 2) other \<and> hc \<in> set (held sampleHeld other) \<and> blocks hc (lockBytes 5 10 True)"
  using conflict_report_exact [OF sample_reachable(1), of "sampleKey 2" "lockBytes 5 10 True"] sampleHeld_conflict by blast

text \<open>C30: the unspecified iteration order of the owner map is never observable. Any other order of the
  same map gives the same conflict report and the same verdict of the deadlock search.\<close>

theorem map_order_unobservable:
  assumes "reachable c" and "mset owners = mset (c_owners c)"
  shows "conflictLocked (c\<lparr>c_owners := owners\<rparr>) key command = conflictLocked c key command
    \<and> deadlockLocked (c\<lparr>c_owners := owners\<rparr>) candidate = deadlockLocked c candidate"
proof
  have d: "distinct_keys (c_owners c)" using reachable_parts(5) [OF assms(1)] by (simp add: range_inv_def)
  from d assms(2) show "conflictLocked (c\<lparr>c_owners := owners\<rparr>) key command = conflictLocked c key command"
    by (rule conflict_order_independent)
  have edges: "0 \<le> MaxDeadlockEdges (c_config c)"
    using reachable_parts(2) [OF assms(1)] by (auto simp: budget_inv_def Config_Check_def)
  note perm = waitGraph_shuffle [OF assms(2), of candidate]
  have "length (waitGraph (c\<lparr>c_owners := owners\<rparr>) candidate) = length (waitGraph c candidate)"
    "set (waitGraph (c\<lparr>c_owners := owners\<rparr>) candidate) = set (waitGraph c candidate)"
    using mset_eq_length [OF perm] mset_eq_setD [OF perm] by simp_all
  moreover have "participant (c\<lparr>c_owners := owners\<rparr>) = participant c"
    by (simp add: fun_eq_iff participant_def ownerGroup_def)
  ultimately show "deadlockLocked (c\<lparr>c_owners := owners\<rparr>) candidate = deadlockLocked c candidate"
    using edges by (simp add: deadlock_decides_cycle Let_def)
qed

theorem map_order_unobservable_witness:
  "conflictLocked (sampleShared\<lparr>c_owners := rev (c_owners sampleShared)\<rparr>) (sampleKey 1) (lockBytes 5 10 True)
   = conflictLocked sampleShared (sampleKey 1) (lockBytes 5 10 True)"
  using map_order_unobservable [OF sample_reachable(3), of "rev (c_owners sampleShared)" "sampleKey 1" "lockBytes 5 10 True"]
  by simp

text \<open>C29: the deadlock search decides exactly the cycles of the wait-for graph, whose edges lead from each
  waiting request (and the candidate) to the participants whose claims contend with it. When
  the graph has more edges than the configured bound, the search gives no verdict.\<close>

theorem deadlock_search_exact:
  assumes "reachable c"
  shows "deadlockLocked c candidate =
      (let p = participant c (rq_key candidate); edges = waitGraph c candidate
       in if int (length edges) \<le> MaxDeadlockEdges (c_config c) then ((p, p) \<in> (set edges)\<^sup>+, True) else (False, False))
    \<and> set (waitGraph c candidate) = {(participant c (rq_key r), participant c key) | r key.
         r \<in> set (waitingRequests c) \<union> {candidate} \<and> key_domain (rq_key r) = DomainRecord
         \<and> rivals (rq_key r) key \<and> contends (rq_commands r) (held c key)}"
proof
  have edges: "0 \<le> MaxDeadlockEdges (c_config c)"
    using reachable_parts(2) [OF assms] by (auto simp: budget_inv_def Config_Check_def)
  then show "deadlockLocked c candidate =
      (let p = participant c (rq_key candidate); edges = waitGraph c candidate
       in if int (length edges) \<le> MaxDeadlockEdges (c_config c) then ((p, p) \<in> (set edges)\<^sup>+, True) else (False, False))"
    by (rule deadlock_decides_cycle)
  have d: "distinct_keys (c_owners c)" using reachable_parts(5) [OF assms] by (simp add: range_inv_def)
  show "set (waitGraph c candidate) = {(participant c (rq_key r), participant c key) | r key.
         r \<in> set (waitingRequests c) \<union> {candidate} \<and> key_domain (rq_key r) = DomainRecord
         \<and> rivals (rq_key r) key \<and> contends (rq_commands r) (held c key)}"
    using waitGraph_edges [OF d] by simp
qed

theorem deadlock_search_exact_witness:
  "(participant sampleHeld (sampleKey 2), participant sampleHeld (sampleKey 1))
     \<in> set (waitGraph sampleHeld (newRequest (sampleKey 2) secondRequest 1 [lockBytes 5 10 True]))"
proof -
  let ?r = "newRequest (sampleKey 2) secondRequest 1 [lockBytes 5 10 True]"
  have facts: "key_domain (rq_key ?r) = DomainRecord" "rivals (rq_key ?r) (sampleKey 1)"
    "contends (rq_commands ?r) (held sampleHeld (sampleKey 1))" "rq_key ?r = sampleKey 2"
    by code_simp+
  show ?thesis
    unfolding deadlock_search_exact [OF sample_reachable(1), THEN conjunct2]
    using facts by (intro CollectI exI [of _ ?r] exI [of _ "sampleKey 1"]) simp
qed

section \<open>Use claims\<close>

lemma and_subset_zero:
  fixes a b d :: "'a::len word"
  assumes "a AND NOT b = 0" and "b AND d = 0"
  shows "a AND d = 0"
proof (rule bit_word_eqI)
  fix n assume "n < LENGTH('a)"
  then show "bit (a AND d) n = bit (0 :: 'a word) n"
    using arg_cong [OF assms(1), of "\<lambda>w. bit w n"] arg_cong [OF assms(2), of "\<lambda>w. bit w n"]
    by (auto simp: bit_and_iff bit_not_iff)
qed

text \<open>C31: use claims never contradict each other. In every reachable coordinator, two references on one
  node never have one that uses what the other denies.\<close>

theorem use_claims_compatible:
  assumes "reachable c" and "gget (c_uses c) a = Some x" and "gget (c_uses c) b = Some y" and "a \<noteq> b"
    and "use_node x = use_node y"
  shows "uc_Uses (use_claim x) AND uc_Deny (use_claim y) = 0 \<and> uc_Uses (use_claim y) AND uc_Deny (use_claim x) = 0"
  using reachable_parts(9) [OF assms(1)] assms(2-) unfolding uses_ok_def by metis

definition readOnly :: UseClaim where
  "readOnly = \<lparr>uc_Uses = ReadData, uc_Deny = WriteData\<rparr>"

definition sampleUses :: Coordinator where
  "sampleUses = fst (AddUse (\<lambda>_. True) None 7 ''b'' readOnly (fst (AddUse (\<lambda>_. True) None 7 ''a'' readOnly sampleInit)))"

lemma sampleUses_reachable: "reachable sampleUses"
  unfolding sampleUses_def by (intro reach_step [OF reach_step [OF sampleInit_reachable step_add_use] step_add_use])

lemma sampleUses_entries:
  "gget (c_uses sampleUses) ''a'' = Some \<lparr>use_node = 7, use_claim = readOnly\<rparr>"
  "gget (c_uses sampleUses) ''b'' = Some \<lparr>use_node = 7, use_claim = readOnly\<rparr>"
  by code_simp+

theorem use_claims_compatible_witness: "uc_Uses readOnly AND uc_Deny readOnly = 0"
  using use_claims_compatible [OF sampleUses_reachable sampleUses_entries] by simp

text \<open>A reference may always do what it declared. For an installed use claim, every subset of its
  uses passes \<open>CheckUse\<close>, whatever the other references claim; a use outside it is
  \<open>EBADF\<close>.\<close>

lemma declared_uses_admitted:
  assumes "reachable c" and "gget (c_uses c) scope = Some own" and "scope \<noteq> []" and "node \<noteq> 0" and "use_node own = node"
    and "uses AND NOT AllUses = 0"
  shows "CheckUse None node scope uses c = (if uses AND NOT (uc_Uses (use_claim own)) = 0 then None else Some (Errno EBADF))"
proof -
  have "checkOtherUsesLocked c node scope uses = None" if sub: "uses AND NOT (uc_Uses (use_claim own)) = 0"
  proof -
    have "uses AND uc_Deny (use_claim other) = 0"
      if "(otherScope, other) \<in> set (c_uses c)" "use_node other = node" "otherScope \<noteq> scope" for otherScope other
    proof -
      have "distinct_keys (c_uses c)" using reachable_parts(1) [OF assms(1)] by (simp add: session_inv_def)
      then have "gget (c_uses c) otherScope = Some other" using that(1) by (simp add: in_set_gget)
      then have "uc_Uses (use_claim own) AND uc_Deny (use_claim other) = 0"
        using reachable_parts(9) [OF assms(1)] assms(2,5) that(2,3) unfolding uses_ok_def by metis
      with sub show ?thesis by (rule and_subset_zero)
    qed
    then show ?thesis by (auto simp: checkOtherUsesLocked_def list_ex_iff)
  qed
  with assms(2-) show ?thesis
    by (simp add: CheckUse_def checkCall_def checkUseLocked_def fail_if_def)
qed

lemma some_owner_held:
  assumes "distinct_keys (c_owners c)" and "\<And>key. \<not> P key []"
  shows "(\<exists>(key, owner) \<in> set (c_owners c). P key (os_ranges owner)) \<longleftrightarrow> (\<exists>key. P key (held c key))"
proof
  assume "\<exists>(key, owner) \<in> set (c_owners c). P key (os_ranges owner)"
  then obtain key owner where "(key, owner) \<in> set (c_owners c)" "P key (os_ranges owner)" by blast
  then show "\<exists>key. P key (held c key)" by (auto simp: in_set_gget [OF assms(1)] held_def intro!: exI [of _ key])
next
  assume "\<exists>key. P key (held c key)"
  then obtain key where key: "P key (held c key)" by blast
  with assms(2) obtain st where "gget (c_owners c) key = Some st" by (cases "gget (c_owners c) key") (auto simp: held_def)
  with key show "\<exists>(key, owner) \<in> set (c_owners c). P key (os_ranges owner)"
    by (auto simp: held_def dest: gget_in_set)
qed

lemma and_zero_bits: "a AND b = 0 \<longleftrightarrow> (\<forall>n. bit a n \<longrightarrow> \<not> bit b n)" for a b :: "'a::len word"
  by (auto simp: bit_eq_iff bit_and_iff dest: bit_imp_le_length)

lemma and_not_zero_bits: "a AND NOT b = 0 \<longleftrightarrow> (\<forall>n. bit a n \<longrightarrow> bit b n)" for a b :: "'a::len word"
  by (auto simp: bit_eq_iff bit_and_iff bit_not_iff dest: bit_imp_le_length)

lemma others_admit:
  assumes "distinct_keys (c_uses c)"
  shows "checkOtherUsesLocked c node scope uses = None \<longleftrightarrow>
    (\<forall>n other claim. bit uses n \<longrightarrow> gget (c_uses c) other = Some claim \<longrightarrow> other \<noteq> scope \<longrightarrow> use_node claim = node
       \<longrightarrow> \<not> bit (uc_Deny (use_claim claim)) n)"
  by (auto simp: checkOtherUsesLocked_def list_ex_iff in_set_gget [OF assms] and_zero_bits)

lemma uses_admit:
  assumes "distinct_keys (c_uses c)" and "uses \<noteq> 0"
  shows "checkUseLocked c node scope uses = None \<longleftrightarrow>
    (\<forall>n. bit uses n \<longrightarrow>
       (scope \<noteq> [] \<longrightarrow> (\<exists>own. gget (c_uses c) scope = Some own \<and> use_node own = node \<and> bit (uc_Uses (use_claim own)) n))
       \<and> (\<forall>other claim. gget (c_uses c) other = Some claim \<longrightarrow> other \<noteq> scope \<longrightarrow> use_node claim = node
            \<longrightarrow> \<not> bit (uc_Deny (use_claim claim)) n))"
proof -
  obtain n where "bit uses n" using assms(2) by (auto simp: bit_eq_iff)
  then show ?thesis
    using others_admit [OF assms(1), of node scope uses]
    by (cases "gget (c_uses c) scope") (auto simp: checkUseLocked_def fail_if_def and_not_zero_bits)
qed

lemma ownerScopeOf_bound:
  assumes "scope \<noteq> []"
  shows "ownerScopeOf c key = scope \<longleftrightarrow>
    (\<exists>s b. gget (c_sessions c) (key_session key) = Some s \<and> gget (s_bindings s) (key_owner key) = Some b \<and> bind_scope b = scope)"
  using assms by (auto simp: ownerScopeOf_def split: option.splits)

lemma enforced_extent:
  assumes "reachable c" and "key_domain key = DomainEnforced" and "hc \<in> set (held c key)"
  shows "Range_Check (claimRange hc) = None"
  using reachable_parts(5) [OF assms(1)] assms(2,3)
  by (auto simp: range_inv_def table_inv_def rangeView_def claims_ok_def list_all_iff split: if_splits)

text \<open>C32: \<open>CheckIO\<close> lets an access pass exactly when it is a read or write of a valid byte range and each
  kind of use in it is allowed: a named reference exists on the node and declared the
  use; no other reference on the node denies it; and no enforced claim on the node whose extent
  meets the range (a common byte, or a boundary strictly inside the range) denies it, by
  \<open>DenySelf\<close> if the owner of the claim is bound to the named reference and by \<open>DenyOthers\<close> if
  not.\<close>

theorem check_io_exact:
  assumes "reachable c"
  shows "CheckIO None node scope extent uses c = None \<longleftrightarrow>
    node \<noteq> 0 \<and> Range_Check extent = None \<and> rg_Kind extent = Bytes \<and> uses \<noteq> 0 \<and> uses AND NOT (ReadData OR WriteData) = 0
    \<and> (\<forall>n. bit uses n \<longrightarrow>
         (scope \<noteq> [] \<longrightarrow> (\<exists>own. gget (c_uses c) scope = Some own \<and> use_node own = node \<and> bit (uc_Uses (use_claim own)) n))
         \<and> (\<forall>other claim. gget (c_uses c) other = Some claim \<longrightarrow> other \<noteq> scope \<longrightarrow> use_node claim = node
              \<longrightarrow> \<not> bit (uc_Deny (use_claim claim)) n)
         \<and> (\<forall>key hc. key_node key = node \<longrightarrow> key_domain key = DomainEnforced \<longrightarrow> hc \<in> set (held c key)
              \<longrightarrow> (if rg_Kind (claimRange hc) = Bytes
                   then \<exists>x. unat (rg_Start (claimRange hc)) \<le> x \<and> x < unat (rg_Start (claimRange hc)) + unat (rg_Length (claimRange hc))
                          \<and> unat (rg_Start extent) \<le> x \<and> x < unat (rg_Start extent) + unat (rg_Length extent)
                   else unat (rg_Start extent) < unat (rg_CutAt (claimRange hc))
                        \<and> unat (rg_CutAt (claimRange hc)) < unat (rg_Start extent) + unat (rg_Length extent))
              \<longrightarrow> \<not> bit (if scope \<noteq> [] \<and> (\<exists>s b. gget (c_sessions c) (key_session key) = Some s
                              \<and> gget (s_bindings s) (key_owner key) = Some b \<and> bind_scope b = scope)
                         then DenySelf (claimPolicy hc) else DenyOthers (claimPolicy hc)) n))"
proof (cases "node \<noteq> 0 \<and> Range_Check extent = None \<and> rg_Kind extent = Bytes \<and> uses \<noteq> 0 \<and> uses AND NOT (ReadData OR WriteData) = 0")
  case False
  then show ?thesis by (auto simp: CheckIO_def checkCall_def fail_if_def)
next
  case ok: True
  have keys: "distinct_keys (c_owners c)" "distinct_keys (c_uses c)"
    using reachable_parts(1,5) [OF assms] by (simp_all add: range_inv_def session_inv_def)
  define M where "M = (\<lambda>hc. if rg_Kind (claimRange hc) = Bytes
       then \<exists>x. unat (rg_Start (claimRange hc)) \<le> x \<and> x < unat (rg_Start (claimRange hc)) + unat (rg_Length (claimRange hc))
              \<and> unat (rg_Start extent) \<le> x \<and> x < unat (rg_Start extent) + unat (rg_Length extent)
       else unat (rg_Start extent) < unat (rg_CutAt (claimRange hc))
            \<and> unat (rg_CutAt (claimRange hc)) < unat (rg_Start extent) + unat (rg_Length extent))"
  have meets: "overlaps (claimRange hc) extent = M hc" if "key_domain key = DomainEnforced" "hc \<in> set (held c key)" for key hc
    using bytes_overlap_nat [of "claimRange hc" extent] boundary_overlap_nat [of "claimRange hc" extent]
      enforced_extent [OF assms that] ok Range_Check_kind by (auto simp: M_def)
  have denied: "deniedBy c scope key hc = (if scope \<noteq> [] \<and> (\<exists>s b. gget (c_sessions c) (key_session key) = Some s
      \<and> gget (s_bindings s) (key_owner key) = Some b \<and> bind_scope b = scope)
      then DenySelf (claimPolicy hc) else DenyOthers (claimPolicy hc))" for key hc
    using ownerScopeOf_bound [of scope c key] by (auto simp: deniedBy_def)
  have "list_ex (\<lambda>(key, owner). key_node key = node \<and> key_domain key = DomainEnforced
          \<and> list_ex (\<lambda>hc. overlaps (claimRange hc) extent \<and> uses AND deniedBy c scope key hc \<noteq> 0)
                (os_ranges owner)) (c_owners c)
      \<longleftrightarrow> (\<exists>key hc n. key_node key = node \<and> key_domain key = DomainEnforced \<and> hc \<in> set (held c key)
            \<and> overlaps (claimRange hc) extent \<and> bit uses n \<and> bit (deniedBy c scope key hc) n)"
    using some_owner_held [OF keys(1), of "\<lambda>key ranges. key_node key = node \<and> key_domain key = DomainEnforced
        \<and> list_ex (\<lambda>hc. overlaps (claimRange hc) extent \<and> uses AND deniedBy c scope key hc \<noteq> 0) ranges"]
    by (auto simp: list_ex_iff and_zero_bits)
  then have "CheckIO None node scope extent uses c = None \<longleftrightarrow> checkUseLocked c node scope uses = None
      \<and> (\<forall>key hc n. key_node key = node \<longrightarrow> key_domain key = DomainEnforced \<longrightarrow> hc \<in> set (held c key)
           \<longrightarrow> overlaps (claimRange hc) extent \<longrightarrow> bit uses n \<longrightarrow> \<not> bit (deniedBy c scope key hc) n)"
    using ok by (auto simp: CheckIO_def checkCall_def fail_if_def)
  also have "\<dots> \<longleftrightarrow> (\<forall>n. bit uses n \<longrightarrow>
         (scope \<noteq> [] \<longrightarrow> (\<exists>own. gget (c_uses c) scope = Some own \<and> use_node own = node \<and> bit (uc_Uses (use_claim own)) n))
         \<and> (\<forall>other claim. gget (c_uses c) other = Some claim \<longrightarrow> other \<noteq> scope \<longrightarrow> use_node claim = node
              \<longrightarrow> \<not> bit (uc_Deny (use_claim claim)) n)
         \<and> (\<forall>key hc. key_node key = node \<longrightarrow> key_domain key = DomainEnforced \<longrightarrow> hc \<in> set (held c key) \<longrightarrow> M hc
              \<longrightarrow> \<not> bit (deniedBy c scope key hc) n))"
    using uses_admit [OF keys(2), of uses node scope] ok meets by blast
  finally show ?thesis using ok unfolding M_def denied by simp
qed

text \<open>An owner bound to the reference \<open>''ref''\<close>, which may read and write, holds an enforced claim on
  the first ten bytes that denies writing to everybody else.\<close>

definition denyWrites :: RangeCommand where
  "denyWrites = \<lparr>cmd_Domain = DomainEnforced, cmd_Mode = RangeExclusive, cmd_Range = bytes_at 0 10, cmd_Edit = AddExact,
     cmd_Claim = [], cmd_Wait = False, cmd_Conversion = PreserveBeforeAcquire,
     cmd_Policy = \<lparr>DenySelf = 0, DenyOthers = WriteData\<rparr>\<rparr>"

definition sampleShareable :: Coordinator where
  "sampleShareable = fst (AddUse (\<lambda>_. True) None 7 ''ref'' \<lparr>uc_Uses = ReadData OR WriteData, uc_Deny = 0\<rparr> sampleInit)"

definition sampleEnforced :: Coordinator where
  "sampleEnforced = fst (applySection 0 1 7 1 [denyWrites] firstRequest 1 sampleShareable)"

lemma sampleEnforced_reachable: "reachable sampleEnforced"
proof -
  have cmds: "checkCommands (c_config sampleShareable) [denyWrites] = None" by code_simp
  have "reachable sampleShareable"
    unfolding sampleShareable_def by (rule reach_step [OF sampleInit_reachable step_add_use])
  then show ?thesis
    unfolding sampleEnforced_def by (rule reach_step) (rule step_apply [OF cmds sample_requests(1)])
qed

lemma sampleEnforced_claims:
  "map fst (c_owners sampleEnforced) = [keyOf 1 7 1 DomainEnforced]"
  "map rc_command (held sampleEnforced (keyOf 1 7 1 DomainEnforced)) = [denyWrites]"
  "c_uses sampleEnforced = [(''ref'', \<lparr>use_node = 7, use_claim = \<lparr>uc_Uses = ReadData OR WriteData, uc_Deny = 0\<rparr>\<rparr>)]"
  "ownerScopeOf sampleEnforced (keyOf 1 7 1 DomainEnforced) = ''ref''"
  by code_simp+

lemma sampleEnforced_uses:
  "gget (c_uses sampleEnforced) other
     = (if other = ''ref'' then Some \<lparr>use_node = 7, use_claim = \<lparr>uc_Uses = ReadData OR WriteData, uc_Deny = 0\<rparr>\<rparr> else None)"
  by (simp add: sampleEnforced_claims(3) gget_def)

lemma sampleEnforced_held:
  assumes "hc \<in> set (held sampleEnforced key)"
  shows "key = keyOf 1 7 1 DomainEnforced \<and> rc_command hc = denyWrites"
proof -
  have "key \<in> set (map fst (c_owners sampleEnforced))"
    using assms by (cases "gget (c_owners sampleEnforced) key") (auto simp: held_def dest!: gget_in_set intro: rev_image_eqI)
  then have key: "key = keyOf 1 7 1 DomainEnforced" unfolding sampleEnforced_claims(1) by simp
  then have "rc_command hc \<in> set (map rc_command (held sampleEnforced (keyOf 1 7 1 DomainEnforced)))"
    using assms by simp
  with key show ?thesis unfolding sampleEnforced_claims(2) by simp
qed

theorem check_io_exact_witness:
  "CheckIO None 7 [] (bytes_at 9 2) WriteData sampleEnforced \<noteq> None \<and> CheckIO None 7 [] (bytes_at 10 2) WriteData sampleEnforced = None
   \<and> CheckIO None 7 [] (bytes_at 9 2) ReadData sampleEnforced = None \<and> CheckIO None 7 ''ref'' (bytes_at 9 2) WriteData sampleEnforced = None"
proof -
  note exact = check_io_exact [OF sampleEnforced_reachable]
  obtain hc where hc: "hc \<in> set (held sampleEnforced (keyOf 1 7 1 DomainEnforced))"
    using sampleEnforced_claims(2) by (cases "held sampleEnforced (keyOf 1 7 1 DomainEnforced)") auto
  note cmd = conjunct2 [OF sampleEnforced_held [OF this]]
  have bits: "bit WriteData n \<longleftrightarrow> n = 1" "bit ReadData n \<longleftrightarrow> n = 0" for n
    by (auto simp: WriteData_def ReadData_def bit_1_iff bit_2_iff possible_bit_word)
  have ok: "Range_Check (bytes_at 9 2) = None" "Range_Check (bytes_at 10 2) = None" by code_simp+
  have uses: "WriteData \<noteq> 0" "ReadData \<noteq> 0" "WriteData AND NOT (ReadData OR WriteData) = 0" "ReadData AND NOT (ReadData OR WriteData) = 0"
    by code_simp+
  have own: "\<exists>s b. gget (c_sessions sampleEnforced) (key_session (keyOf 1 7 1 DomainEnforced)) = Some s
      \<and> gget (s_bindings s) (key_owner (keyOf 1 7 1 DomainEnforced)) = Some b \<and> bind_scope b = ''ref''"
    using ownerScopeOf_bound [of "''ref''" sampleEnforced] sampleEnforced_claims(4) by simp
  have "CheckIO None 7 [] (bytes_at 9 2) WriteData sampleEnforced \<noteq> None"
  proof
    assume "CheckIO None 7 [] (bytes_at 9 2) WriteData sampleEnforced = None"
    then have "\<not> bit (DenyOthers (claimPolicy h)) n"
      if "bit WriteData n" "key_node key = 7" "key_domain key = DomainEnforced" "h \<in> set (held sampleEnforced key)"
        "rg_Kind (claimRange h) = Bytes" "unat (rg_Start (claimRange h)) \<le> x \<and> x < unat (rg_Start (claimRange h)) + unat (rg_Length (claimRange h))
          \<and> unat (rg_Start (bytes_at 9 2)) \<le> x \<and> x < unat (rg_Start (bytes_at 9 2)) + unat (rg_Length (bytes_at 9 2))" for n key h x
      unfolding exact using that by simp metis
    from this [of 1 "keyOf 1 7 1 DomainEnforced" hc 9] hc show False
      by (simp add: bits cmd denyWrites_def bytes_at_def keyOf_def)
  qed
  moreover have "CheckIO None 7 [] (bytes_at 10 2) WriteData sampleEnforced = None"
    unfolding exact using ok uses
    by (auto simp: sampleEnforced_uses bits bytes_at_def denyWrites_def dest!: sampleEnforced_held split: if_splits)
  moreover have "CheckIO None 7 [] (bytes_at 9 2) ReadData sampleEnforced = None"
    unfolding exact using ok uses
    by (auto simp: sampleEnforced_uses bits bytes_at_def denyWrites_def dest!: sampleEnforced_held split: if_splits)
  moreover have "CheckIO None 7 ''ref'' (bytes_at 9 2) WriteData sampleEnforced = None"
    unfolding exact using ok uses own
    by (auto simp: sampleEnforced_uses bits bytes_at_def denyWrites_def bit_or_iff dest!: sampleEnforced_held split: if_splits)
  ultimately show ?thesis by blast
qed

end
