(* ===== verification/Materialization.thy ===== *)
theory Materialization
  imports Advisory
begin

text \<open>
  The materialization budget of a volume, \<^verbatim>\<open>packages/advisory/materialization.go\<close>.
  A successful acquisition returns a closure over the reserved size and a
  \<^verbatim>\<open>sync.Once\<close>; a \<open>reservation\<close> is that closure's environment.
  The system of this theory is a coordinator together with every closure it has handed out,
  called in any order and any number of times.
\<close>

section \<open>Operations\<close>

record reservation =
  rv_bytes :: int
  rv_done :: bool \<comment> \<open>the closure's \<open>once\<close> has run\<close>

definition AcquireMaterialization ::
    "goerror option \<Rightarrow> int \<Rightarrow> Coordinator \<Rightarrow> Coordinator \<times> (goerror + reservation)" where
  "AcquireMaterialization ctxErr bytes c =
     (case first_error [ctxErr, fail_if (bytes < 0) (Errno EINVAL),
          fail_if (bytes > MaxMaterializedBytes (c_config c)) (Errno EFBIG),
          fail_if (c_materializations c \<ge> MaxMaterializations (c_config c)
            \<or> bytes > MaxMaterializedBytes (c_config c) - c_materializedBytes c) (Errno EAGAIN)] of
        Some e \<Rightarrow> (c, Inl e)
      | None \<Rightarrow> (c\<lparr>c_materializations := c_materializations c + 1,
                   c_materializedBytes := c_materializedBytes c + bytes\<rparr>,
                 Inr \<lparr>rv_bytes = bytes, rv_done = False\<rparr>))"

definition releaseMaterialization :: "reservation \<Rightarrow> Coordinator \<Rightarrow> Coordinator \<times> reservation" where
  "releaseMaterialization r c =
     (if rv_done r then (c, r)
      else (c\<lparr>c_materializations := c_materializations c - 1,
              c_materializedBytes := c_materializedBytes c - rv_bytes r\<rparr>, r\<lparr>rv_done := True\<rparr>))"

definition FileOperationLimits :: "Coordinator \<Rightarrow> int \<times> int \<times> duration" where
  "FileOperationLimits c =
     (MaxFileBytes (c_config c), MaxFileAttempts (c_config c), FileOperationTimeout (c_config c))"

section \<open>The system of a coordinator and its reservations\<close>

type_synonym material_state = "Coordinator \<times> reservation list"

definition material_init :: "material_state \<Rightarrow> bool" where
  "material_init st \<longleftrightarrow> (\<exists>config. New config = Inr (fst st)) \<and> snd st = []"

inductive material_step :: "material_state \<Rightarrow> material_state \<Rightarrow> bool" where
  acquire_ok:
    "AcquireMaterialization ctxErr bytes c = (c', Inr r) \<Longrightarrow> material_step (c, rs) (c', rs @ [r])"
| acquire_refused:
    "AcquireMaterialization ctxErr bytes c = (c', Inl e) \<Longrightarrow> material_step (c, rs) (c', rs)"
| release:
    "i < length rs \<Longrightarrow> releaseMaterialization (rs ! i) c = (c', r) \<Longrightarrow> material_step (c, rs) (c', rs[i := r])"

inductive_cases material_stepE: "material_step st st'"

definition live_bytes :: "reservation list \<Rightarrow> int" where
  "live_bytes rs = sum_list (map (\<lambda>r. if rv_done r then 0 else rv_bytes r) rs)"

definition live_count :: "reservation list \<Rightarrow> int" where
  "live_count rs = sum_list (map (\<lambda>r. if rv_done r then 0 else 1) rs)"

definition material_inv :: "material_state \<Rightarrow> bool" where
  "material_inv st \<longleftrightarrow> (case st of (c, rs) \<Rightarrow>
     0 < MaxMaterializations (c_config c) \<and> list_all (\<lambda>r. 0 \<le> rv_bytes r) rs
     \<and> c_materializedBytes c = live_bytes rs \<and> c_materializations c = live_count rs
     \<and> live_bytes rs \<le> MaxMaterializedBytes (c_config c) \<and> live_count rs \<le> MaxMaterializations (c_config c))"

lemma sum_list_update_int:
  fixes f :: "'a \<Rightarrow> int"
  shows "i < length xs \<Longrightarrow> sum_list (map f (xs[i := x])) = sum_list (map f xs) - f (xs ! i) + f x"
  by (induction xs arbitrary: i) (auto split: nat.split)

lemma live_update:
  assumes "i < length rs" and "\<not> rv_done (rs ! i)"
  shows "live_bytes (rs[i := (rs ! i)\<lparr>rv_done := True\<rparr>]) = live_bytes rs - rv_bytes (rs ! i)"
    and "live_count (rs[i := (rs ! i)\<lparr>rv_done := True\<rparr>]) = live_count rs - 1"
  using assms by (simp_all add: live_bytes_def live_count_def sum_list_update_int)

lemma live_nonneg: "list_all (\<lambda>r. 0 \<le> rv_bytes r) rs \<Longrightarrow> 0 \<le> live_bytes rs" "0 \<le> live_count rs"
  by (auto simp: live_bytes_def live_count_def list_all_iff intro!: sum_list_nonneg)

lemma live_snoc:
  "live_bytes (rs @ [\<lparr>rv_bytes = b, rv_done = False\<rparr>]) = live_bytes rs + b"
  "live_count (rs @ [\<lparr>rv_bytes = b, rv_done = False\<rparr>]) = live_count rs + 1"
  by (simp_all add: live_bytes_def live_count_def)

lemma material_inv_step:
  assumes "material_step st st'" and inv: "material_inv st"
  shows "material_inv st'"
  using assms
proof (cases rule: material_step.cases)
  case (acquire_ok ctxErr bytes c c' r rs)
  then show ?thesis
    using inv by (auto simp: AcquireMaterialization_def material_inv_def live_snoc split: option.splits)
next
  case (acquire_refused ctxErr bytes c c' e rs)
  then show ?thesis
    using inv by (auto simp: AcquireMaterialization_def split: option.splits)
next
  case (release i rs c c' r)
  show ?thesis
  proof (cases "rv_done (rs ! i)")
    case True
    with release inv show ?thesis by (auto simp: releaseMaterialization_def)
  next
    case False
    have "0 \<le> rv_bytes (rs ! i)" and nn: "list_all (\<lambda>r. 0 \<le> rv_bytes r) (rs[i := (rs ! i)\<lparr>rv_done := True\<rparr>])"
      using release(1,3) inv by (auto simp: material_inv_def list_all_length nth_list_update)
    with False release inv show ?thesis
      by (auto simp: releaseMaterialization_def material_inv_def live_update)
  qed
qed

interpretation mat: guarded_system material_init material_step material_inv
proof
  show "material_inv st" if "material_init st" for st
    using that
    by (auto simp: material_init_def material_inv_def New_def Config_Check_def live_bytes_def live_count_def
        split: prod.splits option.splits)
  show "material_inv t" if "material_inv s" "material_step s t" for s t
    using that material_inv_step by blast
qed

section \<open>Properties\<close>

text \<open>C33: in every reachable state the two counters are exactly the number and the total size of
  the reservations not yet released, and both stay within the configured volume limits.\<close>

theorem materialization_budget_exact:
  assumes "reach material_init material_step (c, rs)"
  shows "c_materializedBytes c = live_bytes rs \<and> c_materializations c = live_count rs
    \<and> 0 \<le> c_materializedBytes c \<and> c_materializedBytes c \<le> MaxMaterializedBytes (c_config c)
    \<and> 0 \<le> c_materializations c \<and> c_materializations c \<le> MaxMaterializations (c_config c)"
  using mat.reach_inv [OF assms] live_nonneg [of rs] by (auto simp: material_inv_def)

definition sampleMaterial :: Coordinator where
  "sampleMaterial = (case New DefaultConfig of Inr c \<Rightarrow> c)"

lemma sampleMaterial_run:
  "reach material_init material_step
     (fst (AcquireMaterialization None 100 sampleMaterial), [\<lparr>rv_bytes = 100, rv_done = False\<rparr>])"
proof -
  have "reach material_init material_step (sampleMaterial, [])"
  proof (rule reach_init)
    have "New DefaultConfig = Inr sampleMaterial" by code_simp
    then show "material_init (sampleMaterial, [])" by (auto simp: material_init_def)
  qed
  moreover have "AcquireMaterialization None 100 sampleMaterial =
      (fst (AcquireMaterialization None 100 sampleMaterial), Inr \<lparr>rv_bytes = 100, rv_done = False\<rparr>)"
    by code_simp
  ultimately show ?thesis
    by (metis acquire_ok reach_step append_Nil)
qed

theorem materialization_budget_witness:
  "c_materializedBytes (fst (AcquireMaterialization None 100 sampleMaterial)) = 100"
  using materialization_budget_exact [OF sampleMaterial_run] by (simp add: live_bytes_def)

text \<open>A release runs once. Calling the closure again changes nothing, and a release right after
  its acquisition restores the coordinator exactly.\<close>

lemma release_once:
  "(case releaseMaterialization r c of (c1, r1) \<Rightarrow> releaseMaterialization r1 c1 = (c1, r1))
   \<and> (case AcquireMaterialization ctxErr bytes c of
        (c1, Inr r) \<Rightarrow> fst (releaseMaterialization r c1) = c
      | (c1, Inl _) \<Rightarrow> c1 = c)"
  by (auto simp: releaseMaterialization_def AcquireMaterialization_def split: option.split sum.split prod.split)

text \<open>Which error an acquisition meets. With a live context and a size that is not negative, a
  size above the volume limit is \<open>EFBIG\<close> whatever is reserved; a size within the limit is
  refused only with \<open>EAGAIN\<close>, and only while other reservations are live.\<close>

lemma acquire_errors:
  assumes "reach material_init material_step (c, rs)" and "0 \<le> bytes"
  shows "(snd (AcquireMaterialization None bytes c) = Inl (Errno EFBIG) \<longleftrightarrow> bytes > MaxMaterializedBytes (c_config c))
    \<and> (\<forall>e. bytes \<le> MaxMaterializedBytes (c_config c) \<longrightarrow> snd (AcquireMaterialization None bytes c) = Inl e
      \<longrightarrow> e = Errno EAGAIN \<and> (\<exists>r\<in>set rs. \<not> rv_done r))"
proof -
  have inv: "c_materializedBytes c = live_bytes rs" "c_materializations c = live_count rs" "0 < MaxMaterializations (c_config c)"
    using mat.reach_inv [OF assms(1)] by (auto simp: material_inv_def)
  moreover have "(\<exists>r\<in>set rs. \<not> rv_done r) \<or> live_bytes rs = 0 \<and> live_count rs = 0"
  proof (cases "\<exists>r\<in>set rs. \<not> rv_done r")
    case False
    then show ?thesis by (simp add: live_bytes_def live_count_def cong: map_cong)
  qed simp
  ultimately show ?thesis
    using assms(2) by (auto simp: AcquireMaterialization_def fail_if_def)
qed

end
