(* ===== verification/Capability.thy ===== *)
theory Capability
  imports GoText
begin

text \<open>
  The capability texts of the lock authority, \<open>token\<close> and \<open>verify\<close> of
  \<^verbatim>\<open>packages/locking/authority.go\<close>, with the standard library functions they use:
  \<^verbatim>\<open>strings.Split\<close>, \<^verbatim>\<open>strings.Join\<close> and the unpadded URL
  alphabet of \<^verbatim>\<open>encoding/base64\<close>, whose decoder skips line breaks and ignores
  the unused low bits of the last digit. Octets are natural numbers below 256.

  The keyed hash (HMAC-SHA256 under the authority's secret) is the parameter \<open>mac\<close>;
  the random nonce of a token is an argument.
\<close>

section \<open>Splitting and base64\<close>

fun strings_Split :: "char \<Rightarrow> string \<Rightarrow> string list" where
  "strings_Split sep [] = [[]]"
| "strings_Split sep (c # s) =
     (case strings_Split sep s of
        [] \<Rightarrow> [[c]]
      | part # rest \<Rightarrow> if c = sep then [] # part # rest else (c # part) # rest)"

fun strings_Join :: "char \<Rightarrow> string list \<Rightarrow> string" where
  "strings_Join sep [] = []"
| "strings_Join sep [part] = part"
| "strings_Join sep (part # rest) = part @ sep # strings_Join sep rest"

definition b64_digit :: "nat \<Rightarrow> char" where
  "b64_digit n =
     (if n < 26 then char_of (65 + n) else if n < 52 then char_of (97 + (n - 26))
      else if n < 62 then char_of (48 + (n - 52)) else if n = 62 then CHR ''-'' else CHR ''_'')"

definition b64_value :: "char \<Rightarrow> nat option" where
  "b64_value ch =
     (let n = (of_char ch :: nat)
      in if 65 \<le> n \<and> n \<le> 90 then Some (n - 65) else if 97 \<le> n \<and> n \<le> 122 then Some (n - 97 + 26)
         else if 48 \<le> n \<and> n \<le> 57 then Some (n - 48 + 52) else if ch = CHR ''-'' then Some 62
         else if ch = CHR ''_'' then Some 63 else None)"

fun EncodeToString :: "nat list \<Rightarrow> string" where
  "EncodeToString [] = []"
| "EncodeToString [a] = [b64_digit (a div 4), b64_digit (a mod 4 * 16)]"
| "EncodeToString [a, b] =
     [b64_digit (a div 4), b64_digit (a mod 4 * 16 + b div 16), b64_digit (b mod 16 * 4)]"
| "EncodeToString (a # b # c # rest) =
     b64_digit (a div 4) # b64_digit (a mod 4 * 16 + b div 16) # b64_digit (b mod 16 * 4 + c div 64)
       # b64_digit (c mod 64) # EncodeToString rest"

fun decodeQuanta :: "nat list \<Rightarrow> nat list option" where
  "decodeQuanta [] = Some []"
| "decodeQuanta [w] = None"
| "decodeQuanta [w, x] = Some [w * 4 + x div 16]"
| "decodeQuanta [w, x, y] = Some [w * 4 + x div 16, x mod 16 * 16 + y div 4]"
| "decodeQuanta (w # x # y # z # rest) =
     (case decodeQuanta rest of
        None \<Rightarrow> None
      | Some out \<Rightarrow> Some ([w * 4 + x div 16, x mod 16 * 16 + y div 4, y mod 4 * 64 + z] @ out))"

fun digitValues :: "string \<Rightarrow> nat list option" where
  "digitValues [] = Some []"
| "digitValues (c # s) =
     (if c = CHR 0x0A \<or> c = CHR 0x0D then digitValues s
      else case (b64_value c, digitValues s) of (Some v, Some vs) \<Rightarrow> Some (v # vs) | _ \<Rightarrow> None)"

definition DecodeString :: "string \<Rightarrow> nat list option" where
  "DecodeString s = (case digitValues s of None \<Rightarrow> None | Some vs \<Rightarrow> decodeQuanta vs)"

section \<open>Tokens\<close>

datatype token_error = TokenInvalid | TokenRetired

definition tokenPayload :: "string \<Rightarrow> nat list \<Rightarrow> string \<Rightarrow> string \<Rightarrow> string" where
  "tokenPayload incarnation nonce kind extra =
     kind @ ''.'' @ incarnation @ ''.'' @ EncodeToString nonce @ ''.'' @ extra"

definition token ::
    "(string \<Rightarrow> nat list) \<Rightarrow> string \<Rightarrow> nat list \<Rightarrow> string \<Rightarrow> string \<Rightarrow> string \<Rightarrow> string" where
  "token mac incarnation nonce kind parent extra =
     (let payload = tokenPayload incarnation nonce kind extra
      in payload @ ''.'' @ EncodeToString (mac (parent @ CHR 0x00 # payload)))"

definition verify :: "(string \<Rightarrow> nat list) \<Rightarrow> string \<Rightarrow> string \<Rightarrow> string \<Rightarrow> string \<Rightarrow> token_error + string" where
  "verify mac incarnation tok kind parent =
     (if length tok > 512 then Inl TokenInvalid
      else let parts = strings_Split CHR ''.'' tok
           in if length parts \<noteq> 5 \<or> parts ! 0 \<noteq> kind then Inl TokenInvalid
              else if parts ! 1 \<noteq> incarnation then Inl TokenRetired
              else if DecodeString (parts ! 4)
                        \<noteq> Some (mac (parent @ CHR 0x00 # strings_Join CHR ''.'' (take 4 parts)))
              then Inl TokenInvalid else Inr (parts ! 3))"

section \<open>Facts about the encoding\<close>

lemma Split_not_Nil [simp]: "strings_Split sep s \<noteq> []"
  by (cases s) (auto split: list.split)

lemma Split_append:
  "sep \<notin> set a \<Longrightarrow> strings_Split sep (a @ sep # b) = a # strings_Split sep b"
proof (induction a)
  case Nil
  then show ?case by (cases "strings_Split sep b") auto
qed auto

lemma Split_plain: "sep \<notin> set a \<Longrightarrow> strings_Split sep a = [a]"
  by (induction a) auto

lemma Join_Split: "strings_Join sep (strings_Split sep s) = s"
proof (induction s)
  case (Cons c s)
  obtain part rest where p: "strings_Split sep s = part # rest"
    by (cases "strings_Split sep s") auto
  with Cons show ?case by (cases rest) auto
qed simp

lemma b64_value_digit: "n < 64 \<Longrightarrow> b64_value (b64_digit n) = Some n"
proof -
  assume "n < 64"
  then consider "n < 26" | "26 \<le> n" "n < 52" | "52 \<le> n" "n < 62" | "n = 62" | "n = 63" by linarith
  then show ?thesis
    by cases (auto simp: b64_digit_def b64_value_def Let_def of_char_of take_bit_eq_mod)
qed

lemma b64_digit_plain:
  assumes "n < 64"
  shows "b64_digit n \<noteq> CHR ''.''" "b64_digit n \<noteq> CHR 0x0A" "b64_digit n \<noteq> CHR 0x0D"
proof -
  have none: "b64_value CHR ''.'' = None" "b64_value CHR 0x0A = None" "b64_value CHR 0x0D = None"
    by (simp_all add: b64_value_def)
  show "b64_digit n \<noteq> CHR ''.''" "b64_digit n \<noteq> CHR 0x0A" "b64_digit n \<noteq> CHR 0x0D"
    using b64_value_digit [OF assms] none by auto
qed

lemma digitValues_digit: "n < 64 \<Longrightarrow>
  digitValues (b64_digit n # s) = (case digitValues s of None \<Rightarrow> None | Some vs \<Rightarrow> Some (n # vs))"
  by (simp add: b64_value_digit b64_digit_plain)

lemma octet_parts:
  fixes a b :: nat
  assumes "a < 256" and "b < 256"
  shows "a div 4 < 64" "a mod 4 * 16 < 64" "a mod 4 * 16 + b div 16 < 64" "b mod 16 * 4 < 64"
    "b mod 16 * 4 + a div 64 < 64"
proof -
  have "a mod 4 < 4" "b mod 16 < 16" "b div 16 < 16" "a div 64 < 4" "a div 4 < 64" using assms by auto
  then show "a div 4 < 64" "a mod 4 * 16 < 64" "a mod 4 * 16 + b div 16 < 64" "b mod 16 * 4 < 64"
    "b mod 16 * 4 + a div 64 < 64" by linarith+
qed

lemma octet_join:
  fixes a b :: nat
  assumes "b < 256"
  shows "a div 4 * 4 + (a mod 4 * 16 + b div 16) div 16 = a"
    "a div 4 * 4 + a mod 4 * 16 div 16 = a"
    "(a mod 4 * 16 + b div 16) mod 16 * 16 + (b mod 16 * 4 + c div 64) div 4 = b + (c div 64) div 4"
    "(a mod 4 * 16 + b div 16) mod 16 * 16 + b mod 16 * 4 div 4 = b"
proof -
  have *: "b div 16 < 16" using assms by auto
  then have e: "(a mod 4 * 16 + b div 16) div 16 = a mod 4" "(a mod 4 * 16 + b div 16) mod 16 = b div 16" by auto
  have f: "(b mod 16 * 4 + c div 64) div 4 = b mod 16 + (c div 64) div 4" by simp
  show "a div 4 * 4 + (a mod 4 * 16 + b div 16) div 16 = a" using e by simp
  show "a div 4 * 4 + a mod 4 * 16 div 16 = a" by simp
  show "(a mod 4 * 16 + b div 16) mod 16 * 16 + (b mod 16 * 4 + c div 64) div 4 = b + (c div 64) div 4"
    using e f by simp
  show "(a mod 4 * 16 + b div 16) mod 16 * 16 + b mod 16 * 4 div 4 = b" using e by simp
qed

lemma octet_last:
  fixes b c :: nat
  assumes "c < 256"
  shows "(b mod 16 * 4 + c div 64) mod 4 * 64 + c mod 64 = c" "c div 64 div 4 = 0"
proof -
  have "c div 64 < 4" using assms by auto
  then show "(b mod 16 * 4 + c div 64) mod 4 * 64 + c mod 64 = c" "c div 64 div 4 = 0" by auto
qed

lemma digitValues_Encode:
  "list_all (\<lambda>n. n < 256) xs \<Longrightarrow> \<exists>vs. digitValues (EncodeToString xs) = Some vs \<and> decodeQuanta vs = Some xs"
proof (induction xs rule: EncodeToString.induct)
  case (2 a)
  then show ?case by (simp add: digitValues_digit octet_parts octet_join del: digitValues.simps(2))
next
  case (3 a b)
  then have "a < 256" "b < 256" by auto
  then show ?case by (simp add: digitValues_digit octet_parts octet_join del: digitValues.simps(2))
next
  case (4 a b c rest)
  then have ab: "a < 256" "b < 256" "c < 256" by auto
  from 4 obtain vs where "digitValues (EncodeToString rest) = Some vs" "decodeQuanta vs = Some rest" by auto
  moreover have "c mod 64 < 64" by simp
  moreover have "b mod 16 * 4 + c div 64 < 64" using octet_parts(5) [OF ab(3,2)] .
  ultimately show ?case
    using ab by (simp add: digitValues_digit octet_parts octet_join octet_last del: digitValues.simps(2))
qed simp

lemma Decode_Encode: "list_all (\<lambda>n. n < 256) xs \<Longrightarrow> DecodeString (EncodeToString xs) = Some xs"
  using digitValues_Encode by (fastforce simp: DecodeString_def)

lemma Encode_plain: "list_all (\<lambda>n. n < 256) xs \<Longrightarrow> CHR ''.'' \<notin> set (EncodeToString xs)"
proof (induction xs rule: EncodeToString.induct)
  case (4 a b c rest)
  then have ab: "a < 256" "b < 256" "c < 256" by auto
  with octet_parts(5) [OF ab(3,2)] 4 show ?case
    using b64_digit_plain(1) octet_parts(1,3) [OF ab(1,2)] by (auto dest: sym)
next
  case (3 a b)
  then show ?case using b64_digit_plain(1) octet_parts(1,3,4) [of a b] by (auto dest: sym)
next
  case (2 a)
  then show ?case using b64_digit_plain(1) octet_parts(1,2) [of a a] by (auto dest: sym)
qed simp

text \<open>A token splits into its five parts.\<close>

lemma Split_token:
  assumes "CHR ''.'' \<notin> set kind" and "CHR ''.'' \<notin> set incarnation" and "CHR ''.'' \<notin> set extra"
    and "list_all (\<lambda>n. n < 256) nonce" and "CHR ''.'' \<notin> set sig"
  shows "strings_Split CHR ''.'' (tokenPayload incarnation nonce kind extra @ ''.'' @ sig) =
    [kind, incarnation, EncodeToString nonce, extra, sig]"
  using assms by (simp add: tokenPayload_def Split_append Split_plain Encode_plain)

section \<open>Properties\<close>

text \<open>C37: a capability is accepted by the authority that minted it. For every key and nonce, the text
  of \<open>token\<close> passes \<open>verify\<close> for the same kind and parent and gives back the
  extra field.\<close>

theorem token_verifies:
  assumes "CHR ''.'' \<notin> set kind" and "CHR ''.'' \<notin> set incarnation" and "CHR ''.'' \<notin> set extra"
    and "list_all (\<lambda>n. n < 256) nonce" and "\<And>m. list_all (\<lambda>n. n < 256) (mac m)"
    and "length (token mac incarnation nonce kind parent extra) \<le> 512"
  shows "verify mac incarnation (token mac incarnation nonce kind parent extra) kind parent = Inr extra"
proof -
  let ?p = "tokenPayload incarnation nonce kind extra"
  let ?sig = "EncodeToString (mac (parent @ CHR 0x00 # ?p))"
  have sig: "CHR ''.'' \<notin> set ?sig" "DecodeString ?sig = Some (mac (parent @ CHR 0x00 # ?p))"
    using assms(5) by (simp_all add: Encode_plain Decode_Encode)
  have tok: "token mac incarnation nonce kind parent extra = ?p @ ''.'' @ ?sig"
    by (simp add: token_def Let_def)
  have "strings_Split CHR ''.'' (?p @ ''.'' @ ?sig) = [kind, incarnation, EncodeToString nonce, extra, ?sig]"
    using assms(1-4) sig(1) by (rule Split_token)
  then show ?thesis
    using assms(6) sig(2) unfolding tok by (simp add: verify_def tokenPayload_def Let_def numeral_eq_Suc)
qed

definition sampleMac :: "string \<Rightarrow> nat list" where
  "sampleMac m = replicate 32 (length m mod 256)"

theorem token_verifies_witness:
  "verify sampleMac ''inc'' (token sampleMac ''inc'' [1, 2, 3] ''t'' [] ''60000'') ''t'' [] = Inr ''60000''"
proof (rule token_verifies)
  show "list_all (\<lambda>n. n < 256) (sampleMac m)" for m
    by (simp add: sampleMac_def list_all_iff)
  show "length (token sampleMac ''inc'' [1, 2, 3] ''t'' [] ''60000'') \<le> 512" by code_simp
qed simp_all

text \<open>C38: nothing else is accepted. A text passes \<open>verify\<close> only if it has five dot-separated
  parts, of the requested kind and this incarnation, and its last part decodes to the keyed hash
  of the parent and the other parts; in particular a capability of another kind, of another
  incarnation or, unless the keyed hashes collide, for another parent is refused.\<close>

theorem verify_sound:
  assumes "verify mac incarnation tok kind parent = Inr extra"
  shows "\<exists>nonce sig. tok = strings_Join CHR ''.'' [kind, incarnation, nonce, extra, sig] \<and> length tok \<le> 512
    \<and> DecodeString sig = Some (mac (parent @ CHR 0x00 # strings_Join CHR ''.'' [kind, incarnation, nonce, extra]))"
proof -
  let ?parts = "strings_Split CHR ''.'' tok"
  from assms have len: "length ?parts = 5" and kind: "?parts ! 0 = kind" and inc: "?parts ! 1 = incarnation"
    and extra: "?parts ! 3 = extra" and short: "length tok \<le> 512"
    and sig: "DecodeString (?parts ! 4) = Some (mac (parent @ CHR 0x00 # strings_Join CHR ''.'' (take 4 ?parts)))"
    by (auto simp: verify_def Let_def split: if_splits)
  from len obtain a b c d e where p: "?parts = [a, b, c, d, e]"
    by (auto simp: numeral_eq_Suc length_Suc_conv)
  with kind inc extra have "?parts = [kind, incarnation, c, extra, e]" by simp
  moreover from this have "tok = strings_Join CHR ''.'' [kind, incarnation, c, extra, e]"
    by (metis Join_Split)
  ultimately show ?thesis using sig short by (auto simp: numeral_eq_Suc)
qed

theorem verify_sound_witness:
  "\<exists>nonce sig. token sampleMac ''inc'' [1, 2, 3] ''t'' [] ''5'' = strings_Join CHR ''.'' [''t'', ''inc'', nonce, ''5'', sig]
    \<and> length (token sampleMac ''inc'' [1, 2, 3] ''t'' [] ''5'') \<le> 512
    \<and> DecodeString sig = Some (sampleMac ([] @ CHR 0x00 # strings_Join CHR ''.'' [''t'', ''inc'', nonce, ''5'']))"
proof (rule verify_sound)
  show "verify sampleMac ''inc'' (token sampleMac ''inc'' [1, 2, 3] ''t'' [] ''5'') ''t'' [] = Inr ''5''"
    by code_simp
qed

end
