(* ===== verification/LockTypes.thy ===== *)
theory LockTypes
  imports Capability
begin

text \<open>
  Data, errors, limits and validation of the lock authority: \<^verbatim>\<open>types.go\<close>,
  \<^verbatim>\<open>errors.go\<close> and \<^verbatim>\<open>native.go\<close> of
  \<^verbatim>\<open>packages/locking\<close>, and the records of \<^verbatim>\<open>authority.go\<close>.

  Human readable messages are left out. An error value is a tree of the shapes that
  \<open>CodeOf\<close> tells apart. The records that the source links by pointers refer to each
  other by identity: a grant and an action live inside their owner's record, a resource in
  the table of resource objects, which also keeps the objects no longer in the map.
\<close>

section \<open>Errors\<close>

datatype Code = Invalid | UnsupportedTarget | Conflict | AlreadyHeld | RequestMismatch | Capacity | Retired
  | OutcomeUnknown | StaleResource | StaleGrant | UnrelatedProof | Recovering | Unavailable

text \<open>\<open>Typed\<close> is the package's own \<open>*Error\<close> with its code, \<open>Recorded\<close> flag
  and cause; then an error with a \<open>Classification\<close> of its own, a join, a wrapper and
  any other error.\<close>

datatype goerr =
    Typed Code bool "goerr option"
  | Classified
  | Joined "goerr list"
  | Wrapped "goerr option"
  | Plain nat

definition fail :: "Code \<Rightarrow> goerr" where
  "fail code = Typed code False None"

definition Wrap :: "Code \<Rightarrow> goerr option \<Rightarrow> goerr" where
  "Wrap code cause = Typed code False cause"

definition Errno :: "Code \<Rightarrow> errno" where
  "Errno code =
     (case code of
        Invalid \<Rightarrow> EINVAL | RequestMismatch \<Rightarrow> EINVAL
      | UnsupportedTarget \<Rightarrow> EOPNOTSUPP
      | Conflict \<Rightarrow> EBUSY | AlreadyHeld \<Rightarrow> EBUSY
      | Capacity \<Rightarrow> EAGAIN | Recovering \<Rightarrow> EAGAIN
      | Retired \<Rightarrow> ESTALE | StaleResource \<Rightarrow> ESTALE | StaleGrant \<Rightarrow> ESTALE | UnrelatedProof \<Rightarrow> ESTALE
      | _ \<Rightarrow> EIO)"

fun CodeOf :: "goerr \<Rightarrow> Code" where
  "CodeOf (Typed code _ _) = code"
| "CodeOf Classified = Unavailable"
| "CodeOf (Joined [e]) = CodeOf e"
| "CodeOf (Joined _) = Unavailable"
| "CodeOf (Wrapped (Some e)) = CodeOf e"
| "CodeOf (Wrapped None) = Unavailable"
| "CodeOf (Plain _) = Unavailable"

text \<open>\<open>errors.Join\<close>: nil errors are dropped, and joining nothing is nil.\<close>

definition errors_Join :: "goerr option list \<Rightarrow> goerr option" where
  "errors_Join es = (let present = List.map_filter id es in if present = [] then None else Some (Joined present))"

section \<open>Limits\<close>

record Options =
  opt_MaxSessions :: int
  opt_MaxTickets :: int
  opt_MaxOwners :: int
  opt_MaxResources :: int
  opt_MaxActions :: int
  opt_MaxGrants :: int
  opt_MaxQueued :: int
  opt_OwnersPerSession :: int
  opt_OwnerActionsPerSession :: int
  opt_ActionsPerOwner :: int
  opt_GrantsPerOwner :: int
  opt_QueuedPerOwner :: int
  opt_QueuedPerResource :: int
  opt_MaxProofs :: int
  opt_MaxRequestBytes :: int
  opt_MaxLease :: duration
  opt_MaxWait :: duration
  opt_TicketTTL :: duration
  opt_SessionIdle :: duration
  opt_ResourceTTL :: duration

definition Millisecond :: duration where "Millisecond = 10 ^ 6"
definition Minute :: duration where "Minute = 60 * 10 ^ 9"

definition DefaultOptions :: Options where
  "DefaultOptions =
     \<lparr>opt_MaxSessions = 1024, opt_MaxTickets = 1024, opt_MaxOwners = 4096, opt_MaxResources = 4096,
      opt_MaxActions = 262144, opt_MaxGrants = 8192, opt_MaxQueued = 4096, opt_OwnersPerSession = 64,
      opt_OwnerActionsPerSession = 256, opt_ActionsPerOwner = 1024, opt_GrantsPerOwner = 64,
      opt_QueuedPerOwner = 64, opt_QueuedPerResource = 128, opt_MaxProofs = 16, opt_MaxRequestBytes = 128,
      opt_MaxLease = Minute, opt_MaxWait = Minute, opt_TicketTTL = Minute, opt_SessionIdle = 10 * Minute,
      opt_ResourceTTL = Minute\<rparr>"

definition Options_Validate :: "Options \<Rightarrow> goerr option" where
  "Options_Validate opts = first_error
     [fail_if (list_ex (\<lambda>n. n \<le> 0)
        [opt_MaxSessions opts, opt_MaxTickets opts, opt_MaxOwners opts, opt_MaxResources opts, opt_MaxActions opts,
         opt_MaxGrants opts, opt_MaxQueued opts, opt_OwnersPerSession opts, opt_OwnerActionsPerSession opts,
         opt_ActionsPerOwner opts, opt_GrantsPerOwner opts, opt_QueuedPerOwner opts, opt_QueuedPerResource opts,
         opt_MaxProofs opts, opt_MaxRequestBytes opts]) (fail Invalid),
      fail_if (list_ex (\<lambda>d. d < Millisecond)
        [opt_MaxLease opts, opt_MaxWait opts, opt_TicketTTL opts, opt_SessionIdle opts, opt_ResourceTTL opts]) (fail Invalid),
      fail_if (opt_SessionIdle opts < opt_MaxLease opts \<or> opt_SessionIdle opts < opt_MaxWait opts) (fail Invalid)]"

section \<open>References, requests and receipts\<close>

type_synonym SessionID = string
type_synonym OwnerID = string
type_synonym RequestID = string
type_synonym ResourceID = string
type_synonym GrantID = string
type_synonym EnrollmentTicket = string
type_synonym BackendKey = string

datatype Mode = Shared | Exclusive | OtherMode

record OwnerRef =
  or_Session :: SessionID
  or_Owner :: OwnerID

record ResourceRef =
  rr_ID :: ResourceID
  rr_ExpiresMillis :: int
  rr_NowMillis :: int
  rr_HistoryExpiresMillis :: int

record GrantRef =
  gr_ID :: GrantID
  gr_Resource :: ResourceID
  gr_Generation :: u64

record MutationScope =
  sc_Owner :: OwnerRef
  sc_Grants :: "GrantRef list"

record SessionResult =
  sr_ID :: SessionID
  sr_Authority :: string
  sr_HistoryExpiresMillis :: int
  sr_NowMillis :: int
  sr_Retired :: bool

record OwnerResult =
  wr_Ref :: OwnerRef
  wr_ActionCapacity :: int
  wr_HistoryExpiresMillis :: int
  wr_NowMillis :: int
  wr_Retired :: bool

record AcquireRequest =
  aq_Owner :: OwnerRef
  aq_Request :: RequestID
  aq_Resource :: ResourceRef
  aq_Mode :: Mode
  aq_TTL :: duration
  aq_Wait :: duration

record RenewRequest =
  rn_Owner :: OwnerRef
  rn_Request :: RequestID
  rn_Grant :: GrantRef
  rn_TTL :: duration

datatype ActionKind = AcquireAction | RenewAction
datatype ActionOutcome = Pending | Granted | Renewed | Cancelled | TimedOut | Rejected
datatype GrantState = Active | Released | Expired | TargetGone | OwnerRetired

record ActionReceipt =
  rc_Kind :: ActionKind
  rc_Request :: RequestID
  rc_Acquire :: "AcquireRequest option"
  rc_Renew :: "RenewRequest option"
  rc_Outcome :: ActionOutcome
  rc_Code :: "Code option" \<comment> \<open>the empty code is \<open>None\<close>\<close>
  rc_Grant :: "GrantRef option"
  rc_DeadlineMillis :: int
  rc_Revision :: u64

record GrantStatus =
  gs_Ref :: GrantRef
  gs_Mode :: Mode
  gs_State :: GrantState
  gs_Revision :: u64
  gs_DeadlineMillis :: int
  gs_RemainingMillis :: int
  gs_NowMillis :: int
  gs_HistoryExpiresMillis :: int

record ActionResult =
  ar_Recorded :: bool
  ar_Receipt :: ActionReceipt
  ar_Grant :: "GrantStatus option"
  ar_NowMillis :: int
  ar_HistoryExpiresMillis :: int

record ReleaseResult =
  rl_State :: GrantState
  rl_Grant :: GrantStatus
  rl_NowMillis :: int
  rl_HistoryExpiresMillis :: int

record CancelResult =
  cr_Outcome :: ActionOutcome
  cr_Released :: bool
  cr_NowMillis :: int
  cr_HistoryExpiresMillis :: int

datatype MutationKind = WriteMutation | SetAttrMutation | RemoveMutation | RenameMutation | CreateMutation | OtherMutation

record Publication =
  pb_Kind :: MutationKind
  pb_Targets :: "BackendKey list"
  pb_Scope :: MutationScope

record PublicationOutcome =
  po_Known :: bool
  po_Retired :: "BackendKey list"
  po_Changed :: bool
  po_Err :: "goerr option"

definition ValidateScope :: "MutationScope \<Rightarrow> int \<Rightarrow> goerr option" where
  "ValidateScope scope maxProofs = first_error
     [fail_if (maxProofs \<le> 0 \<or> int (length (sc_Grants scope)) > maxProofs) (fail Invalid),
      fail_if ((or_Session (sc_Owner scope) = []) \<noteq> (or_Owner (sc_Owner scope) = [])) (fail Invalid),
      fail_if (sc_Grants scope \<noteq> [] \<and> or_Owner (sc_Owner scope) = []) (fail Invalid),
      fail_if (length (or_Session (sc_Owner scope)) > 512 \<or> length (or_Owner (sc_Owner scope)) > 512) (fail Invalid),
      fail_if (list_ex (\<lambda>g. gr_ID g = [] \<or> gr_Resource g = [] \<or> length (gr_ID g) > 512 \<or> length (gr_Resource g) > 512
                 \<or> gr_Generation g = 0) (sc_Grants scope)
               \<or> \<not> distinct (map gr_ID (sc_Grants scope))) (fail Invalid)]"

definition requestValid :: "RequestID \<Rightarrow> int \<Rightarrow> bool" where
  "requestValid request limit = (0 < length request \<and> int (length request) \<le> limit)"

section \<open>Records of the authority\<close>

record ticketRecord =
  tk_session :: SessionID
  tk_expires :: instant

record sessionRecord =
  se_id :: SessionID
  se_expires :: instant
  se_owners :: "OwnerID list"
  se_creates :: "(RequestID, OwnerID) gomap"

record actionRecord =
  ac_receipt :: ActionReceipt
  ac_resource :: "ResourceID option"
  ac_waitUntil :: "instant option" \<comment> \<open>the zero time is \<open>None\<close>\<close>
  ac_grant :: "GrantID option" \<comment> \<open>a grant of the same owner\<close>
  ac_cancel :: "CancelResult option"
  ac_tombstone :: bool
  ac_processing :: bool
  ac_failure :: "goerr option"

record grantRecord =
  gt_resource :: ResourceID
  gt_ref :: GrantRef
  gt_mode :: Mode
  gt_state :: GrantState
  gt_deadline :: instant
  gt_revision :: u64
  gt_release :: "GrantState option" \<comment> \<open>the state of the first release\<close>

record ownerRecord =
  ow_ref :: OwnerRef
  ow_actions :: "(RequestID, actionRecord) gomap"
  ow_grants :: "(GrantID, grantRecord) gomap"
  ow_liveGrants :: int
  ow_queued :: int

record resourceRecord =
  rs_id :: ResourceID
  rs_key :: BackendKey
  rs_referenceUntil :: instant
  rs_grants :: "(GrantID, OwnerID) gomap"
  rs_queue :: "(OwnerID \<times> RequestID) list"
  rs_busy :: bool
  rs_retired :: bool
  rs_worker :: bool
  rs_holds :: int
  rs_forgetting :: bool

record Authority =
  au_options :: Options
  au_start :: instant
  au_recoveryUntil :: instant
  au_watermark :: duration
  au_incarnation :: string
  au_sessions :: "(SessionID, sessionRecord) gomap"
  au_owners :: "(OwnerID, ownerRecord) gomap"
  au_tickets :: "(EnrollmentTicket, ticketRecord) gomap"
  au_objects :: "(ResourceID, resourceRecord) gomap" \<comment> \<open>every resource object\<close>
  au_resources :: "ResourceID list" \<comment> \<open>the keys of the map \<open>resources\<close>\<close>
  au_keys :: "(BackendKey, ResourceID) gomap"
  au_lastGeneration :: u64
  au_actions :: int
  au_grants :: int
  au_queued :: int
  au_publications :: int
  au_nativeCalls :: int
  au_fenced :: "goerr option"
  au_closed :: bool
  au_closeErr :: "goerr option"

section \<open>Properties\<close>

text \<open>C37: \<open>CodeOf\<close> never lets a lock refusal through a join of several failures or an
  enclosing classification: an outcome other than \<open>Unavailable\<close> means that the error is
  the typed error itself under wrappers around one error each.\<close>

fun transparent :: "goerr \<Rightarrow> goerr list" where
  "transparent (Joined [e]) = e # transparent e"
| "transparent (Wrapped (Some e)) = e # transparent e"
| "transparent _ = []"

lemma code_of_transparent:
  "CodeOf e \<noteq> Unavailable \<longrightarrow> (\<exists>recorded cause. Typed (CodeOf e) recorded cause \<in> set (e # transparent e))"
  by (induction e rule: CodeOf.induct) auto

text \<open>The default limits are valid.\<close>

lemma DefaultOptions_valid: "Options_Validate DefaultOptions = None"
  by (simp add: Options_Validate_def DefaultOptions_def Millisecond_def Minute_def)

end
