(* ===== verification/LockAuthority.thy ===== *)
theory LockAuthority
  imports LockTypes
begin

text \<open>
  The lock authority of \<^verbatim>\<open>packages/locking\<close>: enrollment of sessions and owners,
  acquisition, renewal, release and cancellation of leases, the queue workers, maintenance,
  and the admission of publications.

  Every definition named \<open>...Locked\<close> or \<open>...Section\<close> is what runs under the
  authority mutex. A call that releases the mutex is a sequence of sections; what other calls
  do in between is an argument \<open>env\<close> of the whole operation. \<open>clk i\<close> is the
  instant that the i-th reading of the clock returns, in program order, \<open>ctxErr\<close> the
  error of the caller's context. \<open>mac\<close> is the keyed hash behind the capabilities, a
  \<open>nonce\<close> the random octets of a new one. The answers of the native backend and of the
  persistent evidence are arguments.

  Where the source dereferences a pointer whose target the model cannot find, the model takes
  a neutral branch; the invariants of \<^verbatim>\<open>LockGrants\<close> and \<^verbatim>\<open>LockSystemInv\<close> show which links always resolve.
\<close>

section \<open>Access paths\<close>

definition getGrant :: "Authority \<Rightarrow> OwnerID \<Rightarrow> GrantID \<Rightarrow> grantRecord option" where
  "getGrant a oid gid = (case gget (au_owners a) oid of None \<Rightarrow> None | Some ow \<Rightarrow> gget (ow_grants ow) gid)"

definition getAct :: "Authority \<Rightarrow> OwnerID \<Rightarrow> RequestID \<Rightarrow> actionRecord option" where
  "getAct a oid req = (case gget (au_owners a) oid of None \<Rightarrow> None | Some ow \<Rightarrow> gget (ow_actions ow) req)"

definition updOwn :: "OwnerID \<Rightarrow> (ownerRecord \<Rightarrow> ownerRecord) \<Rightarrow> Authority \<Rightarrow> Authority" where
  "updOwn oid f a = a\<lparr>au_owners := gupd oid f (au_owners a)\<rparr>"

definition updGrant :: "OwnerID \<Rightarrow> GrantID \<Rightarrow> (grantRecord \<Rightarrow> grantRecord) \<Rightarrow> Authority \<Rightarrow> Authority" where
  "updGrant oid gid f a = updOwn oid (\<lambda>ow. ow\<lparr>ow_grants := gupd gid f (ow_grants ow)\<rparr>) a"

definition updAct :: "OwnerID \<Rightarrow> RequestID \<Rightarrow> (actionRecord \<Rightarrow> actionRecord) \<Rightarrow> Authority \<Rightarrow> Authority" where
  "updAct oid req f a = updOwn oid (\<lambda>ow. ow\<lparr>ow_actions := gupd req f (ow_actions ow)\<rparr>) a"

definition updRes :: "ResourceID \<Rightarrow> (resourceRecord \<Rightarrow> resourceRecord) \<Rightarrow> Authority \<Rightarrow> Authority" where
  "updRes rid f a = a\<lparr>au_objects := gupd rid f (au_objects a)\<rparr>"

definition updSess :: "SessionID \<Rightarrow> (sessionRecord \<Rightarrow> sessionRecord) \<Rightarrow> Authority \<Rightarrow> Authority" where
  "updSess sid f a = a\<lparr>au_sessions := gupd sid f (au_sessions a)\<rparr>"

definition busyRes :: "Authority \<Rightarrow> ResourceID \<Rightarrow> bool" where
  "busyRes a rid = (case gget (au_objects a) rid of None \<Rightarrow> False | Some r \<Rightarrow> rs_busy r)"

definition resGrants :: "Authority \<Rightarrow> ResourceID \<Rightarrow> (GrantID, OwnerID) gomap" where
  "resGrants a rid = (case gget (au_objects a) rid of None \<Rightarrow> [] | Some r \<Rightarrow> rs_grants r)"

definition resQueue :: "Authority \<Rightarrow> ResourceID \<Rightarrow> (OwnerID \<times> RequestID) list" where
  "resQueue a rid = (case gget (au_objects a) rid of None \<Rightarrow> [] | Some r \<Rightarrow> rs_queue r)"

definition expiresOf :: "Authority \<Rightarrow> OwnerID \<Rightarrow> instant" where
  "expiresOf a oid =
     (case gget (au_owners a) oid of None \<Rightarrow> au_start a
      | Some ow \<Rightarrow> (case gget (au_sessions a) (or_Session (ow_ref ow)) of None \<Rightarrow> au_start a | Some s \<Rightarrow> se_expires s))"

section \<open>Construction, health and capabilities\<close>

text \<open>\<open>time.Duration.Milliseconds\<close> truncates towards zero.\<close>

definition Milliseconds :: "duration \<Rightarrow> int" where
  "Milliseconds d = (if 0 \<le> d then d div Millisecond else - ((- d) div Millisecond))"

definition tick :: "Authority \<Rightarrow> instant \<Rightarrow> int" where
  "tick a t = Milliseconds (t - au_start a)"

text \<open>\<open>New\<close>: \<open>maxLease\<close> is the persistent evidence, \<open>recoveryStart\<close> the instant
  volume ownership was acquired (\<open>None\<close> for the zero time).\<close>

definition Authority_New ::
    "Options \<Rightarrow> bool \<Rightarrow> goerr + duration \<Rightarrow> instant option \<Rightarrow> instant \<Rightarrow> nat list \<Rightarrow> goerr + Authority" where
  "Authority_New options present maxLease recoveryStart now nonce =
     (case Options_Validate options of
        Some e \<Rightarrow> Inl e
      | None \<Rightarrow>
          if \<not> present then Inl (fail Invalid)
          else (case maxLease of
              Inl e \<Rightarrow> Inl (Wrap Unavailable (Some e))
            | Inr watermark \<Rightarrow>
                (case recoveryStart of
                   None \<Rightarrow> Inl (fail Invalid)
                 | Some from \<Rightarrow>
                     if watermark < 0 then Inl (fail Invalid)
                     else Inr \<lparr>au_options = options, au_start = now, au_recoveryUntil = from + watermark,
                       au_watermark = watermark, au_incarnation = EncodeToString nonce, au_sessions = [], au_owners = [],
                       au_tickets = [], au_objects = [], au_resources = [], au_keys = [], au_lastGeneration = 0,
                       au_actions = 0, au_grants = 0, au_queued = 0, au_publications = 0, au_nativeCalls = 0,
                       au_fenced = None, au_closed = False, au_closeErr = None\<rparr>)))"

definition healthyLocked :: "goerr option \<Rightarrow> bool \<Rightarrow> instant \<Rightarrow> Authority \<Rightarrow> goerr option" where
  "healthyLocked ctxErr admission now a = first_error
     [ctxErr, fail_if (au_closed a) (fail Retired),
      (case au_fenced a of None \<Rightarrow> None | Some e \<Rightarrow> Some (Wrap Unavailable (Some e))),
      fail_if (admission \<and> now < au_recoveryUntil a) (fail Recovering)]"

definition verifyCap :: "(string \<Rightarrow> nat list) \<Rightarrow> Authority \<Rightarrow> string \<Rightarrow> string \<Rightarrow> string \<Rightarrow> goerr + string" where
  "verifyCap mac a tok kind parent =
     (case verify mac (au_incarnation a) tok kind parent of
        Inl TokenInvalid \<Rightarrow> Inl (fail Invalid)
      | Inl TokenRetired \<Rightarrow> Inl (fail Retired)
      | Inr extra \<Rightarrow> Inr extra)"

definition Authority_ownerLocked :: "(string \<Rightarrow> nat list) \<Rightarrow> OwnerRef \<Rightarrow> Authority \<Rightarrow> goerr + ownerRecord" where
  "Authority_ownerLocked mac ref a =
     (case verifyCap mac a (or_Session ref) ''s'' [] of
        Inl e \<Rightarrow> Inl e
      | Inr _ \<Rightarrow>
          (case verifyCap mac a (or_Owner ref) ''o'' (or_Session ref) of
             Inl e \<Rightarrow> Inl e
           | Inr _ \<Rightarrow>
               (case gget (au_owners a) (or_Owner ref) of
                  None \<Rightarrow> Inl (fail Retired)
                | Some ow \<Rightarrow> if ow_ref ow \<noteq> ref then Inl (fail Retired) else Inr ow)))"

definition sessionLocked :: "(string \<Rightarrow> nat list) \<Rightarrow> SessionID \<Rightarrow> Authority \<Rightarrow> goerr + sessionRecord" where
  "sessionLocked mac sid a =
     (case verifyCap mac a sid ''s'' [] of
        Inl e \<Rightarrow> Inl e
      | Inr _ \<Rightarrow> (case gget (au_sessions a) sid of None \<Rightarrow> Inl (fail Retired) | Some s \<Rightarrow> Inr s))"

definition touchSessionLocked :: "instant \<Rightarrow> SessionID \<Rightarrow> Authority \<Rightarrow> Authority" where
  "touchSessionLocked now sid a =
     updSess sid (\<lambda>s. if now + opt_SessionIdle (au_options a) > se_expires s
                     then s\<lparr>se_expires := now + opt_SessionIdle (au_options a)\<rparr> else s) a"

definition touchLocked :: "instant \<Rightarrow> OwnerID \<Rightarrow> Authority \<Rightarrow> Authority" where
  "touchLocked now oid a =
     (case gget (au_owners a) oid of None \<Rightarrow> a | Some ow \<Rightarrow> touchSessionLocked now (or_Session (ow_ref ow)) a)"

record StatusResult =
  st_Authority :: string
  st_NowMillis :: int
  st_Recovering :: bool
  st_RecoveryRemainingMillis :: int
  st_Sessions :: int
  st_Owners :: int
  st_Resources :: int
  st_Actions :: int
  st_Grants :: int
  st_Queued :: int
  st_Unavailable :: bool

definition Status :: "goerr option \<Rightarrow> instant \<Rightarrow> Authority \<Rightarrow> goerr + StatusResult" where
  "Status ctxErr now a =
     (case ctxErr of
        Some e \<Rightarrow> Inl e
      | None \<Rightarrow>
          let remaining = max 0 (au_recoveryUntil a - now)
          in Inr \<lparr>st_Authority = au_incarnation a, st_NowMillis = tick a now, st_Recovering = (remaining > 0),
               st_RecoveryRemainingMillis = Milliseconds remaining, st_Sessions = int (length (au_sessions a)),
               st_Owners = int (length (au_owners a)), st_Resources = int (length (au_resources a)),
               st_Actions = au_actions a, st_Grants = au_grants a, st_Queued = au_queued a,
               st_Unavailable = (au_closed a \<or> au_fenced a \<noteq> None)\<rparr>)"

text \<open>\<open>raise\<close>, serialized by its own mutex: the check, the persistent evidence, the new
  watermark. \<open>env\<close> is what other calls do while the evidence is written.\<close>

definition raise ::
    "goerr option \<Rightarrow> instant \<Rightarrow> goerr option \<Rightarrow> (Authority \<Rightarrow> Authority) \<Rightarrow> duration \<Rightarrow> Authority \<Rightarrow> Authority \<times> goerr option" where
  "raise ctxErr now persistErr env ttl a =
     (case healthyLocked ctxErr False now a of
        Some e \<Rightarrow> (a, Some e)
      | None \<Rightarrow>
          if ttl \<le> au_watermark a then (a, None)
          else (case persistErr of
              Some e \<Rightarrow> (env a, Some (Wrap Unavailable (Some e)))
            | None \<Rightarrow> ((env a)\<lparr>au_watermark := ttl\<rparr>, None)))"

definition beginNative :: "goerr option \<Rightarrow> instant \<Rightarrow> Authority \<Rightarrow> Authority \<times> goerr option" where
  "beginNative ctxErr now a =
     (case healthyLocked ctxErr False now a of
        Some e \<Rightarrow> (a, Some e)
      | None \<Rightarrow> (a\<lparr>au_nativeCalls := au_nativeCalls a + 1\<rparr>, None))"

definition finishNative :: "Authority \<Rightarrow> Authority" where
  "finishNative a = a\<lparr>au_nativeCalls := au_nativeCalls a - 1\<rparr>"

section \<open>Ending grants and actions\<close>

definition endGrantLocked :: "OwnerID \<Rightarrow> GrantID \<Rightarrow> GrantState \<Rightarrow> Authority \<Rightarrow> Authority" where
  "endGrantLocked oid gid state a =
     (case getGrant a oid gid of
        None \<Rightarrow> a
      | Some g \<Rightarrow>
          if gt_state g \<noteq> Active then a
          else updRes (gt_resource g) (\<lambda>r. r\<lparr>rs_grants := gdel gid (rs_grants r)\<rparr>)
                 (updOwn oid (\<lambda>ow. ow\<lparr>ow_grants := gupd gid (\<lambda>g. g\<lparr>gt_state := state\<rparr>) (ow_grants ow),
                                   ow_liveGrants := ow_liveGrants ow - 1\<rparr>) a)
                 \<lparr>au_grants := au_grants a - 1\<rparr>)"

definition deadlineOf :: "Authority \<Rightarrow> OwnerID \<Rightarrow> GrantID \<Rightarrow> instant" where
  "deadlineOf a oid gid = (case getGrant a oid gid of None \<Rightarrow> 0 | Some g \<Rightarrow> gt_deadline g)"

definition expireGrantsLocked :: "ResourceID \<Rightarrow> instant \<Rightarrow> Authority \<Rightarrow> Authority" where
  "expireGrantsLocked rid now a =
     (if busyRes a rid then a
      else fold (\<lambda>(gid, oid) a. if \<not> now < deadlineOf a oid gid then endGrantLocked oid gid Expired a else a)
             (resGrants a rid) a)"

definition finishLocked :: "OwnerID \<Rightarrow> RequestID \<Rightarrow> ActionOutcome \<Rightarrow> Code option \<Rightarrow> Authority \<Rightarrow> Authority" where
  "finishLocked oid req outcome code a =
     (case getAct a oid req of
        None \<Rightarrow> a
      | Some x \<Rightarrow>
          if rc_Outcome (ac_receipt x) \<noteq> Pending then a
          else
            let settle = \<lambda>x. x\<lparr>ac_receipt := (ac_receipt x)\<lparr>rc_Outcome := outcome, rc_Code := code\<rparr>\<rparr>
            in if ac_waitUntil x = None then updAct oid req settle a
               else updRes (the (ac_resource x)) (\<lambda>r. r\<lparr>rs_queue := remove1 (oid, req) (rs_queue r)\<rparr>)
                      (updOwn oid (\<lambda>ow. ow\<lparr>ow_actions := gupd req settle (ow_actions ow), ow_queued := ow_queued ow - 1\<rparr>) a)
                      \<lparr>au_queued := au_queued a - 1\<rparr>)"

definition waitOver :: "instant \<Rightarrow> Authority \<Rightarrow> OwnerID \<times> RequestID \<Rightarrow> bool" where
  "waitOver now a entry =
     (case getAct a (fst entry) (snd entry) of
        None \<Rightarrow> False
      | Some x \<Rightarrow> (case ac_waitUntil x of None \<Rightarrow> True | Some until \<Rightarrow> \<not> now < until))"

text \<open>The queue is walked from its end, so removing an entry leaves the entries still to be
  visited in place.\<close>

definition expireQueuedLocked :: "ResourceID \<Rightarrow> instant \<Rightarrow> Authority \<Rightarrow> Authority" where
  "expireQueuedLocked rid now a =
     fold (\<lambda>entry a. if waitOver now a entry then finishLocked (fst entry) (snd entry) TimedOut None a else a)
       (rev (resQueue a rid)) a"

definition startWorkerLocked :: "ResourceID \<Rightarrow> Authority \<Rightarrow> Authority" where
  "startWorkerLocked rid a =
     (case gget (au_objects a) rid of
        None \<Rightarrow> a
      | Some r \<Rightarrow>
          if rs_worker r \<or> rs_queue r = [] \<or> au_closed a \<or> au_fenced a \<noteq> None then a
          else updRes rid (\<lambda>r. r\<lparr>rs_worker := True\<rparr>) a)"

section \<open>Retiring owners and sessions\<close>

definition ownerBusyLocked :: "Authority \<Rightarrow> OwnerID \<Rightarrow> bool" where
  "ownerBusyLocked a oid =
     (case gget (au_owners a) oid of
        None \<Rightarrow> False
      | Some ow \<Rightarrow> list_ex (\<lambda>(_, g). busyRes a (gt_resource g)) (ow_grants ow))"

definition retireOwnerLocked :: "OwnerID \<Rightarrow> Authority \<Rightarrow> Authority" where
  "retireOwnerLocked oid a =
     (case gget (au_owners a) oid of
        None \<Rightarrow> a
      | Some ow \<Rightarrow>
          let a1 = fold (\<lambda>req. finishLocked oid req Cancelled None) (map fst (ow_actions ow)) a;
              a2 = fold (\<lambda>gid. endGrantLocked oid gid OwnerRetired) (map fst (ow_grants ow)) a1
          in updSess (or_Session (ow_ref ow)) (\<lambda>s. s\<lparr>se_owners := remove1 oid (se_owners s)\<rparr>)
               (a2\<lparr>au_actions := au_actions a2 - int (length (ow_actions ow)), au_owners := gdel oid (au_owners a2)\<rparr>))"

definition retireSessionLocked :: "SessionID \<Rightarrow> Authority \<Rightarrow> Authority" where
  "retireSessionLocked sid a =
     (case gget (au_sessions a) sid of
        None \<Rightarrow> a
      | Some s \<Rightarrow>
          let a1 = fold retireOwnerLocked (se_owners s) a
          in a1\<lparr>au_sessions := gdel sid (au_sessions a1)\<rparr>)"

definition expireSession :: "instant \<Rightarrow> SessionID \<Rightarrow> Authority \<Rightarrow> Authority" where
  "expireSession now sid a =
     (case gget (au_sessions a) sid of
        None \<Rightarrow> a
      | Some s \<Rightarrow>
          if now < se_expires s \<or> list_ex (ownerBusyLocked a) (se_owners s) then a
          else retireSessionLocked sid a)"

definition expireSessionsLocked :: "instant \<Rightarrow> Authority \<Rightarrow> Authority" where
  "expireSessionsLocked now a =
     fold (expireSession now) (map fst (au_sessions a))
       (a\<lparr>au_tickets := filter (\<lambda>(_, r). now < tk_expires r) (au_tickets a)\<rparr>)"

end
