(* ===== verification/LockOps.thy ===== *)
theory LockOps
  imports LockAuthority
begin

text \<open>
  The operations of the lock authority over the primitives of \<^verbatim>\<open>LockAuthority\<close>:
  enrollment, results and queries, acquisition and renewal with their guarded transitions,
  release and cancellation, resources, queue workers, maintenance, publication and shutdown.
\<close>

section \<open>Enrollment\<close>

definition BeginEnrollment ::
    "(string \<Rightarrow> nat list) \<Rightarrow> goerr option \<Rightarrow> (nat \<Rightarrow> instant) \<Rightarrow> nat list \<Rightarrow> Authority \<Rightarrow> goerr + EnrollmentTicket" where
  "BeginEnrollment mac ctxErr clk nonce a =
     (case healthyLocked ctxErr False (clk 0) a of
        Some e \<Rightarrow> Inl e
      | None \<Rightarrow> Inr (token mac (au_incarnation a) nonce ''t'' [] (Itoa (tick a (clk 1 + opt_TicketTTL (au_options a))))))"

text \<open>\<open>strconv.ParseInt(extra, 10, 64)\<close>, the bound on milliseconds, the instant.\<close>

definition ticketExpiry :: "Authority \<Rightarrow> string \<Rightarrow> goerr + instant" where
  "ticketExpiry a extra =
     (case Atoi extra of
        None \<Rightarrow> Inl (fail Invalid)
      | Some n \<Rightarrow>
          if n < 0 \<or> n > (2 ^ 63 - 1) div Millisecond then Inl (fail Invalid)
          else Inr (au_start a + n * Millisecond))"

definition sessionResultLocked :: "instant \<Rightarrow> sessionRecord \<Rightarrow> Authority \<Rightarrow> SessionResult" where
  "sessionResultLocked now s a =
     \<lparr>sr_ID = se_id s, sr_Authority = au_incarnation a, sr_HistoryExpiresMillis = tick a (se_expires s),
      sr_NowMillis = tick a now, sr_Retired = False\<rparr>"

definition OpenSession ::
    "(string \<Rightarrow> nat list) \<Rightarrow> goerr option \<Rightarrow> (nat \<Rightarrow> instant) \<Rightarrow> nat list \<Rightarrow> EnrollmentTicket \<Rightarrow> Authority
     \<Rightarrow> Authority \<times> (goerr + SessionResult)" where
  "OpenSession mac ctxErr clk nonce ticket a =
     (case healthyLocked ctxErr False (clk 0) a of
        Some e \<Rightarrow> (a, Inl e)
      | None \<Rightarrow>
     (case verifyCap mac a ticket ''t'' [] of
        Inl e \<Rightarrow> (a, Inl e)
      | Inr extra \<Rightarrow>
     (case ticketExpiry a extra of
        Inl e \<Rightarrow> (a, Inl e)
      | Inr expiry \<Rightarrow>
          let now = clk 1; a = expireSessionsLocked now a
          in if \<not> now < expiry then (a, Inl (fail Retired))
             else (case gget (au_tickets a) ticket of
                 Some previous \<Rightarrow>
                   (case gget (au_sessions a) (tk_session previous) of
                      Some s \<Rightarrow>
                        let a = touchSessionLocked (clk 2) (tk_session previous) a
                        in (a, case gget (au_sessions a) (tk_session previous) of
                                 Some s \<Rightarrow> Inr (sessionResultLocked (clk 3) s a) | None \<Rightarrow> Inl (fail Retired))
                    | None \<Rightarrow> (a, Inr \<lparr>sr_ID = tk_session previous, sr_Authority = au_incarnation a,
                                 sr_HistoryExpiresMillis = 0, sr_NowMillis = tick a now, sr_Retired = True\<rparr>))
               | None \<Rightarrow>
                   if int (length (au_tickets a)) \<ge> opt_MaxTickets (au_options a)
                      \<or> int (length (au_sessions a)) \<ge> opt_MaxSessions (au_options a)
                   then (a, Inl (fail Capacity))
                   else
                     let sid = token mac (au_incarnation a) nonce ''s'' [] [];
                         s = \<lparr>se_id = sid, se_expires = now + opt_SessionIdle (au_options a), se_owners = [], se_creates = []\<rparr>;
                         a = a\<lparr>au_sessions := gput sid s (au_sessions a),
                               au_tickets := gput ticket \<lparr>tk_session = sid, tk_expires = expiry\<rparr> (au_tickets a)\<rparr>
                     in (a, Inr (sessionResultLocked (clk 3) s a))))))"

definition ownerResultLocked :: "instant \<Rightarrow> OwnerID \<Rightarrow> OwnerRef \<Rightarrow> Authority \<Rightarrow> OwnerResult" where
  "ownerResultLocked now oid ref a =
     \<lparr>wr_Ref = ref, wr_ActionCapacity = opt_ActionsPerOwner (au_options a),
      wr_HistoryExpiresMillis = tick a (expiresOf a oid), wr_NowMillis = tick a now, wr_Retired = False\<rparr>"

definition CreateOwner ::
    "(string \<Rightarrow> nat list) \<Rightarrow> goerr option \<Rightarrow> (nat \<Rightarrow> instant) \<Rightarrow> nat list \<Rightarrow> SessionID \<Rightarrow> RequestID \<Rightarrow> Authority
     \<Rightarrow> Authority \<times> (goerr + OwnerResult)" where
  "CreateOwner mac ctxErr clk nonce sid request a =
     (case healthyLocked ctxErr False (clk 0) a of
        Some e \<Rightarrow> (a, Inl e)
      | None \<Rightarrow>
          let a = expireSessionsLocked (clk 1) a
          in (case sessionLocked mac sid a of
                Inl e \<Rightarrow> (a, Inl e)
              | Inr s \<Rightarrow>
                  if \<not> requestValid request (opt_MaxRequestBytes (au_options a)) then (a, Inl (fail Invalid))
                  else (case gget (se_creates s) request of
                      Some previous \<Rightarrow>
                        let a = touchSessionLocked (clk 2) sid a
                        in (a, Inr (if previous \<in> set (se_owners s)
                              then ownerResultLocked (clk 3) previous \<lparr>or_Session = sid, or_Owner = previous\<rparr> a
                              else \<lparr>wr_Ref = \<lparr>or_Session = sid, or_Owner = previous\<rparr>,
                                     wr_ActionCapacity = opt_ActionsPerOwner (au_options a),
                                     wr_HistoryExpiresMillis =
                                       (case gget (au_sessions a) sid of None \<Rightarrow> 0 | Some s \<Rightarrow> tick a (se_expires s)),
                                     wr_NowMillis = tick a (clk 3), wr_Retired = True\<rparr>))
                    | None \<Rightarrow>
                        if int (length (au_owners a)) \<ge> opt_MaxOwners (au_options a)
                           \<or> int (length (se_owners s)) \<ge> opt_OwnersPerSession (au_options a)
                           \<or> int (length (se_creates s)) \<ge> opt_OwnerActionsPerSession (au_options a)
                        then (a, Inl (fail Capacity))
                        else
                          let oid = token mac (au_incarnation a) nonce ''o'' sid [];
                              ref = \<lparr>or_Session = sid, or_Owner = oid\<rparr>;
                              ow = \<lparr>ow_ref = ref, ow_actions = [], ow_grants = [], ow_liveGrants = 0, ow_queued = 0\<rparr>;
                              a = updSess sid (\<lambda>s. s\<lparr>se_owners := oid # se_owners s, se_creates := gput request oid (se_creates s)\<rparr>)
                                    (a\<lparr>au_owners := gput oid ow (au_owners a)\<rparr>);
                              a = touchLocked (clk 2) oid a
                          in (a, Inr (ownerResultLocked (clk 3) oid ref a)))))"

text \<open>A section that finds a resource busy waits for its publication and runs again.\<close>

datatype 'r waiting = WaitBusy | Answer 'r

definition Authority_retireOwnerSection ::
    "(string \<Rightarrow> nat list) \<Rightarrow> goerr option \<Rightarrow> (nat \<Rightarrow> instant) \<Rightarrow> OwnerRef \<Rightarrow> Authority \<Rightarrow> Authority \<times> goerr option waiting" where
  "Authority_retireOwnerSection mac ctxErr clk ref a =
     (case healthyLocked ctxErr False (clk 0) a of
        Some e \<Rightarrow> (a, Answer (Some e))
      | None \<Rightarrow>
          (case Authority_ownerLocked mac ref a of
             Inl e \<Rightarrow> (a, Answer (if CodeOf e = Retired then None else Some e))
           | Inr _ \<Rightarrow>
               if ownerBusyLocked a (or_Owner ref) then (a, WaitBusy)
               else (retireOwnerLocked (or_Owner ref) a, Answer None)))"

definition closeSessionSection ::
    "(string \<Rightarrow> nat list) \<Rightarrow> goerr option \<Rightarrow> (nat \<Rightarrow> instant) \<Rightarrow> SessionID \<Rightarrow> Authority \<Rightarrow> Authority \<times> goerr option waiting" where
  "closeSessionSection mac ctxErr clk sid a =
     (case healthyLocked ctxErr False (clk 0) a of
        Some e \<Rightarrow> (a, Answer (Some e))
      | None \<Rightarrow>
          (case sessionLocked mac sid a of
             Inl e \<Rightarrow> (a, Answer (if CodeOf e = Retired then None else Some e))
           | Inr s \<Rightarrow>
               if list_ex (ownerBusyLocked a) (se_owners s) then (a, WaitBusy)
               else (retireSessionLocked sid a, Answer None)))"

text \<open>The retry loop of such a call. Each element of the list is one wait: the channel is
  closed after other calls changed the state, or the context ends. \<open>None\<close> is a call
  that is still waiting when the list is used up.\<close>

datatype wakeup = Woken "Authority \<Rightarrow> Authority" | ContextDone goerr

fun retryBusy ::
    "(Authority \<Rightarrow> Authority \<times> 'r waiting) \<Rightarrow> (goerr \<Rightarrow> 'r) \<Rightarrow> wakeup list \<Rightarrow> Authority \<Rightarrow> Authority \<times> 'r option" where
  "retryBusy sect stopped [] a =
     (case sect a of (a', Answer r) \<Rightarrow> (a', Some r) | (a', WaitBusy) \<Rightarrow> (a', None))"
| "retryBusy sect stopped (w # ws) a =
     (case sect a of
        (a', Answer r) \<Rightarrow> (a', Some r)
      | (a', WaitBusy) \<Rightarrow>
          (case w of ContextDone e \<Rightarrow> (a', Some (stopped e)) | Woken env \<Rightarrow> retryBusy sect stopped ws (env a')))"

definition Authority_RetireOwner ::
    "(string \<Rightarrow> nat list) \<Rightarrow> goerr option \<Rightarrow> (nat \<Rightarrow> instant) \<Rightarrow> wakeup list \<Rightarrow> OwnerRef \<Rightarrow> Authority \<Rightarrow> Authority \<times> goerr option option" where
  "Authority_RetireOwner mac ctxErr clk waits ref a = retryBusy (Authority_retireOwnerSection mac ctxErr clk ref) Some waits a"

definition CloseSession ::
    "(string \<Rightarrow> nat list) \<Rightarrow> goerr option \<Rightarrow> (nat \<Rightarrow> instant) \<Rightarrow> wakeup list \<Rightarrow> SessionID \<Rightarrow> Authority \<Rightarrow> Authority \<times> goerr option option" where
  "CloseSession mac ctxErr clk waits sid a = retryBusy (closeSessionSection mac ctxErr clk sid) Some waits a"

section \<open>Results and queries\<close>

definition grantLockedForOwner ::
    "(string \<Rightarrow> nat list) \<Rightarrow> instant \<Rightarrow> OwnerID \<Rightarrow> GrantRef \<Rightarrow> Authority \<Rightarrow> Authority \<times> (goerr + grantRecord)" where
  "grantLockedForOwner mac now oid ref a =
     (let parent = oid @ ''/'' @ gr_Resource ref @ ''/'' @ FormatUint (unat (gr_Generation ref))
      in case verifyCap mac a (gr_ID ref) ''g'' parent of
           Inl e \<Rightarrow> (a, Inl (Wrap StaleGrant (Some e)))
         | Inr _ \<Rightarrow>
             (case getGrant a oid (gr_ID ref) of
                None \<Rightarrow> (a, Inl (fail StaleGrant))
              | Some g \<Rightarrow>
                  if gt_ref g \<noteq> ref then (a, Inl (fail StaleGrant))
                  else let a = expireGrantsLocked (gt_resource g) now a
                       in (a, case getGrant a oid (gr_ID ref) of None \<Rightarrow> Inl (fail StaleGrant) | Some g \<Rightarrow> Inr g)))"

definition grantStatusLocked :: "instant \<Rightarrow> OwnerID \<Rightarrow> GrantID \<Rightarrow> Authority \<Rightarrow> Authority \<times> GrantStatus option" where
  "grantStatusLocked now oid gid a =
     (case getGrant a oid gid of
        None \<Rightarrow> (a, None)
      | Some g0 \<Rightarrow>
          let a = expireGrantsLocked (gt_resource g0) now a
          in (a, case getGrant a oid gid of
                   None \<Rightarrow> None
                 | Some g \<Rightarrow>
                     let remaining = (if gt_deadline g - now < 0 \<or> gt_state g \<noteq> Active then 0 else gt_deadline g - now)
                     in Some \<lparr>gs_Ref = gt_ref g, gs_Mode = gt_mode g, gs_State = gt_state g, gs_Revision = gt_revision g,
                          gs_DeadlineMillis = tick a (gt_deadline g), gs_RemainingMillis = Milliseconds remaining,
                          gs_NowMillis = tick a now, gs_HistoryExpiresMillis = tick a (expiresOf a oid)\<rparr>))"

definition actionResultLocked ::
    "(nat \<Rightarrow> instant) \<Rightarrow> OwnerID \<Rightarrow> actionRecord \<Rightarrow> Authority \<Rightarrow> Authority \<times> ActionResult \<times> goerr option" where
  "actionResultLocked clk oid x a =
     (let (a', status) = (case ac_grant x of None \<Rightarrow> (a, None) | Some gid \<Rightarrow> grantStatusLocked (clk 1) oid gid a);
          result = \<lparr>ar_Recorded = True, ar_Receipt = ac_receipt x, ar_Grant = status, ar_NowMillis = tick a (clk 0),
                    ar_HistoryExpiresMillis = tick a (expiresOf a oid)\<rparr>
      in (a', result,
          if rc_Outcome (ac_receipt x) = Rejected
          then Some (Typed (case rc_Code (ac_receipt x) of Some code \<Rightarrow> code | None \<Rightarrow> Unavailable) True (ac_failure x)) else None))"

definition grantBusy :: "Authority \<Rightarrow> OwnerID \<Rightarrow> actionRecord \<Rightarrow> bool" where
  "grantBusy a oid x =
     (case ac_grant x of None \<Rightarrow> False
      | Some gid \<Rightarrow> (case getGrant a oid gid of None \<Rightarrow> False | Some g \<Rightarrow> busyRes a (gt_resource g)))"

definition queryActionSection ::
    "(string \<Rightarrow> nat list) \<Rightarrow> goerr option \<Rightarrow> (nat \<Rightarrow> instant) \<Rightarrow> OwnerRef \<Rightarrow> RequestID \<Rightarrow> Authority
     \<Rightarrow> Authority \<times> (ActionResult option \<times> goerr option) waiting" where
  "queryActionSection mac ctxErr clk ref request a =
     (case healthyLocked ctxErr False (clk 0) a of
        Some e \<Rightarrow> (a, Answer (None, Some e))
      | None \<Rightarrow>
          let a = expireSessionsLocked (clk 1) a; oid = or_Owner ref
          in (case Authority_ownerLocked mac ref a of
                Inl e \<Rightarrow> (a, Answer (None, Some e))
              | Inr _ \<Rightarrow>
                  if \<not> requestValid request (opt_MaxRequestBytes (au_options a)) then (a, Answer (None, Some (fail Invalid)))
                  else (case getAct a oid request of
                      None \<Rightarrow> (a, Answer (None, Some (fail OutcomeUnknown)))
                    | Some x \<Rightarrow>
                        if grantBusy a oid x then (a, WaitBusy)
                        else
                          let a = (case ac_waitUntil x of
                                     Some until \<Rightarrow> if rc_Outcome (ac_receipt x) = Pending \<and> \<not> clk 2 < until
                                                   then finishLocked oid request TimedOut None a else a
                                   | None \<Rightarrow> a);
                              a = touchLocked (clk 3) oid a
                          in (case getAct a oid request of
                                None \<Rightarrow> (a, Answer (None, Some (fail OutcomeUnknown)))
                              | Some x \<Rightarrow>
                                  (case actionResultLocked (\<lambda>i. clk (4 + i)) oid x a of
                                     (a, result, err) \<Rightarrow> (a, Answer (Some result, err)))))))"

definition QueryAction ::
    "(string \<Rightarrow> nat list) \<Rightarrow> goerr option \<Rightarrow> (nat \<Rightarrow> instant) \<Rightarrow> wakeup list \<Rightarrow> OwnerRef \<Rightarrow> RequestID \<Rightarrow> Authority
     \<Rightarrow> Authority \<times> (ActionResult option \<times> goerr option) option" where
  "QueryAction mac ctxErr clk waits ref request a =
     retryBusy (queryActionSection mac ctxErr clk ref request) (\<lambda>e. (None, Some e)) waits a"

definition queryGrantSection ::
    "(string \<Rightarrow> nat list) \<Rightarrow> goerr option \<Rightarrow> (nat \<Rightarrow> instant) \<Rightarrow> OwnerRef \<Rightarrow> GrantRef \<Rightarrow> Authority
     \<Rightarrow> Authority \<times> (goerr + GrantStatus) waiting" where
  "queryGrantSection mac ctxErr clk ref grant a =
     (case healthyLocked ctxErr False (clk 0) a of
        Some e \<Rightarrow> (a, Answer (Inl e))
      | None \<Rightarrow>
          let a = expireSessionsLocked (clk 1) a; oid = or_Owner ref
          in (case Authority_ownerLocked mac ref a of
                Inl e \<Rightarrow> (a, Answer (Inl e))
              | Inr _ \<Rightarrow>
                  (case grantLockedForOwner mac (clk 2) oid grant a of
                     (a, Inl e) \<Rightarrow> (a, Answer (Inl e))
                   | (a, Inr g) \<Rightarrow>
                       if busyRes a (gt_resource g) then (a, WaitBusy)
                       else
                         let a = touchLocked (clk 3) oid a
                         in (case grantStatusLocked (clk 4) oid (gr_ID grant) a of
                               (a, None) \<Rightarrow> (a, Answer (Inl (fail StaleGrant)))
                             | (a, Some status) \<Rightarrow> (a, Answer (Inr status))))))"

definition QueryGrant ::
    "(string \<Rightarrow> nat list) \<Rightarrow> goerr option \<Rightarrow> (nat \<Rightarrow> instant) \<Rightarrow> wakeup list \<Rightarrow> OwnerRef \<Rightarrow> GrantRef \<Rightarrow> Authority
     \<Rightarrow> Authority \<times> (goerr + GrantStatus) option" where
  "QueryGrant mac ctxErr clk waits ref grant a = retryBusy (queryGrantSection mac ctxErr clk ref grant) Inl waits a"

definition releaseSection ::
    "(string \<Rightarrow> nat list) \<Rightarrow> goerr option \<Rightarrow> (nat \<Rightarrow> instant) \<Rightarrow> OwnerRef \<Rightarrow> GrantRef \<Rightarrow> Authority
     \<Rightarrow> Authority \<times> (goerr + ReleaseResult) waiting" where
  "releaseSection mac ctxErr clk ref grant a =
     (case healthyLocked ctxErr False (clk 0) a of
        Some e \<Rightarrow> (a, Answer (Inl e))
      | None \<Rightarrow>
          let a = expireSessionsLocked (clk 1) a; oid = or_Owner ref; gid = gr_ID grant
          in (case Authority_ownerLocked mac ref a of
                Inl e \<Rightarrow> (a, Answer (Inl e))
              | Inr _ \<Rightarrow>
                  (case grantLockedForOwner mac (clk 2) oid grant a of
                     (a, Inl e) \<Rightarrow> (a, Answer (Inl e))
                   | (a, Inr g) \<Rightarrow>
                       if busyRes a (gt_resource g) then (a, WaitBusy)
                       else
                         let a = (if gt_release g = None
                                  then updGrant oid gid (\<lambda>g. g\<lparr>gt_release := Some (gt_state g)\<rparr>)
                                         (endGrantLocked oid gid Released a)
                                  else a);
                             a = touchLocked (clk 3) oid a
                         in (case grantStatusLocked (clk 4) oid gid a of
                               (a, None) \<Rightarrow> (a, Answer (Inl (fail StaleGrant)))
                             | (a, Some status) \<Rightarrow>
                                 (a, Answer (Inr \<lparr>rl_State = (case getGrant a oid gid of
                                          Some g \<Rightarrow> (case gt_release g of Some st \<Rightarrow> st | None \<Rightarrow> gt_state g) | None \<Rightarrow> gs_State status),
                                        rl_Grant = status, rl_NowMillis = tick a (clk 5),
                                        rl_HistoryExpiresMillis = tick a (expiresOf a oid)\<rparr>))))))"

definition Release ::
    "(string \<Rightarrow> nat list) \<Rightarrow> goerr option \<Rightarrow> (nat \<Rightarrow> instant) \<Rightarrow> wakeup list \<Rightarrow> OwnerRef \<Rightarrow> GrantRef \<Rightarrow> Authority
     \<Rightarrow> Authority \<times> (goerr + ReleaseResult) option" where
  "Release mac ctxErr clk waits ref grant a = retryBusy (releaseSection mac ctxErr clk ref grant) Inl waits a"

text \<open>\<open>Cancel\<close> of a request never seen records a tombstone, so that a delayed
  acquisition under that identity cannot run.\<close>

definition tombstone :: "RequestID \<Rightarrow> actionRecord" where
  "tombstone request =
     \<lparr>ac_receipt = \<lparr>rc_Kind = AcquireAction, rc_Request = request, rc_Acquire = None, rc_Renew = None,
        rc_Outcome = Cancelled, rc_Code = None, rc_Grant = None, rc_DeadlineMillis = 0, rc_Revision = 0\<rparr>,
      ac_resource = None, ac_waitUntil = None, ac_grant = None, ac_cancel = None, ac_tombstone = True,
      ac_processing = False, ac_failure = None\<rparr>"

definition addAction :: "OwnerID \<Rightarrow> RequestID \<Rightarrow> actionRecord \<Rightarrow> Authority \<Rightarrow> Authority" where
  "addAction oid request x a =
     (updOwn oid (\<lambda>ow. ow\<lparr>ow_actions := gput request x (ow_actions ow)\<rparr>) a)\<lparr>au_actions := au_actions a + 1\<rparr>"

definition actionsFull :: "OwnerID \<Rightarrow> Authority \<Rightarrow> bool" where
  "actionsFull oid a =
     ((case gget (au_owners a) oid of None \<Rightarrow> False
       | Some ow \<Rightarrow> int (length (ow_actions ow)) \<ge> opt_ActionsPerOwner (au_options a))
      \<or> au_actions a \<ge> opt_MaxActions (au_options a))"

text \<open>The first cancellation of an action decides its \<open>CancelResult\<close>.\<close>

definition cancelEffect :: "instant \<Rightarrow> OwnerID \<Rightarrow> RequestID \<Rightarrow> Authority \<Rightarrow> Authority" where
  "cancelEffect now oid request a =
     (let a1 = finishLocked oid request Cancelled None a
      in case getAct a1 oid request of
           None \<Rightarrow> a1
         | Some x \<Rightarrow>
             let (a2, released) =
                   (case ac_grant x of
                      None \<Rightarrow> (a1, False)
                    | Some gid \<Rightarrow>
                        (case getGrant a1 oid gid of
                           None \<Rightarrow> (a1, False)
                         | Some g \<Rightarrow>
                             let a1 = expireGrantsLocked (gt_resource g) now a1
                             in (case getGrant a1 oid gid of
                                   Some g \<Rightarrow> if gt_state g = Active then (endGrantLocked oid gid Released a1, True) else (a1, False)
                                 | None \<Rightarrow> (a1, False))))
             in updAct oid request
                  (\<lambda>x. x\<lparr>ac_cancel := Some \<lparr>cr_Outcome = rc_Outcome (ac_receipt x), cr_Released = released,
                                          cr_NowMillis = 0, cr_HistoryExpiresMillis = 0\<rparr>\<rparr>) a2)"

definition cancelActionSection ::
    "(string \<Rightarrow> nat list) \<Rightarrow> goerr option \<Rightarrow> (nat \<Rightarrow> instant) \<Rightarrow> OwnerRef \<Rightarrow> RequestID \<Rightarrow> Authority
     \<Rightarrow> Authority \<times> (goerr + CancelResult) waiting" where
  "cancelActionSection mac ctxErr clk ref request a =
     (case healthyLocked ctxErr False (clk 0) a of
        Some e \<Rightarrow> (a, Answer (Inl e))
      | None \<Rightarrow>
          let a = expireSessionsLocked (clk 1) a; oid = or_Owner ref
          in (case Authority_ownerLocked mac ref a of
                Inl e \<Rightarrow> (a, Answer (Inl e))
              | Inr _ \<Rightarrow>
                  if \<not> requestValid request (opt_MaxRequestBytes (au_options a)) then (a, Answer (Inl (fail Invalid)))
                  else if getAct a oid request = None \<and> actionsFull oid a then (a, Answer (Inl (fail OutcomeUnknown)))
                  else
                    let a = (if getAct a oid request = None then addAction oid request (tombstone request) a else a)
                    in (case getAct a oid request of
                          None \<Rightarrow> (a, Answer (Inl (fail OutcomeUnknown)))
                        | Some x \<Rightarrow>
                            if rc_Kind (ac_receipt x) \<noteq> AcquireAction then (a, Answer (Inl (fail RequestMismatch)))
                            else if grantBusy a oid x then (a, WaitBusy)
                            else
                              let a = (if ac_cancel x = None then cancelEffect (clk 2) oid request a else a);
                                  a = touchLocked (clk 3) oid a
                              in (a, Answer (case getAct a oid request of
                                   Some x \<Rightarrow>
                                     (case ac_cancel x of
                                        Some result \<Rightarrow> Inr (result\<lparr>cr_NowMillis := tick a (clk 4),
                                                              cr_HistoryExpiresMillis := tick a (expiresOf a oid)\<rparr>)
                                      | None \<Rightarrow> Inl (fail OutcomeUnknown))
                                 | None \<Rightarrow> Inl (fail OutcomeUnknown))))))"

definition Authority_Cancel ::
    "(string \<Rightarrow> nat list) \<Rightarrow> goerr option \<Rightarrow> (nat \<Rightarrow> instant) \<Rightarrow> wakeup list \<Rightarrow> OwnerRef \<Rightarrow> RequestID \<Rightarrow> Authority
     \<Rightarrow> Authority \<times> (goerr + CancelResult) option" where
  "Authority_Cancel mac ctxErr clk waits ref request a =
     retryBusy (cancelActionSection mac ctxErr clk ref request) Inl waits a"

section \<open>Granting\<close>

definition modeOf :: "Authority \<Rightarrow> OwnerID \<Rightarrow> GrantID \<Rightarrow> Mode" where
  "modeOf a oid gid = (case getGrant a oid gid of None \<Rightarrow> OtherMode | Some g \<Rightarrow> gt_mode g)"

definition compatibleLocked :: "ResourceID \<Rightarrow> OwnerID \<Rightarrow> Mode \<Rightarrow> Authority \<Rightarrow> bool" where
  "compatibleLocked rid oid mode a =
     list_all (\<lambda>(gid, holder). \<not> (holder = oid \<or> mode = Exclusive \<or> modeOf a holder gid = Exclusive)) (resGrants a rid)"

definition installGrant :: "OwnerID \<Rightarrow> GrantID \<Rightarrow> grantRecord \<Rightarrow> Authority \<Rightarrow> Authority" where
  "installGrant oid gid g a =
     (updRes (gt_resource g) (\<lambda>r. r\<lparr>rs_grants := gput gid oid (rs_grants r)\<rparr>)
        (updOwn oid (\<lambda>ow. ow\<lparr>ow_grants := gput gid g (ow_grants ow), ow_liveGrants := ow_liveGrants ow + 1\<rparr>) a))
     \<lparr>au_grants := au_grants a + 1\<rparr>"

definition newGrantID :: "(string \<Rightarrow> nat list) \<Rightarrow> nat list \<Rightarrow> OwnerID \<Rightarrow> ResourceID \<Rightarrow> u64 \<Rightarrow> Authority \<Rightarrow> GrantID" where
  "newGrantID mac nonce oid rid generation a =
     token mac (au_incarnation a) nonce ''g'' (oid @ ''/'' @ rid @ ''/'' @ FormatUint (unat generation)) []"

definition grantLocked ::
    "(string \<Rightarrow> nat list) \<Rightarrow> (nat \<Rightarrow> instant) \<Rightarrow> nat list \<Rightarrow> OwnerID \<Rightarrow> RequestID \<Rightarrow> Authority \<Rightarrow> Authority \<times> goerr option" where
  "grantLocked mac clk nonce oid req a =
     (case (gget (au_owners a) oid, getAct a oid req) of
        (Some ow, Some x) \<Rightarrow>
          (case (rc_Acquire (ac_receipt x), ac_resource x) of
             (Some request, Some rid) \<Rightarrow>
               if au_grants a \<ge> opt_MaxGrants (au_options a) \<or> ow_liveGrants ow \<ge> opt_GrantsPerOwner (au_options a)
               then (a, Some (fail Capacity))
               else if au_lastGeneration a = MaxUint64 then (a, Some (fail Capacity))
               else
                 let generation = au_lastGeneration a + 1;
                     gid = newGrantID mac nonce oid rid generation a;
                     ref = \<lparr>gr_ID = gid, gr_Resource = rid, gr_Generation = generation\<rparr>;
                     deadline = clk 0 + aq_TTL request;
                     g = \<lparr>gt_resource = rid, gt_ref = ref, gt_mode = aq_Mode request, gt_state = Active,
                          gt_deadline = deadline, gt_revision = 1, gt_release = None\<rparr>;
                     a = installGrant oid gid g (a\<lparr>au_lastGeneration := generation\<rparr>);
                     a = updAct oid req (\<lambda>x. x\<lparr>ac_grant := Some gid,
                           ac_receipt := (ac_receipt x)\<lparr>rc_Grant := Some ref, rc_DeadlineMillis := tick a deadline,
                                                        rc_Revision := 1\<rparr>\<rparr>) a;
                     a = finishLocked oid req Granted None a
                 in (touchLocked (clk 1) oid a, None)
           | _ \<Rightarrow> (a, None))
      | _ \<Rightarrow> (a, None))"

section \<open>Acquisition\<close>

definition resourceLocked ::
    "(string \<Rightarrow> nat list) \<Rightarrow> instant \<Rightarrow> ResourceRef \<Rightarrow> Authority \<Rightarrow> goerr + resourceRecord" where
  "resourceLocked mac now ref a =
     (case verifyCap mac a (rr_ID ref) ''r'' [] of
        Inl e \<Rightarrow> Inl e
      | Inr _ \<Rightarrow>
          (case (if rr_ID ref \<in> set (au_resources a) then gget (au_objects a) (rr_ID ref) else None) of
             None \<Rightarrow> Inl (fail StaleResource)
           | Some r \<Rightarrow>
               if rs_retired r \<or> rs_forgetting r then Inl (fail StaleResource)
               else if \<not> now < rs_referenceUntil r \<or> tick a now \<ge> rr_ExpiresMillis ref
                       \<or> rr_ExpiresMillis ref > tick a (rs_referenceUntil r)
               then Inl (fail StaleResource)
               else Inr r))"

definition newAcquire :: "AcquireRequest \<Rightarrow> actionRecord" where
  "newAcquire request =
     \<lparr>ac_receipt = \<lparr>rc_Kind = AcquireAction, rc_Request = aq_Request request, rc_Acquire = Some request, rc_Renew = None,
        rc_Outcome = Pending, rc_Code = None, rc_Grant = None, rc_DeadlineMillis = 0, rc_Revision = 0\<rparr>,
      ac_resource = None, ac_waitUntil = None, ac_grant = None, ac_cancel = None, ac_tombstone = False,
      ac_processing = False, ac_failure = None\<rparr>"

definition acquireInvalid :: "Options \<Rightarrow> AcquireRequest \<Rightarrow> bool" where
  "acquireInvalid opts request =
     (\<not> requestValid (aq_Request request) (opt_MaxRequestBytes opts)
      \<or> aq_Mode request \<noteq> Shared \<and> aq_Mode request \<noteq> Exclusive
      \<or> aq_TTL request < Millisecond \<or> aq_TTL request > opt_MaxLease opts
      \<or> aq_Wait request < 0 \<or> aq_Wait request > opt_MaxWait opts
      \<or> aq_TTL request mod Millisecond \<noteq> 0 \<or> aq_Wait request mod Millisecond \<noteq> 0)"

text \<open>How the first section of \<open>Acquire\<close> ends: an error, a replay that is answered by
  \<open>QueryAction\<close>, a recorded rejection, or an action in progress on a resource.\<close>

datatype action_begin =
    BeginFailed goerr
  | BeginReplay
  | BeginRejected ActionResult "goerr option"
  | BeginStarted ResourceID instant

text \<open>The action is recorded and settled at once.\<close>

definition rejectAction ::
    "(nat \<Rightarrow> instant) \<Rightarrow> OwnerID \<Rightarrow> RequestID \<Rightarrow> Code \<Rightarrow> Authority \<Rightarrow> Authority \<times> action_begin" where
  "rejectAction clk oid request code a =
     (let a = finishLocked oid request Rejected (Some code) a
      in case getAct a oid request of
           None \<Rightarrow> (a, BeginFailed (fail OutcomeUnknown))
         | Some x \<Rightarrow> (case actionResultLocked clk oid x a of (a, result, err) \<Rightarrow> (a, BeginRejected result err)))"

definition holdRes :: "ResourceID \<Rightarrow> int \<Rightarrow> Authority \<Rightarrow> Authority" where
  "holdRes rid delta a = updRes rid (\<lambda>r. r\<lparr>rs_holds := rs_holds r + delta\<rparr>) a"

definition acquireBegin ::
    "(string \<Rightarrow> nat list) \<Rightarrow> goerr option \<Rightarrow> (nat \<Rightarrow> instant) \<Rightarrow> AcquireRequest \<Rightarrow> Authority \<Rightarrow> Authority \<times> action_begin" where
  "acquireBegin mac ctxErr clk request a =
     (case healthyLocked ctxErr True (clk 0) a of
        Some e \<Rightarrow> (a, BeginFailed e)
      | None \<Rightarrow>
          let a = expireSessionsLocked (clk 1) a; oid = or_Owner (aq_Owner request); req = aq_Request request
          in (case Authority_ownerLocked mac (aq_Owner request) a of
                Inl e \<Rightarrow> (a, BeginFailed e)
              | Inr _ \<Rightarrow>
                  if acquireInvalid (au_options a) request then (a, BeginFailed (fail Invalid))
                  else (case getAct a oid req of
                      Some previous \<Rightarrow>
                        if \<not> ac_tombstone previous
                           \<and> (rc_Kind (ac_receipt previous) \<noteq> AcquireAction \<or> rc_Acquire (ac_receipt previous) \<noteq> Some request)
                        then (a, BeginFailed (fail RequestMismatch)) else (a, BeginReplay)
                    | None \<Rightarrow>
                        if actionsFull oid a then (a, BeginFailed (fail Capacity))
                        else
                          let a = touchLocked (clk 2) oid (addAction oid req (newAcquire request) a)
                          in (case resourceLocked mac (clk 3) (aq_Resource request) a of
                                Inl e \<Rightarrow> rejectAction (\<lambda>i. clk (4 + i)) oid req (CodeOf e) a
                              | Inr r \<Rightarrow>
                                  (holdRes (rs_id r) 1
                                     (updAct oid req (\<lambda>x. x\<lparr>ac_resource := Some (rs_id r), ac_processing := True\<rparr>) a),
                                   BeginStarted (rs_id r) (clk 4))))))"

definition enqueueAction :: "OwnerID \<Rightarrow> RequestID \<Rightarrow> ResourceID \<Rightarrow> instant \<Rightarrow> Authority \<Rightarrow> Authority" where
  "enqueueAction oid req rid until a =
     startWorkerLocked rid
       ((updRes rid (\<lambda>r. r\<lparr>rs_queue := rs_queue r @ [(oid, req)]\<rparr>)
           (updOwn oid (\<lambda>ow. ow\<lparr>ow_actions := gupd req (\<lambda>x. x\<lparr>ac_waitUntil := Some until\<rparr>) (ow_actions ow),
                             ow_queued := ow_queued ow + 1\<rparr>) a))
        \<lparr>au_queued := au_queued a + 1\<rparr>)"

definition queueFull :: "OwnerID \<Rightarrow> ResourceID \<Rightarrow> Authority \<Rightarrow> bool" where
  "queueFull oid rid a =
     (au_queued a \<ge> opt_MaxQueued (au_options a)
      \<or> (case gget (au_owners a) oid of None \<Rightarrow> False | Some ow \<Rightarrow> ow_queued ow \<ge> opt_QueuedPerOwner (au_options a))
      \<or> int (length (resQueue a rid)) \<ge> opt_QueuedPerResource (au_options a))"

text \<open>The transition that the native guard runs.\<close>

definition acquireGuard ::
    "(string \<Rightarrow> nat list) \<Rightarrow> goerr option \<Rightarrow> (nat \<Rightarrow> instant) \<Rightarrow> nat list \<Rightarrow> AcquireRequest \<Rightarrow> ResourceID \<Rightarrow> instant
     \<Rightarrow> Authority \<Rightarrow> Authority \<times> goerr option" where
  "acquireGuard mac ctxErr clk nonce request rid started a =
     (let oid = or_Owner (aq_Owner request); req = aq_Request request
      in case getAct a oid req of
        None \<Rightarrow> (a, None)
      | Some x \<Rightarrow>
          if rc_Outcome (ac_receipt x) \<noteq> Pending then (a, None)
          else (case healthyLocked ctxErr True (clk 0) a of
              Some e \<Rightarrow> (a, Some e)
            | None \<Rightarrow>
                let a = expireSessionsLocked (clk 1) a
                in if gget (au_owners a) oid = None then (a, Some (fail Retired))
                   else (case gget (au_objects a) rid of
                       None \<Rightarrow> (a, Some (fail StaleResource))
                     | Some r \<Rightarrow>
                         if rs_retired r then (a, Some (fail StaleResource))
                         else
                           let a = expireGrantsLocked rid (clk 2) a
                           in if list_ex (\<lambda>(_, holder). holder = oid) (resGrants a rid) then (a, Some (fail AlreadyHeld))
                              else if \<not> busyRes a rid \<and> resQueue a rid = [] \<and> compatibleLocked rid oid (aq_Mode request) a
                              then grantLocked mac (\<lambda>i. clk (3 + i)) nonce oid req a
                              else if aq_Wait request = 0 then (a, Some (fail Conflict))
                              else if queueFull oid rid a then (a, Some (fail Capacity))
                              else if \<not> clk 3 < started + aq_Wait request then (finishLocked oid req TimedOut None a, None)
                              else (enqueueAction oid req rid (started + aq_Wait request) a, None))))"

text \<open>The last section: the call's hold on the resource ends, a failure is recorded.\<close>

definition actionEnd :: "OwnerID \<Rightarrow> RequestID \<Rightarrow> ResourceID \<Rightarrow> goerr option \<Rightarrow> Authority \<Rightarrow> Authority" where
  "actionEnd oid req rid err a =
     (let a = holdRes rid (- 1) (updAct oid req (\<lambda>x. x\<lparr>ac_processing := False\<rparr>) a)
      in case err of
           None \<Rightarrow> a
         | Some e \<Rightarrow>
             (case getAct a oid req of
                None \<Rightarrow> a
              | Some x \<Rightarrow>
                  if rc_Outcome (ac_receipt x) \<noteq> Pending then a
                  else finishLocked oid req Rejected (Some (CodeOf e)) (updAct oid req (\<lambda>x. x\<lparr>ac_failure := Some e\<rparr>) a)))"

text \<open>What the backend's \<open>Guard\<close> does: it refuses before the transition, or runs it
  once and turns the transition's error into its own.\<close>

datatype guard_answer = GuardRefuses goerr | GuardRuns "goerr option \<Rightarrow> goerr option"

definition runGuard ::
    "guard_answer \<Rightarrow> (Authority \<Rightarrow> Authority \<times> goerr option) \<Rightarrow> Authority \<Rightarrow> Authority \<times> goerr option" where
  "runGuard answer transition a =
     (case answer of
        GuardRefuses e \<Rightarrow> (a, Some e)
      | GuardRuns post \<Rightarrow> (case transition a of (a', err) \<Rightarrow> (a', post err)))"

text \<open>Everything the environment contributes to one call.\<close>

record call_env =
  ce_ctx :: "nat \<Rightarrow> goerr option"
  ce_clk :: "nat \<Rightarrow> nat \<Rightarrow> instant"
  ce_between :: "nat \<Rightarrow> Authority \<Rightarrow> Authority"
  ce_persist :: "goerr option"
  ce_guard :: guard_answer
  ce_nonce :: "nat list"
  ce_waits :: "wakeup list"

definition guardedCall ::
    "(string \<Rightarrow> nat list) \<Rightarrow> call_env \<Rightarrow> OwnerRef \<Rightarrow> RequestID \<Rightarrow> duration
     \<Rightarrow> (Authority \<Rightarrow> Authority \<times> action_begin)
     \<Rightarrow> (ResourceID \<Rightarrow> instant \<Rightarrow> Authority \<Rightarrow> Authority \<times> goerr option)
     \<Rightarrow> Authority \<Rightarrow> Authority \<times> (ActionResult option \<times> goerr option) option" where
  "guardedCall mac env ref req ttl start transition a =
     (case beginNative (ce_ctx env 0) (ce_clk env 0 0) a of
        (a, Some e) \<Rightarrow> (a, Some (None, Some e))
      | (a, None) \<Rightarrow>
          let (a, answer) =
            (case start (ce_between env 0 a) of
               (a, BeginFailed e) \<Rightarrow> (a, Some (None, Some e))
             | (a, BeginRejected result err) \<Rightarrow> (a, Some (Some result, err))
             | (a, BeginReplay) \<Rightarrow>
                 QueryAction mac (ce_ctx env 2) (ce_clk env 2) (ce_waits env) ref req (ce_between env 1 a)
             | (a, BeginStarted rid started) \<Rightarrow>
                 let (a, err) = raise (ce_ctx env 1) (ce_clk env 1 0) (ce_persist env) (ce_between env 2) ttl (ce_between env 1 a);
                     (a, err) = (case err of
                         Some e \<Rightarrow> (a, Some e)
                       | None \<Rightarrow> runGuard (ce_guard env) (transition rid started) (ce_between env 3 a));
                     a = actionEnd (or_Owner ref) req rid err (ce_between env 4 a)
                 in QueryAction mac (ce_ctx env 2) (ce_clk env 2) (ce_waits env) ref req (ce_between env 5 a))
          in (finishNative a, answer))"

definition Acquire ::
    "(string \<Rightarrow> nat list) \<Rightarrow> call_env \<Rightarrow> AcquireRequest \<Rightarrow> Authority \<Rightarrow> Authority \<times> (ActionResult option \<times> goerr option) option" where
  "Acquire mac env request a =
     guardedCall mac env (aq_Owner request) (aq_Request request) (aq_TTL request)
       (acquireBegin mac (ce_ctx env 3) (ce_clk env 3) request)
       (acquireGuard mac (ce_ctx env 4) (ce_clk env 4) (ce_nonce env) request) a"

end
