(* ===== verification/LockWork.thy ===== *)
theory LockWork
  imports LockOps
begin

text \<open>
  The remaining operations of the lock authority: renewal, resolution of resources, the queue
  workers, maintenance, admission and completion of publications, fencing and shutdown.
\<close>

section \<open>Renewal\<close>

definition newRenew :: "RenewRequest \<Rightarrow> actionRecord" where
  "newRenew request =
     \<lparr>ac_receipt = \<lparr>rc_Kind = RenewAction, rc_Request = rn_Request request, rc_Acquire = None, rc_Renew = Some request,
        rc_Outcome = Pending, rc_Code = None, rc_Grant = None, rc_DeadlineMillis = 0, rc_Revision = 0\<rparr>,
      ac_resource = None, ac_waitUntil = None, ac_grant = None, ac_cancel = None, ac_tombstone = False,
      ac_processing = False, ac_failure = None\<rparr>"

definition renewInvalid :: "Options \<Rightarrow> RenewRequest \<Rightarrow> bool" where
  "renewInvalid opts request =
     (\<not> requestValid (rn_Request request) (opt_MaxRequestBytes opts)
      \<or> rn_TTL request < Millisecond \<or> rn_TTL request > opt_MaxLease opts \<or> rn_TTL request mod Millisecond \<noteq> 0)"

definition renewBegin ::
    "(string \<Rightarrow> nat list) \<Rightarrow> goerr option \<Rightarrow> (nat \<Rightarrow> instant) \<Rightarrow> RenewRequest \<Rightarrow> Authority \<Rightarrow> Authority \<times> action_begin" where
  "renewBegin mac ctxErr clk request a =
     (case healthyLocked ctxErr True (clk 0) a of
        Some e \<Rightarrow> (a, BeginFailed e)
      | None \<Rightarrow>
          let a = expireSessionsLocked (clk 1) a; oid = or_Owner (rn_Owner request); req = rn_Request request
          in (case Authority_ownerLocked mac (rn_Owner request) a of
                Inl e \<Rightarrow> (a, BeginFailed e)
              | Inr _ \<Rightarrow>
                  if renewInvalid (au_options a) request then (a, BeginFailed (fail Invalid))
                  else (case getAct a oid req of
                      Some previous \<Rightarrow>
                        if rc_Kind (ac_receipt previous) \<noteq> RenewAction \<or> rc_Renew (ac_receipt previous) \<noteq> Some request
                        then (a, BeginFailed (fail RequestMismatch)) else (a, BeginReplay)
                    | None \<Rightarrow>
                        if actionsFull oid a then (a, BeginFailed (fail Capacity))
                        else
                          let a = touchLocked (clk 2) oid (addAction oid req (newRenew request) a)
                          in (case grantLockedForOwner mac (clk 3) oid (rn_Grant request) a of
                                (a, Inl e) \<Rightarrow> rejectAction (\<lambda>i. clk (4 + i)) oid req (CodeOf e) a
                              | (a, Inr g) \<Rightarrow>
                                  if gt_state g \<noteq> Active then rejectAction (\<lambda>i. clk (4 + i)) oid req StaleGrant a
                                  else (holdRes (gt_resource g) 1
                                          (updAct oid req (\<lambda>x. x\<lparr>ac_grant := Some (gr_ID (rn_Grant request)),
                                             ac_resource := Some (gt_resource g), ac_processing := True\<rparr>) a),
                                        BeginStarted (gt_resource g) (clk 4))))))"

definition renewGuard ::
    "goerr option \<Rightarrow> (nat \<Rightarrow> instant) \<Rightarrow> RenewRequest \<Rightarrow> ResourceID \<Rightarrow> Authority \<Rightarrow> Authority \<times> goerr option" where
  "renewGuard ctxErr clk request rid a =
     (let oid = or_Owner (rn_Owner request); req = rn_Request request; gid = gr_ID (rn_Grant request)
      in case getAct a oid req of
        None \<Rightarrow> (a, None)
      | Some x \<Rightarrow>
          if rc_Outcome (ac_receipt x) \<noteq> Pending then (a, None)
          else (case healthyLocked ctxErr True (clk 0) a of
              Some e \<Rightarrow> (a, Some e)
            | None \<Rightarrow>
                let a = expireSessionsLocked (clk 1) a
                in if gget (au_owners a) oid = None then (a, Some (fail Retired))
                   else
                     let a = expireGrantsLocked rid (clk 2) a
                     in (case (gget (au_objects a) rid, getGrant a oid gid) of
                           (Some r, Some g) \<Rightarrow>
                             if rs_retired r \<or> gt_state g \<noteq> Active \<or> \<not> clk 3 < gt_deadline g then (a, Some (fail StaleGrant))
                             else if rs_busy r then (a, Some (fail Conflict))
                             else
                               let deadline = clk 4 + rn_TTL request;
                                   a = updGrant oid gid (\<lambda>g. g\<lparr>gt_deadline := max (gt_deadline g) deadline,
                                                              gt_revision := gt_revision g + 1\<rparr>) a;
                                   a = updAct oid req (\<lambda>x. x\<lparr>ac_receipt := (ac_receipt x)\<lparr>rc_Grant := Some (gt_ref g),
                                         rc_DeadlineMillis := tick a (max (gt_deadline g) deadline),
                                         rc_Revision := gt_revision g + 1\<rparr>\<rparr>) a;
                                   a = finishLocked oid req Renewed None a
                               in (touchLocked (clk 5) oid a, None)
                         | _ \<Rightarrow> (a, Some (fail StaleGrant)))))"

definition Renew ::
    "(string \<Rightarrow> nat list) \<Rightarrow> call_env \<Rightarrow> RenewRequest \<Rightarrow> Authority \<Rightarrow> Authority \<times> (ActionResult option \<times> goerr option) option" where
  "Renew mac env request a =
     guardedCall mac env (rn_Owner request) (rn_Request request) (rn_TTL request)
       (renewBegin mac (ce_ctx env 3) (ce_clk env 3) request)
       (\<lambda>rid _. renewGuard (ce_ctx env 4) (ce_clk env 4) request rid) a"

section \<open>Resources\<close>

definition resolveCheck ::
    "(string \<Rightarrow> nat list) \<Rightarrow> goerr option \<Rightarrow> (nat \<Rightarrow> instant) \<Rightarrow> OwnerRef \<Rightarrow> Authority \<Rightarrow> Authority \<times> goerr option" where
  "resolveCheck mac ctxErr clk ref a =
     (case healthyLocked ctxErr False (clk 0) a of
        Some e \<Rightarrow> (a, Some e)
      | None \<Rightarrow>
          let a = expireSessionsLocked (clk 1) a
          in (a, case Authority_ownerLocked mac ref a of Inl e \<Rightarrow> Some e | Inr _ \<Rightarrow> None))"

text \<open>The callback of \<open>Discover\<close>: the resource for a backend key, and whether the
  authority adopts the native pin.\<close>

definition discoverCallback ::
    "(string \<Rightarrow> nat list) \<Rightarrow> goerr option \<Rightarrow> (nat \<Rightarrow> instant) \<Rightarrow> nat list \<Rightarrow> OwnerRef \<Rightarrow> BackendKey \<Rightarrow> Authority
     \<Rightarrow> Authority \<times> (goerr + ResourceRef \<times> bool)" where
  "discoverCallback mac ctxErr clk nonce ref key a =
     (case healthyLocked ctxErr False (clk 0) a of
        Some e \<Rightarrow> (a, Inl e)
      | None \<Rightarrow>
          let a = expireSessionsLocked (clk 1) a; oid = or_Owner ref
          in (case Authority_ownerLocked mac ref a of
                Inl e \<Rightarrow> (a, Inl e)
              | Inr _ \<Rightarrow>
                  if key = [] then (a, Inl (fail Invalid))
                  else
                    let adopt = (gget (au_keys a) key = None);
                        rid = (case gget (au_keys a) key of None \<Rightarrow> token mac (au_incarnation a) nonce ''r'' [] [] | Some rid \<Rightarrow> rid);
                        stale = (case gget (au_objects a) rid of None \<Rightarrow> False | Some r \<Rightarrow> rs_retired r \<or> rs_forgetting r)
                    in if adopt \<and> int (length (au_resources a)) \<ge> opt_MaxResources (au_options a) then (a, Inl (fail Capacity))
                       else if \<not> adopt \<and> stale then (a, Inl (fail StaleResource))
                       else
                         let a = (if adopt
                                  then a\<lparr>au_objects := gput rid \<lparr>rs_id = rid, rs_key = key, rs_referenceUntil = 0, rs_grants = [],
                                           rs_queue = [], rs_busy = False, rs_retired = False, rs_worker = False, rs_holds = 0,
                                           rs_forgetting = False\<rparr> (au_objects a),
                                         au_resources := rid # au_resources a, au_keys := gput key rid (au_keys a)\<rparr>
                                  else a);
                             until = clk 2 + opt_ResourceTTL (au_options a);
                             a = touchLocked (clk 3) oid (updRes rid (\<lambda>r. r\<lparr>rs_referenceUntil := until\<rparr>) a)
                         in (a, Inr (\<lparr>rr_ID = rid, rr_ExpiresMillis = tick a until, rr_NowMillis = tick a (clk 2),
                                      rr_HistoryExpiresMillis = tick a (expiresOf a oid)\<rparr>, adopt))))"

text \<open>\<open>Resolve\<close>: the backend finds the key (or fails) and runs the callback once.\<close>

definition Resolve ::
    "(string \<Rightarrow> nat list) \<Rightarrow> call_env \<Rightarrow> goerr + BackendKey \<Rightarrow> OwnerRef \<Rightarrow> Authority \<Rightarrow> Authority \<times> (goerr + ResourceRef)" where
  "Resolve mac env discovered ref a =
     (case beginNative (ce_ctx env 0) (ce_clk env 0 0) a of
        (a, Some e) \<Rightarrow> (a, Inl e)
      | (a, None) \<Rightarrow>
          let (a, r) =
            (case resolveCheck mac (ce_ctx env 1) (ce_clk env 1) ref (ce_between env 0 a) of
               (a, Some e) \<Rightarrow> (a, Inl e)
             | (a, None) \<Rightarrow>
                 (case discovered of
                    Inl e \<Rightarrow> (ce_between env 1 a, Inl e)
                  | Inr key \<Rightarrow>
                      (case discoverCallback mac (ce_ctx env 2) (ce_clk env 2) (ce_nonce env) ref key (ce_between env 1 a) of
                         (a, Inl e) \<Rightarrow> (a, Inl e)
                       | (a, Inr (result, _)) \<Rightarrow> (a, Inr result))))
          in (finishNative (ce_between env 2 a), r))"

section \<open>Queue workers\<close>

text \<open>The first section of an iteration of \<open>runResource\<close>: it ends the worker, takes the
  head of the queue, or waits until an instant.\<close>

datatype worker_pick = WorkerDone | WorkerTake OwnerID RequestID | WorkerSleep instant

definition requestMode :: "Authority \<Rightarrow> OwnerID \<Rightarrow> RequestID \<Rightarrow> Mode" where
  "requestMode a oid req =
     (case getAct a oid req of None \<Rightarrow> OtherMode
      | Some x \<Rightarrow> (case rc_Acquire (ac_receipt x) of None \<Rightarrow> OtherMode | Some request \<Rightarrow> aq_Mode request))"

definition requestTTL :: "Authority \<Rightarrow> OwnerID \<Rightarrow> RequestID \<Rightarrow> duration" where
  "requestTTL a oid req =
     (case getAct a oid req of None \<Rightarrow> 0
      | Some x \<Rightarrow> (case rc_Acquire (ac_receipt x) of None \<Rightarrow> 0 | Some request \<Rightarrow> aq_TTL request))"

definition waitUntilOf :: "Authority \<Rightarrow> OwnerID \<Rightarrow> RequestID \<Rightarrow> instant" where
  "waitUntilOf a oid req =
     (case getAct a oid req of None \<Rightarrow> 0 | Some x \<Rightarrow> (case ac_waitUntil x of None \<Rightarrow> 0 | Some until \<Rightarrow> until))"

definition workerPick :: "instant \<Rightarrow> ResourceID \<Rightarrow> Authority \<Rightarrow> Authority \<times> worker_pick" where
  "workerPick now rid a =
     (if au_closed a \<or> au_fenced a \<noteq> None \<or> resQueue a rid = [] then (a, WorkerDone)
      else
        let a = expireQueuedLocked rid now (expireGrantsLocked rid now a)
        in (case resQueue a rid of
              [] \<Rightarrow> (a, WorkerDone)
            | (oid, req) # _ \<Rightarrow>
                if \<not> busyRes a rid \<and> compatibleLocked rid oid (requestMode a oid req) a
                then (holdRes rid 1 (updAct oid req (\<lambda>x. x\<lparr>ac_processing := True\<rparr>) a), WorkerTake oid req)
                else (a, WorkerSleep (fold (\<lambda>(gid, holder) next. min next (deadlineOf a holder gid))
                           (resGrants a rid) (waitUntilOf a oid req)))))"

definition workerGuard ::
    "(string \<Rightarrow> nat list) \<Rightarrow> goerr option \<Rightarrow> (nat \<Rightarrow> instant) \<Rightarrow> nat list \<Rightarrow> ResourceID \<Rightarrow> OwnerID \<Rightarrow> RequestID
     \<Rightarrow> Authority \<Rightarrow> Authority \<times> goerr option" where
  "workerGuard mac ctxErr clk nonce rid oid req a =
     (case getAct a oid req of
        None \<Rightarrow> (a, None)
      | Some x \<Rightarrow>
          if rc_Outcome (ac_receipt x) \<noteq> Pending then (a, None)
          else (case healthyLocked ctxErr True (clk 0) a of
              Some e \<Rightarrow> (a, Some e)
            | None \<Rightarrow>
                let a = expireSessionsLocked (clk 1) a
                in if gget (au_owners a) oid = None then (a, Some (fail Retired))
                   else (case gget (au_objects a) rid of
                       None \<Rightarrow> (a, Some (fail StaleResource))
                     | Some r \<Rightarrow>
                         if rs_retired r then (a, Some (fail StaleResource))
                         else
                           let now = clk 2; a = expireGrantsLocked rid now a
                           in if \<not> now < waitUntilOf a oid req then (finishLocked oid req TimedOut None a, None)
                              else if resQueue a rid \<noteq> [] \<and> hd (resQueue a rid) = (oid, req) \<and> \<not> busyRes a rid
                                      \<and> compatibleLocked rid oid (requestMode a oid req) a
                              then grantLocked mac (\<lambda>i. clk (3 + i)) nonce oid req a
                              else (a, None))))"

definition workerExit :: "ResourceID \<Rightarrow> Authority \<Rightarrow> Authority" where
  "workerExit rid a = updRes rid (\<lambda>r. r\<lparr>rs_worker := False\<rparr>) a"

text \<open>One iteration of the worker: it returns whether the worker goes on.\<close>

definition runResource ::
    "(string \<Rightarrow> nat list) \<Rightarrow> call_env \<Rightarrow> ResourceID \<Rightarrow> Authority \<Rightarrow> Authority \<times> bool" where
  "runResource mac env rid a =
     (case workerPick (ce_clk env 0 0) rid a of
        (a, WorkerDone) \<Rightarrow> (workerExit rid (ce_between env 0 a), False)
      | (a, WorkerSleep _) \<Rightarrow> (ce_between env 0 a, True)
      | (a, WorkerTake oid req) \<Rightarrow>
          let ttl = requestTTL a oid req;
              (a, err) = raise (ce_ctx env 1) (ce_clk env 1 0) (ce_persist env) (ce_between env 1) ttl (ce_between env 0 a);
              (a, err) = (case err of
                  Some e \<Rightarrow> (a, Some e)
                | None \<Rightarrow> runGuard (ce_guard env) (workerGuard mac (ce_ctx env 2) (ce_clk env 2) (ce_nonce env) rid oid req)
                            (ce_between env 2 a))
          in (actionEnd oid req rid err (ce_between env 3 a), True))"

section \<open>Maintenance\<close>

definition forgettable :: "instant \<Rightarrow> resourceRecord \<Rightarrow> bool" where
  "forgettable now r =
     (\<not> rs_forgetting r \<and> \<not> now < rs_referenceUntil r \<and> rs_grants r = [] \<and> rs_queue r = [] \<and> \<not> rs_busy r
      \<and> \<not> rs_worker r \<and> rs_holds r = 0)"

text \<open>The wake-up instants that one resource contributes.\<close>

definition resourceNext :: "instant \<Rightarrow> ResourceID \<Rightarrow> Authority \<Rightarrow> instant \<Rightarrow> instant" where
  "resourceNext now rid a next =
     (case gget (au_objects a) rid of
        None \<Rightarrow> next
      | Some r \<Rightarrow>
          let next = (if rs_referenceUntil r > now \<and> rs_referenceUntil r < next then rs_referenceUntil r else next);
              next = fold (\<lambda>(gid, holder) next. if deadlineOf a holder gid > now \<and> deadlineOf a holder gid < next
                                                then deadlineOf a holder gid else next) (rs_grants r) next
          in fold (\<lambda>(oid, req) next. min next (waitUntilOf a oid req)) (rs_queue r) next)"

definition maintainResource ::
    "instant \<Rightarrow> ResourceID \<Rightarrow> Authority \<times> instant \<times> ResourceID list \<Rightarrow> Authority \<times> instant \<times> ResourceID list" where
  "maintainResource now rid st =
     (case st of (a, next, forgotten) \<Rightarrow>
        let a = startWorkerLocked rid (expireQueuedLocked rid now (expireGrantsLocked rid now a));
            next = resourceNext now rid a next
        in (case gget (au_objects a) rid of
              None \<Rightarrow> (a, next, forgotten)
            | Some r \<Rightarrow>
                if forgettable now r then (updRes rid (\<lambda>r. r\<lparr>rs_forgetting := True\<rparr>) a, next, forgotten @ [rid])
                else (a, next, forgotten)))"

text \<open>The critical section of one iteration of \<open>maintain\<close>: the new state, the instant of the
  next wake-up and the resources to forget.\<close>

definition maintainScan :: "instant \<Rightarrow> Authority \<Rightarrow> Authority \<times> instant \<times> ResourceID list" where
  "maintainScan now a =
     (if au_closed a then (a, now, [])
      else
        let a = expireSessionsLocked now a;
            next = now + opt_SessionIdle (au_options a);
            next = fold (\<lambda>(_, s) next. if se_expires s > now \<and> se_expires s < next then se_expires s else next) (au_sessions a) next;
            next = fold (\<lambda>(_, t) next. min next (tk_expires t)) (au_tickets a) next
        in fold (maintainResource now) (au_resources a) (a, next, []))"

definition forgetDone :: "ResourceID \<Rightarrow> goerr option \<Rightarrow> Authority \<Rightarrow> Authority" where
  "forgetDone rid err a =
     (case err of
        Some e \<Rightarrow> a\<lparr>au_fenced := Some e\<rparr>
      | None \<Rightarrow>
          (case gget (au_objects a) rid of
             None \<Rightarrow> a
           | Some r \<Rightarrow> a\<lparr>au_keys := gdel (rs_key r) (au_keys a), au_resources := remove1 rid (au_resources a)\<rparr>))"

definition maintain ::
    "instant \<Rightarrow> (ResourceID \<Rightarrow> goerr option) \<Rightarrow> (ResourceID \<Rightarrow> Authority \<Rightarrow> Authority) \<Rightarrow> Authority \<Rightarrow> Authority" where
  "maintain now forget between a =
     (case maintainScan now a of
        (a, _, forgotten) \<Rightarrow> fold (\<lambda>rid a. forgetDone rid (forget rid) (between rid a)) forgotten a)"

section \<open>Publication\<close>

definition Fence :: "goerr option \<Rightarrow> Authority \<Rightarrow> Authority" where
  "Fence err a =
     (case err of
        None \<Rightarrow> a
      | Some e \<Rightarrow> if au_fenced a = None then a\<lparr>au_fenced := Some e\<rparr> else a)"

definition Authority_Check :: "goerr option \<Rightarrow> instant \<Rightarrow> Authority \<Rightarrow> goerr option" where
  "Authority_Check ctxErr now a = healthyLocked ctxErr False now a"

text \<open>The loop over the targets: the distinct keys, and the resources among them.\<close>

fun publishTargets ::
    "(nat \<Rightarrow> instant) \<Rightarrow> BackendKey list \<Rightarrow> BackendKey list \<Rightarrow> ResourceID list \<Rightarrow> Authority
     \<Rightarrow> Authority \<times> (goerr + BackendKey list \<times> ResourceID list)" where
  "publishTargets clk [] keys rids a = (a, Inr (keys, rids))"
| "publishTargets clk (key # rest) keys rids a =
     (if key = [] then (a, Inl (fail Invalid))
      else if key \<in> set keys then publishTargets (\<lambda>i. clk (Suc i)) rest keys rids a
      else (case gget (au_keys a) key of
          None \<Rightarrow> publishTargets (\<lambda>i. clk (Suc i)) rest (keys @ [key]) rids a
        | Some rid \<Rightarrow>
            if busyRes a rid then (a, Inl (fail Unavailable))
            else publishTargets (\<lambda>i. clk (Suc i)) rest (keys @ [key]) (rids @ [rid]) (expireGrantsLocked rid (clk 0) a)))"

text \<open>The loop over the proofs; every accepted proof is a grant of the scope's owner.\<close>

fun publishProofs ::
    "(string \<Rightarrow> nat list) \<Rightarrow> (nat \<Rightarrow> instant) \<Rightarrow> OwnerID \<Rightarrow> BackendKey list \<Rightarrow> GrantRef list \<Rightarrow> (ResourceID, GrantID) gomap \<Rightarrow> Authority
     \<Rightarrow> Authority \<times> (goerr + (ResourceID, GrantID) gomap)" where
  "publishProofs mac clk oid keys [] proofs a = (a, Inr proofs)"
| "publishProofs mac clk oid keys (proof # rest) proofs a =
     (case grantLockedForOwner mac (clk 0) oid proof a of
        (a, Inl e) \<Rightarrow> (a, Inl e)
      | (a, Inr g) \<Rightarrow>
          (case gget (au_objects a) (gt_resource g) of
             None \<Rightarrow> (a, Inl (fail StaleGrant))
           | Some r \<Rightarrow>
               if gt_state g \<noteq> Active \<or> rs_retired r \<or> \<not> clk 1 < gt_deadline g then (a, Inl (fail StaleGrant))
               else if rs_key r \<notin> set keys then (a, Inl (fail UnrelatedProof))
               else publishProofs mac (\<lambda>i. clk (2 + i)) oid keys rest (gput (gr_Resource proof) (gr_ID proof) proofs) a))"

definition protectedBy :: "Authority \<Rightarrow> OwnerID \<Rightarrow> (ResourceID, GrantID) gomap \<Rightarrow> ResourceID \<Rightarrow> bool" where
  "protectedBy a oid proofs rid =
     (resGrants a rid = []
      \<or> (case gget proofs rid of None \<Rightarrow> False | Some gid \<Rightarrow> modeOf a oid gid = Exclusive))"

definition publishAdmit ::
    "(string \<Rightarrow> nat list) \<Rightarrow> goerr option \<Rightarrow> (nat \<Rightarrow> instant) \<Rightarrow> Publication \<Rightarrow> Authority
     \<Rightarrow> Authority \<times> (goerr + BackendKey list \<times> ResourceID list)" where
  "publishAdmit mac ctxErr clk publication a =
     (case first_error [fail_if (length (pb_Targets publication) > 2) (fail Invalid),
          fail_if (pb_Kind publication = OtherMutation) (fail Invalid),
          ValidateScope (pb_Scope publication) (opt_MaxProofs (au_options a)),
          healthyLocked ctxErr True (clk 0) a] of
        Some e \<Rightarrow> (a, Inl e)
      | None \<Rightarrow>
          let a = expireSessionsLocked (clk 1) a; owner = sc_Owner (pb_Scope publication); oid = or_Owner owner;
              proofList = sc_Grants (pb_Scope publication); sites = length proofList
          in (case (if oid \<noteq> [] then (case Authority_ownerLocked mac owner a of Inl e \<Rightarrow> Some e | Inr _ \<Rightarrow> None) else None) of
                Some e \<Rightarrow> (a, Inl e)
              | None \<Rightarrow>
                  (case publishTargets (\<lambda>i. clk (2 + i)) (pb_Targets publication) [] [] a of
                     (a, Inl e) \<Rightarrow> (a, Inl e)
                   | (a, Inr (keys, rids)) \<Rightarrow>
                       (case publishProofs mac (\<lambda>i. clk (4 + i)) oid keys proofList [] a of
                          (a, Inl e) \<Rightarrow> (a, Inl e)
                        | (a, Inr proofs) \<Rightarrow>
                            if \<not> list_all (protectedBy a oid proofs) rids then (a, Inl (fail Conflict))
                            else if list_ex (\<lambda>(_, gid). \<not> clk (4 + 2 * sites) < deadlineOf a oid gid) proofs
                            then (a, Inl (fail StaleGrant))
                            else ((fold (\<lambda>rid. updRes rid (\<lambda>r. r\<lparr>rs_busy := True\<rparr>)) rids a)
                                    \<lparr>au_publications := au_publications a + 1\<rparr>, Inr (keys, rids))))))"

text \<open>The resource of a retired target: its grants end, its queue is refused.\<close>

definition retireTarget :: "instant \<Rightarrow> BackendKey \<Rightarrow> Authority \<Rightarrow> Authority" where
  "retireTarget now key a =
     (case gget (au_keys a) key of
        None \<Rightarrow> a
      | Some rid \<Rightarrow>
          let a = updRes rid (\<lambda>r. r\<lparr>rs_retired := True, rs_referenceUntil := now\<rparr>) a;
              a = fold (\<lambda>(gid, oid). endGrantLocked oid gid TargetGone) (resGrants a rid) a
          in fold (\<lambda>(oid, req). finishLocked oid req Rejected (Some StaleResource)) (resQueue a rid) a)"

fun retireTargets :: "(nat \<Rightarrow> instant) \<Rightarrow> BackendKey list \<Rightarrow> Authority \<Rightarrow> Authority" where
  "retireTargets clk [] a = a"
| "retireTargets clk (key # rest) a = retireTargets (\<lambda>i. clk (Suc i)) rest (retireTarget (clk 0) key a)"

definition completePublication ::
    "(nat \<Rightarrow> instant) \<Rightarrow> ResourceID list \<Rightarrow> BackendKey list \<Rightarrow> PublicationOutcome \<Rightarrow> Authority \<Rightarrow> Authority \<times> goerr option" where
  "completePublication clk rids keys outcome a =
     (let undeclared = list_ex (\<lambda>key. key \<notin> set keys) (po_Retired outcome);
          known = (po_Known outcome \<and> \<not> undeclared);
          err = (if undeclared then errors_Join [po_Err outcome, Some (fail Unavailable)] else po_Err outcome);
          err = (if \<not> known \<and> err = None then Some (fail Unavailable) else err);
          a = (if \<not> known then (if au_fenced a = None then a\<lparr>au_fenced := err\<rparr> else a)
               else retireTargets clk (po_Retired outcome) a);
          a = fold (\<lambda>rid. updRes rid (\<lambda>r. r\<lparr>rs_busy := False\<rparr>)) rids a
      in (a\<lparr>au_publications := au_publications a - 1\<rparr>, err))"

text \<open>The transition reports an outcome, or panics (\<open>None\<close>).\<close>

definition Publish ::
    "(string \<Rightarrow> nat list) \<Rightarrow> goerr option \<Rightarrow> (nat \<Rightarrow> nat \<Rightarrow> instant) \<Rightarrow> Publication \<Rightarrow> bool
     \<Rightarrow> (Authority \<Rightarrow> Authority \<times> PublicationOutcome option) \<Rightarrow> Authority \<Rightarrow> Authority \<times> goerr option" where
  "Publish mac ctxErr clk publication hasTransition transition a =
     (if \<not> hasTransition then (a, Some (fail Invalid))
      else (case publishAdmit mac ctxErr (clk 0) publication a of
          (a, Inl e) \<Rightarrow> (a, Some e)
        | (a, Inr (keys, rids)) \<Rightarrow>
            (case transition a of
               (a, Some outcome) \<Rightarrow> completePublication (clk 1) rids keys outcome a
             | (a, None) \<Rightarrow> completePublication (clk 1) rids keys
                 \<lparr>po_Known = False, po_Retired = [], po_Changed = False, po_Err = Some (fail Unavailable)\<rparr> a)))"

section \<open>Shutdown\<close>

definition closeBegin :: "Authority \<Rightarrow> Authority" where
  "closeBegin a = a\<lparr>au_closed := True\<rparr>"

text \<open>After admitted work has drained, every pin that is not already being forgotten is
  released; the result joins the fence and the release errors.\<close>

definition closeFinish :: "(BackendKey \<Rightarrow> goerr option) \<Rightarrow> Authority \<Rightarrow> Authority \<times> goerr option" where
  "closeFinish forget a =
     (let pins = List.map_filter (\<lambda>rid. case gget (au_objects a) rid of
                   None \<Rightarrow> None | Some r \<Rightarrow> if rs_forgetting r then None else Some (rs_key r)) (au_resources a);
          err = fold (\<lambda>key err. errors_Join [err, forget key]) pins None;
          result = errors_Join [au_fenced a, err]
      in (a\<lparr>au_resources := [], au_keys := [], au_closeErr := result\<rparr>, result))"

definition Close :: "(Authority \<Rightarrow> Authority) \<Rightarrow> (BackendKey \<Rightarrow> goerr option) \<Rightarrow> Authority \<Rightarrow> Authority \<times> goerr option" where
  "Close drain forget a =
     (if au_closed a then (drain a, au_closeErr (drain a))
      else closeFinish forget (drain (closeBegin a)))"

end
