(* ===== verification/LockGrants.thy ===== *)
theory LockGrants
  imports LockWork
begin

text \<open>
  The grant table of the lock authority. \<open>grants_inv\<close> says that the grants a resource lists
  are exactly the live grants of the owners on it, that an exclusive grant has its resource to
  itself, that generations are unique, and that the counters are exact and bounded. It does not
  depend on sessions, actions, queues or deadlines (\<open>gframe\<close>), and ending, installing and
  retiring keep it.
\<close>

section \<open>Reading after writing\<close>

lemma getGrant_updOwn:
  "getGrant (updOwn oid f a) oid' gid =
    (case gget (au_owners a) oid' of None \<Rightarrow> None | Some ow \<Rightarrow> gget (ow_grants (if oid' = oid then f ow else ow)) gid)"
  by (auto simp: getGrant_def updOwn_def split: option.split)

lemma getAct_updOwn:
  "getAct (updOwn oid f a) oid' req =
    (case gget (au_owners a) oid' of None \<Rightarrow> None | Some ow \<Rightarrow> gget (ow_actions (if oid' = oid then f ow else ow)) req)"
  by (auto simp: getAct_def updOwn_def split: option.split)

lemma getGrant_updGrant:
  "getGrant (updGrant oid gid f a) oid' gid' =
    (if oid' = oid \<and> gid' = gid then map_option f (getGrant a oid' gid') else getGrant a oid' gid')"
  by (cases "gget (au_owners a) oid'") (auto simp: updGrant_def updOwn_def getGrant_def)

lemma getAct_updAct:
  "getAct (updAct oid req f a) oid' req' =
    (if oid' = oid \<and> req' = req then map_option f (getAct a oid' req') else getAct a oid' req')"
  by (cases "gget (au_owners a) oid'") (auto simp: updAct_def updOwn_def getAct_def)

lemma getters_fields [simp]:
  "getGrant (updRes rid h a) = getGrant a" "getAct (updRes rid h a) = getAct a"
  "getGrant (updSess sid k a) = getGrant a" "getAct (updSess sid k a) = getAct a"
  "getGrant (updAct oid req f a) = getGrant a" "getAct (updGrant oid gid g a) = getAct a"
  by (auto simp: fun_eq_iff getGrant_def getAct_def updRes_def updSess_def updAct_def updGrant_def updOwn_def split: option.split)

section \<open>The frame of the grant table\<close>

text \<open>What the invariant of the grant table does not depend on is blanked: sessions, actions, queues,
  flags, the deadline, revision and release of a grant.\<close>

definition gstrip :: "grantRecord \<Rightarrow> grantRecord" where
  "gstrip g = g\<lparr>gt_deadline := 0, gt_revision := 0, gt_release := None\<rparr>"

definition ostrip :: "ownerRecord \<Rightarrow> ownerRecord" where
  "ostrip ow = ow\<lparr>ow_actions := [], ow_queued := 0, ow_grants := map (map_prod id gstrip) (ow_grants ow)\<rparr>"

definition rstrip :: "resourceRecord \<Rightarrow> resourceRecord" where
  "rstrip r = r\<lparr>rs_queue := [], rs_referenceUntil := 0, rs_busy := False, rs_retired := False, rs_worker := False,
     rs_holds := 0, rs_forgetting := False\<rparr>"

definition gframe :: "Authority \<Rightarrow> Authority" where
  "gframe a = a\<lparr>au_watermark := 0, au_sessions := [], au_tickets := [], au_resources := [], au_keys := [], au_actions := 0, au_queued := 0,
     au_publications := 0, au_nativeCalls := 0, au_fenced := None, au_closed := False, au_closeErr := None,
     au_owners := map (map_prod id ostrip) (au_owners a), au_objects := map (map_prod id rstrip) (au_objects a)\<rparr>"

lemma map_gupd_same: "(\<And>v. g (f v) = g v) \<Longrightarrow> map (map_prod id g) (gupd k f m) = map (map_prod id g) m"
  by (auto simp: gupd_def)

lemma gframe_fields [simp]:
  "gframe (a\<lparr>au_watermark := w\<rparr>) = gframe a" "gframe (a\<lparr>au_sessions := s\<rparr>) = gframe a"
  "gframe (a\<lparr>au_tickets := t\<rparr>) = gframe a" "gframe (a\<lparr>au_resources := rs\<rparr>) = gframe a"
  "gframe (a\<lparr>au_keys := ks\<rparr>) = gframe a" "gframe (a\<lparr>au_actions := n\<rparr>) = gframe a"
  "gframe (a\<lparr>au_queued := n\<rparr>) = gframe a" "gframe (a\<lparr>au_publications := n\<rparr>) = gframe a"
  "gframe (a\<lparr>au_nativeCalls := n\<rparr>) = gframe a" "gframe (a\<lparr>au_fenced := e\<rparr>) = gframe a"
  "gframe (a\<lparr>au_closed := b\<rparr>) = gframe a" "gframe (a\<lparr>au_closeErr := e\<rparr>) = gframe a"
  by (simp_all add: gframe_def)

lemma gframe_updSess [simp]: "gframe (updSess sid f a) = gframe a"
  by (simp add: updSess_def)

lemma gframe_updRes: "(\<And>r. rstrip (f r) = rstrip r) \<Longrightarrow> gframe (updRes rid f a) = gframe a"
  by (simp add: gframe_def updRes_def map_gupd_same)

lemma gframe_updOwn: "(\<And>ow. ostrip (f ow) = ostrip ow) \<Longrightarrow> gframe (updOwn oid f a) = gframe a"
  by (simp add: gframe_def updOwn_def map_gupd_same)

lemma gframe_updAct [simp]: "gframe (updAct oid req f a) = gframe a"
  unfolding updAct_def by (rule gframe_updOwn) (simp add: ostrip_def)

lemma gframe_updGrant: "(\<And>g. gstrip (f g) = gstrip g) \<Longrightarrow> gframe (updGrant oid gid f a) = gframe a"
  unfolding updGrant_def by (rule gframe_updOwn) (simp add: ostrip_def map_gupd_same)

section \<open>The invariant of the grant table\<close>

definition live :: "Authority \<Rightarrow> OwnerID \<Rightarrow> GrantID \<Rightarrow> grantRecord \<Rightarrow> bool" where
  "live a oid gid g \<longleftrightarrow> getGrant a oid gid = Some g \<and> gt_state g = Active"

definition activeCount :: "ownerRecord \<Rightarrow> int" where
  "activeCount ow = gsum (\<lambda>_ g. if gt_state g = Active then 1 else 0) (ow_grants ow)"

definition tables_wf :: "Authority \<Rightarrow> bool" where
  "tables_wf a \<longleftrightarrow> distinct_keys (au_owners a) \<and> distinct_keys (au_objects a)
     \<and> (\<forall>oid ow. gget (au_owners a) oid = Some ow \<longrightarrow> or_Owner (ow_ref ow) = oid \<and> distinct_keys (ow_grants ow))
     \<and> (\<forall>rid r. gget (au_objects a) rid = Some r \<longrightarrow> rs_id r = rid \<and> distinct_keys (rs_grants r))"

definition links_ok :: "Authority \<Rightarrow> bool" where
  "links_ok a \<longleftrightarrow>
     (\<forall>rid r. gget (au_objects a) rid = Some r \<longrightarrow> (\<forall>gid oid.
        gget (rs_grants r) gid = Some oid \<longleftrightarrow> (\<exists>g. live a oid gid g \<and> gt_resource g = rid)))
     \<and> (\<forall>oid gid g. getGrant a oid gid = Some g \<longrightarrow> gget (au_objects a) (gt_resource g) \<noteq> None
          \<and> gr_ID (gt_ref g) = gid \<and> gr_Resource (gt_ref g) = gt_resource g)"

definition excl_ok :: "Authority \<Rightarrow> bool" where
  "excl_ok a \<longleftrightarrow> (\<forall>oid gid g. live a oid gid g \<longrightarrow> (\<forall>oid' gid' g'. live a oid' gid' g' \<longrightarrow> gt_resource g = gt_resource g'
     \<longrightarrow> (oid, gid) \<noteq> (oid', gid') \<longrightarrow> oid \<noteq> oid' \<and> gt_mode g \<noteq> Exclusive \<and> gt_mode g' \<noteq> Exclusive))"

definition gens_ok :: "Authority \<Rightarrow> bool" where
  "gens_ok a \<longleftrightarrow> (\<forall>oid gid g. getGrant a oid gid = Some g \<longrightarrow>
       gr_Generation (gt_ref g) \<le> au_lastGeneration a \<and> gr_Generation (gt_ref g) \<noteq> 0)
     \<and> (\<forall>oid gid g. getGrant a oid gid = Some g \<longrightarrow> (\<forall>oid' gid' g'. getGrant a oid' gid' = Some g'
       \<longrightarrow> (oid, gid) \<noteq> (oid', gid') \<longrightarrow> gr_Generation (gt_ref g) \<noteq> gr_Generation (gt_ref g')))"

definition counts_ok :: "Authority \<Rightarrow> bool" where
  "counts_ok a \<longleftrightarrow> (\<forall>oid ow. gget (au_owners a) oid = Some ow \<longrightarrow> ow_liveGrants ow = activeCount ow
        \<and> activeCount ow \<le> opt_GrantsPerOwner (au_options a))
     \<and> au_grants a = gsum (\<lambda>_ ow. activeCount ow) (au_owners a) \<and> au_grants a \<le> opt_MaxGrants (au_options a)
     \<and> 0 \<le> opt_GrantsPerOwner (au_options a)"

definition grants_inv :: "Authority \<Rightarrow> bool" where
  "grants_inv a \<longleftrightarrow> tables_wf a \<and> links_ok a \<and> excl_ok a \<and> gens_ok a \<and> counts_ok a"

lemma gget_map_strip: "gget (map (map_prod id g) m) k = map_option g (gget m k)"
  by (induction m) (auto simp: gget_def)

lemma map_fst_strip [simp]: "map fst (map (map_prod id g) m) = map fst m"
  by (simp add: comp_def)

lemma gsum_strip: "gsum w (map (map_prod id g) m) = gsum (\<lambda>k v. w k (g v)) m"
  by (induction m) auto

lemma all_map_option: "(\<forall>v. map_option f x = Some v \<longrightarrow> P v) \<longleftrightarrow> (\<forall>v. x = Some v \<longrightarrow> P (f v))"
  by (cases x) auto

lemma getGrant_gframe: "getGrant (gframe a) oid gid = map_option gstrip (getGrant a oid gid)"
  by (auto simp: getGrant_def gframe_def gget_map_strip ostrip_def split: option.split)

lemma grants_inv_gframe: "grants_inv (gframe a) = grants_inv a"
proof -
  have owners: "gget (au_owners (gframe a)) oid = map_option ostrip (gget (au_owners a) oid)" for oid
    by (simp add: gframe_def gget_map_strip)
  have objs: "gget (au_objects (gframe a)) rid = map_option rstrip (gget (au_objects a) rid)" for rid
    by (simp add: gframe_def gget_map_strip)
  have cnt: "activeCount (ostrip ow) = activeCount ow" for ow
    by (simp add: activeCount_def ostrip_def gsum_strip gstrip_def)
  have ow [simp]: "ow_ref (ostrip ow) = ow_ref ow" "ow_liveGrants (ostrip ow) = ow_liveGrants ow"
    "map fst (ow_grants (ostrip ow)) = map fst (ow_grants ow)" for ow
    by (simp_all add: ostrip_def)
  have rs [simp]: "rs_id (rstrip r) = rs_id r" "rs_grants (rstrip r) = rs_grants r" for r
    by (simp_all add: rstrip_def)
  have gs [simp]: "gt_state (gstrip g) = gt_state g" "gt_resource (gstrip g) = gt_resource g" "gt_ref (gstrip g) = gt_ref g"
    "gt_mode (gstrip g) = gt_mode g" for g
    by (simp_all add: gstrip_def)
  have live: "(\<forall>g. live (gframe a) oid gid g \<longrightarrow> P g) \<longleftrightarrow> (\<forall>g. live a oid gid g \<longrightarrow> P (gstrip g))" for oid gid P
    by (auto simp: live_def getGrant_gframe)
  have ex: "(\<exists>g. live (gframe a) oid gid g \<and> gt_resource g = rid) \<longleftrightarrow> (\<exists>g. live a oid gid g \<and> gt_resource g = rid)" for oid gid rid
    by (auto simp: live_def getGrant_gframe)
  have keys: "map fst (au_owners (gframe a)) = map fst (au_owners a)" "map fst (au_objects (gframe a)) = map fst (au_objects a)"
    by (simp_all add: gframe_def)
  have rest: "au_lastGeneration (gframe a) = au_lastGeneration a" "au_grants (gframe a) = au_grants a" "au_options (gframe a) = au_options a"
    "gsum (\<lambda>_ ow. activeCount ow) (au_owners (gframe a)) = gsum (\<lambda>_ ow. activeCount ow) (au_owners a)"
    by (simp_all add: gframe_def gsum_strip cnt)
  have "tables_wf (gframe a) = tables_wf a"
    unfolding tables_wf_def keys owners objs all_map_option by simp
  moreover have "links_ok (gframe a) = links_ok a"
    unfolding links_ok_def ex objs getGrant_gframe all_map_option by (simp del: not_None_eq)
  moreover have "excl_ok (gframe a) = excl_ok a"
    unfolding excl_ok_def live by simp
  moreover have "gens_ok (gframe a) = gens_ok a"
    unfolding gens_ok_def getGrant_gframe all_map_option rest by simp
  moreover have "counts_ok (gframe a) = counts_ok a"
    unfolding counts_ok_def owners all_map_option rest by (simp add: cnt)
  ultimately show ?thesis by (simp add: grants_inv_def)
qed

lemma grants_inv_frame: "gframe a' = gframe a \<Longrightarrow> grants_inv a' = grants_inv a"
  by (metis grants_inv_gframe)

section \<open>Ending a grant\<close>

lemma live_inj:
  assumes "links_ok a" and "live a oid gid g" and "live a oid' gid g'" and "gt_resource g = gt_resource g'"
  shows "oid = oid'"
proof -
  from assms(1,2) obtain r where r: "gget (au_objects a) (gt_resource g) = Some r"
    using not_None_eq unfolding links_ok_def live_def by blast
  from assms(1) r have "\<And>o'. gget (rs_grants r) gid = Some o' \<longleftrightarrow> (\<exists>h. live a o' gid h \<and> gt_resource h = gt_resource g)"
    unfolding links_ok_def by blast
  then have "gget (rs_grants r) gid = Some oid" "gget (rs_grants r) gid = Some oid'"
    using assms(2-4) by metis+
  then show ?thesis by simp
qed

lemma endGrant_idle: "\<not> (\<exists>g. live a oid gid g) \<Longrightarrow> endGrantLocked oid gid state a = a"
  by (auto simp: endGrantLocked_def live_def split: option.split)

lemma endGrant_view:
  assumes "live a oid gid g"
  shows "getGrant (endGrantLocked oid gid state a) oid' gid' = (if oid' = oid \<and> gid' = gid then Some (g\<lparr>gt_state := state\<rparr>) else getGrant a oid' gid')"
    and "au_objects (endGrantLocked oid gid state a) = gupd (gt_resource g) (\<lambda>r. r\<lparr>rs_grants := gdel gid (rs_grants r)\<rparr>) (au_objects a)"
    and "au_owners (endGrantLocked oid gid state a) = gupd oid (\<lambda>ow. ow\<lparr>ow_grants := gupd gid (\<lambda>g. g\<lparr>gt_state := state\<rparr>) (ow_grants ow),
                                   ow_liveGrants := ow_liveGrants ow - 1\<rparr>) (au_owners a)"
    and "au_grants (endGrantLocked oid gid state a) = au_grants a - 1" and "au_lastGeneration (endGrantLocked oid gid state a) = au_lastGeneration a" and "au_options (endGrantLocked oid gid state a) = au_options a"
proof -
  have eq: "endGrantLocked oid gid state a = (updRes (gt_resource g) (\<lambda>r. r\<lparr>rs_grants := gdel gid (rs_grants r)\<rparr>)
                 (updOwn oid (\<lambda>ow. ow\<lparr>ow_grants := gupd gid (\<lambda>g. g\<lparr>gt_state := state\<rparr>) (ow_grants ow),
                                   ow_liveGrants := ow_liveGrants ow - 1\<rparr>) a))
                 \<lparr>au_grants := au_grants a - 1\<rparr>"
    using assms(1) by (simp add: endGrantLocked_def live_def)
  show "getGrant (endGrantLocked oid gid state a) oid' gid' = (if oid' = oid \<and> gid' = gid then Some (g\<lparr>gt_state := state\<rparr>) else getGrant a oid' gid')"
    using assms(1) unfolding eq
    by (cases "gget (au_owners a) oid'") (auto simp: getGrant_def updRes_def updOwn_def live_def)
  show "au_objects (endGrantLocked oid gid state a) = gupd (gt_resource g) (\<lambda>r. r\<lparr>rs_grants := gdel gid (rs_grants r)\<rparr>) (au_objects a)"
    "au_owners (endGrantLocked oid gid state a) = gupd oid (\<lambda>ow. ow\<lparr>ow_grants := gupd gid (\<lambda>g. g\<lparr>gt_state := state\<rparr>) (ow_grants ow),
                                   ow_liveGrants := ow_liveGrants ow - 1\<rparr>) (au_owners a)"
    "au_grants (endGrantLocked oid gid state a) = au_grants a - 1" "au_lastGeneration (endGrantLocked oid gid state a) = au_lastGeneration a" "au_options (endGrantLocked oid gid state a) = au_options a"
    unfolding eq by (simp_all add: updRes_def updOwn_def)
qed

lemma live_endGrant:
  assumes "live a oid gid g" and "state \<noteq> Active"
  shows "live (endGrantLocked oid gid state a) oid' gid' g' \<longleftrightarrow> live a oid' gid' g' \<and> \<not> (oid' = oid \<and> gid' = gid)"
  using assms by (auto simp: live_def endGrant_view(1) [OF assms(1)])

lemma links_endGrant:
  assumes ok: "links_ok a" and g: "live a oid gid g" and st: "state \<noteq> Active"
  shows "links_ok (endGrantLocked oid gid state a)"
proof -
  let ?d = "endGrantLocked oid gid state a"
  note view = endGrant_view [OF g, of state]
  have "gget (rs_grants r') gid' = Some oid' \<longleftrightarrow> (\<exists>g'. live ?d oid' gid' g' \<and> gt_resource g' = rid)"
    if r': "gget (au_objects ?d) rid = Some r'" for rid r' gid' oid'
  proof -
    from r' obtain r where r: "gget (au_objects a) rid = Some r"
      and eq: "rs_grants r' = (if rid = gt_resource g then gdel gid (rs_grants r) else rs_grants r)"
      by (auto simp: view split: if_splits)
    have old: "gget (rs_grants r) gid' = Some oid' \<longleftrightarrow> (\<exists>g'. live a oid' gid' g' \<and> gt_resource g' = rid)"
      using ok r unfolding links_ok_def by blast
    have uniq: "oid' = oid" if "gid' = gid" "rid = gt_resource g" "live a oid' gid' g'" "gt_resource g' = rid" for g'
      using live_inj [OF ok that(3), of oid g] g that by simp
    have same: "g' = g" if "oid' = oid" "gid' = gid" "live a oid' gid' g'" for g'
      using that g by (simp add: live_def)
    show ?thesis
    proof (cases "rid = gt_resource g \<and> gid' = gid")
      case True
      then have "gget (rs_grants r') gid' = None" by (simp add: eq)
      with True uniq show ?thesis unfolding live_endGrant [OF g st] by (metis option.distinct(1))
    next
      case False
      then have "gget (rs_grants r') gid' = gget (rs_grants r) gid'" by (auto simp: eq)
      moreover have "\<not> (oid' = oid \<and> gid' = gid)" if "live a oid' gid' g'" "gt_resource g' = rid" for g'
        using False same that by blast
      then have "(\<exists>g'. (live a oid' gid' g' \<and> \<not> (oid' = oid \<and> gid' = gid)) \<and> gt_resource g' = rid)
          \<longleftrightarrow> (\<exists>g'. live a oid' gid' g' \<and> gt_resource g' = rid)" by blast
      ultimately show ?thesis by (simp only: live_endGrant [OF g st] old)
    qed
  qed
  moreover have "gget (au_objects ?d) (gt_resource g') \<noteq> None \<and> gr_ID (gt_ref g') = gid' \<and> gr_Resource (gt_ref g') = gt_resource g'"
    if "getGrant ?d oid' gid' = Some g'" for oid' gid' g'
    using that ok g by (auto simp: view links_ok_def live_def split: if_splits)
  ultimately show ?thesis unfolding links_ok_def by blast
qed

lemma activeCount_upd:
  assumes "distinct_keys (ow_grants ow)" and "gget (ow_grants ow) gid = Some g" and "gt_state g = Active" and "state \<noteq> Active"
  shows "activeCount (ow\<lparr>ow_grants := gupd gid (\<lambda>g. g\<lparr>gt_state := state\<rparr>) (ow_grants ow), ow_liveGrants := n\<rparr>) = activeCount ow - 1"
  using assms by (simp add: activeCount_def gsum_gupd)

lemma grants_inv_endGrant:
  assumes inv: "grants_inv a" and st: "state \<noteq> Active"
  shows "grants_inv (endGrantLocked oid gid state a)"
proof (cases "\<exists>g. live a oid gid g")
  case False
  with inv show ?thesis by (simp add: endGrant_idle)
next
  case True
  then obtain g where g: "live a oid gid g" by blast
  let ?d = "endGrantLocked oid gid state a"
  note view = endGrant_view [OF g, of state]
  have wf: "tables_wf a" and lk: "links_ok a" and ex: "excl_ok a" and gen: "gens_ok a" and cnt: "counts_ok a"
    using inv by (simp_all add: grants_inv_def)
  from g obtain ow where ow: "gget (au_owners a) oid = Some ow" and og: "gget (ow_grants ow) gid = Some g" and act: "gt_state g = Active"
    by (auto simp: live_def getGrant_def split: option.splits)
  have dk: "distinct_keys (ow_grants ow)" "distinct_keys (au_owners a)" using wf ow by (auto simp: tables_wf_def)
  have "tables_wf ?d"
    using wf by (auto simp: tables_wf_def view)
  moreover have "links_ok ?d" by (rule links_endGrant [OF lk g st])
  moreover have "excl_ok ?d"
    using ex unfolding excl_ok_def live_endGrant [OF g st] by blast
  moreover have "gens_ok ?d"
  proof -
    have gens: "getGrant ?d oid' gid' = Some g' \<Longrightarrow> \<exists>g0. getGrant a oid' gid' = Some g0 \<and> gt_ref g' = gt_ref g0" for oid' gid' g'
      using g by (auto simp: view live_def split: if_splits)
    show ?thesis
      unfolding gens_ok_def view(5)
    proof (intro conjI allI impI)
      fix oid' gid' g' assume g': "getGrant ?d oid' gid' = Some g'"
      from gens [OF g'] gen show "gr_Generation (gt_ref g') \<le> au_lastGeneration a" "gr_Generation (gt_ref g') \<noteq> 0"
        by (auto simp: gens_ok_def)
      fix oid2 gid2 g2 assume g2: "getGrant ?d oid2 gid2 = Some g2" and ne: "(oid', gid') \<noteq> (oid2, gid2)"
      from gens [OF g'] gens [OF g2] obtain g0 g3 where "getGrant a oid' gid' = Some g0" "gt_ref g' = gt_ref g0"
        "getGrant a oid2 gid2 = Some g3" "gt_ref g2 = gt_ref g3" by blast
      with gen ne show "gr_Generation (gt_ref g') \<noteq> gr_Generation (gt_ref g2)"
        unfolding gens_ok_def by metis
    qed
  qed
  moreover have "counts_ok ?d"
  proof -
    note one = activeCount_upd [OF dk(1) og act st]
    have "gsum (\<lambda>_ ow. activeCount ow) (au_owners ?d) = gsum (\<lambda>_ ow. activeCount ow) (au_owners a) - 1"
      using ow by (simp add: view gsum_gupd [OF dk(2)] one)
    moreover have "activeCount w \<le> opt_GrantsPerOwner (au_options a)" if "gget (au_owners a) o' = Some w" for o' w
      using cnt that unfolding counts_ok_def by metis
    ultimately show ?thesis using cnt ow by (fastforce simp: counts_ok_def view one)
  qed
  ultimately show ?thesis by (simp add: grants_inv_def)
qed

lemma fold_keeps: "(\<And>x s. P s \<Longrightarrow> P (f x s)) \<Longrightarrow> P s \<Longrightarrow> P (fold f xs s)"
  by (induction xs arbitrary: s) auto

lemma grants_inv_expireGrants: "grants_inv a \<Longrightarrow> grants_inv (expireGrantsLocked rid now a)"
  unfolding expireGrantsLocked_def
  by (auto intro!: fold_keeps [where P = grants_inv] grants_inv_endGrant)

section \<open>What the other primitives leave alone\<close>

lemma gframe_finish [simp]: "gframe (finishLocked oid req outcome code a) = gframe a"
proof (cases "getAct a oid req")
  case (Some x)
  have "ostrip (ow\<lparr>ow_actions := acts, ow_queued := n\<rparr>) = ostrip ow" for ow acts n by (simp add: ostrip_def)
  with Some show ?thesis
    by (simp add: finishLocked_def Let_def gframe_updRes gframe_updOwn rstrip_def)
qed (simp add: finishLocked_def)

lemma fold_same: "(\<And>x s. g (f x s) = g s) \<Longrightarrow> g (fold f xs s) = g s"
  by (induction xs arbitrary: s) auto

lemma gframe_expireQueued [simp]: "gframe (expireQueuedLocked rid now a) = gframe a"
  unfolding expireQueuedLocked_def by (rule fold_same [where g = gframe]) simp

lemma gframe_small [simp]:
  "gframe (touchSessionLocked now sid a) = gframe a" "gframe (touchLocked now oid a) = gframe a"
  "gframe (startWorkerLocked rid a) = gframe a" "gframe (holdRes rid n a) = gframe a"
  "gframe (workerExit rid a) = gframe a" "gframe (Fence e a) = gframe a" "gframe (finishNative a) = gframe a"
  "gframe (addAction oid req x a) = gframe a" "gframe (enqueueAction oid req rid until a) = gframe a"
  "gframe (fst (beginNative ctxErr now a)) = gframe a" "gframe (closeBegin a) = gframe a"
  "gframe (fst (closeFinish forget a)) = gframe a" "gframe (forgetDone rid e a) = gframe a"
proof -
  have ow: "ostrip (ow\<lparr>ow_actions := acts\<rparr>) = ostrip ow" "ostrip (ow\<lparr>ow_actions := acts, ow_queued := n\<rparr>) = ostrip ow" for ow acts n
    by (simp_all add: ostrip_def)
  show "gframe (touchSessionLocked now sid a) = gframe a" by (simp add: touchSessionLocked_def)
  then show "gframe (touchLocked now oid a) = gframe a" by (simp add: touchLocked_def touchSessionLocked_def split: option.split)
  show worker: "gframe (startWorkerLocked rid a) = gframe a" for a
    by (simp add: startWorkerLocked_def gframe_updRes rstrip_def split: option.split)
  show "gframe (holdRes rid n a) = gframe a" "gframe (workerExit rid a) = gframe a"
    by (simp_all add: holdRes_def workerExit_def gframe_updRes rstrip_def)
  show "gframe (Fence e a) = gframe a" "gframe (finishNative a) = gframe a" "gframe (closeBegin a) = gframe a"
    "gframe (fst (closeFinish forget a)) = gframe a" "gframe (forgetDone rid e a) = gframe a"
    "gframe (fst (beginNative ctxErr now a)) = gframe a"
    by (simp_all add: Fence_def finishNative_def closeBegin_def closeFinish_def Let_def forgetDone_def beginNative_def split: option.split)
  show "gframe (addAction oid req x a) = gframe a" by (simp add: addAction_def gframe_updOwn ow)
  show "gframe (enqueueAction oid req rid until a) = gframe a"
    by (simp add: enqueueAction_def worker gframe_updRes gframe_updOwn ow rstrip_def)
qed

section \<open>Removing and adding owners and resources\<close>

lemma live_end:
  assumes "state \<noteq> Active"
  shows "live (endGrantLocked oid gid state a) oid' gid' g \<longleftrightarrow> live a oid' gid' g \<and> \<not> (oid' = oid \<and> gid' = gid)"
  using live_endGrant [OF _ assms, of a oid gid _ oid' gid' g] endGrant_idle [of a oid gid state] by metis

lemma live_end_all:
  assumes "state \<noteq> Active"
  shows "live (fold (\<lambda>gid. endGrantLocked oid gid state) gids a) oid' gid' g \<longleftrightarrow> live a oid' gid' g \<and> \<not> (oid' = oid \<and> gid' \<in> set gids)"
  by (induction gids arbitrary: a) (auto simp: live_end [OF assms])

lemma getGrant_delOwner:
  "getGrant (a\<lparr>au_owners := gdel oid (au_owners a)\<rparr>) oid' gid = (if oid' = oid then None else getGrant a oid' gid)"
  by (simp add: getGrant_def)

lemma gsum_zero [simp]: "gsum (\<lambda>_ _. 0) m = 0"
  by (induction m) auto

lemma activeCount_zero:
  assumes "distinct_keys (ow_grants ow)" and "\<And>gid g. gget (ow_grants ow) gid = Some g \<Longrightarrow> gt_state g \<noteq> Active"
  shows "activeCount ow = 0"
proof -
  have "activeCount ow = gsum (\<lambda>_ _. 0) (ow_grants ow)"
    unfolding activeCount_def
    using assms(2) in_set_gget [OF assms(1)] by (intro gsum_cong) auto
  also have "\<dots> = 0" by simp
  finally show ?thesis .
qed

lemma grants_inv_delOwner:
  assumes inv: "grants_inv a" and none: "\<And>gid g. \<not> live a oid gid g"
  shows "grants_inv (a\<lparr>au_owners := gdel oid (au_owners a)\<rparr>)"
proof -
  let ?d = "a\<lparr>au_owners := gdel oid (au_owners a)\<rparr>"
  have wf: "tables_wf a" and lk: "links_ok a" and ex: "excl_ok a" and gen: "gens_ok a" and cnt: "counts_ok a"
    using inv by (simp_all add: grants_inv_def)
  have live: "live ?d oid' gid g \<longleftrightarrow> live a oid' gid g" for oid' gid g
    using none by (auto simp: live_def getGrant_delOwner)
  have fields: "au_objects ?d = au_objects a" "au_lastGeneration ?d = au_lastGeneration a" by simp_all
  have sub: "getGrant ?d oid' gid = Some g \<Longrightarrow> getGrant a oid' gid = Some g" for oid' gid g
    by (simp add: getGrant_delOwner split: if_splits)
  have zero: "activeCount ow = 0" if "gget (au_owners a) oid = Some ow" for ow
  proof (rule activeCount_zero)
    show "distinct_keys (ow_grants ow)" using wf that by (simp add: tables_wf_def)
    show "gt_state g \<noteq> Active" if "gget (ow_grants ow) gid = Some g" for gid g
      using none [of gid g] that \<open>gget (au_owners a) oid = Some ow\<close> by (simp add: live_def getGrant_def)
  qed
  have "tables_wf ?d" using wf by (auto simp: tables_wf_def)
  moreover have "links_ok ?d"
    using lk unfolding links_ok_def live fields using sub by blast
  moreover have "excl_ok ?d" using ex unfolding excl_ok_def live .
  moreover have "gens_ok ?d"
    using gen unfolding gens_ok_def fields using sub by blast
  moreover have "gsum (\<lambda>_ ow. activeCount ow) (gdel oid (au_owners a)) = gsum (\<lambda>_ ow. activeCount ow) (au_owners a)"
    using wf zero by (simp add: gsum_gdel tables_wf_def split: option.split)
  then have "counts_ok ?d" using cnt by (simp add: counts_ok_def)
  ultimately show ?thesis by (simp add: grants_inv_def)
qed

lemma getGrant_finish [simp]: "getGrant (finishLocked oid req outcome code a) = getGrant a"
proof (cases "getAct a oid req")
  case (Some x)
  have "getGrant (updOwn oid (\<lambda>ow. ow\<lparr>ow_actions := f ow, ow_queued := n ow\<rparr>) a) = getGrant a" for f n
    by (auto simp: fun_eq_iff updOwn_def getGrant_def split: option.split)
  moreover have "getGrant (b\<lparr>au_queued := n\<rparr>) = getGrant b" for b n by (simp add: fun_eq_iff getGrant_def)
  ultimately show ?thesis using Some by (simp add: finishLocked_def Let_def)
qed (simp add: finishLocked_def)

lemma gframe_two: "gframe (b\<lparr>au_actions := n, au_owners := m\<rparr>) = gframe (b\<lparr>au_owners := m\<rparr>)"
  by (simp add: gframe_def)

lemma grants_inv_retireOwner: "grants_inv a \<Longrightarrow> grants_inv (retireOwnerLocked oid a)"
proof (cases "gget (au_owners a) oid")
  case (Some ow)
  assume inv: "grants_inv a"
  let ?a1 = "fold (\<lambda>req. finishLocked oid req Cancelled None) (map fst (ow_actions ow)) a"
  let ?a2 = "fold (\<lambda>gid. endGrantLocked oid gid OwnerRetired) (map fst (ow_grants ow)) ?a1"
  have "gframe ?a1 = gframe a" by (rule fold_same [where g = gframe]) simp
  with inv have "grants_inv ?a1" using grants_inv_frame by blast
  then have inv2: "grants_inv ?a2"
    by (rule fold_keeps [where P = grants_inv, rotated]) (simp add: grants_inv_endGrant)
  have "getGrant ?a1 = getGrant a" by (rule fold_same [where g = getGrant]) simp
  then have "\<not> (live ?a1 oid gid g \<and> gid \<notin> set (map fst (ow_grants ow)))" for gid g
    unfolding live_def using Some by (auto simp: getGrant_def dest: gget_Some_key)
  then have "\<not> live ?a2 oid gid g" for gid g
    by (subst live_end_all) (simp, blast)
  then have "grants_inv (?a2\<lparr>au_owners := gdel oid (au_owners ?a2)\<rparr>)" by (rule grants_inv_delOwner [OF inv2])
  moreover have "gframe (retireOwnerLocked oid a) = gframe (?a2\<lparr>au_owners := gdel oid (au_owners ?a2)\<rparr>)"
    using Some by (simp add: retireOwnerLocked_def Let_def gframe_two)
  ultimately show ?thesis using grants_inv_frame by blast
qed (simp add: retireOwnerLocked_def)

lemma grants_inv_retireSession: "grants_inv a \<Longrightarrow> grants_inv (retireSessionLocked sid a)"
proof -
  assume b: "grants_inv a"
  have "grants_inv (fold retireOwnerLocked os a)" for os
    using b by (intro fold_keeps [where P = grants_inv] grants_inv_retireOwner)
  then show ?thesis by (simp add: retireSessionLocked_def Let_def grants_inv_frame [OF gframe_fields(2)] b split: option.split)
qed

lemma grants_inv_expireSessions [simp]: "grants_inv a \<Longrightarrow> grants_inv (expireSessionsLocked now a)"
proof -
  have one: "grants_inv b \<Longrightarrow> grants_inv (expireSession now sid b)" for b sid
    by (simp add: expireSession_def grants_inv_retireSession split: option.split)
  assume "grants_inv a"
  then have "grants_inv (a\<lparr>au_tickets := filter (\<lambda>(_, r). now < tk_expires r) (au_tickets a)\<rparr>)"
    by (simp add: grants_inv_frame [OF gframe_fields(3)])
  then show ?thesis unfolding expireSessionsLocked_def
    by (rule fold_keeps [where P = grants_inv, rotated]) (rule one)
qed

lemma parts_cong:
  assumes "getGrant d = getGrant a"
  shows "excl_ok d = excl_ok a" and "au_lastGeneration d = au_lastGeneration a \<Longrightarrow> gens_ok d = gens_ok a"
    and "au_objects d = au_objects a \<Longrightarrow> links_ok d = links_ok a"
  unfolding excl_ok_def gens_ok_def links_ok_def live_def assms by simp_all

lemma grants_inv_newOwner:
  assumes inv: "grants_inv a" and fresh: "gget (au_owners a) oid = None" and new: "or_Owner (ow_ref ow) = oid"
    "ow_grants ow = []" "ow_liveGrants ow = 0"
  shows "grants_inv (a\<lparr>au_owners := gput oid ow (au_owners a)\<rparr>)"
proof -
  let ?d = "a\<lparr>au_owners := gput oid ow (au_owners a)\<rparr>"
  have same: "getGrant ?d = getGrant a"
    using fresh new by (auto simp: fun_eq_iff getGrant_def split: option.split)
  have zero: "activeCount ow = 0" using new by (simp add: activeCount_def)
  then have "gsum (\<lambda>_ ow. activeCount ow) (gput oid ow (au_owners a)) = gsum (\<lambda>_ ow. activeCount ow) (au_owners a)"
    using inv fresh by (simp add: gsum_gput grants_inv_def tables_wf_def)
  then have "counts_ok ?d" using inv new zero by (simp add: counts_ok_def grants_inv_def)
  moreover have "tables_wf ?d" using inv new by (simp add: tables_wf_def grants_inv_def)
  moreover have "links_ok ?d" "excl_ok ?d" "gens_ok ?d"
    using inv by (simp_all add: grants_inv_def parts_cong [OF same])
  ultimately show ?thesis by (simp add: grants_inv_def)
qed

lemma grants_inv_newResource:
  assumes inv: "grants_inv a" and fresh: "gget (au_objects a) rid = None" and new: "rs_id r = rid" "rs_grants r = []"
  shows "grants_inv (a\<lparr>au_objects := gput rid r (au_objects a)\<rparr>)"
proof -
  let ?d = "a\<lparr>au_objects := gput rid r (au_objects a)\<rparr>"
  have same: "getGrant ?d = getGrant a" by (simp add: fun_eq_iff getGrant_def)
  have lk: "links_ok a" using inv by (simp add: grants_inv_def)
  have "gt_resource g \<noteq> rid" if "getGrant a oid gid = Some g" for oid gid g
    using lk that fresh unfolding links_ok_def by metis
  then have "links_ok ?d"
    using lk new unfolding links_ok_def live_def same by auto
  moreover have "tables_wf ?d" using inv new by (simp add: tables_wf_def grants_inv_def)
  moreover have "excl_ok ?d" "gens_ok ?d" "counts_ok ?d"
    using inv by (simp_all add: grants_inv_def parts_cong [OF same] counts_ok_def)
  ultimately show ?thesis by (simp add: grants_inv_def)
qed

section \<open>Installing a grant\<close>

lemma install_view:
  assumes "gget (au_owners a) oid = Some ow"
  shows "getGrant (installGrant oid gid g a) oid' gid' = (if oid' = oid \<and> gid' = gid then Some g else getGrant a oid' gid')"
    and "au_objects (installGrant oid gid g a) = gupd (gt_resource g) (\<lambda>r. r\<lparr>rs_grants := gput gid oid (rs_grants r)\<rparr>) (au_objects a)"
    and "au_owners (installGrant oid gid g a)
         = gupd oid (\<lambda>ow. ow\<lparr>ow_grants := gput gid g (ow_grants ow), ow_liveGrants := ow_liveGrants ow + 1\<rparr>) (au_owners a)"
    and "au_grants (installGrant oid gid g a) = au_grants a + 1"
    and "au_lastGeneration (installGrant oid gid g a) = au_lastGeneration a"
    and "au_options (installGrant oid gid g a) = au_options a"
  using assms
  by (cases "gget (au_owners a) oid'") (auto simp: installGrant_def updRes_def updOwn_def getGrant_def)

lemma compatible_live:
  assumes "links_ok a" and "compatibleLocked rid oid mode a" and "live a oid' gid' g'" and "gt_resource g' = rid"
  shows "oid' \<noteq> oid \<and> gt_mode g' \<noteq> Exclusive \<and> mode \<noteq> Exclusive"
proof -
  have "gget (au_objects a) rid \<noteq> None"
    using assms(1,3,4) unfolding links_ok_def live_def by blast
  then obtain r where r: "gget (au_objects a) rid = Some r" by blast
  then have "gget (rs_grants r) gid' = Some oid'" using assms(1,3,4) unfolding links_ok_def by blast
  then have "(gid', oid') \<in> set (resGrants a rid)" using r by (simp add: resGrants_def gget_in_set)
  with assms(2,3) show ?thesis by (auto simp: compatibleLocked_def list_all_iff modeOf_def live_def)
qed

lemma grants_inv_install:
  assumes inv: "grants_inv a" and ow: "gget (au_owners a) oid = Some ow" and res: "gget (au_objects a) (gt_resource g) = Some r"
    and fresh: "\<And>oid'. getGrant a oid' gid = None" and g: "gt_state g = Active" "gr_ID (gt_ref g) = gid" "gr_Resource (gt_ref g) = gt_resource g"
    and last: "au_lastGeneration a \<noteq> MaxUint64" and gen: "gr_Generation (gt_ref g) = au_lastGeneration a + 1"
    and compat: "compatibleLocked (gt_resource g) oid (gt_mode g) a"
    and room: "au_grants a < opt_MaxGrants (au_options a)" "ow_liveGrants ow < opt_GrantsPerOwner (au_options a)"
  shows "grants_inv (installGrant oid gid g (a\<lparr>au_lastGeneration := gr_Generation (gt_ref g)\<rparr>))"
proof -
  let ?b = "a\<lparr>au_lastGeneration := gr_Generation (gt_ref g)\<rparr>"
  let ?d = "installGrant oid gid g ?b"
  have wf: "tables_wf a" and lk: "links_ok a" and ex: "excl_ok a" and gens: "gens_ok a" and cnt: "counts_ok a"
    using inv by (simp_all add: grants_inv_def)
  have owb: "gget (au_owners ?b) oid = Some ow" using ow by simp
  note view = install_view [OF owb, of gid g, simplified]
  have getb: "getGrant ?b = getGrant a" by (simp add: fun_eq_iff getGrant_def)
  have get: "getGrant ?d oid' gid' = (if oid' = oid \<and> gid' = gid then Some g else getGrant a oid' gid')" for oid' gid'
    using view(1) [of oid' gid'] by (simp add: getb)
  have live: "live ?d oid' gid' g' \<longleftrightarrow> live a oid' gid' g' \<or> oid' = oid \<and> gid' = gid \<and> g' = g" for oid' gid' g'
    using fresh [of oid] g(1) by (auto simp: live_def get)
  have "tables_wf ?d" using wf by (auto simp: tables_wf_def view)
  moreover have "links_ok ?d"
  proof -
    have "gget (rs_grants r') gid' = Some oid' \<longleftrightarrow> (\<exists>g'. live ?d oid' gid' g' \<and> gt_resource g' = rid)"
      if r': "gget (au_objects ?d) rid = Some r'" for rid r' gid' oid'
    proof -
      from r' obtain r where r: "gget (au_objects a) rid = Some r"
        and eq: "rs_grants r' = (if rid = gt_resource g then gput gid oid (rs_grants r) else rs_grants r)"
        by (auto simp: view split: if_splits)
      have old: "gget (rs_grants r) gid' = Some oid' \<longleftrightarrow> (\<exists>g'. live a oid' gid' g' \<and> gt_resource g' = rid)"
        using lk r unfolding links_ok_def by blast
      have none: "\<not> live a oid' gid g'" for g' using fresh by (simp add: live_def)
      show ?thesis
      proof (cases "rid = gt_resource g \<and> gid' = gid")
        case True
        with none show ?thesis unfolding live by (auto simp: eq)
      next
        case False
        then have "gget (rs_grants r') gid' = gget (rs_grants r) gid'" by (auto simp: eq)
        moreover have "(\<exists>g'. live ?d oid' gid' g' \<and> gt_resource g' = rid) \<longleftrightarrow> (\<exists>g'. live a oid' gid' g' \<and> gt_resource g' = rid)"
          unfolding live using False by blast
        ultimately show ?thesis using old by simp
      qed
    qed
    moreover have "gget (au_objects ?d) (gt_resource g') \<noteq> None \<and> gr_ID (gt_ref g') = gid' \<and> gr_Resource (gt_ref g') = gt_resource g'"
      if "getGrant ?d oid' gid' = Some g'" for oid' gid' g'
      using that lk g res by (auto simp: get view links_ok_def split: if_splits)
    ultimately show ?thesis unfolding links_ok_def by blast
  qed
  moreover have "excl_ok ?d"
    using ex compatible_live [OF lk compat] unfolding excl_ok_def live by metis
  moreover have "gens_ok ?d"
  proof -
    have lt: "gr_Generation (gt_ref g') < gr_Generation (gt_ref g)" if "getGrant a oid' gid' = Some g'" for oid' gid' g'
      using gens that last gen unfolding gens_ok_def by (metis word_Suc_fresh)
    have "gr_Generation (gt_ref g) \<noteq> 0"
      using gen last word_Suc_fresh [of 0 "au_lastGeneration a"] by auto
    moreover have cases: "h = g \<and> o' = oid \<and> gid' = gid \<or> getGrant a o' gid' = Some h" if "getGrant ?d o' gid' = Some h" for o' gid' h
      using that by (simp add: get split: if_splits)
    moreover have "gr_Generation (gt_ref h) \<noteq> gr_Generation (gt_ref h')"
      if h: "getGrant ?d o1 g1 = Some h" and h': "getGrant ?d o2 g2 = Some h'" and ne: "(o1, g1) \<noteq> (o2, g2)" for o1 g1 h o2 g2 h'
    proof (cases "getGrant a o1 g1 = Some h \<and> getGrant a o2 g2 = Some h'")
      case True
      with gens ne show ?thesis unfolding gens_ok_def by blast
    next
      case False
      with cases [OF h] cases [OF h'] ne have "h = g \<and> getGrant a o2 g2 = Some h' \<or> h' = g \<and> getGrant a o1 g1 = Some h" by blast
      with lt [of o1 g1 h] lt [of o2 g2 h'] show ?thesis by (elim disjE conjE) simp_all
    qed
    moreover have "gr_Generation (gt_ref h) \<le> gr_Generation (gt_ref g) \<and> gr_Generation (gt_ref h) \<noteq> 0"
      if h: "getGrant ?d o' gid' = Some h" for o' gid' h
      using cases [OF h] lt [of o' gid' h] gens \<open>gr_Generation (gt_ref g) \<noteq> 0\<close> unfolding gens_ok_def
      by (elim disjE conjE) (simp, blast intro: order.strict_implies_order)
    ultimately show ?thesis unfolding gens_ok_def view(5) by blast
  qed
  moreover have "counts_ok ?d"
  proof -
    have dk: "distinct_keys (au_owners a)" "distinct_keys (ow_grants ow)" using wf ow by (auto simp: tables_wf_def)
    have no: "gget (ow_grants ow) gid = None" using fresh [of oid] ow by (simp add: getGrant_def)
    have one: "activeCount (ow\<lparr>ow_grants := gput gid g (ow_grants ow), ow_liveGrants := n\<rparr>) = activeCount ow + 1" for n
      using g(1) no dk(2) by (simp add: activeCount_def gsum_gput)
    then have "gsum (\<lambda>_ ow. activeCount ow) (au_owners ?d) = gsum (\<lambda>_ ow. activeCount ow) (au_owners a) + 1"
      using ow by (simp add: view gsum_gupd [OF dk(1)])
    moreover have "ow_liveGrants ow = activeCount ow" using cnt ow by (simp add: counts_ok_def)
    ultimately show ?thesis using cnt room ow by (auto simp: counts_ok_def view one)
  qed
  ultimately show ?thesis by (simp add: grants_inv_def)
qed

lemma grants_inv_grantLocked:
  assumes inv: "grants_inv a" and res: "\<And>x rid. getAct a oid req = Some x \<Longrightarrow> ac_resource x = Some rid \<Longrightarrow>
      gget (au_objects a) rid \<noteq> None \<and> compatibleLocked rid oid (requestMode a oid req) a
      \<and> (\<forall>oid'. getGrant a oid' (newGrantID mac nonce oid rid (au_lastGeneration a + 1) a) = None)"
  shows "grants_inv (fst (grantLocked mac clk nonce oid req a))"
proof (cases "\<exists>ow x request rid. gget (au_owners a) oid = Some ow \<and> getAct a oid req = Some x \<and> rc_Acquire (ac_receipt x) = Some request
    \<and> ac_resource x = Some rid \<and> \<not> (au_grants a \<ge> opt_MaxGrants (au_options a) \<or> ow_liveGrants ow \<ge> opt_GrantsPerOwner (au_options a))
    \<and> au_lastGeneration a \<noteq> MaxUint64")
  case True
  then obtain ow x request rid where ow: "gget (au_owners a) oid = Some ow" and x: "getAct a oid req = Some x"
    and acq: "rc_Acquire (ac_receipt x) = Some request" and rid: "ac_resource x = Some rid"
    and room: "\<not> (au_grants a \<ge> opt_MaxGrants (au_options a) \<or> ow_liveGrants ow \<ge> opt_GrantsPerOwner (au_options a))"
    and last: "au_lastGeneration a \<noteq> MaxUint64" by blast
  let ?gen = "au_lastGeneration a + 1"
  let ?gid = "newGrantID mac nonce oid rid ?gen a"
  let ?g = "\<lparr>gt_resource = rid, gt_ref = \<lparr>gr_ID = ?gid, gr_Resource = rid, gr_Generation = ?gen\<rparr>, gt_mode = aq_Mode request,
      gt_state = Active, gt_deadline = clk 0 + aq_TTL request, gt_revision = 1, gt_release = None\<rparr>"
  from res [OF x rid] obtain r where r: "gget (au_objects a) rid = Some r" and compat: "compatibleLocked rid oid (requestMode a oid req) a"
    and fresh: "\<And>oid'. getGrant a oid' ?gid = None" by blast
  have "requestMode a oid req = aq_Mode request" using x acq by (simp add: requestMode_def)
  with compat have "grants_inv (installGrant oid ?gid ?g (a\<lparr>au_lastGeneration := gr_Generation (gt_ref ?g)\<rparr>))"
    using r fresh last room by (intro grants_inv_install [OF inv ow]) auto
  moreover have "gframe (fst (grantLocked mac clk nonce oid req a))
      = gframe (installGrant oid ?gid ?g (a\<lparr>au_lastGeneration := gr_Generation (gt_ref ?g)\<rparr>))"
    using ow x acq rid room last by (simp add: grantLocked_def Let_def)
  ultimately show ?thesis using grants_inv_frame by blast
next
  case False
  then have "fst (grantLocked mac clk nonce oid req a) = a"
    by (auto simp: grantLocked_def Let_def split: option.split)
  with inv show ?thesis by simp
qed

end
