(* ===== verification/LockPrims.thy ===== *)
theory LockPrims
  imports LockGrants
begin

text \<open>
  The primitive transitions of the lock authority: every critical section of
  \<^verbatim>\<open>packages/locking\<close> is a sequence of them, each with the guard under which the
  code takes it. The invariant of the grant table and the invariant of sessions, owners and
  budgets (\<open>owner_inv\<close>) are kept by every primitive.
\<close>

section \<open>Primitive transitions\<close>

text \<open>What a primitive may change of an action: nothing that the queue depends on, not its
  intent, and nothing of a settled receipt.\<close>

definition act_keeps :: "actionRecord \<Rightarrow> actionRecord \<Rightarrow> bool" where
  "act_keeps x y \<longleftrightarrow> rc_Outcome (ac_receipt y) = rc_Outcome (ac_receipt x) \<and> ac_waitUntil y = ac_waitUntil x
     \<and> rc_Kind (ac_receipt y) = rc_Kind (ac_receipt x) \<and> rc_Request (ac_receipt y) = rc_Request (ac_receipt x)
     \<and> rc_Acquire (ac_receipt y) = rc_Acquire (ac_receipt x) \<and> rc_Renew (ac_receipt y) = rc_Renew (ac_receipt x)
     \<and> ac_tombstone y = ac_tombstone x
     \<and> (rc_Outcome (ac_receipt x) \<noteq> Pending \<longrightarrow> ac_receipt y = ac_receipt x)"

definition res_keeps :: "(resourceRecord \<Rightarrow> resourceRecord) \<Rightarrow> bool" where
  "res_keeps f \<longleftrightarrow> (\<forall>r. f r = r\<lparr>rs_referenceUntil := rs_referenceUntil (f r), rs_retired := rs_retired (f r), rs_worker := rs_worker (f r)\<rparr>)"

definition grant_keeps :: "instant \<Rightarrow> grantRecord \<Rightarrow> grantRecord \<Rightarrow> bool" where
  "grant_keeps limit g h \<longleftrightarrow> h = g\<lparr>gt_deadline := gt_deadline h, gt_revision := gt_revision h, gt_release := gt_release h\<rparr>
     \<and> gt_deadline g \<le> gt_deadline h \<and> (gt_deadline h = gt_deadline g \<or> gt_deadline h \<le> limit)"

definition granting :: "instant \<Rightarrow> OwnerID \<Rightarrow> RequestID \<Rightarrow> GrantID \<Rightarrow> grantRecord \<Rightarrow> Authority \<Rightarrow> bool" where
  "granting now oid req gid g a \<longleftrightarrow>
     gt_state g = Active \<and> gt_revision g = 1 \<and> gr_ID (gt_ref g) = gid \<and> gr_Resource (gt_ref g) = gt_resource g
     \<and> gr_Generation (gt_ref g) = au_lastGeneration a + 1 \<and> au_lastGeneration a \<noteq> MaxUint64
     \<and> (\<forall>oid'. getGrant a oid' gid = None)
     \<and> au_fenced a = None \<and> \<not> au_closed a \<and> au_recoveryUntil a \<le> now \<and> gt_deadline g \<le> now + au_watermark a
     \<and> au_grants a < opt_MaxGrants (au_options a)
     \<and> (\<exists>ow. gget (au_owners a) oid = Some ow \<and> ow_liveGrants ow < opt_GrantsPerOwner (au_options a))
     \<and> (\<exists>r. gget (au_objects a) (gt_resource g) = Some r \<and> \<not> rs_busy r \<and> \<not> rs_retired r \<and> 0 < rs_holds r
          \<and> (rs_queue r = [] \<or> hd (rs_queue r) = (oid, req)))
     \<and> compatibleLocked (gt_resource g) oid (gt_mode g) a
     \<and> (\<exists>x request. getAct a oid req = Some x \<and> rc_Outcome (ac_receipt x) = Pending \<and> ac_resource x = Some (gt_resource g)
          \<and> rc_Acquire (ac_receipt x) = Some request \<and> aq_Mode request = gt_mode g)"

text \<open>What a run of primitives may do beyond its ordinary work: end grants of busy resources,
  create owners, enter actions into a queue, add backend keys, drop resources.\<close>

record allowance =
  al_ending :: "ResourceID set"
  al_minted :: "OwnerID set"
  al_joining :: "(OwnerID \<times> RequestID) set"
  al_found :: "BackendKey set"
  al_dropped :: "ResourceID set"

definition nothing :: allowance where
  "nothing = \<lparr>al_ending = {}, al_minted = {}, al_joining = {}, al_found = {}, al_dropped = {}\<rparr>"

lemma nothing_fields [simp]:
  "al_ending nothing = {}" "al_minted nothing = {}" "al_joining nothing = {}" "al_found nothing = {}" "al_dropped nothing = {}"
  by (simp_all add: nothing_def)

inductive prim :: "instant \<Rightarrow> allowance \<Rightarrow> Authority \<Rightarrow> Authority \<Rightarrow> bool"
  for now :: instant and al :: allowance where
  prim_tickets: "prim now al a (a\<lparr>au_tickets := filter P (au_tickets a)\<rparr>)"
| prim_touch: "(\<And>s. \<exists>e \<ge> se_expires s. f s = s\<lparr>se_expires := e\<rparr>) \<Longrightarrow> prim now al a (updSess sid f a)"
| prim_endGrant: "state \<noteq> Active \<Longrightarrow> (\<And>g. live a oid gid g \<Longrightarrow> busyRes a (gt_resource g) \<Longrightarrow> gt_resource g \<in> al_ending al)
    \<Longrightarrow> prim now al a (endGrantLocked oid gid state a)"
| prim_finish: "outcome \<noteq> Pending \<Longrightarrow> prim now al a (finishLocked oid req outcome code a)"
| prim_delOwner: "gget (au_owners a) oid = Some ow \<Longrightarrow> (\<And>gid g. \<not> live a oid gid g)
    \<Longrightarrow> (\<And>req x. getAct a oid req = Some x \<Longrightarrow> rc_Outcome (ac_receipt x) \<noteq> Pending)
    \<Longrightarrow> prim now al a (updSess (or_Session (ow_ref ow)) (\<lambda>s. s\<lparr>se_owners := remove1 oid (se_owners s)\<rparr>)
               (a\<lparr>au_actions := au_actions a - int (length (ow_actions ow)), au_owners := gdel oid (au_owners a)\<rparr>))"
| prim_delSession: "gget (au_sessions a) sid = Some s \<Longrightarrow> se_owners s = [] \<Longrightarrow> prim now al a (a\<lparr>au_sessions := gdel sid (au_sessions a)\<rparr>)"
| prim_newSession: "gget (au_sessions a) sid = None \<Longrightarrow> gget (au_tickets a) ticket = None
    \<Longrightarrow> int (length (au_tickets a)) < opt_MaxTickets (au_options a) \<Longrightarrow> int (length (au_sessions a)) < opt_MaxSessions (au_options a)
    \<Longrightarrow> se_id s = sid \<Longrightarrow> se_owners s = [] \<Longrightarrow> se_creates s = []
    \<Longrightarrow> prim now al a (a\<lparr>au_sessions := gput sid s (au_sessions a), au_tickets := gput ticket tr (au_tickets a)\<rparr>)"
| prim_newOwner: "oid \<in> al_minted al \<Longrightarrow> gget (au_sessions a) sid = Some s \<Longrightarrow> gget (au_owners a) oid = None \<Longrightarrow> gget (se_creates s) request = None
    \<Longrightarrow> int (length (au_owners a)) < opt_MaxOwners (au_options a) \<Longrightarrow> int (length (se_owners s)) < opt_OwnersPerSession (au_options a)
    \<Longrightarrow> int (length (se_creates s)) < opt_OwnerActionsPerSession (au_options a)
    \<Longrightarrow> prim now al a (updSess sid (\<lambda>s. s\<lparr>se_owners := oid # se_owners s, se_creates := gput request oid (se_creates s)\<rparr>)
          (a\<lparr>au_owners := gput oid \<lparr>ow_ref = \<lparr>or_Session = sid, or_Owner = oid\<rparr>, ow_actions = [], ow_grants = [],
                                     ow_liveGrants = 0, ow_queued = 0\<rparr> (au_owners a)\<rparr>))"
| prim_newResource: "gget (au_objects a) rid = None \<Longrightarrow> gget (au_keys a) key = None
    \<Longrightarrow> int (length (au_resources a)) < opt_MaxResources (au_options a) \<Longrightarrow> key \<noteq> [] \<Longrightarrow> key \<in> al_found al
    \<Longrightarrow> prim now al a (a\<lparr>au_objects := gput rid \<lparr>rs_id = rid, rs_key = key, rs_referenceUntil = 0, rs_grants = [],
                                           rs_queue = [], rs_busy = False, rs_retired = False, rs_worker = False, rs_holds = 0,
                                           rs_forgetting = False\<rparr> (au_objects a),
                                         au_resources := rid # au_resources a, au_keys := gput key rid (au_keys a)\<rparr>)"
| prim_addAction: "gget (au_owners a) oid \<noteq> None \<Longrightarrow> getAct a oid req = None \<Longrightarrow> \<not> actionsFull oid a
    \<Longrightarrow> ac_waitUntil x = None \<Longrightarrow> ac_resource x = None \<Longrightarrow> ac_grant x = None \<Longrightarrow> rc_Request (ac_receipt x) = req
    \<Longrightarrow> prim now al a (addAction oid req x a)"
| prim_updAct: "(\<And>x. getAct a oid req = Some x \<Longrightarrow> act_keeps x (f x) \<and>
      (ac_resource (f x) = ac_resource x \<or> ac_resource x = None \<and> ac_waitUntil x = None
         \<and> (\<exists>rid. ac_resource (f x) = Some rid \<and> gget (au_objects a) rid \<noteq> None)))
    \<Longrightarrow> prim now al a (updAct oid req f a)"
| prim_enqueue: "getAct a oid req = Some x \<Longrightarrow> rc_Outcome (ac_receipt x) = Pending \<Longrightarrow> ac_waitUntil x = None \<Longrightarrow> ac_resource x = Some rid
    \<Longrightarrow> rc_Acquire (ac_receipt x) \<noteq> None \<Longrightarrow> gget (au_objects a) rid = Some r \<Longrightarrow> \<not> rs_retired r \<Longrightarrow> 0 < rs_holds r \<Longrightarrow> \<not> queueFull oid rid a \<Longrightarrow> (oid, req) \<in> al_joining al
    \<Longrightarrow> prim now al a ((updRes rid (\<lambda>r. r\<lparr>rs_queue := rs_queue r @ [(oid, req)]\<rparr>)
           (updOwn oid (\<lambda>ow. ow\<lparr>ow_actions := gupd req (\<lambda>x. x\<lparr>ac_waitUntil := Some until\<rparr>) (ow_actions ow),
                             ow_queued := ow_queued ow + 1\<rparr>) a))
        \<lparr>au_queued := au_queued a + 1\<rparr>)"
| prim_updRes: "res_keeps f \<Longrightarrow> prim now al a (updRes rid f a)"
| prim_forgetting: "gget (au_objects a) rid = Some r \<Longrightarrow> forgettable t r \<Longrightarrow> prim now al a (updRes rid (\<lambda>r. r\<lparr>rs_forgetting := True\<rparr>) a)"
| prim_forget: "gget (au_objects a) rid = Some r \<Longrightarrow> rs_forgetting r \<Longrightarrow> rid \<in> set (au_resources a) \<Longrightarrow> rid \<in> al_dropped al
    \<Longrightarrow> prim now al a (a\<lparr>au_keys := gdel (rs_key r) (au_keys a), au_resources := remove1 rid (au_resources a)\<rparr>)"
| prim_updGrant: "(\<And>g. grant_keeps (now + au_watermark a) g (f g)) \<Longrightarrow> prim now al a (updGrant oid gid f a)"
| prim_install: "granting now oid req gid g a
    \<Longrightarrow> prim now al a (installGrant oid gid g (a\<lparr>au_lastGeneration := gr_Generation (gt_ref g)\<rparr>))"
| prim_fence: "prim now al a (a\<lparr>au_fenced := Some e\<rparr>)"
| prim_native: "prim now al a (a\<lparr>au_nativeCalls := n\<rparr>)"
| prim_close: "prim now al a (a\<lparr>au_closed := True\<rparr>)"
| prim_closed: "au_closed a \<Longrightarrow> set (au_resources a) \<subseteq> al_dropped al \<Longrightarrow> prim now al a (a\<lparr>au_resources := [], au_keys := [], au_closeErr := e\<rparr>)"

abbreviation prims :: "instant \<Rightarrow> allowance \<Rightarrow> Authority \<Rightarrow> Authority \<Rightarrow> bool" where
  "prims now al \<equiv> (prim now al)\<^sup>*\<^sup>*"

lemma prims_trans [trans]: "prims now al a b \<Longrightarrow> prims now al b c \<Longrightarrow> prims now al a c"
  by (rule rtranclp_trans)

lemma prims_one: "prim now al a b \<Longrightarrow> prims now al a b"
  by (rule r_into_rtranclp)

lemma prims_fold:
  assumes "\<And>x b. P b \<Longrightarrow> prims now al b (f x b) \<and> P (f x b)" and "P a"
  shows "prims now al a (fold f xs a) \<and> P (fold f xs a)"
  using assms(2)
proof (induction xs arbitrary: a)
  case (Cons x xs)
  from assms(1) [OF Cons.prems] have step: "prims now al a (f x a)" and keep: "P (f x a)" by blast+
  from Cons.IH [OF keep] step show ?case by (simp add: rtranclp_trans [of "prim now al"])
qed simp

lemma gstrip_upd: "gstrip (g\<lparr>gt_deadline := d, gt_revision := v, gt_release := x\<rparr>) = gstrip g"
  by (simp add: gstrip_def)

lemma rstrip_flags: "rstrip (r\<lparr>rs_referenceUntil := u, rs_retired := b, rs_worker := w\<rparr>) = rstrip r"
  by (simp add: rstrip_def)

lemma grants_inv_by_frame: "grants_inv a \<Longrightarrow> gframe a' = gframe a \<Longrightarrow> grants_inv a'"
  using grants_inv_frame by blast

lemma grants_inv_prim:
  assumes "prim now al a b" and "grants_inv a"
  shows "grants_inv b"
  using assms
proof (induction rule: prim.induct)
  case (prim_endGrant state a oid gid)
  then show ?case by (simp add: grants_inv_endGrant)
next
  case (prim_delOwner a oid ow)
  have "grants_inv (a\<lparr>au_owners := gdel oid (au_owners a)\<rparr>)"
    using prim_delOwner by (intro grants_inv_delOwner) auto
  then show ?case by (rule grants_inv_by_frame) (simp add: gframe_two)
next
  case (prim_newOwner oid a sid s request)
  have "grants_inv (a\<lparr>au_owners := gput oid \<lparr>ow_ref = \<lparr>or_Session = sid, or_Owner = oid\<rparr>, ow_actions = [], ow_grants = [],
                                     ow_liveGrants = 0, ow_queued = 0\<rparr> (au_owners a)\<rparr>)"
    using prim_newOwner by (intro grants_inv_newOwner) auto
  then show ?case by (rule grants_inv_by_frame) simp
next
  case (prim_newResource a rid key)
  let ?r = "\<lparr>rs_id = rid, rs_key = key, rs_referenceUntil = 0, rs_grants = [], rs_queue = [], rs_busy = False, rs_retired = False,
      rs_worker = False, rs_holds = 0, rs_forgetting = False\<rparr>"
  have "grants_inv (a\<lparr>au_objects := gput rid ?r (au_objects a)\<rparr>)"
    using prim_newResource by (intro grants_inv_newResource) auto
  then show ?case by (rule grants_inv_by_frame) (simp only: gframe_fields)
next
  case (prim_addAction a oid req x)
  show ?case by (rule grants_inv_by_frame [OF \<open>grants_inv a\<close>]) simp
next
  case (prim_finish outcome a oid req code)
  show ?case by (rule grants_inv_by_frame [OF \<open>grants_inv a\<close>]) simp
next
  case (prim_enqueue a oid req x rid r until)
  have ow: "ostrip (ow\<lparr>ow_actions := acts, ow_queued := n\<rparr>) = ostrip ow" for ow acts n by (simp add: ostrip_def)
  show ?case
    by (rule grants_inv_by_frame [OF \<open>grants_inv a\<close>]) (simp add: gframe_updRes gframe_updOwn ow rstrip_def)
next
  case (prim_updRes f a rid)
  have "rstrip (f r) = rstrip r" for r
    using prim_updRes(1) unfolding res_keeps_def by (metis rstrip_flags)
  then show ?case by (intro grants_inv_by_frame [OF \<open>grants_inv a\<close>] gframe_updRes)
next
  case (prim_forgetting a rid r t)
  show ?case by (rule grants_inv_by_frame [OF \<open>grants_inv a\<close>]) (simp add: gframe_updRes rstrip_def)
next
  case (prim_updGrant a f oid gid)
  have "gstrip (f g) = gstrip g" for g
    using prim_updGrant(1) [of g] unfolding grant_keeps_def by (metis gstrip_upd)
  then show ?case by (intro grants_inv_by_frame [OF \<open>grants_inv a\<close>] gframe_updGrant)
next
  case (prim_install oid req gid g a)
  then have inv: "grants_inv a" and gr: "granting now oid req gid g a" by simp_all
  from gr obtain ow r where ow: "gget (au_owners a) oid = Some ow" "ow_liveGrants ow < opt_GrantsPerOwner (au_options a)"
    and r: "gget (au_objects a) (gt_resource g) = Some r" unfolding granting_def by blast
  show ?case by (rule grants_inv_install [OF inv ow(1) r]) (use gr ow(2) in \<open>simp_all add: granting_def\<close>)
qed (auto elim!: grants_inv_by_frame)

section \<open>Sessions, owners and budgets\<close>

definition owners_linked :: "Authority \<Rightarrow> bool" where
  "owners_linked a \<longleftrightarrow> distinct_keys (au_sessions a) \<and> distinct_keys (au_owners a)
     \<and> (\<forall>sid s. gget (au_sessions a) sid = Some s \<longrightarrow> se_id s = sid \<and> distinct (se_owners s)
          \<and> (\<forall>oid. oid \<in> set (se_owners s) \<longleftrightarrow> (\<exists>ow. gget (au_owners a) oid = Some ow \<and> or_Session (ow_ref ow) = sid)))
     \<and> (\<forall>oid ow. gget (au_owners a) oid = Some ow \<longrightarrow> or_Owner (ow_ref ow) = oid \<and> gget (au_sessions a) (or_Session (ow_ref ow)) \<noteq> None)"

definition owners_bounded :: "Authority \<Rightarrow> bool" where
  "owners_bounded a \<longleftrightarrow> int (length (au_sessions a)) \<le> opt_MaxSessions (au_options a) \<and> distinct_keys (au_tickets a)
     \<and> int (length (au_tickets a)) \<le> opt_MaxTickets (au_options a) \<and> int (length (au_owners a)) \<le> opt_MaxOwners (au_options a)
     \<and> int (length (au_resources a)) \<le> opt_MaxResources (au_options a)
     \<and> (\<forall>sid s. gget (au_sessions a) sid = Some s \<longrightarrow> int (length (se_owners s)) \<le> opt_OwnersPerSession (au_options a)
          \<and> int (length (se_creates s)) \<le> opt_OwnerActionsPerSession (au_options a))
     \<and> (\<forall>oid ow. gget (au_owners a) oid = Some ow \<longrightarrow> distinct_keys (ow_actions ow)
          \<and> int (length (ow_actions ow)) \<le> opt_ActionsPerOwner (au_options a))
     \<and> au_actions a = gsum (\<lambda>_ ow. int (length (ow_actions ow))) (au_owners a) \<and> au_actions a \<le> opt_MaxActions (au_options a)
     \<and> 0 \<le> opt_OwnersPerSession (au_options a) \<and> 0 \<le> opt_OwnerActionsPerSession (au_options a) \<and> 0 \<le> opt_ActionsPerOwner (au_options a)"

definition owner_inv :: "Authority \<Rightarrow> bool" where
  "owner_inv a \<longleftrightarrow> owners_linked a \<and> owners_bounded a"

definition ow_strip :: "ownerRecord \<Rightarrow> ownerRecord" where
  "ow_strip ow = ow\<lparr>ow_actions := map (map_prod id (\<lambda>_. tombstone [])) (ow_actions ow), ow_grants := [], ow_liveGrants := 0, ow_queued := 0\<rparr>"

definition se_strip :: "sessionRecord \<Rightarrow> sessionRecord" where
  "se_strip s = s\<lparr>se_expires := 0\<rparr>"

definition oframe :: "Authority \<Rightarrow> Authority" where
  "oframe a = a\<lparr>au_watermark := 0, au_sessions := map (map_prod id se_strip) (au_sessions a),
     au_owners := map (map_prod id ow_strip) (au_owners a), au_objects := [], au_keys := [], au_lastGeneration := 0, au_grants := 0,
     au_queued := 0, au_publications := 0, au_nativeCalls := 0, au_fenced := None, au_closed := False, au_closeErr := None\<rparr>"

lemma owner_inv_oframe: "owner_inv (oframe a) = owner_inv a"
proof -
  have fields: "gget (au_owners (oframe a)) oid = map_option ow_strip (gget (au_owners a) oid)"
    "gget (au_sessions (oframe a)) sid = map_option se_strip (gget (au_sessions a) sid)"
    "map fst (au_owners (oframe a)) = map fst (au_owners a)" "map fst (au_sessions (oframe a)) = map fst (au_sessions a)"
    "length (au_owners (oframe a)) = length (au_owners a)" "length (au_sessions (oframe a)) = length (au_sessions a)"
    "au_tickets (oframe a) = au_tickets a" "au_resources (oframe a) = au_resources a"
    "au_actions (oframe a) = au_actions a" "au_options (oframe a) = au_options a" for oid sid
    by (simp_all add: oframe_def gget_map_strip)
  have ow [simp]: "ow_ref (ow_strip ow) = ow_ref ow" "map fst (ow_actions (ow_strip ow)) = map fst (ow_actions ow)"
    "length (ow_actions (ow_strip ow)) = length (ow_actions ow)" for ow
    by (simp_all add: ow_strip_def)
  have se [simp]: "se_id (se_strip s) = se_id s" "se_owners (se_strip s) = se_owners s" "se_creates (se_strip s) = se_creates s" for s
    by (simp_all add: se_strip_def)
  have sum: "gsum (\<lambda>_ ow. int (length (ow_actions ow))) (au_owners (oframe a)) = gsum (\<lambda>_ ow. int (length (ow_actions ow))) (au_owners a)"
    by (simp add: oframe_def gsum_strip)
  have ex: "(\<exists>ow. map_option ow_strip m = Some ow \<and> or_Session (ow_ref ow) = sid) \<longleftrightarrow> (\<exists>ow. m = Some ow \<and> or_Session (ow_ref ow) = sid)" for m sid
    by (cases m) auto
  have "owners_linked (oframe a) = owners_linked a"
    unfolding owners_linked_def fields all_map_option ex by (simp del: not_None_eq)
  moreover have "owners_bounded (oframe a) = owners_bounded a"
    unfolding owners_bounded_def fields all_map_option sum by simp
  ultimately show ?thesis by (simp add: owner_inv_def)
qed

lemma owner_inv_by_frame: "owner_inv a \<Longrightarrow> oframe a' = oframe a \<Longrightarrow> owner_inv a'"
  by (metis owner_inv_oframe)

lemma oframe_fields [simp]:
  "oframe (a\<lparr>au_watermark := w\<rparr>) = oframe a" "oframe (a\<lparr>au_keys := ks\<rparr>) = oframe a" "oframe (a\<lparr>au_objects := os\<rparr>) = oframe a"
  "oframe (a\<lparr>au_lastGeneration := g\<rparr>) = oframe a" "oframe (a\<lparr>au_grants := n\<rparr>) = oframe a" "oframe (a\<lparr>au_queued := n\<rparr>) = oframe a"
  "oframe (a\<lparr>au_publications := n\<rparr>) = oframe a" "oframe (a\<lparr>au_nativeCalls := n\<rparr>) = oframe a" "oframe (a\<lparr>au_fenced := e\<rparr>) = oframe a"
  "oframe (a\<lparr>au_closed := b\<rparr>) = oframe a" "oframe (a\<lparr>au_closeErr := e\<rparr>) = oframe a"
  by (simp_all add: oframe_def)

lemma oframe_updRes [simp]: "oframe (updRes rid f a) = oframe a"
  by (simp add: updRes_def)

lemma oframe_updSess: "(\<And>s. se_strip (f s) = se_strip s) \<Longrightarrow> oframe (updSess sid f a) = oframe a"
  by (simp add: oframe_def updSess_def map_gupd_same)

lemma oframe_updOwn: "(\<And>ow. ow_strip (f ow) = ow_strip ow) \<Longrightarrow> oframe (updOwn oid f a) = oframe a"
  by (simp add: oframe_def updOwn_def map_gupd_same)

lemma oframe_updAct [simp]: "oframe (updAct oid req f a) = oframe a"
  unfolding updAct_def by (rule oframe_updOwn) (simp add: ow_strip_def map_gupd_same)

lemma oframe_updGrant [simp]: "oframe (updGrant oid gid f a) = oframe a"
  unfolding updGrant_def by (rule oframe_updOwn) (simp add: ow_strip_def)

lemma ow_strip_upd [simp]:
  "ow_strip (ow\<lparr>ow_grants := m, ow_liveGrants := n\<rparr>) = ow_strip ow"
  "ow_strip (ow\<lparr>ow_actions := gupd req f (ow_actions ow), ow_queued := k\<rparr>) = ow_strip ow"
  by (simp_all add: ow_strip_def map_gupd_same)

lemma oframe_ops [simp]:
  "oframe (endGrantLocked oid gid state a) = oframe a"
  "oframe (finishLocked oid req outcome code a) = oframe a"
  "oframe (installGrant oid gid g a) = oframe a"
  by (simp_all add: endGrantLocked_def finishLocked_def installGrant_def Let_def oframe_updOwn split: option.split)

lemma length_gput: "gget m k = None \<Longrightarrow> length (gput k v m) = Suc (length m)"
  by (simp add: gget_eq_None gput_new)

lemma length_remove1_le: "length (remove1 x xs) \<le> length xs"
  by (simp add: length_remove1)

lemmas shrinks = order_trans [OF of_nat_mono [OF length_gdel_le]] order_trans [OF of_nat_mono [OF length_remove1_le]]

lemma owner_inv_delOwner:
  assumes inv: "owner_inv a" and ow: "gget (au_owners a) oid = Some ow"
  shows "owner_inv (updSess (or_Session (ow_ref ow)) (\<lambda>s. s\<lparr>se_owners := remove1 oid (se_owners s)\<rparr>)
               (a\<lparr>au_actions := au_actions a - int (length (ow_actions ow)), au_owners := gdel oid (au_owners a)\<rparr>))"
    (is "owner_inv ?d")
proof -
  let ?sid = "or_Session (ow_ref ow)"
  have lk: "owners_linked a" and bd: "owners_bounded a" using inv by (simp_all add: owner_inv_def)
  have se: "gget (au_sessions ?d) sid = map_option (\<lambda>s. if sid = ?sid then s\<lparr>se_owners := remove1 oid (se_owners s)\<rparr> else s) (gget (au_sessions a) sid)" for sid
    by (cases "gget (au_sessions a) sid") (auto simp: updSess_def)
  have rest: "map fst (au_sessions ?d) = map fst (au_sessions a)" "length (au_sessions ?d) = length (au_sessions a)"
    "au_owners ?d = gdel oid (au_owners a)" "au_tickets ?d = au_tickets a" "au_resources ?d = au_resources a" "au_options ?d = au_options a"
    "au_actions ?d = au_actions a - int (length (ow_actions ow))"
    by (simp_all add: updSess_def)
  have "owners_linked ?d"
    using lk ow unfolding owners_linked_def se rest all_map_option by (auto split: if_splits)
  moreover have "gsum (\<lambda>_ ow. int (length (ow_actions ow))) (gdel oid (au_owners a))
      = gsum (\<lambda>_ ow. int (length (ow_actions ow))) (au_owners a) - int (length (ow_actions ow))"
    using lk ow by (simp add: owners_linked_def gsum_gdel)
  then have "owners_bounded ?d"
    using bd unfolding owners_bounded_def se rest all_map_option by (auto intro!: shrinks)
  ultimately show ?thesis by (simp add: owner_inv_def)
qed

lemma owner_inv_delSession:
  assumes inv: "owner_inv a" and s: "gget (au_sessions a) sid = Some s" "se_owners s = []"
  shows "owner_inv (a\<lparr>au_sessions := gdel sid (au_sessions a)\<rparr>)"
proof -
  have lk: "owners_linked a" and bd: "owners_bounded a" using inv by (simp_all add: owner_inv_def)
  have "or_Session (ow_ref ow) \<noteq> sid" if "gget (au_owners a) oid = Some ow" for oid ow
    using lk s that unfolding owners_linked_def by (metis empty_iff list.set(1))
  with lk have "owners_linked (a\<lparr>au_sessions := gdel sid (au_sessions a)\<rparr>)"
    by (auto simp: owners_linked_def)
  moreover have "owners_bounded (a\<lparr>au_sessions := gdel sid (au_sessions a)\<rparr>)"
    using bd by (auto simp: owners_bounded_def intro!: shrinks)
  ultimately show ?thesis by (simp add: owner_inv_def)
qed

lemma owner_inv_newSession:
  assumes inv: "owner_inv a" and new: "gget (au_sessions a) sid = None" "gget (au_tickets a) ticket = None"
    and room: "int (length (au_tickets a)) < opt_MaxTickets (au_options a)" "int (length (au_sessions a)) < opt_MaxSessions (au_options a)"
    and s: "se_id s = sid" "se_owners s = []" "se_creates s = []"
  shows "owner_inv (a\<lparr>au_sessions := gput sid s (au_sessions a), au_tickets := gput ticket tr (au_tickets a)\<rparr>)"
proof -
  have lk: "owners_linked a" and bd: "owners_bounded a" using inv by (simp_all add: owner_inv_def)
  have "or_Session (ow_ref ow) \<noteq> sid" if "gget (au_owners a) oid = Some ow" for oid ow
    using lk new that unfolding owners_linked_def by metis
  with lk s have "owners_linked (a\<lparr>au_sessions := gput sid s (au_sessions a), au_tickets := gput ticket tr (au_tickets a)\<rparr>)"
    by (auto simp: owners_linked_def)
  moreover have "owners_bounded (a\<lparr>au_sessions := gput sid s (au_sessions a), au_tickets := gput ticket tr (au_tickets a)\<rparr>)"
    using bd room s by (auto simp: owners_bounded_def length_gput new)
  ultimately show ?thesis by (simp add: owner_inv_def)
qed

lemma owner_inv_newOwner:
  assumes inv: "owner_inv a" and s: "gget (au_sessions a) sid = Some s" and new: "gget (au_owners a) oid = None" "gget (se_creates s) request = None"
    and room: "int (length (au_owners a)) < opt_MaxOwners (au_options a)" "int (length (se_owners s)) < opt_OwnersPerSession (au_options a)"
      "int (length (se_creates s)) < opt_OwnerActionsPerSession (au_options a)"
    and ow: "ow_ref ow = \<lparr>or_Session = sid, or_Owner = oid\<rparr>" "ow_actions ow = []"
  shows "owner_inv (updSess sid (\<lambda>s. s\<lparr>se_owners := oid # se_owners s, se_creates := gput request oid (se_creates s)\<rparr>)
          (a\<lparr>au_owners := gput oid ow (au_owners a)\<rparr>))" (is "owner_inv ?d")
proof -
  have lk: "owners_linked a" and bd: "owners_bounded a" using inv by (simp_all add: owner_inv_def)
  have se: "gget (au_sessions ?d) sid' = map_option (\<lambda>s. if sid' = sid then s\<lparr>se_owners := oid # se_owners s, se_creates := gput request oid (se_creates s)\<rparr> else s)
      (gget (au_sessions a) sid')" for sid'
    by (cases "gget (au_sessions a) sid'") (auto simp: updSess_def)
  have rest: "map fst (au_sessions ?d) = map fst (au_sessions a)" "length (au_sessions ?d) = length (au_sessions a)"
    "au_owners ?d = gput oid ow (au_owners a)" "au_tickets ?d = au_tickets a" "au_resources ?d = au_resources a" "au_options ?d = au_options a"
    "au_actions ?d = au_actions a"
    by (simp_all add: updSess_def)
  have out: "oid \<notin> set (se_owners s')" if "gget (au_sessions a) sid' = Some s'" for sid' s'
    using lk new that unfolding owners_linked_def by auto
  have "owners_linked ?d"
    using lk s ow out unfolding owners_linked_def se rest all_map_option by auto
  moreover have "gsum (\<lambda>_ ow. int (length (ow_actions ow))) (gput oid ow (au_owners a)) = gsum (\<lambda>_ ow. int (length (ow_actions ow))) (au_owners a)"
    using lk new ow by (simp add: owners_linked_def gsum_gput)
  then have "owners_bounded ?d"
    using bd room s ow new unfolding owners_bounded_def se rest all_map_option by (auto simp: length_gput)
  ultimately show ?thesis by (simp add: owner_inv_def)
qed

lemma owner_inv_addAction:
  assumes inv: "owner_inv a" and ow: "gget (au_owners a) oid \<noteq> None" and new: "getAct a oid req = None" and room: "\<not> actionsFull oid a"
  shows "owner_inv (addAction oid req x a)" (is "owner_inv ?d")
proof -
  have lk: "owners_linked a" and bd: "owners_bounded a" using inv by (simp_all add: owner_inv_def)
  from ow obtain w where w: "gget (au_owners a) oid = Some w" by blast
  with new have none: "gget (ow_actions w) req = None" by (simp add: getAct_def)
  have owners: "au_owners ?d = gupd oid (\<lambda>ow. ow\<lparr>ow_actions := gput req x (ow_actions ow)\<rparr>) (au_owners a)"
    and rest: "au_sessions ?d = au_sessions a" "au_tickets ?d = au_tickets a" "au_resources ?d = au_resources a" "au_options ?d = au_options a"
    "au_actions ?d = au_actions a + 1"
    by (simp_all add: addAction_def updOwn_def)
  have "owners_linked ?d"
    using lk unfolding owners_linked_def rest owners by auto
  moreover have "gsum (\<lambda>_ ow. int (length (ow_actions ow))) (au_owners ?d) = au_actions a + 1"
    using lk bd w none by (simp add: owners owners_linked_def owners_bounded_def gsum_gupd length_gput)
  then have "owners_bounded ?d"
    using bd room w none unfolding owners_bounded_def rest owners by (auto simp: actionsFull_def length_gput)
  ultimately show ?thesis by (simp add: owner_inv_def)
qed

lemma owner_inv_prim:
  assumes "prim now al a b" and "owner_inv a"
  shows "owner_inv b"
  using assms
proof (induction rule: prim.induct)
  case (prim_tickets a P)
  then have "distinct_keys (filter P (au_tickets a))"
    by (simp add: owner_inv_def owners_bounded_def distinct_map_filter)
  with prim_tickets show ?case
    by (auto simp: owner_inv_def owners_linked_def owners_bounded_def intro: order_trans [OF of_nat_mono [OF length_filter_le]])
next
  case (prim_touch f a sid)
  have "se_strip (f s) = se_strip s" for s using prim_touch(1) [of s] by (auto simp: se_strip_def)
  then show ?case by (intro owner_inv_by_frame [OF \<open>owner_inv a\<close>] oframe_updSess)
next
  case (prim_delOwner a oid ow)
  then show ?case using owner_inv_delOwner by blast
next
  case (prim_delSession a sid s)
  then show ?case using owner_inv_delSession by blast
next
  case (prim_newSession a sid ticket s tr)
  then show ?case using owner_inv_newSession by blast
next
  case (prim_newOwner oid a sid s request)
  then show ?case using owner_inv_newOwner by simp
next
  case (prim_newResource a rid key)
  then show ?case by (simp add: owner_inv_def owners_linked_def owners_bounded_def)
next
  case (prim_addAction a oid req x)
  then show ?case using owner_inv_addAction by blast
next
  case (prim_enqueue a oid req x rid r until)
  show ?case by (rule owner_inv_by_frame [OF \<open>owner_inv a\<close>]) (simp add: oframe_updOwn)
next
  case (prim_forget a rid r)
  then show ?case
    by (auto simp: owner_inv_def owners_linked_def owners_bounded_def length_remove1)
next
  case (prim_closed a e)
  then have "0 \<le> opt_MaxResources (au_options a)" by (auto simp: owner_inv_def owners_bounded_def)
  with prim_closed show ?case by (simp add: owner_inv_def owners_linked_def owners_bounded_def)
qed (auto elim!: owner_inv_by_frame)

end
