(* ===== verification/LockExpiry.thy ===== *)
theory LockExpiry
  imports LockPrims
begin

text \<open>
  Expiry and retirement as sequences of primitive transitions: expiring the grants and the
  queue of a resource, retiring an owner or a session, expiring idle sessions. What these
  sections leave alone is summed up by \<open>calm\<close>.
\<close>

section \<open>What expiry leaves alone\<close>

definition rs_calm :: "resourceRecord \<Rightarrow> resourceRecord" where
  "rs_calm r = r\<lparr>rs_grants := [], rs_queue := [], rs_worker := False, rs_referenceUntil := 0\<rparr>"

definition calm :: "Authority \<Rightarrow> Authority" where
  "calm a = a\<lparr>au_sessions := [], au_owners := [], au_tickets := [], au_grants := 0, au_queued := 0, au_actions := 0,
     au_objects := map (map_prod id rs_calm) (au_objects a)\<rparr>"

lemma calm_fields [simp]:
  "calm (a\<lparr>au_sessions := s\<rparr>) = calm a" "calm (a\<lparr>au_owners := ows\<rparr>) = calm a" "calm (a\<lparr>au_tickets := t\<rparr>) = calm a"
  "calm (a\<lparr>au_grants := n\<rparr>) = calm a" "calm (a\<lparr>au_queued := n\<rparr>) = calm a" "calm (a\<lparr>au_actions := n\<rparr>) = calm a"
  by (simp_all add: calm_def)

lemma calm_upd [simp]:
  "calm (updSess sid f a) = calm a" "calm (updOwn oid g a) = calm a" "calm (updAct oid req h a) = calm a" "calm (updGrant oid gid k a) = calm a"
  by (simp_all add: updSess_def updOwn_def updAct_def updGrant_def)

lemma calm_updRes: "(\<And>r. rs_calm (f r) = rs_calm r) \<Longrightarrow> calm (updRes rid f a) = calm a"
  by (simp add: calm_def updRes_def map_gupd_same)

lemma calm_ops [simp]:
  "calm (endGrantLocked oid gid state a) = calm a" "calm (finishLocked oid req outcome code a) = calm a"
  "calm (touchSessionLocked now sid a) = calm a" "calm (touchLocked now oid a) = calm a" "calm (startWorkerLocked rid a) = calm a"
  "calm (addAction oid req x a) = calm a"
  by (simp_all add: endGrantLocked_def finishLocked_def touchSessionLocked_def touchLocked_def startWorkerLocked_def addAction_def Let_def
      calm_updRes rs_calm_def split: option.split)

lemma calm_expireGrants [simp]: "calm (expireGrantsLocked rid now a) = calm a"
  unfolding expireGrantsLocked_def by (auto intro!: fold_same [where g = calm])

lemma calm_expireQueued [simp]: "calm (expireQueuedLocked rid now a) = calm a"
  unfolding expireQueuedLocked_def by (auto intro!: fold_same [where g = calm])

lemma calm_retireOwner [simp]: "calm (retireOwnerLocked oid a) = calm a"
proof -
  have "calm (fold (\<lambda>req. finishLocked oid req Cancelled None) reqs a) = calm a" for reqs
    by (rule fold_same [where g = calm]) simp
  moreover have "calm (fold (\<lambda>gid. endGrantLocked oid gid OwnerRetired) gids b) = calm b" for gids b
    by (rule fold_same [where g = calm]) simp
  ultimately show ?thesis by (simp add: retireOwnerLocked_def Let_def split: option.split)
qed

lemma calm_retireSession [simp]: "calm (retireSessionLocked sid a) = calm a"
proof -
  have "calm (fold retireOwnerLocked oids a) = calm a" for oids by (rule fold_same [where g = calm]) simp
  then show ?thesis by (simp add: retireSessionLocked_def Let_def split: option.split)
qed

lemma calm_expireSessions [simp]: "calm (expireSessionsLocked now a) = calm a"
proof -
  have "calm (expireSession now sid b) = calm b" for sid b by (simp add: expireSession_def split: option.split)
  then have "calm (fold (expireSession now) sids b) = calm b" for sids b by (rule fold_same [where g = calm])
  then show ?thesis by (simp add: expireSessionsLocked_def)
qed

lemma calm_same:
  assumes "calm b = calm a"
  shows "au_options b = au_options a" "au_start b = au_start a" "au_recoveryUntil b = au_recoveryUntil a" "au_watermark b = au_watermark a"
    "au_incarnation b = au_incarnation a" "au_resources b = au_resources a" "au_keys b = au_keys a" "au_lastGeneration b = au_lastGeneration a"
    "au_publications b = au_publications a" "au_nativeCalls b = au_nativeCalls a" "au_fenced b = au_fenced a" "au_closed b = au_closed a"
    "au_closeErr b = au_closeErr a"
proof -
  have *: "h (calm b) = h (calm a)" for h :: "Authority \<Rightarrow> 'x" using assms by simp
  show "au_options b = au_options a" "au_start b = au_start a" "au_recoveryUntil b = au_recoveryUntil a" "au_watermark b = au_watermark a"
    "au_incarnation b = au_incarnation a" "au_resources b = au_resources a" "au_keys b = au_keys a" "au_lastGeneration b = au_lastGeneration a"
    "au_publications b = au_publications a" "au_nativeCalls b = au_nativeCalls a" "au_fenced b = au_fenced a" "au_closed b = au_closed a"
    "au_closeErr b = au_closeErr a"
    using *[of au_options] *[of au_start] *[of au_recoveryUntil] *[of au_watermark] *[of au_incarnation] *[of au_resources] *[of au_keys]
      *[of au_lastGeneration] *[of au_publications] *[of au_nativeCalls] *[of au_fenced] *[of au_closed] *[of au_closeErr]
    by (simp_all add: calm_def)
qed

lemma calm_objects:
  assumes "calm b = calm a"
  shows "map_option rs_calm (gget (au_objects b) rid) = map_option rs_calm (gget (au_objects a) rid)"
proof -
  have "au_objects (calm b) = au_objects (calm a)" using assms by simp
  then have "gget (map (map_prod id rs_calm) (au_objects b)) rid = gget (map (map_prod id rs_calm) (au_objects a)) rid"
    by (simp add: calm_def)
  then show ?thesis by (simp only: gget_map_strip)
qed

lemma calm_object:
  assumes "calm b = calm a" and "gget (au_objects a) rid = Some r"
  shows "\<exists>r'. gget (au_objects b) rid = Some r' \<and> rs_busy r' = rs_busy r \<and> rs_holds r' = rs_holds r \<and> rs_retired r' = rs_retired r
    \<and> rs_forgetting r' = rs_forgetting r \<and> rs_key r' = rs_key r \<and> rs_id r' = rs_id r"
proof -
  from calm_objects [OF assms(1), of rid] assms(2) obtain r' where r': "gget (au_objects b) rid = Some r'" "rs_calm r' = rs_calm r"
    by auto
  have *: "h (rs_calm r') = h (rs_calm r)" for h :: "resourceRecord \<Rightarrow> 'x" using r'(2) by simp
  show ?thesis
    using r'(1) *[of rs_busy] *[of rs_holds] *[of rs_retired] *[of rs_forgetting] *[of rs_key] *[of rs_id] by (simp add: rs_calm_def)
qed

lemma calm_missing: "calm b = calm a \<Longrightarrow> gget (au_objects b) rid = None \<longleftrightarrow> gget (au_objects a) rid = None"
  using calm_objects [of b a rid] by (cases "gget (au_objects b) rid"; cases "gget (au_objects a) rid") auto

lemma calm_busy: "calm b = calm a \<Longrightarrow> busyRes b rid = busyRes a rid"
  using calm_object [of b a rid] calm_missing [of b a rid]
  by (cases "gget (au_objects a) rid") (auto simp: busyRes_def)

section \<open>Expiry as primitive transitions\<close>

definition base_inv :: "Authority \<Rightarrow> bool" where
  "base_inv a \<longleftrightarrow> grants_inv a \<and> owner_inv a"

lemma base_inv_prims: "prims now al a b \<Longrightarrow> base_inv a \<Longrightarrow> base_inv b"
  by (induction rule: rtranclp_induct) (auto simp: base_inv_def intro: grants_inv_prim owner_inv_prim)

lemma prims_each:
  assumes "\<And>x b. x \<in> set xs \<Longrightarrow> P b \<Longrightarrow> prims now al b (f x b) \<and> P (f x b)" and "P a"
  shows "prims now al a (fold f xs a) \<and> P (fold f xs a)"
  using assms
proof (induction xs arbitrary: a)
  case (Cons x xs)
  have step: "prims now al a (f x a)" and keep: "P (f x a)" using Cons.prems by auto
  have "prims now al (f x a) (fold f xs (f x a)) \<and> P (fold f xs (f x a))"
    using Cons.prems(1) by (intro Cons.IH [OF _ keep]) simp
  with step show ?case by (auto intro: rtranclp_trans [of "prim now al"])
qed simp

lemma prims_touch: "prims now al a (touchSessionLocked t sid a)" "prims now al a (touchLocked t oid a)"
proof -
  have *: "prims now al a (touchSessionLocked t sid a)" for sid
  proof -
    have "\<exists>e \<ge> se_expires s. (if now' > se_expires s then s\<lparr>se_expires := now'\<rparr> else s) = s\<lparr>se_expires := e\<rparr>" for s :: sessionRecord and now'
      by (rule exI [of _ "max (se_expires s) now'"]) (simp add: max_def)
    then show ?thesis unfolding touchSessionLocked_def by (intro prims_one prim_touch)
  qed
  show "prims now al a (touchSessionLocked t sid a)" by (rule *)
  show "prims now al a (touchLocked t oid a)" by (auto simp: touchLocked_def * split: option.split)
qed

lemma prims_startWorker: "prims now al a (startWorkerLocked rid a)"
  by (auto simp: startWorkerLocked_def res_keeps_def intro!: prims_one prim_updRes split: option.split)

lemma prims_expireQueued: "prims now al a (expireQueuedLocked rid t a)"
  unfolding expireQueuedLocked_def
  by (rule conjunct1 [OF prims_each [where P = "\<lambda>_. True"]]) (auto intro: prims_one prim_finish)

lemma resGrants_live:
  assumes "grants_inv a" and "(gid, oid) \<in> set (resGrants a rid)"
  shows "\<exists>g. live a oid gid g \<and> gt_resource g = rid"
proof -
  from assms(2) obtain r where r: "gget (au_objects a) rid = Some r" "(gid, oid) \<in> set (rs_grants r)"
    by (cases "gget (au_objects a) rid") (auto simp: resGrants_def)
  with assms(1) have "gget (rs_grants r) gid = Some oid"
    by (simp add: grants_inv_def tables_wf_def in_set_gget)
  with r(1) assms(1) show ?thesis unfolding grants_inv_def links_ok_def by blast
qed

lemma prims_expireGrants:
  assumes "grants_inv a"
  shows "prims now al a (expireGrantsLocked rid t a)"
proof (cases "busyRes a rid")
  case False
  define P where "P b \<longleftrightarrow> calm b = calm a \<and> (\<forall>gid oid g. (gid, oid) \<in> set (resGrants a rid) \<longrightarrow> live b oid gid g \<longrightarrow> gt_resource g = rid)" for b
  have "P a"
  proof -
    have "gt_resource g = rid" if "(gid, oid) \<in> set (resGrants a rid)" "live a oid gid g" for gid oid g
      using that resGrants_live [OF assms that(1)] by (auto simp: live_def)
    then show ?thesis by (simp add: P_def)
  qed
  have "prims now al a (fold (\<lambda>(gid, oid) a. if \<not> t < deadlineOf a oid gid then endGrantLocked oid gid Expired a else a) (resGrants a rid) a)"
  proof (rule conjunct1 [OF prims_each [where P = P, OF _ \<open>P a\<close>]])
    fix x b assume x: "x \<in> set (resGrants a rid)" and P: "P b"
    obtain gid oid where [simp]: "x = (gid, oid)" by (cases x)
    have "\<not> busyRes b (gt_resource g)" if "live b oid gid g" for g
      using P x that False calm_busy [of b a rid] by (auto simp: P_def)
    then have "prim now al b (endGrantLocked oid gid Expired b)" by (intro prim_endGrant) auto
    moreover have "P (endGrantLocked oid gid Expired b)"
      using P by (simp add: P_def live_end)
    ultimately show "prims now al b ((\<lambda>(gid, oid) a. if \<not> t < deadlineOf a oid gid then endGrantLocked oid gid Expired a else a) x b)
        \<and> P ((\<lambda>(gid, oid) a. if \<not> t < deadlineOf a oid gid then endGrantLocked oid gid Expired a else a) x b)"
      using P by (auto intro: prims_one)
  qed
  with False show ?thesis by (simp add: expireGrantsLocked_def)
qed (simp add: expireGrantsLocked_def)

section \<open>Retirement as primitive transitions\<close>

lemma getAct_finish:
  "getAct (finishLocked oid req outcome code a) oid' req' =
    (if oid' = oid \<and> req' = req
     then map_option (\<lambda>x. if rc_Outcome (ac_receipt x) = Pending
                        then x\<lparr>ac_receipt := (ac_receipt x)\<lparr>rc_Outcome := outcome, rc_Code := code\<rparr>\<rparr> else x) (getAct a oid' req')
     else getAct a oid' req')"
proof (cases "getAct a oid req")
  case None
  then show ?thesis by (auto simp: finishLocked_def)
next
  case (Some x)
  have keep: "getAct (b\<lparr>au_queued := n\<rparr>) = getAct b" for b n by (simp add: fun_eq_iff getAct_def)
  have upd: "getAct (updOwn oid (\<lambda>ow. ow\<lparr>ow_actions := gupd req f (ow_actions ow), ow_queued := ow_queued ow - 1\<rparr>) a) = getAct (updAct oid req f a)" for f
    by (auto simp: fun_eq_iff getAct_def updAct_def updOwn_def split: option.split)
  show ?thesis
    using Some by (auto simp: finishLocked_def Let_def keep upd getAct_updAct)
qed

lemma finish_settled:
  assumes "getAct (finishLocked oid req outcome code a) oid req = Some x" and "outcome \<noteq> Pending"
  shows "rc_Outcome (ac_receipt x) \<noteq> Pending"
  using assms by (cases "getAct a oid req") (auto simp: getAct_finish split: if_splits)

lemma owner_finish:
  "map_option (\<lambda>ow. (ow_ref ow, map fst (ow_actions ow), ow_grants ow)) (gget (au_owners (finishLocked oid req outcome code a)) oid')
   = map_option (\<lambda>ow. (ow_ref ow, map fst (ow_actions ow), ow_grants ow)) (gget (au_owners a) oid')"
  by (cases "gget (au_owners a) oid'") (auto simp: finishLocked_def Let_def updAct_def updOwn_def updRes_def split: option.split)

lemma owner_endGrant:
  "map_option (\<lambda>ow. (ow_ref ow, ow_actions ow)) (gget (au_owners (endGrantLocked oid gid state a)) oid')
   = map_option (\<lambda>ow. (ow_ref ow, ow_actions ow)) (gget (au_owners a) oid')"
  by (cases "gget (au_owners a) oid'") (auto simp: endGrantLocked_def updOwn_def updRes_def split: option.split)

lemma getAct_endGrant [simp]: "getAct (endGrantLocked oid gid state a) = getAct a"
  by (auto simp: fun_eq_iff getAct_def endGrantLocked_def updOwn_def updRes_def split: option.split)

definition unblocked :: "OwnerID \<Rightarrow> Authority \<Rightarrow> bool" where
  "unblocked oid a \<longleftrightarrow> (\<forall>gid g. live a oid gid g \<longrightarrow> \<not> busyRes a (gt_resource g))"

lemma unblocked_if: "\<not> ownerBusyLocked a oid \<Longrightarrow> unblocked oid a"
  by (cases "gget (au_owners a) oid") (auto simp: unblocked_def ownerBusyLocked_def list_ex_iff live_def getGrant_def dest!: gget_in_set)

lemma prims_retireOwner:
  assumes free: "unblocked oid a"
  shows "prims now al a (retireOwnerLocked oid a)"
proof (cases "gget (au_owners a) oid")
  case (Some ow)
  define Q where "Q b \<longleftrightarrow> calm b = calm a \<and> unblocked oid b
      \<and> (\<exists>ow'. gget (au_owners b) oid = Some ow' \<and> ow_ref ow' = ow_ref ow \<and> map fst (ow_actions ow') = map fst (ow_actions ow))" for b
  let ?a1 = "fold (\<lambda>req. finishLocked oid req Cancelled None) (map fst (ow_actions ow)) a"
  let ?a2 = "fold (\<lambda>gid. endGrantLocked oid gid OwnerRetired) (map fst (ow_grants ow)) ?a1"
  have "prims now al a ?a1 \<and> Q ?a1"
  proof (rule prims_each)
    show "Q a" using free Some by (simp add: Q_def)
    fix req b assume "Q b"
    moreover have "unblocked oid (finishLocked oid req Cancelled None b)" if "unblocked oid b"
      using that calm_busy [OF calm_ops(2), of oid req Cancelled None b] by (simp add: unblocked_def live_def)
    ultimately have "Q (finishLocked oid req Cancelled None b)"
      using owner_finish [of oid req Cancelled None b oid] by (auto simp: Q_def)
    then show "prims now al b (finishLocked oid req Cancelled None b) \<and> Q (finishLocked oid req Cancelled None b)"
      by (auto intro: prims_one prim_finish)
  qed
  moreover have "prims now al ?a1 ?a2 \<and> Q ?a2"
  proof (rule prims_each)
    show "Q ?a1" using calculation by blast
    fix gid b assume Q: "Q b"
    moreover have "unblocked oid (endGrantLocked oid gid OwnerRetired b)" if "unblocked oid b"
      using that calm_busy [OF calm_ops(1), of oid gid OwnerRetired b] by (auto simp: unblocked_def live_end)
    ultimately have "Q (endGrantLocked oid gid OwnerRetired b)"
      using owner_endGrant [of oid gid OwnerRetired b oid] by (auto simp: Q_def)
    then show "prims now al b (endGrantLocked oid gid OwnerRetired b) \<and> Q (endGrantLocked oid gid OwnerRetired b)"
      using Q by (auto simp: Q_def unblocked_def intro!: prims_one prim_endGrant)
  qed
  ultimately have run: "prims now al a ?a2" and Q2: "Q ?a2" by (auto intro: rtranclp_trans)
  from Q2 obtain ow' where ow': "gget (au_owners ?a2) oid = Some ow'" "ow_ref ow' = ow_ref ow" "map fst (ow_actions ow') = map fst (ow_actions ow)"
    by (auto simp: Q_def)
  have "getGrant ?a1 = getGrant a" by (rule fold_same [where g = getGrant]) simp
  then have "\<not> (live ?a1 oid gid g \<and> gid \<notin> set (map fst (ow_grants ow)))" for gid g
    unfolding live_def using Some by (auto simp: getGrant_def dest: gget_Some_key)
  then have dead: "\<not> live ?a2 oid gid g" for gid g by (subst live_end_all) (simp, blast)
  have acts: "getAct ?a2 = getAct ?a1" by (rule fold_same [where g = getAct]) simp
  have settled: "rc_Outcome (ac_receipt x) \<noteq> Pending"
    if "getAct (fold (\<lambda>req. finishLocked oid req Cancelled None) reqs b) oid req = Some x" "req \<in> set reqs \<or> (\<forall>x. getAct b oid req = Some x \<longrightarrow> rc_Outcome (ac_receipt x) \<noteq> Pending)"
    for reqs b req x
    using that
  proof (induction reqs arbitrary: b)
    case (Cons q reqs)
    show ?case
    proof (rule Cons.IH [of "finishLocked oid q Cancelled None b"])
      show "req \<in> set reqs \<or> (\<forall>x. getAct (finishLocked oid q Cancelled None b) oid req = Some x \<longrightarrow> rc_Outcome (ac_receipt x) \<noteq> Pending)"
        using Cons.prems(2) finish_settled [of oid q Cancelled None b]
        by (cases "req = q") (auto simp: getAct_finish [of oid q Cancelled None b oid req])
    qed (use Cons.prems in simp)
  qed auto
  have "rc_Outcome (ac_receipt x) \<noteq> Pending" if "getAct ?a2 oid req = Some x" for req x
  proof (rule settled)
    show "getAct ?a1 oid req = Some x" using that by (simp add: acts)
    have "gget (ow_actions ow') req = Some x" using that ow'(1) by (simp add: getAct_def)
    then have "req \<in> set (map fst (ow_actions ow'))" by (force dest: gget_in_set)
    then show "req \<in> set (map fst (ow_actions ow)) \<or> (\<forall>x. getAct a oid req = Some x \<longrightarrow> rc_Outcome (ac_receipt x) \<noteq> Pending)"
      by (simp add: ow'(3))
  qed
  from prim_delOwner [OF ow'(1) dead this] have "prim now al ?a2 (retireOwnerLocked oid a)"
    using Some ow'(2,3) map_eq_imp_length_eq [OF ow'(3)] by (simp add: retireOwnerLocked_def Let_def)
  with run show ?thesis by (rule rtranclp.rtrancl_into_rtrancl)
qed (simp add: retireOwnerLocked_def)

section \<open>Owners and sessions after retirement\<close>

lemma owners_finish_other [simp]: "oid' \<noteq> oid \<Longrightarrow> gget (au_owners (finishLocked oid req outcome code a)) oid' = gget (au_owners a) oid'"
  by (auto simp: finishLocked_def Let_def updAct_def updOwn_def updRes_def split: option.split)

lemma owners_endGrant_other [simp]: "oid' \<noteq> oid \<Longrightarrow> gget (au_owners (endGrantLocked oid gid state a)) oid' = gget (au_owners a) oid'"
  by (auto simp: endGrantLocked_def updOwn_def updRes_def split: option.split)

lemma sessions_same [simp]:
  "au_sessions (finishLocked oid req outcome code a) = au_sessions a" "au_sessions (endGrantLocked oid gid state a) = au_sessions a"
  by (auto simp: finishLocked_def endGrantLocked_def Let_def updAct_def updOwn_def updRes_def split: option.split)

lemma retireOwner_owners: "gget (au_owners (retireOwnerLocked oid a)) oid' = (if oid' = oid then None else gget (au_owners a) oid')"
proof (cases "gget (au_owners a) oid")
  case (Some ow)
  have "gget (au_owners (fold (\<lambda>req. finishLocked oid req Cancelled None) reqs b)) oid' = gget (au_owners b) oid'" if "oid' \<noteq> oid" for reqs b
    by (rule fold_same [where g = "\<lambda>b. gget (au_owners b) oid'"]) (simp add: that)
  moreover have "gget (au_owners (fold (\<lambda>gid. endGrantLocked oid gid OwnerRetired) gids b)) oid' = gget (au_owners b) oid'" if "oid' \<noteq> oid" for gids b
    by (rule fold_same [where g = "\<lambda>b. gget (au_owners b) oid'"]) (simp add: that)
  ultimately show ?thesis using Some by (simp add: retireOwnerLocked_def Let_def updSess_def)
qed (auto simp: retireOwnerLocked_def)

lemma retireOwner_sessions: "map fst (au_sessions (retireOwnerLocked oid a)) = map fst (au_sessions a)"
proof (cases "gget (au_owners a) oid")
  case (Some ow)
  have "au_sessions (fold (\<lambda>req. finishLocked oid req Cancelled None) reqs b) = au_sessions b" for reqs b
    by (rule fold_same [where g = au_sessions]) simp
  moreover have "au_sessions (fold (\<lambda>gid. endGrantLocked oid gid OwnerRetired) gids b) = au_sessions b" for gids b
    by (rule fold_same [where g = au_sessions]) simp
  ultimately show ?thesis using Some by (simp add: retireOwnerLocked_def Let_def updSess_def)
qed (simp add: retireOwnerLocked_def)

lemma retireOwners_owners:
  "gget (au_owners (fold retireOwnerLocked oids a)) oid = (if oid \<in> set oids then None else gget (au_owners a) oid)"
  by (induction oids arbitrary: a) (auto simp: retireOwner_owners)

lemma unblocked_retireOwner:
  assumes "unblocked oid a"
  shows "unblocked oid (retireOwnerLocked oid' a)"
proof -
  have "getGrant (retireOwnerLocked oid' a) oid gid = (if oid = oid' then None else getGrant a oid gid)" for gid
    by (simp add: getGrant_def retireOwner_owners)
  with assms show ?thesis
    by (auto simp: unblocked_def live_def calm_busy [OF calm_retireOwner] split: if_splits)
qed

lemma prims_retireOwners:
  assumes "\<And>oid. oid \<in> set oids \<Longrightarrow> unblocked oid a"
  shows "prims now al a (fold retireOwnerLocked oids a)"
proof (rule conjunct1 [OF prims_each [where P = "\<lambda>b. \<forall>oid \<in> set oids. unblocked oid b"]])
  show "\<forall>oid \<in> set oids. unblocked oid a" using assms by blast
qed (auto intro: prims_retireOwner unblocked_retireOwner)

lemma prims_retireSession:
  assumes inv: "base_inv a" and free: "\<And>s oid. gget (au_sessions a) sid = Some s \<Longrightarrow> oid \<in> set (se_owners s) \<Longrightarrow> unblocked oid a"
  shows "prims now al a (retireSessionLocked sid a)"
proof (cases "gget (au_sessions a) sid")
  case (Some s)
  let ?b = "fold retireOwnerLocked (se_owners s) a"
  have run: "prims now al a ?b" using free [OF Some] by (rule prims_retireOwners)
  then have "base_inv ?b" using inv by (rule base_inv_prims)
  then have lb: "owners_linked ?b" and la: "owners_linked a" using inv by (simp_all add: base_inv_def owner_inv_def)
  have "map fst (au_sessions ?b) = map fst (au_sessions a)"
    by (rule fold_same [where g = "\<lambda>a. map fst (au_sessions a)"]) (rule retireOwner_sessions)
  then have "fst ` set (au_sessions ?b) = fst ` set (au_sessions a)" by (metis set_map)
  then obtain s' where s': "gget (au_sessions ?b) sid = Some s'"
    using gget_eq_None [of "au_sessions ?b" sid] gget_Some_key [OF Some] by auto
  have "se_owners s' = []"
  proof (rule ccontr)
    assume "se_owners s' \<noteq> []"
    then obtain oid where "oid \<in> set (se_owners s')" by (cases "se_owners s'") auto
    then obtain ow where ow: "gget (au_owners ?b) oid = Some ow" "or_Session (ow_ref ow) = sid"
      using lb s' unfolding owners_linked_def by metis
    then have "oid \<notin> set (se_owners s)" "gget (au_owners a) oid = Some ow" by (auto simp: retireOwners_owners split: if_splits)
    with ow(2) la Some show False unfolding owners_linked_def by metis
  qed
  then have "prim now al ?b (?b\<lparr>au_sessions := gdel sid (au_sessions ?b)\<rparr>)" by (rule prim_delSession [OF s'])
  with run Some show ?thesis by (simp add: retireSessionLocked_def Let_def)
qed (simp add: retireSessionLocked_def)

lemma prims_expireSession: "base_inv a \<Longrightarrow> prims now al a (expireSession t sid a)"
  by (auto simp: expireSession_def list_ex_iff intro!: prims_retireSession unblocked_if split: option.split)

lemma prims_expireSessions:
  assumes "base_inv a"
  shows "prims now al a (expireSessionsLocked t a)"
proof -
  let ?b = "a\<lparr>au_tickets := filter (\<lambda>(_, r). t < tk_expires r) (au_tickets a)\<rparr>"
  have step: "prims now al a ?b" by (rule prims_one [OF prim_tickets])
  with assms have "base_inv ?b" by (blast intro: base_inv_prims)
  then have "prims now al ?b (expireSessionsLocked t a)"
    unfolding expireSessionsLocked_def
    by (intro conjunct1 [OF prims_each [where P = base_inv]]) (auto intro: prims_expireSession base_inv_prims)
  with step show ?thesis by (rule rtranclp_trans)
qed

lemma retireSession_owners:
  "gget (au_owners (retireSessionLocked sid a)) oid = Some ow \<Longrightarrow> gget (au_owners a) oid = Some ow"
  by (auto simp: retireSessionLocked_def Let_def retireOwners_owners split: option.splits if_splits)

lemma expireSessions_owners:
  "gget (au_owners (expireSessionsLocked t a)) oid = Some ow \<Longrightarrow> gget (au_owners a) oid = Some ow"
proof -
  have "gget (au_owners (fold (expireSession t) sids b)) oid = Some ow \<Longrightarrow> gget (au_owners b) oid = Some ow" for sids b
  proof (induction sids arbitrary: b)
    case (Cons sid sids)
    from Cons.prems have "gget (au_owners (expireSession t sid b)) oid = Some ow" by (auto intro: Cons.IH)
    then show ?case by (auto simp: expireSession_def dest: retireSession_owners split: option.splits if_splits)
  qed simp
  then show "gget (au_owners (expireSessionsLocked t a)) oid = Some ow \<Longrightarrow> gget (au_owners a) oid = Some ow"
    unfolding expireSessionsLocked_def by fastforce
qed

lemma expireSessions_getters:
  assumes "gget (au_owners (expireSessionsLocked t a)) oid \<noteq> None"
  shows "getAct (expireSessionsLocked t a) oid req = getAct a oid req" "getGrant (expireSessionsLocked t a) oid gid = getGrant a oid gid"
proof -
  from assms obtain ow where ow: "gget (au_owners (expireSessionsLocked t a)) oid = Some ow" by blast
  with expireSessions_owners [OF ow]
  show "getAct (expireSessionsLocked t a) oid req = getAct a oid req" "getGrant (expireSessionsLocked t a) oid gid = getGrant a oid gid"
    by (simp_all add: getAct_def getGrant_def)
qed

lemma expireSessions_sub:
  "getAct (expireSessionsLocked t a) oid req = Some x \<Longrightarrow> getAct a oid req = Some x"
  "getGrant (expireSessionsLocked t a) oid gid = Some g \<Longrightarrow> getGrant a oid gid = Some g"
  by (auto simp: getAct_def getGrant_def split: option.splits dest: expireSessions_owners)

lemma expireSessions_fresh:
  "gget (au_owners a) oid = None \<Longrightarrow> gget (au_owners (expireSessionsLocked t a)) oid = None"
  using expireSessions_owners [of t a oid] by (cases "gget (au_owners (expireSessionsLocked t a)) oid") auto

lemma keys_none: "map fst m = map fst m' \<Longrightarrow> gget m k = None \<longleftrightarrow> gget m' k = None"
  by (metis gget_eq_None set_map)

lemma expireSessions_session_fresh:
  assumes "gget (au_sessions a) sid = None"
  shows "gget (au_sessions (expireSessionsLocked t a)) sid = None"
proof -
  have ret: "gget (au_sessions (retireSessionLocked sid' b)) sid = None" if "gget (au_sessions b) sid = None" for sid' b
  proof (cases "gget (au_sessions b) sid'")
    case (Some s)
    have keys: "map fst (au_sessions (fold retireOwnerLocked (se_owners s) b)) = map fst (au_sessions b)"
      by (rule fold_same [where g = "\<lambda>a. map fst (au_sessions a)"]) (rule retireOwner_sessions)
    with that Some keys_none [OF keys, of sid] show ?thesis by (simp add: retireSessionLocked_def Let_def)
  qed (simp add: retireSessionLocked_def that)
  have "gget (au_sessions (fold (expireSession t) sids b)) sid = None" if "gget (au_sessions b) sid = None" for sids b
    by (rule fold_keeps [where P = "\<lambda>b. gget (au_sessions b) sid = None"]) (auto simp: expireSession_def ret that split: option.split)
  with assms show ?thesis by (simp add: expireSessionsLocked_def)
qed

lemma getters_expireGrants [simp]:
  "getAct (expireGrantsLocked rid t a) = getAct a" "au_sessions (expireGrantsLocked rid t a) = au_sessions a"
  "gget (au_owners (expireGrantsLocked rid t a)) oid = None \<longleftrightarrow> gget (au_owners a) oid = None"
proof -
  have "map fst (au_owners (endGrantLocked oid gid st b)) = map fst (au_owners b)" for oid gid st b
    by (simp add: endGrantLocked_def updOwn_def updRes_def split: option.split)
  then have "map fst (au_owners (expireGrantsLocked rid t a)) = map fst (au_owners a)"
    unfolding expireGrantsLocked_def by (auto intro!: fold_same [where g = "\<lambda>a. map fst (au_owners a)"])
  then show "gget (au_owners (expireGrantsLocked rid t a)) oid = None \<longleftrightarrow> gget (au_owners a) oid = None" by (rule keys_none)
  show "getAct (expireGrantsLocked rid t a) = getAct a"
    unfolding expireGrantsLocked_def by (auto intro!: fold_same [where g = getAct])
  show "au_sessions (expireGrantsLocked rid t a) = au_sessions a"
    unfolding expireGrantsLocked_def by (auto intro!: fold_same [where g = au_sessions])
qed

lemma live_expireGrants: "live (expireGrantsLocked rid t a) oid gid g \<Longrightarrow> live a oid gid g"
proof -
  have "live (fold (\<lambda>(gid, oid) a. if \<not> t < deadlineOf a oid gid then endGrantLocked oid gid Expired a else a) xs b) oid gid g \<Longrightarrow> live b oid gid g" for xs b
  proof (induction xs arbitrary: b)
    case (Cons x xs)
    then show ?case by (cases x) (force simp: live_end split: if_splits)
  qed simp
  then show "live (expireGrantsLocked rid t a) oid gid g \<Longrightarrow> live a oid gid g"
    by (simp add: expireGrantsLocked_def split: if_splits)
qed

end
