(* ===== verification/LockQueue.thy ===== *)
theory LockQueue
  imports LockExpiry
begin

text \<open>
  The waiting queues: the entries of a resource's queue are exactly the pending actions that
  wait for it, every action of a queue is linked to its resource and request, and the queue
  counters of owners and authority are exact and bounded. Every primitive keeps it.
\<close>

section \<open>The invariant of the queues\<close>

definition waits :: "actionRecord \<Rightarrow> bool" where
  "waits x \<longleftrightarrow> rc_Outcome (ac_receipt x) = Pending \<and> ac_waitUntil x \<noteq> None"

definition waiting :: "Authority \<Rightarrow> OwnerID \<Rightarrow> RequestID \<Rightarrow> ResourceID \<Rightarrow> bool" where
  "waiting a oid req rid \<longleftrightarrow> (\<exists>x. getAct a oid req = Some x \<and> waits x \<and> ac_resource x = Some rid)"

definition waitCount :: "ownerRecord \<Rightarrow> int" where
  "waitCount ow = gsum (\<lambda>_ x. if waits x then 1 else 0) (ow_actions ow)"

definition queues_exact :: "Authority \<Rightarrow> bool" where
  "queues_exact a \<longleftrightarrow> (\<forall>rid r. gget (au_objects a) rid = Some r \<longrightarrow> distinct (rs_queue r)
     \<and> int (length (rs_queue r)) \<le> opt_QueuedPerResource (au_options a)
     \<and> (\<forall>oid req. (oid, req) \<in> set (rs_queue r) \<longleftrightarrow> waiting a oid req rid)) \<and> 0 \<le> opt_QueuedPerResource (au_options a)"

definition act_ok :: "Authority \<Rightarrow> actionRecord \<Rightarrow> bool" where
  "act_ok a x \<longleftrightarrow> (\<forall>rid. ac_resource x = Some rid \<longrightarrow> gget (au_objects a) rid \<noteq> None)
     \<and> (ac_waitUntil x \<noteq> None \<longrightarrow> ac_resource x \<noteq> None \<and> rc_Acquire (ac_receipt x) \<noteq> None)"

definition acts_linked :: "Authority \<Rightarrow> bool" where
  "acts_linked a \<longleftrightarrow> (\<forall>oid req x. getAct a oid req = Some x \<longrightarrow> act_ok a x)"

definition queues_counted :: "Authority \<Rightarrow> bool" where
  "queues_counted a \<longleftrightarrow> (\<forall>oid ow. gget (au_owners a) oid = Some ow \<longrightarrow> ow_queued ow = waitCount ow
        \<and> waitCount ow \<le> opt_QueuedPerOwner (au_options a))
     \<and> au_queued a = gsum (\<lambda>_ ow. waitCount ow) (au_owners a) \<and> au_queued a \<le> opt_MaxQueued (au_options a)
     \<and> 0 \<le> opt_QueuedPerOwner (au_options a)"

definition queue_inv :: "Authority \<Rightarrow> bool" where
  "queue_inv a \<longleftrightarrow> queues_exact a \<and> acts_linked a \<and> queues_counted a"

text \<open>The frame of the queues: what an action keeps is whether it is pending, since when it
  waits and for which resource.\<close>

definition ac_strip :: "actionRecord \<Rightarrow> actionRecord" where
  "ac_strip x = (tombstone [])\<lparr>ac_receipt := (ac_receipt (tombstone []))\<lparr>rc_Outcome := rc_Outcome (ac_receipt x), rc_Acquire := rc_Acquire (ac_receipt x)\<rparr>,
     ac_resource := ac_resource x, ac_waitUntil := ac_waitUntil x\<rparr>"

definition ow_queue :: "ownerRecord \<Rightarrow> ownerRecord" where
  "ow_queue ow = ow\<lparr>ow_actions := map (map_prod id ac_strip) (ow_actions ow), ow_grants := [], ow_liveGrants := 0\<rparr>"

definition rs_queued :: "resourceRecord \<Rightarrow> resourceRecord" where
  "rs_queued r = r\<lparr>rs_referenceUntil := 0, rs_grants := [], rs_busy := False, rs_retired := False, rs_worker := False,
     rs_holds := 0, rs_forgetting := False\<rparr>"

definition qframe :: "Authority \<Rightarrow> Authority" where
  "qframe a = a\<lparr>au_watermark := 0, au_sessions := [], au_tickets := [], au_resources := [], au_keys := [], au_lastGeneration := 0,
     au_actions := 0, au_grants := 0, au_publications := 0, au_nativeCalls := 0, au_fenced := None, au_closed := False, au_closeErr := None,
     au_owners := map (map_prod id ow_queue) (au_owners a), au_objects := map (map_prod id rs_queued) (au_objects a)\<rparr>"

lemma getAct_qframe: "getAct (qframe a) oid req = map_option ac_strip (getAct a oid req)"
  by (auto simp: getAct_def qframe_def gget_map_strip ow_queue_def split: option.split)

lemma queue_inv_qframe: "queue_inv (qframe a) = queue_inv a"
proof -
  have st [simp]: "waits (ac_strip x) = waits x" "ac_resource (ac_strip x) = ac_resource x" "ac_waitUntil (ac_strip x) = ac_waitUntil x"
    "rc_Acquire (ac_receipt (ac_strip x)) = rc_Acquire (ac_receipt x)" for x
    by (simp_all add: ac_strip_def waits_def)
  have wt: "waiting (qframe a) oid req rid = waiting a oid req rid" for oid req rid
    by (auto simp: waiting_def getAct_qframe)
  have owners: "gget (au_owners (qframe a)) oid = map_option ow_queue (gget (au_owners a) oid)" for oid
    by (simp add: qframe_def gget_map_strip)
  have objs: "gget (au_objects (qframe a)) rid = map_option rs_queued (gget (au_objects a) rid)" for rid
    by (simp add: qframe_def gget_map_strip)
  have rs [simp]: "rs_queue (rs_queued r) = rs_queue r" for r by (simp add: rs_queued_def)
  have cnt [simp]: "waitCount (ow_queue ow) = waitCount ow" "ow_queued (ow_queue ow) = ow_queued ow" for ow
    by (simp_all add: waitCount_def ow_queue_def gsum_strip)
  have rest: "au_options (qframe a) = au_options a" "au_queued (qframe a) = au_queued a"
    "gsum (\<lambda>_ ow. waitCount ow) (au_owners (qframe a)) = gsum (\<lambda>_ ow. waitCount ow) (au_owners a)"
    by (simp_all add: qframe_def gsum_strip)
  have ok: "act_ok (qframe a) (ac_strip x) = act_ok a x" for x by (simp add: act_ok_def objs)
  have "queues_exact (qframe a) = queues_exact a"
    unfolding queues_exact_def wt objs all_map_option rest by simp
  moreover have "acts_linked (qframe a) = acts_linked a"
    unfolding acts_linked_def getAct_qframe all_map_option ok by simp
  moreover have "queues_counted (qframe a) = queues_counted a"
    unfolding queues_counted_def owners all_map_option rest by simp
  ultimately show ?thesis by (simp add: queue_inv_def)
qed

lemma queue_inv_by_frame: "queue_inv a \<Longrightarrow> qframe a' = qframe a \<Longrightarrow> queue_inv a'"
  by (metis queue_inv_qframe)

lemma qframe_fields [simp]:
  "qframe (a\<lparr>au_watermark := w\<rparr>) = qframe a" "qframe (a\<lparr>au_sessions := s\<rparr>) = qframe a" "qframe (a\<lparr>au_tickets := t\<rparr>) = qframe a"
  "qframe (a\<lparr>au_resources := rs\<rparr>) = qframe a" "qframe (a\<lparr>au_keys := ks\<rparr>) = qframe a" "qframe (a\<lparr>au_lastGeneration := g\<rparr>) = qframe a"
  "qframe (a\<lparr>au_actions := n\<rparr>) = qframe a" "qframe (a\<lparr>au_grants := n\<rparr>) = qframe a" "qframe (a\<lparr>au_publications := n\<rparr>) = qframe a"
  "qframe (a\<lparr>au_nativeCalls := n\<rparr>) = qframe a" "qframe (a\<lparr>au_fenced := e\<rparr>) = qframe a" "qframe (a\<lparr>au_closed := b\<rparr>) = qframe a"
  "qframe (a\<lparr>au_closeErr := e\<rparr>) = qframe a"
  by (simp_all add: qframe_def)

lemma qframe_updSess [simp]: "qframe (updSess sid f a) = qframe a"
  by (simp add: updSess_def)

lemma qframe_updRes: "(\<And>r. rs_queued (f r) = rs_queued r) \<Longrightarrow> qframe (updRes rid f a) = qframe a"
  by (simp add: qframe_def updRes_def map_gupd_same)

lemma qframe_updOwn: "(\<And>ow. ow_queue (f ow) = ow_queue ow) \<Longrightarrow> qframe (updOwn oid f a) = qframe a"
  by (simp add: qframe_def updOwn_def map_gupd_same)

lemma qframe_grants [simp]:
  "qframe (endGrantLocked oid gid state a) = qframe a" "qframe (installGrant oid gid g a) = qframe a" "qframe (updGrant oid gid f a) = qframe a"
  by (simp_all add: endGrantLocked_def installGrant_def updGrant_def qframe_updOwn qframe_updRes ow_queue_def rs_queued_def split: option.split)

section \<open>Changes of the queues\<close>

lemma waitCount_zero:
  assumes "distinct_keys (ow_actions ow)" and "\<And>req x. gget (ow_actions ow) req = Some x \<Longrightarrow> \<not> waits x"
  shows "waitCount ow = 0"
proof -
  have "waitCount ow = gsum (\<lambda>_ _. 0) (ow_actions ow)"
    unfolding waitCount_def using assms(2) in_set_gget [OF assms(1)] by (intro gsum_cong) auto
  then show ?thesis by simp
qed

lemma queue_inv_delOwner:
  assumes inv: "queue_inv a" and base: "base_inv a"
    and idle: "\<And>req x. getAct a oid req = Some x \<Longrightarrow> rc_Outcome (ac_receipt x) \<noteq> Pending"
  shows "queue_inv (a\<lparr>au_owners := gdel oid (au_owners a)\<rparr>)"
proof -
  let ?d = "a\<lparr>au_owners := gdel oid (au_owners a)\<rparr>"
  have act: "getAct ?d oid' req = (if oid' = oid then None else getAct a oid' req)" for oid' req by (simp add: getAct_def)
  have wt: "waiting ?d oid' req rid = waiting a oid' req rid" for oid' req rid
    using idle by (auto simp: waiting_def act waits_def)
  have zero: "waitCount ow = 0" if ow: "gget (au_owners a) oid = Some ow" for ow
    by (rule waitCount_zero) (use base ow idle in \<open>auto simp: base_inv_def owner_inv_def owners_bounded_def getAct_def waits_def\<close>)
  have "gsum (\<lambda>_ ow. waitCount ow) (gdel oid (au_owners a)) = gsum (\<lambda>_ ow. waitCount ow) (au_owners a)"
    using base zero by (simp add: gsum_gdel base_inv_def owner_inv_def owners_linked_def split: option.split)
  then have "queues_counted ?d" using inv by (simp add: queue_inv_def queues_counted_def)
  moreover have "queues_exact ?d" using inv by (simp add: queue_inv_def queues_exact_def wt)
  moreover have "acts_linked ?d" using inv by (simp add: queue_inv_def acts_linked_def act act_ok_def)
  ultimately show ?thesis by (simp add: queue_inv_def)
qed

lemma queue_inv_newOwner:
  assumes inv: "queue_inv a" and base: "base_inv a" and fresh: "gget (au_owners a) oid = None" and new: "ow_actions ow = []" "ow_queued ow = 0"
  shows "queue_inv (a\<lparr>au_owners := gput oid ow (au_owners a)\<rparr>)"
proof -
  let ?d = "a\<lparr>au_owners := gput oid ow (au_owners a)\<rparr>"
  have act: "getAct ?d = getAct a" using fresh new by (auto simp: fun_eq_iff getAct_def split: option.split)
  have zero: "waitCount ow = 0" using new by (simp add: waitCount_def)
  then have "gsum (\<lambda>_ ow. waitCount ow) (gput oid ow (au_owners a)) = gsum (\<lambda>_ ow. waitCount ow) (au_owners a)"
    using base fresh by (simp add: gsum_gput base_inv_def owner_inv_def owners_linked_def)
  then have "queues_counted ?d" using inv new zero by (simp add: queue_inv_def queues_counted_def)
  moreover have "queues_exact ?d" "acts_linked ?d"
    using inv by (simp_all add: queue_inv_def queues_exact_def acts_linked_def act act_ok_def waiting_def)
  ultimately show ?thesis by (simp add: queue_inv_def)
qed

lemma acts_okD: "queue_inv a \<Longrightarrow> getAct a oid req = Some x \<Longrightarrow> act_ok a x"
  unfolding queue_inv_def acts_linked_def by blast

lemma queue_inv_newResource:
  assumes inv: "queue_inv a" and fresh: "gget (au_objects a) rid = None" and new: "rs_queue r = []"
  shows "queue_inv (a\<lparr>au_objects := gput rid r (au_objects a)\<rparr>)"
proof -
  let ?d = "a\<lparr>au_objects := gput rid r (au_objects a)\<rparr>"
  have act: "getAct ?d = getAct a" by (simp add: fun_eq_iff getAct_def)
  have "\<not> waiting a oid req rid" for oid req
  proof
    assume "waiting a oid req rid"
    then obtain x where "getAct a oid req = Some x" "ac_resource x = Some rid" by (auto simp: waiting_def)
    with acts_okD [OF inv] fresh show False by (force simp: act_ok_def)
  qed
  then have "queues_exact ?d"
    using inv new by (auto simp: queue_inv_def queues_exact_def waiting_def act)
  moreover have "acts_linked ?d" "queues_counted ?d"
    using inv by (auto simp: queue_inv_def acts_linked_def act act_ok_def queues_counted_def)
  ultimately show ?thesis by (simp add: queue_inv_def)
qed

text \<open>Changing one action: what matters is whether it waits before and after.\<close>

lemma waitCount_gupd:
  assumes "distinct_keys (ow_actions ow)" and "gget (ow_actions ow) req = Some x"
  shows "gsum (\<lambda>_ x. if waits x then 1 else 0) (gupd req f (ow_actions ow)) = waitCount ow + (if waits (f x) then 1 else 0) - (if waits x then 1 else 0)"
  using assms by (simp add: waitCount_def gsum_gupd)

lemma base_acts: "base_inv a \<Longrightarrow> gget (au_owners a) oid = Some ow \<Longrightarrow> distinct_keys (ow_actions ow)"
  "base_inv a \<Longrightarrow> distinct_keys (au_owners a)" "base_inv a \<Longrightarrow> distinct_keys (au_objects a)"
  by (auto simp: base_inv_def owner_inv_def owners_bounded_def owners_linked_def grants_inv_def tables_wf_def)

lemma queue_inv_updAct:
  assumes inv: "queue_inv a" and base: "base_inv a" and x: "getAct a oid req = Some x"
    and calm: "waits (f x) = waits x" "waits x \<Longrightarrow> ac_resource (f x) = ac_resource x" and ok: "act_ok a (f x)"
  shows "queue_inv (updAct oid req f a)"
proof -
  let ?d = "updAct oid req f a"
  from x obtain ow where ow: "gget (au_owners a) oid = Some ow" "gget (ow_actions ow) req = Some x"
    by (cases "gget (au_owners a) oid") (auto simp: getAct_def)
  have wt: "waiting ?d oid' req' rid = waiting a oid' req' rid" for oid' req' rid
    using x calm by (auto simp: waiting_def getAct_updAct)
  have fields: "au_objects ?d = au_objects a" "au_queued ?d = au_queued a" "au_options ?d = au_options a"
    "au_owners ?d = gupd oid (\<lambda>ow. ow\<lparr>ow_actions := gupd req f (ow_actions ow)\<rparr>) (au_owners a)"
    by (simp_all add: updAct_def updOwn_def)
  have one: "waitCount (ow\<lparr>ow_actions := gupd req f (ow_actions ow)\<rparr>) = waitCount ow"
    using waitCount_gupd [OF base_acts(1) [OF base ow(1)] ow(2), of f] calm(1) by (simp add: waitCount_def)
  then have "gsum (\<lambda>_ ow. waitCount ow) (au_owners ?d) = gsum (\<lambda>_ ow. waitCount ow) (au_owners a)"
    using ow(1) by (simp add: fields gsum_gupd [OF base_acts(2) [OF base]])
  then have "queues_counted ?d"
    using inv ow(1) one by (auto simp: queue_inv_def queues_counted_def fields)
  moreover have "queues_exact ?d" using inv by (simp add: queue_inv_def queues_exact_def fields wt)
  moreover have "acts_linked ?d"
    using inv ok x by (auto simp: queue_inv_def acts_linked_def act_ok_def fields getAct_updAct)
  ultimately show ?thesis by (simp add: queue_inv_def)
qed

lemma gupd_id:
  assumes "distinct_keys m" and "\<And>v. gget m k = Some v \<Longrightarrow> f v = v"
  shows "gupd k f m = m"
  unfolding gupd_def using assms(2) in_set_gget [OF assms(1)] by (intro map_idI) auto

lemma updAct_missing:
  assumes "base_inv a" and none: "getAct a oid req = None"
  shows "updAct oid req f a = a"
proof -
  have "gupd oid (\<lambda>ow. ow\<lparr>ow_actions := gupd req f (ow_actions ow)\<rparr>) (au_owners a) = au_owners a"
  proof (rule gupd_id [OF base_acts(2) [OF assms(1)]])
    fix ow assume "gget (au_owners a) oid = Some ow"
    with none have "req \<notin> fst ` set (ow_actions ow)" by (simp add: getAct_def gget_eq_None)
    then show "ow\<lparr>ow_actions := gupd req f (ow_actions ow)\<rparr> = ow" by (simp add: gupd_absent)
  qed
  then show ?thesis by (simp add: updAct_def updOwn_def)
qed

lemma queues_exactD:
  assumes "queue_inv a" and "gget (au_objects a) rid = Some r"
  shows "distinct (rs_queue r)" and "int (length (rs_queue r)) \<le> opt_QueuedPerResource (au_options a)"
    and "(oid, req) \<in> set (rs_queue r) \<longleftrightarrow> waiting a oid req rid"
  using assms unfolding queue_inv_def queues_exact_def by blast+

lemma queues_exactI:
  assumes "queue_inv a" and "au_options d = au_options a"
    and "\<And>rid r. gget (au_objects d) rid = Some r \<Longrightarrow> distinct (rs_queue r) \<and> int (length (rs_queue r)) \<le> opt_QueuedPerResource (au_options a)
          \<and> (\<forall>oid req. (oid, req) \<in> set (rs_queue r) \<longleftrightarrow> waiting d oid req rid)"
  shows "queues_exact d"
  using assms unfolding queue_inv_def queues_exact_def by simp

lemma queue_inv_finish:
  assumes inv: "queue_inv a" and base: "base_inv a" and outcome: "outcome \<noteq> Pending"
  shows "queue_inv (finishLocked oid req outcome code a)"
proof (cases "\<exists>x. getAct a oid req = Some x \<and> rc_Outcome (ac_receipt x) = Pending")
  case False
  then have "finishLocked oid req outcome code a = a" by (auto simp: finishLocked_def Let_def split: option.split)
  with inv show ?thesis by simp
next
  case True
  then obtain x where x: "getAct a oid req = Some x" and pend: "rc_Outcome (ac_receipt x) = Pending" by blast
  let ?settle = "\<lambda>x. x\<lparr>ac_receipt := (ac_receipt x)\<lparr>rc_Outcome := outcome, rc_Code := code\<rparr>\<rparr>"
  have ok: "act_ok a x" using inv x by (rule acts_okD)
  have over: "\<not> waits (?settle y)" for y using outcome by (simp add: waits_def)
  show ?thesis
  proof (cases "ac_waitUntil x")
    case None
    then have "finishLocked oid req outcome code a = updAct oid req ?settle a" using x pend by (simp add: finishLocked_def)
    moreover have "queue_inv (updAct oid req ?settle a)"
      using ok None over by (intro queue_inv_updAct [OF inv base x]) (auto simp: waits_def act_ok_def)
    ultimately show ?thesis by simp
  next
    case (Some until)
    let ?d = "finishLocked oid req outcome code a"
    from ok Some obtain rid where rid: "ac_resource x = Some rid" by (auto simp: act_ok_def)
    from x obtain ow where ow: "gget (au_owners a) oid = Some ow" "gget (ow_actions ow) req = Some x"
      by (cases "gget (au_owners a) oid") (auto simp: getAct_def)
    have wx: "waits x" using pend Some by (simp add: waits_def)
    let ?F = "\<lambda>ow. ow\<lparr>ow_actions := gupd req ?settle (ow_actions ow), ow_queued := ow_queued ow - 1\<rparr>"
    have fields: "au_objects ?d = gupd rid (\<lambda>r. r\<lparr>rs_queue := remove1 (oid, req) (rs_queue r)\<rparr>) (au_objects a)"
      "au_queued ?d = au_queued a - 1" "au_options ?d = au_options a" "au_owners ?d = gupd oid ?F (au_owners a)"
      using x pend Some rid by (simp_all add: finishLocked_def Let_def updOwn_def updRes_def)
    have act: "getAct ?d oid' req' = (if oid' = oid \<and> req' = req then Some (?settle x) else getAct a oid' req')" for oid' req'
      using x pend by (simp add: getAct_finish)
    have wt: "waiting ?d oid' req' rid' \<longleftrightarrow> waiting a oid' req' rid' \<and> \<not> (oid' = oid \<and> req' = req)" for oid' req' rid'
      using over [of x] by (auto simp: waiting_def act)
    have wrid: "waiting a oid req rid' \<longleftrightarrow> rid' = rid" for rid' using x wx rid by (auto simp: waiting_def)
    have "queues_exact ?d"
    proof (rule queues_exactI [OF inv])
      fix rid' r' assume "gget (au_objects ?d) rid' = Some r'"
      then obtain r where r: "gget (au_objects a) rid' = Some r"
        and q: "rs_queue r' = (if rid' = rid then remove1 (oid, req) (rs_queue r) else rs_queue r)"
        by (auto simp: fields split: if_splits)
      note old = queues_exactD [OF inv r]
      have "(oid', req') \<in> set (rs_queue r') \<longleftrightarrow> waiting ?d oid' req' rid'" for oid' req'
        using old(1) old(3) [of oid' req'] wrid [of rid'] by (cases "oid' = oid \<and> req' = req") (auto simp: q wt)
      then show "distinct (rs_queue r') \<and> int (length (rs_queue r')) \<le> opt_QueuedPerResource (au_options a)
          \<and> (\<forall>oid req. (oid, req) \<in> set (rs_queue r') \<longleftrightarrow> waiting ?d oid req rid')"
        using old(1,2) by (auto simp: q length_remove1)
    qed (simp add: fields)
    moreover have "acts_linked ?d"
      using inv ok by (auto simp: queue_inv_def acts_linked_def act act_ok_def fields)
    moreover have one: "waitCount (?F ow) = waitCount ow - 1"
      using waitCount_gupd [OF base_acts(1) [OF base ow(1)] ow(2), of ?settle] wx over by (simp add: waitCount_def)
    then have "gsum (\<lambda>_ ow. waitCount ow) (au_owners ?d) = gsum (\<lambda>_ ow. waitCount ow) (au_owners a) - 1"
      using ow(1) by (simp add: fields gsum_gupd [OF base_acts(2) [OF base]])
    then have "queues_counted ?d"
      using inv ow(1) one by (fastforce simp: queue_inv_def queues_counted_def fields)
    ultimately show ?thesis by (simp add: queue_inv_def)
  qed
qed

lemma queue_inv_addAction:
  assumes inv: "queue_inv a" and base: "base_inv a" and new: "getAct a oid req = None"
    and x: "ac_waitUntil x = None" "ac_resource x = None"
  shows "queue_inv (addAction oid req x a)"
proof (cases "gget (au_owners a) oid")
  case None
  then have "au_owners (addAction oid req x a) = au_owners a"
    by (simp add: addAction_def updOwn_def gget_eq_None gupd_absent)
  then have "qframe (addAction oid req x a) = qframe a" by (simp add: addAction_def updOwn_def qframe_def)
  with inv show ?thesis by (rule queue_inv_by_frame)
next
  case (Some ow)
  let ?d = "addAction oid req x a"
  have none: "gget (ow_actions ow) req = None" using Some new by (simp add: getAct_def)
  have fields: "au_objects ?d = au_objects a" "au_queued ?d = au_queued a" "au_options ?d = au_options a"
    "au_owners ?d = gupd oid (\<lambda>ow. ow\<lparr>ow_actions := gput req x (ow_actions ow)\<rparr>) (au_owners a)"
    by (simp_all add: addAction_def updOwn_def)
  have act: "getAct ?d oid' req' = (if oid' = oid \<and> req' = req then Some x else getAct a oid' req')" for oid' req'
    using Some by (auto simp: getAct_def fields split: option.split)
  have wt: "waiting ?d oid' req' rid = waiting a oid' req' rid" for oid' req' rid
    using x new by (auto simp: waiting_def act)
  have one: "waitCount (ow\<lparr>ow_actions := gput req x (ow_actions ow)\<rparr>) = waitCount ow"
    using base_acts(1) [OF base Some] none x(1) by (simp add: waitCount_def gsum_gput waits_def)
  then have "gsum (\<lambda>_ ow. waitCount ow) (au_owners ?d) = gsum (\<lambda>_ ow. waitCount ow) (au_owners a)"
    using Some by (simp add: fields gsum_gupd [OF base_acts(2) [OF base]])
  then have "queues_counted ?d"
    using inv Some one by (auto simp: queue_inv_def queues_counted_def fields)
  moreover have "queues_exact ?d" using inv by (simp add: queue_inv_def queues_exact_def fields wt)
  moreover have "acts_linked ?d"
    using inv x by (auto simp: queue_inv_def acts_linked_def act_ok_def fields act)
  ultimately show ?thesis by (simp add: queue_inv_def)
qed

lemma queue_inv_enqueue:
  assumes inv: "queue_inv a" and base: "base_inv a" and x: "getAct a oid req = Some x" "rc_Outcome (ac_receipt x) = Pending"
      "ac_waitUntil x = None" "ac_resource x = Some rid" "rc_Acquire (ac_receipt x) \<noteq> None"
    and r: "gget (au_objects a) rid = Some r" and room: "\<not> queueFull oid rid a"
  shows "queue_inv ((updRes rid (\<lambda>r. r\<lparr>rs_queue := rs_queue r @ [(oid, req)]\<rparr>)
           (updOwn oid (\<lambda>ow. ow\<lparr>ow_actions := gupd req (\<lambda>x. x\<lparr>ac_waitUntil := Some until\<rparr>) (ow_actions ow),
                             ow_queued := ow_queued ow + 1\<rparr>) a))
        \<lparr>au_queued := au_queued a + 1\<rparr>)" (is "queue_inv ?d")
proof -
  let ?f = "\<lambda>x. x\<lparr>ac_waitUntil := Some until\<rparr>"
  let ?F = "\<lambda>ow. ow\<lparr>ow_actions := gupd req ?f (ow_actions ow), ow_queued := ow_queued ow + 1\<rparr>"
  from x obtain ow where ow: "gget (au_owners a) oid = Some ow" "gget (ow_actions ow) req = Some x"
    by (cases "gget (au_owners a) oid") (auto simp: getAct_def)
  have fields: "au_objects ?d = gupd rid (\<lambda>r. r\<lparr>rs_queue := rs_queue r @ [(oid, req)]\<rparr>) (au_objects a)" "au_queued ?d = au_queued a + 1"
    "au_options ?d = au_options a" "au_owners ?d = gupd oid ?F (au_owners a)"
    by (simp_all add: updOwn_def updRes_def)
  have act: "getAct ?d oid' req' = (if oid' = oid \<and> req' = req then Some (?f x) else getAct a oid' req')" for oid' req'
    using ow by (auto simp: getAct_def fields split: option.split)
  have no: "\<not> waiting a oid req rid'" for rid' using x by (simp add: waiting_def waits_def)
  have wt: "waiting ?d oid' req' rid' \<longleftrightarrow> waiting a oid' req' rid' \<or> oid' = oid \<and> req' = req \<and> rid' = rid" for oid' req' rid'
    using x no by (auto simp: waiting_def act waits_def)
  have "queues_exact ?d"
  proof (rule queues_exactI [OF inv])
    fix rid' r' assume "gget (au_objects ?d) rid' = Some r'"
    then obtain r0 where r0: "gget (au_objects a) rid' = Some r0"
      and q: "rs_queue r' = (if rid' = rid then rs_queue r0 @ [(oid, req)] else rs_queue r0)"
      by (auto simp: fields split: if_splits)
    note old = queues_exactD [OF inv r0]
    have "int (length (rs_queue r0)) < opt_QueuedPerResource (au_options a)" if "rid' = rid"
      using room r0 that by (simp add: queueFull_def resQueue_def)
    then show "distinct (rs_queue r') \<and> int (length (rs_queue r')) \<le> opt_QueuedPerResource (au_options a)
        \<and> (\<forall>oid req. (oid, req) \<in> set (rs_queue r') \<longleftrightarrow> waiting ?d oid req rid')"
      using old no [of rid'] by (auto simp: q wt)
  qed (simp add: fields)
  moreover have "acts_linked ?d"
  proof -
    have "act_ok a x'" if "getAct a o' r' = Some x'" for o' r' x' using inv that by (rule acts_okD)
    then show ?thesis using r x by (auto simp: acts_linked_def act act_ok_def fields)
  qed
  moreover have "queues_counted ?d"
  proof -
  have one: "waitCount (?F ow) = waitCount ow + 1"
    using waitCount_gupd [OF base_acts(1) [OF base ow(1)] ow(2), of ?f] x by (simp add: waitCount_def waits_def)
  then have "gsum (\<lambda>_ ow. waitCount ow) (au_owners ?d) = gsum (\<lambda>_ ow. waitCount ow) (au_owners a) + 1"
    using ow(1) by (simp add: fields gsum_gupd [OF base_acts(2) [OF base]])
  moreover have "waitCount ow < opt_QueuedPerOwner (au_options a)" "au_queued a < opt_MaxQueued (au_options a)" "ow_queued ow = waitCount ow"
    using inv ow(1) room by (auto simp: queue_inv_def queues_counted_def queueFull_def)
  ultimately show ?thesis
    using inv ow(1) one unfolding queue_inv_def queues_counted_def fields by auto
  qed
  ultimately show ?thesis by (simp add: queue_inv_def)
qed

lemma queue_inv_prim:
  assumes "prim now al a b" and "queue_inv a" and "base_inv a"
  shows "queue_inv b"
  using assms
proof (induction rule: prim.induct)
  case (prim_finish outcome a oid req code)
  then show ?case by (simp add: queue_inv_finish)
next
  case (prim_delOwner a oid ow)
  have "queue_inv (a\<lparr>au_owners := gdel oid (au_owners a)\<rparr>)"
    using prim_delOwner by (intro queue_inv_delOwner) auto
  then show ?case by (rule queue_inv_by_frame) (simp add: qframe_def updSess_def)
next
  case (prim_newOwner oid a sid s request)
  have "queue_inv (a\<lparr>au_owners := gput oid \<lparr>ow_ref = \<lparr>or_Session = sid, or_Owner = oid\<rparr>, ow_actions = [], ow_grants = [],
                                     ow_liveGrants = 0, ow_queued = 0\<rparr> (au_owners a)\<rparr>)"
    using prim_newOwner by (intro queue_inv_newOwner) auto
  then show ?case by (rule queue_inv_by_frame) simp
next
  case (prim_newResource a rid key)
  let ?r = "\<lparr>rs_id = rid, rs_key = key, rs_referenceUntil = 0, rs_grants = [], rs_queue = [], rs_busy = False, rs_retired = False,
      rs_worker = False, rs_holds = 0, rs_forgetting = False\<rparr>"
  have "queue_inv (a\<lparr>au_objects := gput rid ?r (au_objects a)\<rparr>)"
    using prim_newResource by (intro queue_inv_newResource) auto
  then show ?case by (rule queue_inv_by_frame) (simp only: qframe_fields)
next
  case (prim_addAction a oid req x)
  then show ?case by (intro queue_inv_addAction) auto
next
  case (prim_updAct a oid req f)
  show ?case
  proof (cases "getAct a oid req")
    case None
    with prim_updAct show ?thesis by (simp add: updAct_missing)
  next
    case (Some x)
    have ok: "act_ok a x" using prim_updAct(2) Some by (rule acts_okD)
    with prim_updAct(1) [OF Some] show ?thesis
      by (intro queue_inv_updAct [OF prim_updAct(2,3) Some]) (auto simp: act_keeps_def waits_def act_ok_def)
  qed
next
  case (prim_enqueue a oid req x rid r until)
  then show ?case by (intro queue_inv_enqueue)
next
  case (prim_updRes f a rid)
  have "rs_queued (r\<lparr>rs_referenceUntil := u, rs_retired := b, rs_worker := w\<rparr>) = rs_queued r" for r u b w by (simp add: rs_queued_def)
  then have "rs_queued (f r) = rs_queued r" for r using prim_updRes(1) unfolding res_keeps_def by metis
  then show ?case by (intro queue_inv_by_frame [OF \<open>queue_inv a\<close>] qframe_updRes)
next
  case (prim_forgetting a rid r t)
  show ?case by (rule queue_inv_by_frame [OF \<open>queue_inv a\<close>]) (simp add: qframe_updRes rs_queued_def)
qed (auto elim!: queue_inv_by_frame)

end
