(* ===== verification/LockKeys.thy ===== *)
theory LockKeys
  imports LockQueue
begin

text \<open>
  The key table and the resource set describe the same resources, and a resource is removed
  from them only when it has no grant, no waiting action and no admitted call. Every
  primitive keeps it.
\<close>

section \<open>Keys, resources and forgetting\<close>

definition keys_exact :: "Authority \<Rightarrow> bool" where
  "keys_exact a \<longleftrightarrow> distinct (au_resources a)
     \<and> (\<forall>key rid. gget (au_keys a) key = Some rid \<longleftrightarrow>
          rid \<in> set (au_resources a) \<and> (\<exists>r. gget (au_objects a) rid = Some r \<and> rs_key r = key))
     \<and> (\<forall>rid \<in> set (au_resources a). gget (au_objects a) rid \<noteq> None)"

definition quiet :: "resourceRecord \<Rightarrow> bool" where
  "quiet r \<longleftrightarrow> rs_grants r = [] \<and> rs_queue r = [] \<and> rs_holds r = 0"

definition forgotten_quiet :: "Authority \<Rightarrow> bool" where
  "forgotten_quiet a \<longleftrightarrow> (\<forall>rid r. gget (au_objects a) rid = Some r \<longrightarrow>
     (rs_forgetting r \<longrightarrow> quiet r) \<and> (\<not> au_closed a \<longrightarrow> rid \<notin> set (au_resources a) \<longrightarrow> rs_forgetting r))"

definition keys_inv :: "Authority \<Rightarrow> bool" where
  "keys_inv a \<longleftrightarrow> keys_exact a \<and> forgotten_quiet a"

text \<open>Changing one resource without touching its key keeps the key table.\<close>

lemma keys_inv_objects:
  assumes inv: "keys_inv a" and res: "au_resources d = au_resources a" "au_keys d = au_keys a" "au_closed d = au_closed a"
    and objs: "\<And>rid. gget (au_objects d) rid = map_option (f rid) (gget (au_objects a) rid)"
    and keep: "\<And>rid r. gget (au_objects a) rid = Some r \<Longrightarrow> rs_key (f rid r) = rs_key r
        \<and> (rs_forgetting r \<longrightarrow> rs_forgetting (f rid r)) \<and> (rs_forgetting (f rid r) \<longrightarrow> (rs_forgetting r \<longrightarrow> quiet r) \<longrightarrow> quiet (f rid r))"
  shows "keys_inv d"
proof -
  have ke: "keys_exact a" and fq: "forgotten_quiet a" using inv by (simp_all add: keys_inv_def)
  have ex: "(\<exists>r. gget (au_objects d) rid = Some r \<and> rs_key r = key) \<longleftrightarrow> (\<exists>r. gget (au_objects a) rid = Some r \<and> rs_key r = key)" for rid key
    using keep by (cases "gget (au_objects a) rid") (auto simp: objs)
  have "keys_exact d" using ke unfolding keys_exact_def res ex by (simp add: objs)
  moreover have "forgotten_quiet d"
    unfolding forgotten_quiet_def res objs all_map_option
  proof (intro allI impI conjI)
    fix rid r assume r: "gget (au_objects a) rid = Some r"
    have old: "rs_forgetting r \<longrightarrow> quiet r" "\<not> au_closed a \<longrightarrow> rid \<notin> set (au_resources a) \<longrightarrow> rs_forgetting r"
      using fq r unfolding forgotten_quiet_def by blast+
    show "quiet (f rid r)" if "rs_forgetting (f rid r)" using keep [OF r] old that by blast
    show "rs_forgetting (f rid r)" if "\<not> au_closed a" "rid \<notin> set (au_resources a)" using keep [OF r] old that by blast
  qed
  ultimately show ?thesis by (simp add: keys_inv_def)
qed

lemma keys_inv_fields [simp]:
  "keys_inv (a\<lparr>au_grants := n\<rparr>) = keys_inv a" "keys_inv (a\<lparr>au_queued := n\<rparr>) = keys_inv a" "keys_inv (a\<lparr>au_actions := n\<rparr>) = keys_inv a"
  "keys_inv (a\<lparr>au_tickets := t\<rparr>) = keys_inv a" "keys_inv (a\<lparr>au_sessions := s\<rparr>) = keys_inv a" "keys_inv (a\<lparr>au_owners := ows\<rparr>) = keys_inv a"
  "keys_inv (a\<lparr>au_lastGeneration := g\<rparr>) = keys_inv a" "keys_inv (a\<lparr>au_fenced := e\<rparr>) = keys_inv a" "keys_inv (a\<lparr>au_nativeCalls := n\<rparr>) = keys_inv a"
  "keys_inv (a\<lparr>au_watermark := w\<rparr>) = keys_inv a" "keys_inv (a\<lparr>au_publications := n\<rparr>) = keys_inv a" "keys_inv (a\<lparr>au_closeErr := e\<rparr>) = keys_inv a"
  "keys_inv (updOwn oid f a) = keys_inv a" "keys_inv (updSess sid h a) = keys_inv a"
  by (simp_all add: keys_inv_def keys_exact_def forgotten_quiet_def updOwn_def updSess_def)

lemma gupd_view: "gget (gupd k f m) k' = map_option (\<lambda>v. if k' = k then f v else v) (gget m k')"
  by (cases "gget m k'") auto

lemma keys_inv_updRes:
  assumes "keys_inv a" and "\<And>r. gget (au_objects a) rid = Some r \<Longrightarrow> rs_key (f r) = rs_key r
        \<and> (rs_forgetting r \<longrightarrow> rs_forgetting (f r)) \<and> (rs_forgetting (f r) \<longrightarrow> (rs_forgetting r \<longrightarrow> quiet r) \<longrightarrow> quiet (f r))"
  shows "keys_inv (updRes rid f a)"
  by (rule keys_inv_objects [OF assms(1), where f = "\<lambda>rid' r. if rid' = rid then f r else r"])
    (use assms(2) in \<open>auto simp: updRes_def gupd_view simp del: gget_gupd\<close>)

lemma quiet_keeps [simp]:
  "quiet (r\<lparr>rs_grants := gdel gid (rs_grants r)\<rparr>) \<longleftrightarrow> gdel gid (rs_grants r) = [] \<and> rs_queue r = [] \<and> rs_holds r = 0"
  "quiet (r\<lparr>rs_queue := q\<rparr>) \<longleftrightarrow> rs_grants r = [] \<and> q = [] \<and> rs_holds r = 0"
  by (simp_all add: quiet_def)

lemma quiet_flags:
  "rs_key (r\<lparr>rs_referenceUntil := u, rs_retired := b, rs_worker := w\<rparr>) = rs_key r
   \<and> rs_forgetting (r\<lparr>rs_referenceUntil := u, rs_retired := b, rs_worker := w\<rparr>) = rs_forgetting r
   \<and> quiet (r\<lparr>rs_referenceUntil := u, rs_retired := b, rs_worker := w\<rparr>) = quiet r"
  by (simp add: quiet_def)

lemma quietD: "quiet r \<Longrightarrow> rs_grants r = []" "quiet r \<Longrightarrow> rs_queue r = []" "quiet r \<Longrightarrow> rs_holds r = 0"
  by (simp_all add: quiet_def)

lemma objects_updOwn [simp]:
  "au_objects (updOwn oid f a) = au_objects a" "au_resources (updOwn oid f a) = au_resources a" "au_keys (updOwn oid f a) = au_keys a"
  "au_closed (updOwn oid f a) = au_closed a" "au_objects (updSess sid g a) = au_objects a" "au_resources (updSess sid g a) = au_resources a"
  "au_keys (updSess sid g a) = au_keys a" "au_closed (updSess sid g a) = au_closed a"
  by (simp_all add: updOwn_def updSess_def)

lemma keys_inv_endGrant: "keys_inv a \<Longrightarrow> keys_inv (endGrantLocked oid gid state a)"
proof (cases "\<exists>g. live a oid gid g")
  case True
  assume inv: "keys_inv a"
  from True obtain g where g: "live a oid gid g" by blast
  have "keys_inv (updOwn oid f a)" for f using inv by simp
  then have "keys_inv (updRes (gt_resource g) (\<lambda>r. r\<lparr>rs_grants := gdel gid (rs_grants r)\<rparr>) (updOwn oid f a))" for f
    by (rule keys_inv_updRes) (auto simp: quiet_def gdel_def)
  then show ?thesis using g by (simp add: endGrantLocked_def live_def)
qed (simp add: endGrant_idle)

lemma keys_inv_finish: "keys_inv a \<Longrightarrow> keys_inv (finishLocked oid req outcome code a)"
proof -
  assume inv: "keys_inv a"
  have own: "keys_inv (updOwn oid f a)" for f using inv by simp
  then have "keys_inv (updRes rid (\<lambda>r. r\<lparr>rs_queue := remove1 (oid, req) (rs_queue r)\<rparr>) (updOwn oid f a))" for f rid
    by (rule keys_inv_updRes) (auto simp: quiet_def)
  then show ?thesis using inv own by (simp add: finishLocked_def Let_def updAct_def split: option.split)
qed

lemma forgetting_quiet: "keys_inv a \<Longrightarrow> gget (au_objects a) rid = Some r \<Longrightarrow> rs_forgetting r \<Longrightarrow> quiet r"
  unfolding keys_inv_def forgotten_quiet_def by blast

lemma keys_inv_prim:
  assumes "prim now al a b" and "keys_inv a"
  shows "keys_inv b"
  using assms
proof (induction rule: prim.induct)
  case (prim_endGrant state a oid gid)
  then show ?case by (simp add: keys_inv_endGrant)
next
  case (prim_finish outcome a oid req code)
  then show ?case by (simp add: keys_inv_finish)
next
  case (prim_newResource a rid key)
  have ke: "keys_exact a" and fq: "forgotten_quiet a" using prim_newResource by (simp_all add: keys_inv_def)
  have "rid \<notin> set (au_resources a)" using ke prim_newResource(1) by (auto simp: keys_exact_def)
  moreover have "rs_key r \<noteq> key" if "rid' \<in> set (au_resources a)" "gget (au_objects a) rid' = Some r" for rid' r
    using ke prim_newResource(2) that unfolding keys_exact_def by (metis option.distinct(1))
  ultimately show ?case
    using ke fq unfolding keys_inv_def keys_exact_def forgotten_quiet_def by auto
next
  case (prim_enqueue a oid req x rid r until)
  have "\<not> rs_forgetting r" using prim_enqueue forgetting_quiet [of a rid r] by (auto simp: quiet_def)
  then have "keys_inv (updRes rid (\<lambda>r. r\<lparr>rs_queue := rs_queue r @ [(oid, req)]\<rparr>) (updOwn oid f a))" for f
    using prim_enqueue by (intro keys_inv_updRes) auto
  then show ?case by simp
next
  case (prim_updRes f a rid)
  have flags: "rs_key (f r) = rs_key r \<and> rs_forgetting (f r) = rs_forgetting r \<and> quiet (f r) = quiet r" for r
  proof -
    obtain u b w where "f r = r\<lparr>rs_referenceUntil := u, rs_retired := b, rs_worker := w\<rparr>"
      using prim_updRes(1) unfolding res_keeps_def by blast
    then show ?thesis by (simp add: quiet_flags)
  qed
  then show ?case by (intro keys_inv_updRes [OF \<open>keys_inv a\<close>]) simp
next
  case (prim_forgetting a rid r t)
  then show ?case by (intro keys_inv_updRes) (auto simp: forgettable_def quiet_def)
next
  case (prim_forget a rid r)
  have ke: "keys_exact a" and fq: "forgotten_quiet a" using prim_forget by (simp_all add: keys_inv_def)
  have key: "gget (au_keys a) (rs_key r) = Some rid" using ke prim_forget unfolding keys_exact_def by blast
  have "keys_exact (a\<lparr>au_keys := gdel (rs_key r) (au_keys a), au_resources := remove1 rid (au_resources a)\<rparr>)"
    using ke key prim_forget(1) unfolding keys_exact_def by auto (metis option.inject)+
  moreover have "forgotten_quiet (a\<lparr>au_keys := gdel (rs_key r) (au_keys a), au_resources := remove1 rid (au_resources a)\<rparr>)"
    using ke fq prim_forget(1,2) by (auto simp: forgotten_quiet_def keys_exact_def)
  ultimately show ?case by (simp add: keys_inv_def)
next
  case (prim_install oid req gid g a)
  from prim_install obtain r where r: "gget (au_objects a) (gt_resource g) = Some r" "0 < rs_holds r" by (auto simp: granting_def)
  then have "\<not> rs_forgetting r" using prim_install(2) forgetting_quiet [of a "gt_resource g" r] by (auto simp: quiet_def)
  let ?b = "a\<lparr>au_lastGeneration := gr_Generation (gt_ref g)\<rparr>"
  have "keys_inv (updRes (gt_resource g) (\<lambda>r. r\<lparr>rs_grants := gput gid oid (rs_grants r)\<rparr>) (updOwn oid f ?b))" for f
    using r \<open>\<not> rs_forgetting r\<close> prim_install(2) by (intro keys_inv_updRes) auto
  then show ?case by (simp add: installGrant_def)
next
  case (prim_close a)
  then show ?case by (simp add: keys_inv_def keys_exact_def forgotten_quiet_def)
next
  case (prim_closed a e)
  then show ?case by (simp add: keys_inv_def keys_exact_def forgotten_quiet_def)
next
  case (prim_updAct a oid req f)
  then show ?case by (simp add: updAct_def)
next
  case (prim_updGrant a f oid gid)
  then show ?case by (simp add: updGrant_def)
next
  case (prim_addAction a oid req x)
  then show ?case by (simp add: addAction_def)
qed simp_all

end
