(* ===== verification/LockEvolve.thy ===== *)
theory LockEvolve
  imports LockKeys
begin

text \<open>
  How the records of the authority evolve: settings are fixed, the watermark, the fence and
  the closed flag only go one way, a settled receipt and an ended grant never change, the
  grants of a busy resource are frozen, and no live lease outlasts the persisted evidence.
\<close>

section \<open>How the authority evolves\<close>

lemma prim_settings:
  assumes "prim now al a b"
  shows "au_options b = au_options a" "au_start b = au_start a" "au_recoveryUntil b = au_recoveryUntil a" "au_incarnation b = au_incarnation a"
    "au_watermark b = au_watermark a" "au_fenced a \<noteq> None \<Longrightarrow> au_fenced b \<noteq> None" "au_closed a \<Longrightarrow> au_closed b"
    "au_publications b = au_publications a"
  using assms
  by (induction rule: prim.induct)
    (auto simp: updSess_def endGrantLocked_def finishLocked_def Let_def addAction_def updAct_def updOwn_def updRes_def updGrant_def installGrant_def
      split: option.split)

lemma prims_settings:
  assumes "prims now al a b"
  shows "au_options b = au_options a" "au_start b = au_start a" "au_recoveryUntil b = au_recoveryUntil a" "au_incarnation b = au_incarnation a"
    "au_watermark b = au_watermark a" "au_fenced a \<noteq> None \<Longrightarrow> au_fenced b \<noteq> None" "au_closed a \<Longrightarrow> au_closed b"
    "au_publications b = au_publications a"
  using assms
proof (induction rule: rtranclp_induct)
  case (step b c)
  { case 1 show ?case using step prim_settings(1) [OF step.hyps(2)] by simp }
  { case 2 show ?case using step prim_settings(2) [OF step.hyps(2)] by simp }
  { case 3 show ?case using step prim_settings(3) [OF step.hyps(2)] by simp }
  { case 4 show ?case using step prim_settings(4) [OF step.hyps(2)] by simp }
  { case 5 show ?case using step prim_settings(5) [OF step.hyps(2)] by simp }
  { case 6 then show ?case using step prim_settings(6) [OF step.hyps(2)] by blast }
  { case 7 then show ?case using step prim_settings(7) [OF step.hyps(2)] by blast }
  { case 8 show ?case using step prim_settings(8) [OF step.hyps(2)] by simp }
qed simp_all

subsection \<open>Grants\<close>

definition grant_evolves :: "grantRecord \<Rightarrow> grantRecord \<Rightarrow> bool" where
  "grant_evolves g h \<longleftrightarrow> gt_ref h = gt_ref g \<and> gt_resource h = gt_resource g \<and> gt_mode h = gt_mode g
     \<and> gt_deadline g \<le> gt_deadline h \<and> (gt_state g \<noteq> Active \<longrightarrow> gt_state h = gt_state g)"

lemma getGrant_fields [simp]:
  "getGrant (a\<lparr>au_tickets := t\<rparr>) = getGrant a" "getGrant (a\<lparr>au_sessions := s\<rparr>) = getGrant a" "getGrant (a\<lparr>au_objects := os\<rparr>) = getGrant a"
  "getGrant (a\<lparr>au_resources := rs\<rparr>) = getGrant a" "getGrant (a\<lparr>au_keys := ks\<rparr>) = getGrant a" "getGrant (a\<lparr>au_actions := n\<rparr>) = getGrant a"
  "getGrant (a\<lparr>au_grants := n\<rparr>) = getGrant a" "getGrant (a\<lparr>au_queued := n\<rparr>) = getGrant a" "getGrant (a\<lparr>au_nativeCalls := n\<rparr>) = getGrant a"
  "getGrant (a\<lparr>au_fenced := e\<rparr>) = getGrant a" "getGrant (a\<lparr>au_closed := b\<rparr>) = getGrant a" "getGrant (a\<lparr>au_closeErr := e\<rparr>) = getGrant a"
  "getGrant (a\<lparr>au_watermark := w\<rparr>) = getGrant a" "getGrant (a\<lparr>au_lastGeneration := g\<rparr>) = getGrant a" "getGrant (a\<lparr>au_publications := n\<rparr>) = getGrant a"
  by (simp_all add: fun_eq_iff getGrant_def)

lemma getAct_fields [simp]:
  "getAct (a\<lparr>au_tickets := t\<rparr>) = getAct a" "getAct (a\<lparr>au_sessions := s\<rparr>) = getAct a" "getAct (a\<lparr>au_objects := os\<rparr>) = getAct a"
  "getAct (a\<lparr>au_resources := rs\<rparr>) = getAct a" "getAct (a\<lparr>au_keys := ks\<rparr>) = getAct a" "getAct (a\<lparr>au_actions := n\<rparr>) = getAct a"
  "getAct (a\<lparr>au_grants := n\<rparr>) = getAct a" "getAct (a\<lparr>au_queued := n\<rparr>) = getAct a" "getAct (a\<lparr>au_nativeCalls := n\<rparr>) = getAct a"
  "getAct (a\<lparr>au_fenced := e\<rparr>) = getAct a" "getAct (a\<lparr>au_closed := b\<rparr>) = getAct a" "getAct (a\<lparr>au_closeErr := e\<rparr>) = getAct a"
  "getAct (a\<lparr>au_watermark := w\<rparr>) = getAct a" "getAct (a\<lparr>au_lastGeneration := g\<rparr>) = getAct a" "getAct (a\<lparr>au_publications := n\<rparr>) = getAct a"
  by (simp_all add: fun_eq_iff getAct_def)

lemma getters_owners:
  "getGrant (a\<lparr>au_actions := n, au_owners := m\<rparr>) = getGrant (a\<lparr>au_owners := m\<rparr>)"
  "getAct (a\<lparr>au_actions := n, au_owners := m\<rparr>) = getAct (a\<lparr>au_owners := m\<rparr>)"
  by (simp_all add: fun_eq_iff getGrant_def getAct_def)

lemma getGrant_endGrant:
  "getGrant (endGrantLocked oid gid state a) oid' gid' =
    (if oid' = oid \<and> gid' = gid then map_option (\<lambda>g. if gt_state g = Active then g\<lparr>gt_state := state\<rparr> else g) (getGrant a oid gid)
     else getGrant a oid' gid')"
proof (cases "\<exists>g. live a oid gid g")
  case True
  then obtain g where g: "live a oid gid g" by blast
  then show ?thesis by (simp add: endGrant_view(1) [OF g]) (simp add: live_def)
next
  case False
  then show ?thesis by (cases "getGrant a oid gid") (auto simp: endGrant_idle live_def)
qed

lemma getGrant_actions [simp]:
  "getGrant (addAction oid req x a) = getGrant a" "getGrant (updOwn oid (\<lambda>ow. ow\<lparr>ow_actions := f ow, ow_queued := n ow\<rparr>) a) = getGrant a"
  by (auto simp: fun_eq_iff addAction_def getGrant_def updOwn_def split: option.split)

lemma getAct_install [simp]: "getAct (installGrant oid gid g a) = getAct a"
  by (auto simp: fun_eq_iff installGrant_def getAct_def updOwn_def updRes_def split: option.split)

lemma grant_prim:
  assumes "prim now al a b" and "getGrant a oid gid = Some g"
  shows "(\<exists>h. getGrant b oid gid = Some h \<and> grant_evolves g h) \<or> gget (au_owners b) oid = None \<and> gt_state g \<noteq> Active"
  using assms
proof (induction rule: prim.induct)
  case (prim_endGrant state a oid' gid')
  then have "\<exists>h. getGrant (endGrantLocked oid' gid' state a) oid gid = Some h \<and> grant_evolves g h"
    by (cases "oid = oid' \<and> gid = gid'"; cases "gt_state g = Active") (auto simp: getGrant_endGrant grant_evolves_def)
  then show ?case by blast
next
  case (prim_delOwner a oid' ow)
  show ?case
  proof (cases "oid' = oid")
    case True
    then show ?thesis using prim_delOwner by (auto simp: updSess_def live_def)
  next
    case False
    then show ?thesis using prim_delOwner by (auto simp: getters_owners getGrant_delOwner grant_evolves_def)
  qed
next
  case (prim_newOwner oid' a sid s request)
  then have "oid' \<noteq> oid" by (auto simp: getGrant_def)
  with prim_newOwner show ?case by (auto simp: getGrant_def grant_evolves_def)
next
  case (prim_updGrant a f oid' gid')
  then have "grant_keeps (now + au_watermark a) g (f g)" by simp
  then obtain d v r where "f g = g\<lparr>gt_deadline := d, gt_revision := v, gt_release := r\<rparr>" "gt_deadline g \<le> d"
    unfolding grant_keeps_def by (metis grantRecord.select_convs(5) grantRecord.surjective grantRecord.update_convs(5-7))
  with prim_updGrant show ?case by (auto simp: getGrant_updGrant grant_evolves_def)
next
  case (prim_install oid' req gid' h a)
  from prim_install obtain ow where "gget (au_owners a) oid' = Some ow" by (auto simp: granting_def)
  then have ow: "gget (au_owners (a\<lparr>au_lastGeneration := gr_Generation (gt_ref h)\<rparr>)) oid' = Some ow" by simp
  have "getGrant a oid' gid' = None" using prim_install by (simp add: granting_def)
  with prim_install(2) show ?case by (auto simp: install_view(1) [OF ow] grant_evolves_def)
qed (auto simp: grant_evolves_def)

subsection \<open>Actions\<close>

definition act_evolves :: "actionRecord \<Rightarrow> actionRecord \<Rightarrow> bool" where
  "act_evolves x y \<longleftrightarrow> rc_Kind (ac_receipt y) = rc_Kind (ac_receipt x) \<and> rc_Request (ac_receipt y) = rc_Request (ac_receipt x)
     \<and> rc_Acquire (ac_receipt y) = rc_Acquire (ac_receipt x) \<and> rc_Renew (ac_receipt y) = rc_Renew (ac_receipt x)
     \<and> ac_tombstone y = ac_tombstone x
     \<and> (ac_resource x \<noteq> None \<longrightarrow> ac_resource y = ac_resource x) \<and> (ac_waitUntil x \<noteq> None \<longrightarrow> ac_waitUntil y = ac_waitUntil x)
     \<and> (rc_Outcome (ac_receipt x) \<noteq> Pending \<longrightarrow> ac_receipt y = ac_receipt x)"

lemma act_evolves_refl [simp]: "act_evolves x x"
  by (simp add: act_evolves_def)

lemma act_evolves_trans: "act_evolves x y \<Longrightarrow> act_evolves y z \<Longrightarrow> act_evolves x z"
  by (auto simp: act_evolves_def)

lemma getAct_addAction:
  "getAct (addAction oid req x a) oid' req' =
    (if oid' = oid \<and> req' = req \<and> gget (au_owners a) oid \<noteq> None then Some x else getAct a oid' req')"
  by (auto simp: addAction_def getAct_def updOwn_def split: option.split)

lemma getAct_enqueue:
  "getAct (updOwn oid (\<lambda>ow. ow\<lparr>ow_actions := gupd req f (ow_actions ow), ow_queued := n ow\<rparr>) a) = getAct (updAct oid req f a)"
  by (auto simp: fun_eq_iff getAct_def updAct_def updOwn_def split: option.split)

lemma act_prim:
  assumes "prim now al a b" and "getAct a oid req = Some x"
  shows "(\<exists>y. getAct b oid req = Some y \<and> act_evolves x y \<and> (ac_waitUntil y = ac_waitUntil x \<or> (oid, req) \<in> al_joining al)) \<or> gget (au_owners b) oid = None \<and> rc_Outcome (ac_receipt x) \<noteq> Pending"
  using assms
proof (induction rule: prim.induct)
  case (prim_finish outcome a oid' req' code)
  then have "\<exists>y. getAct (finishLocked oid' req' outcome code a) oid req = Some y \<and> act_evolves x y \<and> ac_waitUntil y = ac_waitUntil x"
    by (cases "oid = oid' \<and> req = req'") (auto simp: getAct_finish act_evolves_def)
  then show ?case by blast
next
  case (prim_delOwner a oid' ow)
  show ?case
  proof (cases "oid' = oid")
    case True
    then show ?thesis using prim_delOwner by (auto simp: updSess_def)
  next
    case False
    then have "getAct (a\<lparr>au_owners := gdel oid' (au_owners a)\<rparr>) oid req = getAct a oid req" by (simp add: getAct_def)
    then show ?thesis using prim_delOwner by (auto simp: getters_owners)
  qed
next
  case (prim_newOwner oid' a sid s request)
  then have "oid' \<noteq> oid" by (auto simp: getAct_def)
  with prim_newOwner show ?case by (auto simp: getAct_def)
next
  case (prim_addAction a oid' req' z)
  then have "\<not> (oid = oid' \<and> req = req')" by auto
  with prim_addAction show ?case by (auto simp: getAct_addAction)
next
  case (prim_updAct a oid' req' f)
  then show ?case by (auto simp: getAct_updAct act_keeps_def act_evolves_def)
next
  case (prim_enqueue a oid' req' z rid r until)
  then show ?case by (auto simp: getAct_enqueue getAct_updAct act_evolves_def)
next
  case (prim_install oid' req' gid h a)
  then show ?case by simp
qed (auto simp: updGrant_def getAct_def updOwn_def split: option.split)

lemma owner_gone_prim:
  assumes "prim now al a b" and "gget (au_owners a) oid = None" and "oid \<notin> al_minted al"
  shows "gget (au_owners b) oid = None"
  using assms
  by (induction rule: prim.induct)
    (auto simp: updSess_def endGrantLocked_def finishLocked_def Let_def addAction_def updAct_def updOwn_def updRes_def updGrant_def installGrant_def
      split: option.split)

lemma act_prims:
  assumes "prims now al a b" and "getAct a oid req = Some x" and "oid \<notin> al_minted al"
  shows "(\<exists>y. getAct b oid req = Some y \<and> act_evolves x y \<and> (ac_waitUntil y = ac_waitUntil x \<or> (oid, req) \<in> al_joining al)) \<or> gget (au_owners b) oid = None"
  using assms
proof (induction rule: rtranclp_induct)
  case (step b c)
  from step.IH [OF step.prems] consider y where "getAct b oid req = Some y" "act_evolves x y" "ac_waitUntil y = ac_waitUntil x \<or> (oid, req) \<in> al_joining al" | "gget (au_owners b) oid = None" by auto
  then show ?case
  proof cases
    case 1
    then show ?thesis using act_prim [OF step.hyps(2) 1(1)] by (auto intro: act_evolves_trans [OF 1(2)])
  next
    case 2
    then show ?thesis using owner_gone_prim [OF step.hyps(2)] step.prems by auto
  qed
qed auto

lemma grant_evolves_trans: "grant_evolves g h \<Longrightarrow> grant_evolves h k \<Longrightarrow> grant_evolves g k"
  by (auto simp: grant_evolves_def)

lemma grant_prims:
  assumes "prims now al a b" and "getGrant a oid gid = Some g" and "oid \<notin> al_minted al"
  shows "(\<exists>h. getGrant b oid gid = Some h \<and> grant_evolves g h) \<or> gget (au_owners b) oid = None"
  using assms
proof (induction rule: rtranclp_induct)
  case base
  then show ?case by (auto simp: grant_evolves_def)
next
  case (step b c)
  from step.IH [OF step.prems] consider h where "getGrant b oid gid = Some h" "grant_evolves g h" | "gget (au_owners b) oid = None" by auto
  then show ?case
  proof cases
    case 1
    then show ?thesis using grant_prim [OF step.hyps(2) 1(1)] by (auto intro: grant_evolves_trans)
  next
    case 2
    then show ?thesis using owner_gone_prim [OF step.hyps(2)] step.prems by auto
  qed
qed

subsection \<open>Resources\<close>

definition flags :: "resourceRecord \<Rightarrow> ResourceID \<times> BackendKey \<times> bool \<times> int" where
  "flags r = (rs_id r, rs_key r, rs_busy r, rs_holds r)"

lemma flags_prim:
  assumes "prim now al a b" and "gget (au_objects a) rid = Some r"
  shows "\<exists>r'. gget (au_objects b) rid = Some r' \<and> flags r' = flags r"
  using assms
proof (induction rule: prim.induct)
  case (prim_updRes f a rid')
  obtain u d w where "f r = r\<lparr>rs_referenceUntil := u, rs_retired := d, rs_worker := w\<rparr>"
    using prim_updRes(1) unfolding res_keeps_def by blast
  then have "flags (f r) = flags r" by (simp add: flags_def)
  with prim_updRes(2) show ?case by (auto simp: updRes_def)
qed (auto simp: updSess_def endGrantLocked_def finishLocked_def Let_def addAction_def updAct_def updOwn_def updRes_def updGrant_def installGrant_def
      flags_def split: option.split)

lemma flags_prims: "prims now al a b \<Longrightarrow> gget (au_objects a) rid = Some r \<Longrightarrow> \<exists>r'. gget (au_objects b) rid = Some r' \<and> flags r' = flags r"
proof (induction rule: rtranclp_induct)
  case (step b c)
  then show ?case using flags_prim [OF step.hyps(2)] by metis
qed blast

text \<open>No primitive changes the grants of a busy resource, except those that end them for its
  own publication.\<close>

lemma busy_prim:
  assumes "prim now al a b" and r: "gget (au_objects a) rid = Some r" "rs_busy r" "rid \<notin> al_ending al"
  shows "resGrants b rid = resGrants a rid"
  using assms
proof (induction rule: prim.induct)
  case (prim_endGrant state a oid gid)
  show ?case
  proof (cases "\<exists>g. live a oid gid g")
    case True
    then obtain g where g: "live a oid gid g" by blast
    with prim_endGrant have "gt_resource g \<noteq> rid" by (auto simp: busyRes_def)
    then show ?thesis by (simp add: resGrants_def endGrant_view(2) [OF g])
  qed (simp add: endGrant_idle)
next
  case (prim_install oid req gid g a)
  then have "gt_resource g \<noteq> rid" by (auto simp: granting_def)
  then show ?case by (simp add: resGrants_def installGrant_def updRes_def updOwn_def)
next
  case (prim_updRes f a rid')
  obtain u d w where "f r = r\<lparr>rs_referenceUntil := u, rs_retired := d, rs_worker := w\<rparr>"
    using prim_updRes(1) unfolding res_keeps_def by blast
  with prim_updRes(2) show ?case by (auto simp: updRes_def resGrants_def)
qed (auto simp: updSess_def finishLocked_def Let_def addAction_def updAct_def updOwn_def updRes_def updGrant_def
      resGrants_def split: option.split)

subsection \<open>Deadlines\<close>

definition lease_inv :: "instant \<Rightarrow> Authority \<Rightarrow> bool" where
  "lease_inv now a \<longleftrightarrow> (\<forall>oid gid g. live a oid gid g \<longrightarrow> gt_deadline g \<le> now + au_watermark a)"

text \<open>A primitive adds a live grant only where the code may grant.\<close>

lemma live_prim:
  assumes "prim now al a b" and "live b oid gid h"
  shows "(\<exists>g. live a oid gid g \<and> grant_evolves g h \<and> (gt_deadline h = gt_deadline g \<or> gt_deadline h \<le> now + au_watermark a))
    \<or> (\<exists>req. granting now oid req gid h a)"
  using assms
proof (induction rule: prim.induct)
  case (prim_endGrant state a oid' gid')
  then show ?case by (auto simp: live_end grant_evolves_def)
next
  case (prim_delOwner a oid' ow)
  then show ?case by (auto simp: live_def getters_owners getGrant_delOwner grant_evolves_def split: if_splits)
next
  case (prim_newOwner oid' a sid s request)
  then show ?case by (auto simp: live_def getGrant_def grant_evolves_def split: if_splits)
next
  case (prim_updGrant a f oid' gid')
  from prim_updGrant(2) obtain g where g: "getGrant a oid gid = Some g" "h = (if oid = oid' \<and> gid = gid' then f g else g)"
    and act: "gt_state h = Active" by (auto simp: live_def getGrant_updGrant split: if_splits)
  from prim_updGrant(1) [of g] have keep: "grant_keeps (now + au_watermark a) g (f g)" .
  then obtain d v r where "f g = g\<lparr>gt_deadline := d, gt_revision := v, gt_release := r\<rparr>"
    unfolding grant_keeps_def by blast
  with g act keep show ?case by (auto simp: live_def grant_evolves_def grant_keeps_def split: if_splits)
next
  case (prim_install oid' req gid' g a)
  from prim_install obtain ow where "gget (au_owners a) oid' = Some ow" by (auto simp: granting_def)
  then have ow: "gget (au_owners (a\<lparr>au_lastGeneration := gr_Generation (gt_ref g)\<rparr>)) oid' = Some ow" by simp
  from prim_install show ?case
    by (auto simp: live_def install_view(1) [OF ow] grant_evolves_def split: if_splits)
qed (auto simp: live_def grant_evolves_def)

lemma lease_inv_prim: "prim now al a b \<Longrightarrow> lease_inv now a \<Longrightarrow> lease_inv now b"
  unfolding lease_inv_def
proof (intro allI impI)
  fix oid gid h assume p: "prim now al a b" and inv: "\<forall>oid gid g. live a oid gid g \<longrightarrow> gt_deadline g \<le> now + au_watermark a" and h: "live b oid gid h"
  have w: "au_watermark b = au_watermark a" using p by (rule prim_settings)
  from live_prim [OF p h] show "gt_deadline h \<le> now + au_watermark b"
  proof (elim disjE exE conjE)
    fix g assume "live a oid gid g" "gt_deadline h = gt_deadline g"
    with inv w show ?thesis by fastforce
  next
    fix req assume "granting now oid req gid h a"
    with w show ?thesis by (simp add: granting_def)
  qed (use w in simp)
qed

end
