(* ===== verification/LockSections.thy ===== *)
theory LockSections
  imports LockEvolve
begin

text \<open>
  The critical sections of the lock authority as runs of primitive transitions: enrollment,
  retirement, queries, release, cancellation, discovery, and the acquisition of a lease in
  its two sections.
\<close>

section \<open>Sections as primitive transitions\<close>

definition runs :: "instant \<Rightarrow> allowance \<Rightarrow> Authority \<Rightarrow> Authority \<Rightarrow> bool" where
  "runs now al a b \<longleftrightarrow> (base_inv a \<longrightarrow> prims now al a b)"

named_theorems runs_intros

lemma runs_refl [runs_intros]: "runs now al a a"
  by (simp add: runs_def)

lemma runs_prims:
  assumes "runs now al a b" and "base_inv b \<Longrightarrow> prims now al b c"
  shows "runs now al a c"
  using assms base_inv_prims [of now al a b] unfolding runs_def by (blast intro: rtranclp_trans)

lemma runs_base: "runs now al a b \<Longrightarrow> base_inv a \<Longrightarrow> base_inv b"
  unfolding runs_def by (blast intro: base_inv_prims)

lemma runs_sections [runs_intros]:
  assumes "runs now al a b"
  shows "runs now al a (expireSessionsLocked t b)" "runs now al a (expireGrantsLocked rid t b)"
    "runs now al a (expireQueuedLocked rid t b)" "runs now al a (touchSessionLocked t sid b)"
    "runs now al a (touchLocked t oid b)" "runs now al a (startWorkerLocked rid b)"
  using assms
  by (auto intro!: runs_prims [OF assms] prims_expireSessions prims_expireGrants prims_expireQueued prims_touch prims_startWorker simp: base_inv_def)

lemma runs_prim:
  assumes "runs now al a b" and "prim now al b c"
  shows "runs now al a c"
  using assms by (blast intro: runs_prims)

lemma runs_finish [runs_intros]: "runs now al a b \<Longrightarrow> outcome \<noteq> Pending \<Longrightarrow> runs now al a (finishLocked oid req outcome code b)"
  by (blast intro: runs_prim prim_finish)

lemma runs_retire [runs_intros]:
  "runs now al a b \<Longrightarrow> \<not> ownerBusyLocked b oid \<Longrightarrow> runs now al a (retireOwnerLocked oid b)"
  by (blast intro: runs_prims prims_retireOwner unblocked_if)

lemma runs_flags [runs_intros]:
  assumes "runs now al a b"
  shows "runs now al a (b\<lparr>au_fenced := Some e\<rparr>)" "runs now al a (b\<lparr>au_nativeCalls := n\<rparr>)"
    "runs now al a (b\<lparr>au_closed := True\<rparr>)"
  using assms by (auto intro: runs_prim prim_fence prim_native prim_close)

lemma runs_beginNative [runs_intros]: "runs now al a b \<Longrightarrow> runs now al a (fst (beginNative ctxErr t b))"
  by (auto simp: beginNative_def intro: runs_intros split: option.split)

lemma runs_simple [runs_intros]:
  assumes "runs now al a b"
  shows "runs now al a (finishNative b)" "runs now al a (Fence err b)" "runs now al a (closeBegin b)"
  using assms by (auto simp: finishNative_def Fence_def closeBegin_def intro: runs_intros split: option.split)

lemma runs_grantLockedForOwner [runs_intros]:
  "runs now al a b \<Longrightarrow> runs now al a (fst (grantLockedForOwner mac t oid ref b))"
  by (auto simp: grantLockedForOwner_def Let_def intro: runs_intros split: sum.split option.split)

lemma runs_grantStatusLocked [runs_intros]:
  "runs now al a b \<Longrightarrow> runs now al a (fst (grantStatusLocked t oid gid b))"
  by (auto simp: grantStatusLocked_def Let_def intro: runs_intros split: option.split)

lemma runs_actionResultLocked [runs_intros]:
  "runs now al a b \<Longrightarrow> runs now al a (fst (actionResultLocked clk oid x b))"
  by (auto simp: actionResultLocked_def Let_def case_prod_unfold intro: runs_intros split: option.split)

lemma runs_closeSession:
  assumes "runs now al a b" and "gget (au_sessions b) sid = Some s" and "\<not> list_ex (ownerBusyLocked b) (se_owners s)"
  shows "runs now al a (retireSessionLocked sid b)"
  using assms(2,3) by (intro runs_prims [OF assms(1)] prims_retireSession) (auto simp: list_ex_iff intro: unblocked_if)

subsection \<open>Retirement, queries, release and cancellation\<close>

lemma runs_retireOwnerSection: "runs now al a (fst (Authority_retireOwnerSection mac ctxErr clk ref a))"
  by (auto simp: Authority_retireOwnerSection_def intro: runs_intros split: option.split sum.split)

lemma runs_closeSessionSection: "runs now al a (fst (closeSessionSection mac ctxErr clk sid a))"
  by (auto simp: closeSessionSection_def sessionLocked_def intro: runs_intros intro!: runs_closeSession [OF runs_refl] split: option.split sum.split)

lemma runs_queryActionSection: "runs now al a (fst (queryActionSection mac ctxErr clk ref request a))"
  by (auto simp: queryActionSection_def Let_def case_prod_unfold intro!: runs_intros split: option.split sum.split)

lemma runs_queryGrantSection: "runs now al a (fst (queryGrantSection mac ctxErr clk ref grant a))"
  by (auto simp: queryGrantSection_def Let_def case_prod_unfold intro!: runs_intros split: option.split sum.split)

lemma runs_endGrant:
  "runs now al a b \<Longrightarrow> state \<noteq> Active \<Longrightarrow> (\<And>g. live b oid gid g \<Longrightarrow> \<not> busyRes b (gt_resource g))
   \<Longrightarrow> runs now al a (endGrantLocked oid gid state b)"
  by (rule runs_prim) (auto intro: prim_endGrant)

lemma runs_updAct [runs_intros]:
  "runs now al a b \<Longrightarrow> (\<And>x. getAct b oid req = Some x \<Longrightarrow> act_keeps x (f x) \<and> ac_resource (f x) = ac_resource x)
   \<Longrightarrow> runs now al a (updAct oid req f b)"
  by (rule runs_prim) (auto intro: prim_updAct)

lemma runs_updGrant [runs_intros]:
  "runs now al a b \<Longrightarrow> (\<And>g. grant_keeps (now + au_watermark b) g (f g)) \<Longrightarrow> runs now al a (updGrant oid gid f b)"
  by (rule runs_prim) (auto intro: prim_updGrant)

lemma runs_addAction [runs_intros]:
  "runs now al a b \<Longrightarrow> gget (au_owners b) oid \<noteq> None \<Longrightarrow> getAct b oid req = None \<Longrightarrow> \<not> actionsFull oid b
    \<Longrightarrow> ac_waitUntil x = None \<Longrightarrow> ac_resource x = None \<Longrightarrow> ac_grant x = None \<Longrightarrow> rc_Request (ac_receipt x) = req
    \<Longrightarrow> runs now al a (addAction oid req x b)"
  by (rule runs_prim) (auto intro: prim_addAction)

lemma ownerLocked_found: "Authority_ownerLocked mac ref a = Inr ow \<Longrightarrow> gget (au_owners a) (or_Owner ref) = Some ow \<and> ow_ref ow = ref"
  by (auto simp: Authority_ownerLocked_def split: sum.splits option.splits if_splits)

lemma grantLocked_found:
  assumes "snd (grantLockedForOwner mac t oid ref a) = Inr g"
  shows "getGrant (fst (grantLockedForOwner mac t oid ref a)) oid (gr_ID ref) = Some g"
  using assms by (auto simp: grantLockedForOwner_def Let_def split: sum.splits option.splits if_splits)

lemma runs_releaseSection: "runs now al a (fst (releaseSection mac ctxErr clk ref grant a))"
proof -
  have keep: "grant_keeps lim g (g\<lparr>gt_release := Some (gt_state g)\<rparr>)" for lim g by (simp add: grant_keeps_def)
  show ?thesis
    by (auto simp: releaseSection_def Let_def case_prod_unfold live_def keep dest!: grantLocked_found intro!: runs_intros runs_endGrant
        split: option.split sum.split)
qed

lemma runs_cancelEffect:
  assumes run: "runs now al a b" and free: "\<And>x. getAct b oid req = Some x \<Longrightarrow> \<not> grantBusy b oid x"
  shows "runs now al a (cancelEffect t oid req b)"
proof -
  let ?b1 = "finishLocked oid req Cancelled None b"
  have r1: "runs now al a ?b1" using run by (auto intro: runs_intros)
  have nb: "\<not> busyRes ?b1 (gt_resource g)" if x: "getAct ?b1 oid req = Some x" "ac_grant x = Some gid" "getGrant ?b1 oid gid = Some g" for x gid g
  proof -
    from x(1) obtain x0 where x0: "getAct b oid req = Some x0" "ac_grant x0 = Some gid"
      using x(2) by (cases "getAct b oid req") (auto simp: getAct_finish split: if_splits)
    with free [OF x0(1)] x(3) show ?thesis
      by (simp add: grantBusy_def calm_busy [OF calm_ops(2)])
  qed
  have keep: "act_keeps x (x\<lparr>ac_cancel := c\<rparr>)" for x c by (simp add: act_keeps_def)
  have nb2: "\<not> busyRes (expireGrantsLocked (gt_resource g0) t ?b1) (gt_resource g)"
    if "getAct ?b1 oid req = Some x" "ac_grant x = Some gid" "getGrant ?b1 oid gid = Some g0" "live (expireGrantsLocked (gt_resource g0) t ?b1) oid gid g" for x gid g0 g
    using nb [OF that(1-3)] live_expireGrants [OF that(4)] that(3) by (simp add: live_def calm_busy [OF calm_expireGrants])
  show ?thesis
    unfolding cancelEffect_def Let_def case_prod_unfold
    by (auto simp: keep intro!: runs_intros runs_endGrant r1 dest: nb2 split: option.split)
qed

lemma runs_cancelActionSection: "runs now al a (fst (cancelActionSection mac ctxErr clk ref request a))"
  by (auto simp: cancelActionSection_def Let_def case_prod_unfold tombstone_def intro!: runs_intros runs_cancelEffect
      dest!: ownerLocked_found split: option.split sum.split)

subsection \<open>Enrollment and resources\<close>

lemma runs_OpenSession:
  assumes fresh: "gget (au_sessions a) (token mac (au_incarnation a) nonce ''s'' [] []) = None"
  shows "runs now al a (fst (OpenSession mac ctxErr clk nonce ticket a))"
proof -
  let ?b = "expireSessionsLocked (clk (Suc 0)) a"
  have run: "runs now al a ?b" by (auto intro: runs_intros)
  have new: "gget (au_sessions ?b) (token mac (au_incarnation a) nonce ''s'' [] []) = None"
    by (rule expireSessions_session_fresh [OF fresh])
  have inc: "au_incarnation (expireSessionsLocked t a) = au_incarnation a" for t by (rule calm_same(5)) simp
  have add: "runs now al a (?b\<lparr>au_sessions := gput sid s (au_sessions ?b), au_tickets := gput ticket tr (au_tickets ?b)\<rparr>)"
    if "sid = token mac (au_incarnation ?b) nonce ''s'' [] []" "gget (au_tickets ?b) ticket = None" "se_id s = sid" "se_owners s = []" "se_creates s = []"
      "\<not> (int (length (au_tickets ?b)) \<ge> opt_MaxTickets (au_options ?b) \<or> int (length (au_sessions ?b)) \<ge> opt_MaxSessions (au_options ?b))" for sid s tr
    using that new by (intro runs_prim [OF run] prim_newSession) (auto simp: inc)
  show ?thesis
    by (auto simp: OpenSession_def Let_def intro!: runs_intros add split: option.split sum.split)
qed

lemma runs_CreateOwner:
  assumes fresh: "gget (au_owners a) (token mac (au_incarnation a) nonce ''o'' sid []) = None"
    and mint: "token mac (au_incarnation a) nonce ''o'' sid [] \<in> al_minted al"
  shows "runs now al a (fst (CreateOwner mac ctxErr clk nonce sid request a))"
proof -
  let ?b = "expireSessionsLocked (clk (Suc 0)) a" and ?oid = "token mac (au_incarnation a) nonce ''o'' sid []"
  have run: "runs now al a ?b" by (auto intro: runs_intros)
  have new: "gget (au_owners ?b) ?oid = None" by (rule expireSessions_fresh [OF fresh])
  have inc: "au_incarnation (expireSessionsLocked t a) = au_incarnation a" for t by (rule calm_same(5)) simp
  have add: "runs now al a (updSess sid (\<lambda>s. s\<lparr>se_owners := ?oid # se_owners s, se_creates := gput request ?oid (se_creates s)\<rparr>)
          (?b\<lparr>au_owners := gput ?oid \<lparr>ow_ref = \<lparr>or_Session = sid, or_Owner = ?oid\<rparr>, ow_actions = [], ow_grants = [],
                                     ow_liveGrants = 0, ow_queued = 0\<rparr> (au_owners ?b)\<rparr>))"
    if "gget (au_sessions ?b) sid = Some s" "gget (se_creates s) request = None"
      "\<not> (int (length (au_owners ?b)) \<ge> opt_MaxOwners (au_options ?b) \<or> int (length (se_owners s)) \<ge> opt_OwnersPerSession (au_options ?b)
           \<or> int (length (se_creates s)) \<ge> opt_OwnerActionsPerSession (au_options ?b))" for s
    using that new mint by (intro runs_prim [OF run] prim_newOwner [where s = s]) auto
  show ?thesis
    by (auto simp: CreateOwner_def Let_def sessionLocked_def inc intro!: runs_intros add split: option.splits sum.splits if_splits)
qed

lemma runs_resolveCheck: "runs now al a (fst (resolveCheck mac ctxErr clk ref a))"
  by (auto simp: resolveCheck_def Let_def intro!: runs_intros split: option.split sum.split)

lemma runs_updRes [runs_intros]: "runs now al a b \<Longrightarrow> res_keeps f \<Longrightarrow> runs now al a (updRes rid f b)"
  by (blast intro: runs_prim prim_updRes)

lemma runs_discoverCallback:
  assumes fresh: "gget (au_objects a) (token mac (au_incarnation a) nonce ''r'' [] []) = None" and key: "key \<in> al_found al"
  shows "runs now al a (fst (discoverCallback mac ctxErr clk nonce ref key a))"
proof -
  let ?b = "expireSessionsLocked (clk (Suc 0)) a" and ?rid = "token mac (au_incarnation a) nonce ''r'' [] []"
  have run: "runs now al a ?b" by (auto intro: runs_intros)
  have new: "gget (au_objects ?b) ?rid = None" using fresh calm_missing [of ?b a ?rid] by simp
  have inc: "au_incarnation (expireSessionsLocked t a) = au_incarnation a" for t by (rule calm_same(5)) simp
  have keep: "res_keeps (\<lambda>r. r\<lparr>rs_referenceUntil := u\<rparr>)" for u by (simp add: res_keeps_def)
  have add: "runs now al a (?b\<lparr>au_objects := gput ?rid \<lparr>rs_id = ?rid, rs_key = key, rs_referenceUntil = 0, rs_grants = [],
                                           rs_queue = [], rs_busy = False, rs_retired = False, rs_worker = False, rs_holds = 0,
                                           rs_forgetting = False\<rparr> (au_objects ?b),
                                         au_resources := ?rid # au_resources ?b, au_keys := gput key ?rid (au_keys ?b)\<rparr>)"
    if "gget (au_keys ?b) key = None" "\<not> opt_MaxResources (au_options ?b) \<le> int (length (au_resources ?b))" "key \<noteq> []"
    using that new key by (intro runs_prim [OF run] prim_newResource) auto
  show ?thesis
    by (auto simp: discoverCallback_def Let_def inc keep intro!: runs_intros add split: option.split sum.split)
qed

subsection \<open>Granting\<close>

lemma getGrant_expireGrants_None:
  "getGrant a oid gid = None \<Longrightarrow> getGrant (expireGrantsLocked rid t a) oid gid = None"
  unfolding expireGrantsLocked_def
  by (auto intro!: fold_keeps [where P = "\<lambda>b. getGrant b oid gid = None"] simp: getGrant_endGrant split: if_splits)

lemma getGrant_expireSessions_None: "getGrant a oid gid = None \<Longrightarrow> getGrant (expireSessionsLocked t a) oid gid = None"
  using expireSessions_sub(2) [of t a oid gid] by (cases "getGrant (expireSessionsLocked t a) oid gid") auto

lemma healthy_flags:
  assumes "healthyLocked ctxErr admission t a = None"
  shows "au_fenced a = None" "\<not> au_closed a" "admission \<Longrightarrow> au_recoveryUntil a \<le> t"
  using assms by (auto simp: healthyLocked_def fail_if_def split: option.splits if_splits)

text \<open>What a section has to establish before it grants.\<close>

definition grantable :: "(string \<Rightarrow> nat list) \<Rightarrow> instant \<Rightarrow> nat list \<Rightarrow> OwnerID \<Rightarrow> RequestID \<Rightarrow> ResourceID \<Rightarrow> AcquireRequest \<Rightarrow> Authority \<Rightarrow> bool" where
  "grantable mac now nonce oid req rid request a \<longleftrightarrow>
     au_fenced a = None \<and> \<not> au_closed a \<and> au_recoveryUntil a \<le> now \<and> aq_TTL request \<le> au_watermark a
     \<and> (\<forall>oid'. getGrant a oid' (newGrantID mac nonce oid rid (au_lastGeneration a + 1) a) = None)
     \<and> (\<exists>r. gget (au_objects a) rid = Some r \<and> \<not> rs_busy r \<and> \<not> rs_retired r \<and> 0 < rs_holds r
          \<and> (rs_queue r = [] \<or> hd (rs_queue r) = (oid, req)))
     \<and> compatibleLocked rid oid (aq_Mode request) a
     \<and> (\<exists>x. getAct a oid req = Some x \<and> rc_Outcome (ac_receipt x) = Pending \<and> ac_resource x = Some rid
          \<and> rc_Acquire (ac_receipt x) = Some request)"

lemma runs_grantLocked:
  assumes run: "runs now al a b" and ok: "grantable mac now nonce oid req rid request b" and clk: "clk 0 \<le> now"
  shows "runs now al a (fst (grantLocked mac clk nonce oid req b))"
proof -
  obtain x where x: "getAct b oid req = Some x" "rc_Outcome (ac_receipt x) = Pending" "ac_resource x = Some rid"
      "rc_Acquire (ac_receipt x) = Some request" using ok unfolding grantable_def by blast
  then obtain ow where ow: "gget (au_owners b) oid = Some ow" by (auto simp: getAct_def split: option.splits)
  show ?thesis
  proof (cases "au_grants b \<ge> opt_MaxGrants (au_options b) \<or> ow_liveGrants ow \<ge> opt_GrantsPerOwner (au_options b) \<or> au_lastGeneration b = MaxUint64")
    case True
    then show ?thesis using run ow x by (auto simp: grantLocked_def)
  next
    case False
    let ?gen = "au_lastGeneration b + 1" and ?gid = "newGrantID mac nonce oid rid (au_lastGeneration b + 1) b"
    let ?g = "\<lparr>gt_resource = rid, gt_ref = \<lparr>gr_ID = ?gid, gr_Resource = rid, gr_Generation = ?gen\<rparr>, gt_mode = aq_Mode request, gt_state = Active,
                gt_deadline = clk 0 + aq_TTL request, gt_revision = 1, gt_release = None\<rparr>"
    have gr: "granting now oid req ?gid ?g b"
      unfolding granting_def using ok False ow x clk unfolding grantable_def by auto
    have "runs now al a (installGrant oid ?gid ?g (b\<lparr>au_lastGeneration := gr_Generation (gt_ref ?g)\<rparr>))"
      by (rule runs_prim [OF run prim_install [OF gr]])
    then have inst: "runs now al a (installGrant oid ?gid ?g (b\<lparr>au_lastGeneration := ?gen\<rparr>))" by simp
    have keep: "act_keeps x (x\<lparr>ac_grant := gid, ac_receipt := (ac_receipt x)\<lparr>rc_Grant := ref, rc_DeadlineMillis := dl, rc_Revision := rev\<rparr>\<rparr>)" for gid ref dl rev
      using x(2) by (simp add: act_keeps_def)
    show ?thesis
      using False ow x by (auto simp: grantLocked_def Let_def keep intro!: runs_intros inst)
  qed
qed

text \<open>The call whose guard runs: it holds its resource, its action is the one it recorded, and
  the lease it asks for is covered by the persisted evidence.\<close>

lemma grantable_expired:
  assumes c: "calm c = calm a" and x: "getAct c oid req = Some x" "rc_Outcome (ac_receipt x) = Pending" "ac_resource x = Some rid"
      "rc_Acquire (ac_receipt x) = Some request"
    and health: "au_fenced a = None" "\<not> au_closed a" "au_recoveryUntil a \<le> now" and ttl: "aq_TTL request \<le> au_watermark a"
    and fresh: "\<And>oid'. getGrant c oid' (newGrantID mac nonce oid rid (au_lastGeneration a + 1) a) = None"
    and r: "gget (au_objects c) rid = Some r" "\<not> rs_retired r" "0 < rs_holds r"
    and free: "\<not> busyRes c rid" "resQueue c rid = [] \<or> hd (resQueue c rid) = (oid, req)" "compatibleLocked rid oid (aq_Mode request) c"
  shows "grantable mac now nonce oid req rid request c"
proof -
  have gid: "newGrantID mac nonce oid rid (au_lastGeneration c + 1) c = newGrantID mac nonce oid rid (au_lastGeneration a + 1) a"
    by (simp add: newGrantID_def calm_same [OF c])
  show ?thesis
    unfolding grantable_def gid using x health ttl fresh r free by (simp add: calm_same [OF c] busyRes_def resQueue_def)
qed

lemma acquireGuard_idle:
  assumes "\<And>x. getAct a (or_Owner (aq_Owner request)) (aq_Request request) = Some x \<Longrightarrow> rc_Outcome (ac_receipt x) = Pending
    \<Longrightarrow> healthyLocked ctxErr True (clk 0) a \<noteq> None"
  shows "fst (acquireGuard mac ctxErr clk nonce request rid started a) = a"
  using assms by (auto simp: acquireGuard_def Let_def split: option.split)

lemma runs_acquireGuard:
  assumes oid: "oid = or_Owner (aq_Owner request)" and req: "req = aq_Request request"
    and r: "gget (au_objects a) rid = Some r" "0 < rs_holds r"
    and act: "\<And>x. getAct a oid req = Some x \<Longrightarrow> rc_Outcome (ac_receipt x) = Pending
        \<Longrightarrow> rc_Acquire (ac_receipt x) = Some request \<and> ac_resource x = Some rid \<and> ac_waitUntil x = None"
    and ttl: "aq_TTL request \<le> au_watermark a" and clk: "\<And>i. clk i \<le> now"
    and fresh: "\<And>oid'. getGrant a oid' (newGrantID mac nonce oid rid (au_lastGeneration a + 1) a) = None"
    and join: "(oid, req) \<in> al_joining al"
  shows "runs now al a (fst (acquireGuard mac ctxErr clk nonce request rid started a))"
proof (cases "\<exists>x. getAct a oid req = Some x \<and> rc_Outcome (ac_receipt x) = Pending \<and> healthyLocked ctxErr True (clk 0) a = None")
  case False
  then have "fst (acquireGuard mac ctxErr clk nonce request rid started a) = a"
    unfolding oid req by (intro acquireGuard_idle) auto
  then show ?thesis by (simp add: runs_refl)
next
  case True
  then obtain x where x: "getAct a oid req = Some x" "rc_Outcome (ac_receipt x) = Pending" and h: "healthyLocked ctxErr True (clk 0) a = None" by blast
  let ?b = "expireSessionsLocked (clk 1) a"
  let ?c = "expireGrantsLocked rid (clk 2) ?b"
  have calm: "calm ?c = calm a" by simp
  obtain rc where rc: "gget (au_objects ?c) rid = Some rc" "rs_holds rc = rs_holds r" "rs_retired rc = rs_retired r"
    using calm_object [OF calm r(1)] by auto
  obtain rb where rb: "gget (au_objects ?b) rid = Some rb" "rs_retired rb = rs_retired r"
    using calm_object [OF calm_expireSessions r(1)] by blast
  have run: "runs now al a ?b" "runs now al a ?c" by (rule runs_intros)+
  have health: "au_fenced a = None" "\<not> au_closed a" "au_recoveryUntil a \<le> now"
    using healthy_flags [OF h] clk [of 0] by auto
  note body = acquireGuard_def [of mac ctxErr clk nonce request rid started a] and x' = x(1) [unfolded oid req]
  show ?thesis
  proof (cases "gget (au_owners ?b) oid = None \<or> rs_retired r")
    case True
    then show ?thesis
      using run(1) x(2) h rb unfolding body Let_def x' oid by auto
  next
    case False
    then have xc: "getAct ?c oid req = Some x" using x by (simp add: expireSessions_getters)
    note ax = act [OF x]
    have grant: "runs now al a (fst (grantLocked mac (\<lambda>i. clk (3 + i)) nonce oid req ?c))"
      if "\<not> busyRes ?c rid" "resQueue ?c rid = []" "compatibleLocked rid oid (aq_Mode request) ?c"
    proof (rule runs_grantLocked [OF run(2)])
      show "grantable mac now nonce oid req rid request ?c"
        by (rule grantable_expired [OF calm xc x(2), where r = rc]) (use ax health ttl fresh rc r False that in
            \<open>auto intro: getGrant_expireGrants_None getGrant_expireSessions_None\<close>)
    qed (rule clk)
    have enq: "runs now al a (enqueueAction oid req rid until ?c)" if "\<not> queueFull oid rid ?c" for until
      unfolding enqueueAction_def
      by (intro runs_sections(6) runs_prim [OF run(2)] prim_enqueue [where x = x and r = rc]) (use xc x(2) ax rc r False that join in auto)
    have fin: "runs now al a (finishLocked oid req TimedOut None ?c)" by (rule runs_finish [OF run(2)]) simp
    show ?thesis
      using False grant enq fin run x(2) h rb unfolding body Let_def x' oid req by (simp split: if_split)
  qed
qed

subsection \<open>Beginning an action\<close>

lemma runs_rejectAction [runs_intros]:
  "runs now al a b \<Longrightarrow> runs now al a (fst (rejectAction clk oid req code b))"
  by (auto simp: rejectAction_def Let_def case_prod_unfold intro: runs_intros split: option.split)

lemma rejectAction_runs:
  "rejectAction clk oid req code b = (c, BeginStarted rid started) \<Longrightarrow> False"
  "rejectAction clk oid req code b = (c, r) \<Longrightarrow> runs now al a b \<Longrightarrow> runs now al a c"
  using runs_rejectAction [of now al a b clk oid req code]
  by (auto simp: rejectAction_def Let_def split: option.splits prod.splits)

text \<open>A started call: the section is a run of primitives and a hold on the resource, and the
  action it recorded is pending and names that resource.\<close>

definition started_ok :: "OwnerID \<Rightarrow> RequestID \<Rightarrow> ResourceID \<Rightarrow> Authority \<Rightarrow> bool" where
  "started_ok oid req rid b \<longleftrightarrow> (\<exists>r. gget (au_objects b) rid = Some r \<and> \<not> rs_forgetting r)
     \<and> (\<exists>x. getAct b oid req = Some x \<and> rc_Outcome (ac_receipt x) = Pending \<and> ac_resource x = Some rid \<and> ac_waitUntil x = None)"

lemma getAct_touch [simp]: "getAct (touchLocked t oid a) = getAct a" "au_objects (touchLocked t oid a) = au_objects a"
  by (auto simp: touchLocked_def touchSessionLocked_def updSess_def split: option.split)

lemma objects_addAction [simp]: "au_objects (addAction oid req x a) = au_objects a" "au_objects (updAct oid req f a) = au_objects a"
  by (simp_all add: addAction_def updAct_def updOwn_def)

lemma resourceLocked_found:
  assumes "resourceLocked mac t ref a = Inr r" and "base_inv a"
  shows "gget (au_objects a) (rs_id r) = Some r \<and> \<not> rs_retired r \<and> \<not> rs_forgetting r \<and> rs_id r \<in> set (au_resources a)"
proof -
  have r: "gget (au_objects a) (rr_ID ref) = Some r" "rr_ID ref \<in> set (au_resources a)" "\<not> rs_retired r" "\<not> rs_forgetting r"
    using assms(1) by (auto simp: resourceLocked_def split: sum.splits option.splits if_splits)
  with assms(2) have "rs_id r = rr_ID ref" by (auto simp: base_inv_def grants_inv_def tables_wf_def)
  with r show ?thesis by simp
qed

lemma runs_acquireBegin:
  assumes base: "base_inv a" and start: "acquireBegin mac ctxErr clk request a = (c, r)"
    and oid: "oid = or_Owner (aq_Owner request)" and req: "req = aq_Request request"
  shows "(\<forall>rid started. r \<noteq> BeginStarted rid started) \<and> runs now al a c
    \<or> (\<exists>rid b x. r = BeginStarted rid (clk 4) \<and> runs now al a b \<and> c = holdRes rid 1 b \<and> started_ok oid req rid b
        \<and> getAct a oid req = None \<and> getAct b oid req = Some x \<and> rc_Acquire (ac_receipt x) = Some request
        \<and> \<not> acquireInvalid (au_options a) request)"
proof -
  let ?b = "expireSessionsLocked (clk (Suc 0)) a"
  let ?d = "touchLocked (clk 2) oid (addAction oid req (newAcquire request) ?b)"
  note body = start [unfolded acquireBegin_def Let_def One_nat_def, folded oid req]
  show ?thesis
  proof (cases "\<exists>ow res. healthyLocked ctxErr True (clk 0) a = None \<and> Authority_ownerLocked mac (aq_Owner request) ?b = Inr ow
      \<and> \<not> acquireInvalid (au_options ?b) request \<and> getAct ?b oid req = None \<and> \<not> actionsFull oid ?b
      \<and> resourceLocked mac (clk 3) (aq_Resource request) ?d = Inr res")
    case True
    then obtain ow res where h: "healthyLocked ctxErr True (clk 0) a = None" "Authority_ownerLocked mac (aq_Owner request) ?b = Inr ow"
      "\<not> acquireInvalid (au_options ?b) request" and new: "getAct ?b oid req = None" "\<not> actionsFull oid ?b"
      and res: "resourceLocked mac (clk 3) (aq_Resource request) ?d = Inr res" by blast
    have ow: "gget (au_owners ?b) oid \<noteq> None" using ownerLocked_found [OF h(2)] oid by simp
    let ?x = "(newAcquire request)\<lparr>ac_resource := Some (rs_id res), ac_processing := True\<rparr>"
    let ?e = "updAct oid req (\<lambda>x. x\<lparr>ac_resource := Some (rs_id res), ac_processing := True\<rparr>) ?d"
    have run: "runs now al a ?d"
      by (intro runs_intros) (use new ow in \<open>auto simp: newAcquire_def req\<close>)
    have found: "gget (au_objects ?d) (rs_id res) = Some res" "\<not> rs_retired res" "\<not> rs_forgetting res"
      using resourceLocked_found [OF res runs_base [OF run base]] by auto
    have x: "getAct ?d oid req = Some (newAcquire request)" using ow by (simp add: getAct_addAction)
    have "runs now al a ?e"
      by (rule runs_prim [OF run prim_updAct]) (use x found in \<open>auto simp: act_keeps_def newAcquire_def\<close>)
    moreover have "getAct ?e oid req = Some ?x" using x by (simp add: getAct_updAct)
    moreover have "started_ok oid req (rs_id res) ?e"
      using found x by (simp add: started_ok_def getAct_updAct newAcquire_def)
    moreover have "getAct a oid req = None" using new expireSessions_getters(1) [OF ow, of req] by simp
    moreover have "c = holdRes (rs_id res) 1 ?e \<and> r = BeginStarted (rs_id res) (clk 4)"
      using body h new res by auto
    moreover have "\<not> acquireInvalid (au_options a) request" using h(3) by (simp add: calm_same(1) [OF calm_expireSessions])
    ultimately show ?thesis by (auto simp: newAcquire_def)
  next
    case False
    have run: "runs now al a ?d" if "getAct ?b oid req = None" "\<not> actionsFull oid ?b" "Authority_ownerLocked mac (aq_Owner request) ?b = Inr ow" for ow
      by (intro runs_intros) (use that ownerLocked_found [OF that(3)] in \<open>auto simp: newAcquire_def req oid\<close>)
    from False body have "(\<forall>rid started. r \<noteq> BeginStarted rid started) \<and> runs now al a c"
      by (auto simp: runs_refl intro: runs_sections(1) [OF runs_refl] rejectAction_runs(2) [OF _ run] dest: rejectAction_runs(1) split: option.splits sum.splits if_splits)
    then show ?thesis ..
  qed
qed

end
