(* ===== verification/LockGuards.thy ===== *)
theory LockGuards
  imports LockSections
begin

text \<open>
  The invariant of one authority, and the sections of renewal and of the queue workers as runs
  of primitive transitions.
\<close>

subsection \<open>The invariant of one authority\<close>

definition auth_inv :: "instant \<Rightarrow> Authority \<Rightarrow> bool" where
  "auth_inv now a \<longleftrightarrow> base_inv a \<and> queue_inv a \<and> keys_inv a \<and> lease_inv now a"

lemma auth_inv_prims: "prims now al a b \<Longrightarrow> auth_inv now a \<Longrightarrow> auth_inv now b"
proof (induction rule: rtranclp_induct)
  case (step b c)
  then have b: "base_inv b" "queue_inv b" "keys_inv b" "lease_inv now b" by (simp_all add: auth_inv_def)
  show ?case
    unfolding auth_inv_def
    using base_inv_prims [OF r_into_rtranclp [of "prim now al"], OF step.hyps(2) b(1)]
      queue_inv_prim [OF step.hyps(2) b(2,1)] keys_inv_prim [OF step.hyps(2) b(3)] lease_inv_prim [OF step.hyps(2) b(4)] by blast
qed

lemma auth_inv_runs: "runs now al a b \<Longrightarrow> auth_inv now a \<Longrightarrow> auth_inv now b"
  unfolding runs_def by (auto simp: auth_inv_def [of _ a] intro: auth_inv_prims)

subsection \<open>Renewal\<close>

lemma getAct_updGrant [simp]: "getAct (updGrant oid gid f a) = getAct a"
  by (auto simp: fun_eq_iff updGrant_def updOwn_def getAct_def split: option.split)

lemma renewGuard_idle:
  assumes "\<And>x. getAct a (or_Owner (rn_Owner request)) (rn_Request request) = Some x \<Longrightarrow> rc_Outcome (ac_receipt x) = Pending
    \<Longrightarrow> healthyLocked ctxErr True (clk 0) a \<noteq> None"
  shows "fst (renewGuard ctxErr clk request rid a) = a"
  using assms by (auto simp: renewGuard_def Let_def split: option.split)

lemma runs_renewGuard:
  assumes oid: "oid = or_Owner (rn_Owner request)" and req: "req = rn_Request request"
    and ttl: "rn_TTL request \<le> au_watermark a" and clk: "\<And>i. clk i \<le> now"
  shows "runs now al a (fst (renewGuard ctxErr clk request rid a))"
proof (cases "\<exists>x. getAct a oid req = Some x \<and> rc_Outcome (ac_receipt x) = Pending \<and> healthyLocked ctxErr True (clk 0) a = None")
  case False
  then have "fst (renewGuard ctxErr clk request rid a) = a"
    unfolding oid req by (intro renewGuard_idle) auto
  then show ?thesis by (simp add: runs_refl)
next
  case True
  then obtain x where x: "getAct a oid req = Some x" "rc_Outcome (ac_receipt x) = Pending" and h: "healthyLocked ctxErr True (clk 0) a = None" by blast
  let ?b = "expireSessionsLocked (clk 1) a"
  let ?c = "expireGrantsLocked rid (clk 2) ?b"
  have calm: "calm ?c = calm a" by simp
  have run: "runs now al a ?b" "runs now al a ?c" by (rule runs_intros)+
  note body = renewGuard_def [of ctxErr clk request rid a] and x' = x(1) [unfolded oid req]
  show ?thesis
  proof (cases "gget (au_owners ?b) oid = None")
    case True
    then show ?thesis using run(1) x(2) h unfolding body Let_def x' oid by auto
  next
    case False
    then have xc: "getAct ?c oid req = Some x" using x by (simp add: expireSessions_getters)
    let ?ext = "\<lambda>g. g\<lparr>gt_deadline := max (gt_deadline g) (clk 4 + rn_TTL request), gt_revision := gt_revision g + 1\<rparr>"
    have keep: "grant_keeps (now + au_watermark ?c) g (?ext g)" for g
      using ttl clk [of 4] unfolding calm_same(4) [OF calm] by (simp add: grant_keeps_def max_def)
    have upd: "runs now al a (updGrant oid gid ?ext ?c)" for gid
      by (rule runs_updGrant [OF run(2) keep])
    have xu: "getAct (updGrant oid gid f ?c) oid req = Some x" for gid f using xc by simp
    have keepx: "act_keeps x (x\<lparr>ac_receipt := (ac_receipt x)\<lparr>rc_Grant := ref, rc_DeadlineMillis := dl, rc_Revision := rev\<rparr>\<rparr>)" for ref dl rev
      using x(2) by (simp add: act_keeps_def)
    have settle: "runs now al a (touchLocked t oid (finishLocked oid req Renewed None
        (updAct oid req (\<lambda>x. x\<lparr>ac_receipt := (ac_receipt x)\<lparr>rc_Grant := ref, rc_DeadlineMillis := dl, rc_Revision := rev\<rparr>\<rparr>) (updGrant oid gid ?ext ?c))))"
      for t ref dl rev gid
      by (intro runs_sections(5) runs_finish runs_updAct upd) (use xu keepx in auto)
    show ?thesis
      using False settle run x(2) h unfolding body Let_def x' oid req by (simp split: option.split)
  qed
qed

lemma grantLocked_calm [simp]: "calm (fst (grantLockedForOwner mac t oid ref a)) = calm a"
  by (auto simp: grantLockedForOwner_def Let_def split: sum.split option.split)

lemma grantLocked_getAct [simp]: "getAct (fst (grantLockedForOwner mac t oid ref a)) = getAct a"
  by (auto simp: grantLockedForOwner_def Let_def split: sum.split option.split)

lemma active_resource:
  assumes "auth_inv now a" and g: "getGrant a oid gid = Some g" "gt_state g = Active"
  shows "\<exists>r. gget (au_objects a) (gt_resource g) = Some r \<and> \<not> rs_forgetting r"
proof -
  have inv: "grants_inv a" "keys_inv a" using assms(1) by (simp_all add: auth_inv_def base_inv_def)
  have live: "live a oid gid g" using g by (simp add: live_def)
  have lk: "links_ok a" using inv(1) by (simp add: grants_inv_def)
  have "gget (au_objects a) (gt_resource g) \<noteq> None" using lk g(1) unfolding links_ok_def by blast
  then obtain r where r: "gget (au_objects a) (gt_resource g) = Some r" by blast
  with lk live have "gget (rs_grants r) gid = Some oid" unfolding links_ok_def by blast
  then have "\<not> rs_forgetting r" using forgetting_quiet [OF inv(2) r] by (auto simp: quiet_def)
  with r show ?thesis by blast
qed

lemma runs_renewBegin:
  assumes inv: "auth_inv now a" and start: "renewBegin mac ctxErr clk request a = (c, r)"
    and oid: "oid = or_Owner (rn_Owner request)" and req: "req = rn_Request request"
  shows "(\<forall>rid started. r \<noteq> BeginStarted rid started) \<and> runs now al a c
    \<or> (\<exists>rid b x. r = BeginStarted rid (clk 4) \<and> runs now al a b \<and> c = holdRes rid 1 b \<and> started_ok oid req rid b
        \<and> getAct a oid req = None \<and> getAct b oid req = Some x \<and> rc_Renew (ac_receipt x) = Some request)"
proof -
  let ?b = "expireSessionsLocked (clk (Suc 0)) a"
  let ?d = "touchLocked (clk 2) oid (addAction oid req (newRenew request) ?b)"
  let ?look = "grantLockedForOwner mac (clk 3) oid (rn_Grant request) ?d"
  let ?e = "fst ?look"
  note body = start [unfolded renewBegin_def Let_def One_nat_def, folded oid req]
  have run: "runs now al a ?d" if "getAct ?b oid req = None" "\<not> actionsFull oid ?b" "Authority_ownerLocked mac (rn_Owner request) ?b = Inr ow" for ow
    by (intro runs_intros) (use that ownerLocked_found [OF that(3)] in \<open>auto simp: newRenew_def req oid\<close>)
  show ?thesis
  proof (cases "\<exists>ow g. healthyLocked ctxErr True (clk 0) a = None \<and> Authority_ownerLocked mac (rn_Owner request) ?b = Inr ow
      \<and> \<not> renewInvalid (au_options ?b) request \<and> getAct ?b oid req = None \<and> \<not> actionsFull oid ?b \<and> snd ?look = Inr g \<and> gt_state g = Active")
    case True
    then obtain ow g where h: "healthyLocked ctxErr True (clk 0) a = None" "Authority_ownerLocked mac (rn_Owner request) ?b = Inr ow"
      "\<not> renewInvalid (au_options ?b) request" and new: "getAct ?b oid req = None" "\<not> actionsFull oid ?b"
      and g: "snd ?look = Inr g" "gt_state g = Active" by blast
    have ow: "gget (au_owners ?b) oid \<noteq> None" using ownerLocked_found [OF h(2)] oid by simp
    let ?f = "\<lambda>x. x\<lparr>ac_grant := Some (gr_ID (rn_Grant request)), ac_resource := Some (gt_resource g), ac_processing := True\<rparr>"
    have rune: "runs now al a ?e" by (rule runs_grantLockedForOwner [OF run [OF new h(2)]])
    obtain r' where found: "gget (au_objects ?e) (gt_resource g) = Some r'" "\<not> rs_forgetting r'"
      using active_resource [OF auth_inv_runs [OF rune inv] grantLocked_found [OF g(1)] g(2)] by blast
    have x: "getAct ?e oid req = Some (newRenew request)" using ow by (simp add: getAct_addAction)
    have "runs now al a (updAct oid req ?f ?e)"
      by (rule runs_prim [OF rune prim_updAct]) (use x found in \<open>auto simp: act_keeps_def newRenew_def\<close>)
    moreover have "getAct (updAct oid req ?f ?e) oid req = Some (?f (newRenew request))" using x by (simp add: getAct_updAct)
    moreover have "started_ok oid req (gt_resource g) (updAct oid req ?f ?e)"
      using found x by (simp add: started_ok_def getAct_updAct newRenew_def)
    moreover have "getAct a oid req = None" using new expireSessions_getters(1) [OF ow, of req] by simp
    moreover have "c = holdRes (gt_resource g) 1 (updAct oid req ?f ?e) \<and> r = BeginStarted (gt_resource g) (clk 4)"
      using body h new g by (auto split: prod.splits)
    ultimately show ?thesis by (auto simp: newRenew_def)
  next
    case False
    have rej: "runs now al a b'" if "rejectAction k oid req code ?e = (b', r')" "getAct ?b oid req = None" "\<not> actionsFull oid ?b"
        "Authority_ownerLocked mac (rn_Owner request) ?b = Inr ow" for k code b' r' ow
      by (rule rejectAction_runs(2) [OF that(1) runs_grantLockedForOwner [OF run [OF that(2-4)]]])
    from False body have "(\<forall>rid started. r \<noteq> BeginStarted rid started) \<and> runs now al a c"
      by (auto simp: runs_refl case_prod_unfold intro: runs_sections(1) [OF runs_refl] rej dest: rejectAction_runs(1)
          split: option.splits sum.splits if_splits)
    then show ?thesis ..
  qed
qed

subsection \<open>Ending a call and the queue workers\<close>

lemma runs_actionEnd:
  "\<exists>b. runs now al a b \<and> calm b = calm a \<and> runs now al (holdRes rid (- 1) b) (actionEnd oid req rid err a)"
proof (intro exI conjI)
  let ?b = "updAct oid req (\<lambda>x. x\<lparr>ac_processing := False\<rparr>) a"
  have keep: "act_keeps x (x\<lparr>ac_processing := p\<rparr>)" "act_keeps x (x\<lparr>ac_failure := f\<rparr>)" for x p f by (simp_all add: act_keeps_def)
  show "runs now al a ?b" by (intro runs_updAct runs_refl) (simp add: keep)
  show "calm ?b = calm a" by simp
  show "runs now al (holdRes rid (- 1) ?b) (actionEnd oid req rid err a)"
    by (auto simp: actionEnd_def Let_def keep intro!: runs_intros split: option.split)
qed

lemma queue_head:
  assumes "queue_inv a" and "resQueue a rid = (oid, req) # rest"
  obtains x r where "getAct a oid req = Some x" "rc_Outcome (ac_receipt x) = Pending" "ac_resource x = Some rid" "ac_waitUntil x \<noteq> None"
    "rc_Acquire (ac_receipt x) \<noteq> None" "gget (au_objects a) rid = Some r" "rs_queue r = (oid, req) # rest"
proof -
  from assms(2) obtain r where r: "gget (au_objects a) rid = Some r" "rs_queue r = (oid, req) # rest"
    by (auto simp: resQueue_def split: option.splits)
  have "(oid, req) \<in> set (rs_queue r)" by (simp add: r(2))
  with assms(1) r(1) have "waiting a oid req rid" unfolding queue_inv_def queues_exact_def by blast
  then obtain x where x: "getAct a oid req = Some x" "waits x" "ac_resource x = Some rid" unfolding waiting_def by blast
  with acts_okD [OF assms(1) x(1)] show ?thesis using r that by (auto simp: waits_def act_ok_def)
qed

lemma workerPick_take:
  assumes "workerPick t rid a = (c, WorkerTake oid req)" and b: "b = expireQueuedLocked rid t (expireGrantsLocked rid t a)"
  shows "\<exists>rest. resQueue b rid = (oid, req) # rest \<and> \<not> busyRes b rid \<and> c = holdRes rid 1 (updAct oid req (\<lambda>x. x\<lparr>ac_processing := True\<rparr>) b)"
  using assms(1) unfolding workerPick_def Let_def b [symmetric]
  by (cases "resQueue b rid") (simp_all split: if_splits prod.splits)

lemma runs_workerPick:
  assumes inv: "auth_inv now a" and pick: "workerPick t rid a = (c, r)"
  shows "(\<forall>oid req. r \<noteq> WorkerTake oid req) \<and> runs now al a c
    \<or> (\<exists>oid req b x res. r = WorkerTake oid req \<and> runs now al a b \<and> c = holdRes rid 1 b
        \<and> gget (au_objects b) rid = Some res \<and> \<not> rs_forgetting res \<and> \<not> rs_busy res
        \<and> getAct b oid req = Some x \<and> ac_resource x = Some rid \<and> ac_waitUntil x \<noteq> None \<and> rc_Acquire (ac_receipt x) \<noteq> None)"
proof -
  let ?b = "expireQueuedLocked rid t (expireGrantsLocked rid t a)"
  have run: "runs now al a ?b" by (intro runs_intros)
  have invb: "auth_inv now ?b" by (rule auth_inv_runs [OF run inv])
  show ?thesis
  proof (cases "\<exists>oid req. r = WorkerTake oid req")
    case False
    then have "c = a \<or> c = ?b"
      using pick unfolding workerPick_def Let_def by (cases "resQueue ?b rid") (auto split: if_splits prod.splits)
    with False run show ?thesis by (auto simp: runs_refl)
  next
    case True
    let ?f = "\<lambda>x. x\<lparr>ac_processing := True\<rparr>"
    from True obtain oid req where r: "r = WorkerTake oid req" by blast
    with workerPick_take [OF _ refl] pick obtain rest where q: "resQueue ?b rid = (oid, req) # rest" and nb: "\<not> busyRes ?b rid"
      and c: "c = holdRes rid 1 (updAct oid req ?f ?b)" by blast
    from invb have "queue_inv ?b" by (simp add: auth_inv_def)
    then obtain x res where x: "getAct ?b oid req = Some x" "ac_resource x = Some rid" "ac_waitUntil x \<noteq> None" "rc_Acquire (ac_receipt x) \<noteq> None"
      and res: "gget (au_objects ?b) rid = Some res" "rs_queue res = (oid, req) # rest" by (rule queue_head [OF _ q])
    have "\<not> rs_forgetting res" using forgetting_quiet [of ?b rid res] invb res by (auto simp: auth_inv_def quiet_def)
    moreover have "\<not> rs_busy res" using nb res(1) by (simp add: busyRes_def)
    moreover have "runs now al a (updAct oid req ?f ?b)"
      by (rule runs_updAct [OF run]) (simp add: act_keeps_def)
    moreover have "getAct (updAct oid req ?f ?b) oid req = Some (?f x)" using x(1) by (simp add: getAct_updAct)
    ultimately have "r = WorkerTake oid req \<and> runs now al a (updAct oid req ?f ?b) \<and> c = holdRes rid 1 (updAct oid req ?f ?b)
        \<and> gget (au_objects (updAct oid req ?f ?b)) rid = Some res \<and> \<not> rs_forgetting res \<and> \<not> rs_busy res
        \<and> getAct (updAct oid req ?f ?b) oid req = Some (?f x) \<and> ac_resource (?f x) = Some rid \<and> ac_waitUntil (?f x) \<noteq> None
        \<and> rc_Acquire (ac_receipt (?f x)) \<noteq> None"
      using c r res x by simp
    then show ?thesis by blast
  qed
qed

lemma workerGuard_idle:
  assumes "\<And>x. getAct a oid req = Some x \<Longrightarrow> rc_Outcome (ac_receipt x) = Pending \<Longrightarrow> healthyLocked ctxErr True (clk 0) a \<noteq> None"
  shows "fst (workerGuard mac ctxErr clk nonce rid oid req a) = a"
  using assms by (auto simp: workerGuard_def Let_def split: option.split)

lemma runs_workerGuard:
  assumes r: "gget (au_objects a) rid = Some r" "0 < rs_holds r"
    and act: "\<And>x. getAct a oid req = Some x \<Longrightarrow> rc_Acquire (ac_receipt x) = Some request \<and> ac_resource x = Some rid"
    and ttl: "aq_TTL request \<le> au_watermark a" and clk: "\<And>i. clk i \<le> now"
    and fresh: "\<And>oid'. getGrant a oid' (newGrantID mac nonce oid rid (au_lastGeneration a + 1) a) = None"
  shows "runs now al a (fst (workerGuard mac ctxErr clk nonce rid oid req a))"
proof (cases "\<exists>x. getAct a oid req = Some x \<and> rc_Outcome (ac_receipt x) = Pending \<and> healthyLocked ctxErr True (clk 0) a = None")
  case False
  then have "fst (workerGuard mac ctxErr clk nonce rid oid req a) = a" by (intro workerGuard_idle) auto
  then show ?thesis by (simp add: runs_refl)
next
  case True
  then obtain x where x: "getAct a oid req = Some x" "rc_Outcome (ac_receipt x) = Pending" and h: "healthyLocked ctxErr True (clk 0) a = None" by blast
  let ?b = "expireSessionsLocked (clk 1) a"
  let ?c = "expireGrantsLocked rid (clk 2) ?b"
  have calm: "calm ?c = calm a" by simp
  obtain rc where rc: "gget (au_objects ?c) rid = Some rc" "rs_holds rc = rs_holds r" "rs_retired rc = rs_retired r"
    using calm_object [OF calm r(1)] by auto
  obtain rb where rb: "gget (au_objects ?b) rid = Some rb" "rs_retired rb = rs_retired r"
    using calm_object [OF calm_expireSessions r(1)] by blast
  have run: "runs now al a ?b" "runs now al a ?c" by (rule runs_intros)+
  have health: "au_fenced a = None" "\<not> au_closed a" "au_recoveryUntil a \<le> now"
    using healthy_flags [OF h] clk [of 0] by auto
  note body = workerGuard_def [of mac ctxErr clk nonce rid oid req a]
  show ?thesis
  proof (cases "gget (au_owners ?b) oid = None \<or> rs_retired r")
    case True
    then show ?thesis using run(1) x h rb unfolding body Let_def by auto
  next
    case False
    then have xc: "getAct ?c oid req = Some x" using x by (simp add: expireSessions_getters)
    note ax = act [OF x(1)]
    have mode: "requestMode ?c oid req = aq_Mode request" using xc ax by (simp add: requestMode_def)
    have grant: "runs now al a (fst (grantLocked mac (\<lambda>i. clk (3 + i)) nonce oid req ?c))"
      if "\<not> busyRes ?c rid" "hd (resQueue ?c rid) = (oid, req)" "compatibleLocked rid oid (requestMode ?c oid req) ?c"
    proof (rule runs_grantLocked [OF run(2)])
      show "grantable mac now nonce oid req rid request ?c"
        by (rule grantable_expired [OF calm xc x(2), where r = rc]) (use ax health ttl fresh rc r False that mode in
            \<open>auto intro: getGrant_expireGrants_None getGrant_expireSessions_None\<close>)
    qed (rule clk)
    have fin: "runs now al a (finishLocked oid req TimedOut None ?c)" by (rule runs_finish [OF run(2)]) simp
    show ?thesis
      using False grant fin run x h rb unfolding body Let_def by (simp split: if_split)
  qed
qed

lemma runs_workerExit [runs_intros]: "runs now al a b \<Longrightarrow> runs now al a (workerExit rid b)"
  unfolding workerExit_def by (rule runs_updRes) (simp_all add: res_keeps_def)

end
