(* ===== verification/LockPublish.thy ===== *)
theory LockPublish
  imports LockGuards
begin

text \<open>
  Maintenance, publication and shutdown as runs of primitive transitions, and what a
  publication marks as busy while it is in flight.
\<close>

subsection \<open>Maintenance\<close>

lemma forgetting_prim:
  assumes "prim now al a b" and "gget (au_objects a) rid = Some r" and "rs_forgetting r"
  shows "\<exists>r'. gget (au_objects b) rid = Some r' \<and> rs_forgetting r'"
  using assms
proof (induction rule: prim.induct)
  case (prim_updRes f a rid')
  obtain u d w where "f r = r\<lparr>rs_referenceUntil := u, rs_retired := d, rs_worker := w\<rparr>"
    using prim_updRes(1) unfolding res_keeps_def by blast
  then have "rs_forgetting (f r)" using prim_updRes(3) by simp
  with prim_updRes(2,3) show ?case by (auto simp: updRes_def)
qed (auto simp: updSess_def endGrantLocked_def finishLocked_def Let_def addAction_def updAct_def updOwn_def updRes_def updGrant_def installGrant_def
      split: option.split)

lemma forgetting_prims:
  "prims now al a b \<Longrightarrow> gget (au_objects a) rid = Some r \<Longrightarrow> rs_forgetting r \<Longrightarrow> \<exists>r'. gget (au_objects b) rid = Some r' \<and> rs_forgetting r'"
proof (induction rule: rtranclp_induct)
  case (step b c)
  then show ?case using forgetting_prim [OF step.hyps(2)] by metis
qed blast

lemma resources_prim:
  assumes "prim now al a b" and "rid \<in> set (au_resources a)" and "rid \<notin> al_dropped al"
  shows "rid \<in> set (au_resources b)"
  using assms
proof (induction rule: prim.induct)
  case (prim_forget a rid' r)
  then have "rid \<noteq> rid'" by blast
  with prim_forget show ?case by simp
qed (auto simp: updSess_def endGrantLocked_def finishLocked_def Let_def addAction_def updAct_def updOwn_def updRes_def updGrant_def installGrant_def
      split: option.split)

lemma resources_prims: "prims now al a b \<Longrightarrow> rid \<in> set (au_resources a) \<Longrightarrow> rid \<notin> al_dropped al \<Longrightarrow> rid \<in> set (au_resources b)"
  by (induction rule: rtranclp_induct) (auto intro: resources_prim)

lemma keys_prim:
  assumes "prim now al a b" and "gget (au_keys b) key = Some rid" and "key \<notin> al_found al"
  shows "gget (au_keys a) key = Some rid"
  using assms
  by (induction rule: prim.induct)
    (auto simp: updSess_def endGrantLocked_def finishLocked_def Let_def addAction_def updAct_def updOwn_def updRes_def updGrant_def installGrant_def
      split: option.splits if_splits)

lemma keys_prims: "prims now al a b \<Longrightarrow> gget (au_keys b) key = Some rid \<Longrightarrow> key \<notin> al_found al \<Longrightarrow> gget (au_keys a) key = Some rid"
  by (induction rule: rtranclp_induct) (auto dest: keys_prim)

lemma runs_maintainResource [runs_intros]:
  assumes "runs now al a (fst st)"
  shows "runs now al a (fst (maintainResource t rid st))"
proof -
  obtain b next' forgotten where st: "st = (b, next', forgotten)" by (cases st)
  let ?c = "startWorkerLocked rid (expireQueuedLocked rid t (expireGrantsLocked rid t b))"
  have run: "runs now al a ?c" using assms by (intro runs_intros) (simp add: st)
  show ?thesis
    using run by (auto simp: maintainResource_def st Let_def intro!: runs_prim [OF run prim_forgetting] split: option.split)
qed

lemma runs_maintainFold:
  "runs now al a (fst st) \<Longrightarrow> runs now al a (fst (fold (maintainResource t) rids st))"
proof (induction rids arbitrary: st)
  case (Cons rid rids)
  show ?case using Cons.IH [OF runs_maintainResource [OF Cons.prems]] by simp
qed simp

lemma runs_maintainScan: "runs now al a (fst (maintainScan t a))"
  by (auto simp: maintainScan_def Let_def intro!: runs_intros runs_maintainFold)

text \<open>The resources that one scan decides to forget.\<close>

lemma maintainResource_forgotten:
  assumes step: "maintainResource t rid (a, next', forgotten) = (b, next'', forgotten')" and base: "base_inv a"
    and old: "\<forall>rid' \<in> set forgotten. \<exists>r. gget (au_objects a) rid' = Some r \<and> rs_forgetting r"
  shows "(\<forall>rid' \<in> set forgotten'. \<exists>r. gget (au_objects b) rid' = Some r \<and> rs_forgetting r) \<and> (forgotten' = forgotten \<or> forgotten' = forgotten @ [rid])"
proof -
  have "runs 0 nothing a (fst (maintainResource t rid (a, next', forgotten)))" by (rule runs_maintainResource) (simp add: runs_refl)
  then have run: "prims 0 nothing a b" using base step by (simp add: runs_def)
  have keep: "\<exists>r. gget (au_objects b) rid' = Some r \<and> rs_forgetting r" if "rid' \<in> set forgotten" for rid'
    using old that forgetting_prims [OF run] by blast
  have "forgotten' = forgotten \<or> forgotten' = forgotten @ [rid] \<and> (\<exists>r. gget (au_objects b) rid = Some r \<and> rs_forgetting r)"
    using step by (auto simp: maintainResource_def Let_def updRes_def split: option.splits if_splits)
  with keep show ?thesis by auto
qed

lemma maintainFold_forgotten:
  assumes "fold (maintainResource t) rids (a, next', forgotten) = (b, next'', forgotten')" and "base_inv a"
    and "\<forall>rid' \<in> set forgotten. \<exists>r. gget (au_objects a) rid' = Some r \<and> rs_forgetting r"
    and "distinct forgotten" "distinct rids" "set forgotten \<inter> set rids = {}"
  shows "(\<forall>rid' \<in> set forgotten'. \<exists>r. gget (au_objects b) rid' = Some r \<and> rs_forgetting r) \<and> distinct forgotten'
    \<and> set forgotten' \<subseteq> set forgotten \<union> set rids"
  using assms
proof (induction rids arbitrary: a next' forgotten)
  case (Cons rid rids)
  obtain c n f where c: "maintainResource t rid (a, next', forgotten) = (c, n, f)" by (cases "maintainResource t rid (a, next', forgotten)")
  from maintainResource_forgotten [OF c Cons.prems(2,3)]
  have f: "\<forall>rid' \<in> set f. \<exists>r. gget (au_objects c) rid' = Some r \<and> rs_forgetting r" "f = forgotten \<or> f = forgotten @ [rid]" by auto
  have "runs 0 nothing a (fst (maintainResource t rid (a, next', forgotten)))" by (rule runs_maintainResource) (simp add: runs_refl)
  with c Cons.prems(2) have base: "base_inv c" by (auto dest: runs_base)
  have "(\<forall>rid' \<in> set forgotten'. \<exists>r. gget (au_objects b) rid' = Some r \<and> rs_forgetting r) \<and> distinct forgotten' \<and> set forgotten' \<subseteq> set f \<union> set rids"
    by (rule Cons.IH [OF _ base f(1)]) (use Cons.prems c f(2) in auto)
  with f(2) show ?case by auto
qed simp

lemma maintainScan_forgotten:
  assumes scan: "maintainScan t a = (b, next', forgotten)" and inv: "base_inv a" "keys_inv a"
  shows "(\<forall>rid \<in> set forgotten. \<exists>r. gget (au_objects b) rid = Some r \<and> rs_forgetting r) \<and> distinct forgotten \<and> set forgotten \<subseteq> set (au_resources b)"
proof (cases "au_closed a")
  case False
  let ?a = "expireSessionsLocked t a"
  have res: "au_resources ?a = au_resources a" by (rule calm_same(6)) simp
  have base: "base_inv ?a" by (rule runs_base [OF runs_sections(1) [OF runs_refl] inv(1)])
  obtain n where fold: "fold (maintainResource t) (au_resources ?a) (?a, n, []) = (b, next', forgotten)"
    using scan False unfolding maintainScan_def Let_def by auto
  have dist: "distinct (au_resources ?a)" using inv(2) by (simp add: res keys_inv_def keys_exact_def)
  note spec = maintainFold_forgotten [OF fold base _ _ dist]
  have "runs 0 nothing ?a (fst (fold (maintainResource t) (au_resources ?a) (?a, n, [])))" by (rule runs_maintainFold) (simp add: runs_refl)
  then have "prims 0 nothing ?a b" using base fold by (simp add: runs_def)
  then have "set (au_resources ?a) \<subseteq> set (au_resources b)" by (auto intro: resources_prims)
  with spec show ?thesis by auto
qed (use scan in \<open>simp add: maintainScan_def\<close>)

lemma runs_forgetDone:
  assumes "gget (au_objects a) rid = Some r" "rs_forgetting r" "rid \<in> set (au_resources a)" "rid \<in> al_dropped al"
  shows "runs now al a (forgetDone rid err a)"
  using assms by (auto simp: forgetDone_def intro!: runs_prim [OF runs_refl prim_fence] runs_prim [OF runs_refl prim_forget] split: option.split)

lemma runs_closeFinish:
  "au_closed a \<Longrightarrow> set (au_resources a) \<subseteq> al_dropped al \<Longrightarrow> runs now al a (fst (closeFinish forget a))"
  unfolding closeFinish_def Let_def by (simp add: runs_prim [OF runs_refl prim_closed])

subsection \<open>Publication\<close>

lemma runs_publishTargets [runs_intros]:
  "runs now al a b \<Longrightarrow> runs now al a (fst (publishTargets clk targets keys rids b))"
  by (induction clk targets keys rids b rule: publishTargets.induct) (auto intro: runs_intros split: option.split)

lemma calm_publishTargets [simp]: "calm (fst (publishTargets clk targets keys rids a)) = calm a"
  by (induction clk targets keys rids a rule: publishTargets.induct) (auto split: option.split)

lemma runs_publishProofs [runs_intros]:
  "runs now al a b \<Longrightarrow> runs now al a (fst (publishProofs mac clk oid keys proofList proofs b))"
proof (induction proofList arbitrary: clk proofs b)
  case (Cons p rest)
  let ?look = "grantLockedForOwner mac (clk 0) oid p b"
  have "runs now al a (fst ?look)" using Cons.prems by (rule runs_grantLockedForOwner)
  with Cons.IH show ?case by (cases ?look) (auto split: sum.split option.split)
qed simp

lemma calm_publishProofs [simp]: "calm (fst (publishProofs mac clk oid keys proofList proofs a)) = calm a"
proof (induction proofList arbitrary: clk proofs a)
  case (Cons p rest)
  let ?look = "grantLockedForOwner mac (clk 0) oid p a"
  have "calm (fst ?look) = calm a" by simp
  with Cons.IH show ?case by (cases ?look) (auto split: sum.split option.split)
qed simp

text \<open>The targets as the loop collects them: every target is a key, and the resources are those
  of the keys, none of them busy.\<close>

lemma publishTargets_spec:
  assumes "publishTargets clk targets keys rids a = (b, Inr (keys', rids'))" and "keys_inv a"
    and "distinct rids" and "set rids = {rid. \<exists>key \<in> set keys. gget (au_keys a) key = Some rid}" and "\<forall>rid \<in> set rids. \<not> busyRes a rid"
    and "[] \<notin> set keys"
  shows "set keys' = set keys \<union> set targets \<and> [] \<notin> set keys' \<and> distinct rids'
    \<and> set rids' = {rid. \<exists>key \<in> set keys'. gget (au_keys a) key = Some rid} \<and> (\<forall>rid \<in> set rids'. \<not> busyRes a rid)"
  using assms
proof (induction targets arbitrary: clk keys rids a)
  case (Cons key rest)
  consider "key \<in> set keys" | "key \<notin> set keys" "gget (au_keys a) key = None" | rid where "key \<notin> set keys" "gget (au_keys a) key = Some rid" by auto
  then show ?case
  proof cases
    case 1
    with Cons.prems(1) have "publishTargets (\<lambda>i. clk (Suc i)) rest keys rids a = (b, Inr (keys', rids'))" by (auto split: if_splits)
    from Cons.IH [OF this Cons.prems(2-6)] 1 show ?thesis by auto
  next
    case 2
    with Cons.prems(1) have "publishTargets (\<lambda>i. clk (Suc i)) rest (keys @ [key]) rids a = (b, Inr (keys', rids'))" "key \<noteq> []"
      by (auto split: if_splits)
    from Cons.IH [OF this(1) Cons.prems(2,3)] Cons.prems(4-6) 2 this(2) show ?thesis by auto
  next
    case 3
    let ?a = "expireGrantsLocked rid (clk 0) a"
    from 3 Cons.prems(1) have rest: "publishTargets (\<lambda>i. clk (Suc i)) rest (keys @ [key]) (rids @ [rid]) ?a = (b, Inr (keys', rids'))"
      and key: "key \<noteq> []" and nb: "\<not> busyRes a rid" by (auto split: if_splits)
    have same: "au_keys ?a = au_keys a" "busyRes ?a rid' = busyRes a rid'" for rid'
      by (rule calm_same(7) calm_busy, simp)+
    have inv: "keys_inv ?a"
      unfolding expireGrantsLocked_def using Cons.prems(2)
      by (auto intro!: fold_keeps [where P = keys_inv] keys_inv_endGrant)
    have "rid \<notin> set rids"
    proof
      assume "rid \<in> set rids"
      then obtain key' where "key' \<in> set keys" "gget (au_keys a) key' = Some rid" using Cons.prems(4) by auto
      with 3 Cons.prems(2) have "key' = key" by (auto simp: keys_inv_def keys_exact_def)
      with 3 \<open>key' \<in> set keys\<close> show False by simp
    qed
    with Cons.IH [OF rest inv, unfolded same] Cons.prems(3-6) 3 key nb show ?thesis by auto
  qed
qed simp

text \<open>The busy marks of a publication.\<close>

definition markBusy :: "bool \<Rightarrow> ResourceID list \<Rightarrow> Authority \<Rightarrow> Authority" where
  "markBusy flag rids a = fold (\<lambda>rid. updRes rid (\<lambda>r. r\<lparr>rs_busy := flag\<rparr>)) rids a"

lemma objects_markBusy:
  "gget (au_objects (markBusy flag rids a)) rid = map_option (\<lambda>r. if rid \<in> set rids then r\<lparr>rs_busy := flag\<rparr> else r) (gget (au_objects a) rid)"
  unfolding markBusy_def
proof (induction rids arbitrary: a)
  case (Cons rid' rids)
  then show ?case by (cases "gget (au_objects a) rid") (auto simp: updRes_def)
qed (simp add: option.map_ident)

lemma publishAdmit_form:
  fixes publication
  defines "oid \<equiv> or_Owner (sc_Owner (pb_Scope publication))" and "proofList \<equiv> sc_Grants (pb_Scope publication)"
  assumes tg: "tg = publishTargets (\<lambda>i. clk (2 + i)) (pb_Targets publication) [] [] (expireSessionsLocked (clk 1) a)"
    and pf: "\<And>keys. pf keys = publishProofs mac (\<lambda>i. clk (4 + i)) oid keys proofList [] (fst tg)"
  shows "publishAdmit mac ctxErr clk publication a =
    (case first_error [fail_if (length (pb_Targets publication) > 2) (fail Invalid),
          fail_if (pb_Kind publication = OtherMutation) (fail Invalid),
          ValidateScope (pb_Scope publication) (opt_MaxProofs (au_options a)), healthyLocked ctxErr True (clk 0) a] of
       Some e \<Rightarrow> (a, Inl e)
     | None \<Rightarrow>
         (case (if oid \<noteq> [] then (case Authority_ownerLocked mac (sc_Owner (pb_Scope publication)) (expireSessionsLocked (clk 1) a) of
                  Inl e \<Rightarrow> Some e | Inr _ \<Rightarrow> None) else None) of
            Some e \<Rightarrow> (expireSessionsLocked (clk 1) a, Inl e)
          | None \<Rightarrow>
              (case snd tg of
                 Inl e \<Rightarrow> (fst tg, Inl e)
               | Inr target \<Rightarrow>
                   let b = fst (pf (fst target)) in
                   (case snd (pf (fst target)) of
                      Inl e \<Rightarrow> (b, Inl e)
                    | Inr proofs \<Rightarrow>
                        if \<not> list_all (protectedBy b oid proofs) (snd target) then (b, Inl (fail Conflict))
                        else if list_ex (\<lambda>(_, gid). \<not> clk (4 + 2 * length proofList) < deadlineOf b oid gid) proofs
                        then (b, Inl (fail StaleGrant))
                        else ((markBusy True (snd target) b)\<lparr>au_publications := au_publications b + 1\<rparr>, Inr target)))))"
  unfolding publishAdmit_def Let_def oid_def proofList_def markBusy_def tg pf
  by (simp only: case_prod_unfold prod.collapse)

lemma publishAdmit_cases:
  assumes inv: "auth_inv now a" and adm: "publishAdmit mac ctxErr clk publication a = (c, res)"
  shows "(\<exists>e. res = Inl e) \<and> runs now al a c
    \<or> (\<exists>keys rids b. res = Inr (keys, rids) \<and> runs now al a b \<and> calm b = calm a
        \<and> c = (markBusy True rids b)\<lparr>au_publications := au_publications b + 1\<rparr>
        \<and> set keys = set (pb_Targets publication) \<and> [] \<notin> set keys \<and> distinct rids
        \<and> set rids = {rid. \<exists>key \<in> set keys. gget (au_keys b) key = Some rid} \<and> (\<forall>rid \<in> set rids. \<not> busyRes b rid))"
proof -
  let ?a1 = "expireSessionsLocked (clk 1) a"
  let ?owner = "sc_Owner (pb_Scope publication)"
  let ?oid = "or_Owner ?owner" and ?pl = "sc_Grants (pb_Scope publication)"
  define tg where "tg = publishTargets (\<lambda>i. clk (2 + i)) (pb_Targets publication) [] [] ?a1"
  define pf where "pf keys = publishProofs mac (\<lambda>i. clk (4 + i)) ?oid keys ?pl [] (fst tg)" for keys
  have run1: "runs now al a ?a1" by (intro runs_intros)
  have run2: "runs now al a (fst tg)" unfolding tg_def by (intro runs_intros)
  have run3: "runs now al a (fst (pf keys))" for keys unfolding pf_def by (intro runs_intros run2)
  have calm: "calm (fst tg) = calm a" "calm (fst (pf keys)) = calm a" for keys unfolding pf_def tg_def by simp_all
  note form = publishAdmit_form [OF tg_def pf_def, of ctxErr, unfolded adm]
  show ?thesis
  proof (cases res)
    case (Inl e)
    with form have "c = a \<or> c = ?a1 \<or> c = fst tg \<or> (\<exists>keys. c = fst (pf keys))"
      by (auto simp: Let_def split: option.splits sum.splits if_splits)
    with Inl run1 run2 run3 show ?thesis by (auto simp: runs_refl)
  next
    case (Inr pair)
    obtain keys rids where pair: "pair = (keys, rids)" by (cases pair)
    from form Inr pair have "snd tg = Inr (keys, rids)" and c: "c = (markBusy True rids (fst (pf keys)))\<lparr>au_publications := au_publications (fst (pf keys)) + 1\<rparr>"
      by (auto simp: Let_def split: option.splits sum.splits if_splits)
    then obtain a2 where tg: "tg = (a2, Inr (keys, rids))" by (cases tg) auto
    have "keys_inv ?a1" using auth_inv_runs [OF run1 inv] by (simp add: auth_inv_def)
    from publishTargets_spec [OF tg [unfolded tg_def] this]
    have spec: "set keys = set (pb_Targets publication)" "[] \<notin> set keys" "distinct rids" "set rids = {rid. \<exists>key \<in> set keys. gget (au_keys ?a1) key = Some rid}"
      "\<forall>rid \<in> set rids. \<not> busyRes ?a1 rid" by auto
    have same: "au_keys (fst (pf keys)) = au_keys ?a1" "busyRes (fst (pf keys)) rid = busyRes ?a1 rid" for rid
      by (rule calm_same(7) calm_busy, simp add: calm)+
    from Inr pair run3 calm(2) c spec show ?thesis unfolding same [symmetric] by blast
  qed
qed

lemma keys_upd [simp]:
  "au_keys (updRes rid f a) = au_keys a" "au_keys (endGrantLocked oid gid state a) = au_keys a" "au_keys (finishLocked oid req outcome code a) = au_keys a"
  by (auto simp: updRes_def endGrantLocked_def finishLocked_def Let_def updOwn_def updAct_def split: option.split)

lemma retireTarget_keys [simp]: "au_keys (retireTarget t key a) = au_keys a"
proof -
  have "au_keys (fold (\<lambda>(gid, oid). endGrantLocked oid gid TargetGone) gs b) = au_keys b" for gs b
    by (rule fold_same [where g = au_keys]) auto
  moreover have "au_keys (fold (\<lambda>(oid, req). finishLocked oid req Rejected (Some StaleResource)) qs b) = au_keys b" for qs b
    by (rule fold_same [where g = au_keys]) auto
  ultimately show ?thesis by (simp add: retireTarget_def Let_def split: option.split)
qed

lemma prims_retireTarget:
  assumes base: "base_inv a" and own: "\<And>rid. gget (au_keys a) key = Some rid \<Longrightarrow> rid \<in> al_ending al"
  shows "prims now al a (retireTarget t key a)"
proof (cases "gget (au_keys a) key")
  case (Some rid)
  let ?a1 = "updRes rid (\<lambda>r. r\<lparr>rs_retired := True, rs_referenceUntil := t\<rparr>) a"
  let ?a2 = "fold (\<lambda>(gid, oid). endGrantLocked oid gid TargetGone) (resGrants ?a1 rid) ?a1"
  have s1: "prims now al a ?a1" by (intro prims_one prim_updRes) (simp add: res_keeps_def)
  then have inv: "grants_inv ?a1" using base base_inv_prims by (auto simp: base_inv_def)
  define P where "P b \<longleftrightarrow> (\<forall>gid oid g. (gid, oid) \<in> set (resGrants ?a1 rid) \<longrightarrow> live b oid gid g \<longrightarrow> gt_resource g = rid)" for b
  have "P ?a1"
    unfolding P_def by (metis inv live_def option.inject resGrants_live)
  moreover have "prims now al b (endGrantLocked oid gid TargetGone b) \<and> P (endGrantLocked oid gid TargetGone b)"
    if "P b" "(gid, oid) \<in> set (resGrants ?a1 rid)" for b gid oid
    using that own [OF Some] by (auto simp: P_def live_end intro!: prims_one prim_endGrant)
  ultimately have s2: "prims now al ?a1 ?a2"
    by (intro conjunct1 [OF prims_each [where P = P]]) auto
  have s3: "prims now al ?a2
      (fold (\<lambda>(oid, req). finishLocked oid req Rejected (Some StaleResource)) (resQueue ?a2 rid) ?a2)"
    by (rule conjunct1 [OF prims_each [where P = "\<lambda>_. True"]]) (auto intro: prims_one prim_finish)
  show ?thesis
    using s1 s2 s3 by (simp add: retireTarget_def Some Let_def)
qed (simp add: retireTarget_def)

lemma runs_retireTargets:
  assumes "runs now al a b" and "\<forall>key \<in> set retired. \<forall>rid. gget (au_keys b) key = Some rid \<longrightarrow> rid \<in> al_ending al"
  shows "runs now al a (retireTargets clk retired b)"
  using assms
proof (induction retired arbitrary: clk b)
  case (Cons key rest)
  have "runs now al a (retireTarget (clk 0) key b)"
    using Cons.prems by (intro runs_prims [OF Cons.prems(1)] prims_retireTarget) auto
  with Cons show ?case by simp
qed simp

lemma completePublication_form:
  assumes own: "\<forall>key \<in> set keys. \<forall>rid. gget (au_keys a) key = Some rid \<longrightarrow> rid \<in> al_ending al"
  shows "\<exists>b. runs now al a b
    \<and> fst (completePublication clk rids keys outcome a) = (markBusy False rids b)\<lparr>au_publications := au_publications b - 1\<rparr>"
proof -
  have pubs: "au_publications (markBusy False rids b) = au_publications b" for b
    unfolding markBusy_def by (rule fold_same [where g = au_publications]) (simp add: updRes_def)
  have ret: "runs now al a (retireTargets clk (po_Retired outcome) a)" if "\<not> list_ex (\<lambda>key. key \<notin> set keys) (po_Retired outcome)"
    by (rule runs_retireTargets [OF runs_refl]) (use that own in \<open>auto simp: list_ex_iff\<close>)
  have f: "runs now al a (a\<lparr>au_fenced := Some e\<rparr>)" for e by (rule runs_flags(1) [OF runs_refl])
  have fence: "runs now al a (if au_fenced a = None then a\<lparr>au_fenced := e\<rparr> else a)" if "e \<noteq> None" for e
    using that f by (auto simp: runs_refl)
  let ?undeclared = "list_ex (\<lambda>key. key \<notin> set keys) (po_Retired outcome)"
  show ?thesis
  proof (cases "po_Known outcome \<and> \<not> ?undeclared")
    case True
    then show ?thesis using ret by (intro exI [of _ "retireTargets clk (po_Retired outcome) a"]) (simp add: completePublication_def Let_def pubs [unfolded markBusy_def] markBusy_def)
  next
    case False
    let ?err0 = "if ?undeclared then errors_Join [po_Err outcome, Some (fail Unavailable)] else po_Err outcome"
    let ?err = "if ?err0 = None then Some (fail Unavailable) else ?err0"
    have "?err \<noteq> None" by simp
    from fence [OF this] False show ?thesis
      by (intro exI [of _ "if au_fenced a = None then a\<lparr>au_fenced := ?err\<rparr> else a"])
        (auto simp: completePublication_def Let_def pubs [unfolded markBusy_def] markBusy_def)
  qed
qed

end
