(* ===== verification/LockSystem.thy ===== *)
theory LockSystem
  imports LockPublish
begin

text \<open>
  The lock authority as a system of steps: its state together with the calls that hold a
  resource, the publications in flight and the resources being forgotten. One step is one
  critical section of \<^verbatim>\<open>packages/locking\<close>; steps of different calls interleave in
  any order.
\<close>

section \<open>Changes outside the primitives\<close>

lemma base_inv_updRes:
  assumes "base_inv a" and "\<And>r. rstrip (f r) = rstrip r"
  shows "base_inv (updRes rid f a)"
  using assms(1) unfolding base_inv_def
  by (auto intro: grants_inv_by_frame gframe_updRes [OF assms(2)] owner_inv_by_frame)

lemma live_updRes [simp]: "live (updRes rid f a) = live a"
  by (simp add: fun_eq_iff live_def updRes_def)

lemma auth_inv_hold:
  assumes inv: "auth_inv now a" and free: "\<And>r. gget (au_objects a) rid = Some r \<Longrightarrow> \<not> rs_forgetting r"
  shows "auth_inv now (holdRes rid d a)"
proof -
  have base: "base_inv (holdRes rid d a)"
    unfolding holdRes_def using inv by (intro base_inv_updRes) (simp_all add: auth_inv_def rstrip_def)
  have queue: "queue_inv (holdRes rid d a)"
    using inv unfolding auth_inv_def holdRes_def
    by (auto intro!: queue_inv_by_frame [of a] qframe_updRes simp: rs_queued_def)
  have keys: "keys_inv (holdRes rid d a)"
    unfolding holdRes_def using inv free by (intro keys_inv_updRes) (auto simp: auth_inv_def)
  have lease: "lease_inv now (holdRes rid d a)"
    using inv by (simp add: holdRes_def auth_inv_def lease_inv_def) (simp add: updRes_def)
  from base queue keys lease show ?thesis by (simp add: auth_inv_def)
qed

lemma auth_inv_busy:
  assumes inv: "auth_inv now a"
  shows "auth_inv now (updRes rid (\<lambda>r. r\<lparr>rs_busy := flag\<rparr>) a)"
proof -
  let ?b = "updRes rid (\<lambda>r. r\<lparr>rs_busy := flag\<rparr>) a"
  have base: "base_inv ?b"
    using inv by (intro base_inv_updRes) (simp_all add: auth_inv_def rstrip_def)
  have queue: "queue_inv ?b"
    using inv unfolding auth_inv_def by (auto intro!: queue_inv_by_frame [of a] qframe_updRes simp: rs_queued_def)
  have keys: "keys_inv ?b"
    using inv by (intro keys_inv_updRes) (auto simp: auth_inv_def quiet_def)
  have lease: "lease_inv now ?b"
    using inv by (simp add: auth_inv_def lease_inv_def) (simp add: updRes_def)
  from base queue keys lease show ?thesis by (simp add: auth_inv_def)
qed

lemma auth_inv_markBusy: "auth_inv now a \<Longrightarrow> auth_inv now (markBusy flag rids a)"
  unfolding markBusy_def by (rule fold_keeps [where P = "auth_inv now"]) (auto intro: auth_inv_busy)

lemma auth_inv_publications: "auth_inv now a \<Longrightarrow> auth_inv now (a\<lparr>au_publications := n\<rparr>)"
  unfolding auth_inv_def base_inv_def
  by (auto intro: grants_inv_by_frame owner_inv_by_frame queue_inv_by_frame simp: lease_inv_def live_def)

lemma auth_inv_watermark:
  assumes "auth_inv now a" and "au_watermark a \<le> w"
  shows "auth_inv now (a\<lparr>au_watermark := w\<rparr>)"
  using assms unfolding auth_inv_def base_inv_def
  by (auto intro: grants_inv_by_frame owner_inv_by_frame queue_inv_by_frame simp: lease_inv_def live_def) fastforce

lemma auth_inv_later: "auth_inv now a \<Longrightarrow> now \<le> now' \<Longrightarrow> auth_inv now' a"
  unfolding auth_inv_def lease_inv_def by fastforce

section \<open>The authority with its calls in flight\<close>

text \<open>A call that holds a resource: a caller's acquisition or renewal, or the queue worker's
  attempt for the head of a queue. Its phases are those of the code between the critical
  sections: it holds the resource, it writes the evidence, its evidence is written, its guard
  has run (or was refused) with the error that the last section will see.\<close>

datatype call_kind = AcquireCall AcquireRequest instant | RenewCall RenewRequest | WorkerCall AcquireRequest

datatype call_phase = Held | Persisting | Raised | Ran "goerr option"

record lock_call =
  lc_owner :: OwnerID
  lc_request :: RequestID
  lc_resource :: ResourceID
  lc_kind :: call_kind
  lc_phase :: call_phase

fun callTTL :: "call_kind \<Rightarrow> duration" where
  "callTTL (AcquireCall request _) = aq_TTL request"
| "callTTL (RenewCall request) = rn_TTL request"
| "callTTL (WorkerCall request) = aq_TTL request"

record lock_system =
  ly_auth :: Authority
  ly_now :: instant
  ly_calls :: "lock_call list"
  ly_pubs :: "(BackendKey list \<times> ResourceID list) list"
  ly_forget :: "ResourceID list"

abbreviation advance :: "lock_system \<Rightarrow> Authority \<Rightarrow> instant \<Rightarrow> lock_system" where
  "advance s a t \<equiv> s\<lparr>ly_auth := a, ly_now := t\<rparr>"

text \<open>The readings of the clock during one section, in program order.\<close>

definition readings :: "instant \<Rightarrow> (nat \<Rightarrow> instant) \<Rightarrow> instant \<Rightarrow> bool" where
  "readings t clk t' \<longleftrightarrow> t \<le> clk 0 \<and> mono clk \<and> (\<forall>i. clk i \<le> t')"

text \<open>The transition a guard runs for a call.\<close>

definition callGuard ::
    "(string \<Rightarrow> nat list) \<Rightarrow> goerr option \<Rightarrow> (nat \<Rightarrow> instant) \<Rightarrow> nat list \<Rightarrow> lock_call \<Rightarrow> Authority \<Rightarrow> Authority \<times> goerr option" where
  "callGuard mac ctxErr clk nonce c a =
     (case lc_kind c of
        AcquireCall request started \<Rightarrow> acquireGuard mac ctxErr clk nonce request (lc_resource c) started a
      | RenewCall request \<Rightarrow> renewGuard ctxErr clk request (lc_resource c) a
      | WorkerCall request \<Rightarrow> workerGuard mac ctxErr clk nonce (lc_resource c) (lc_owner c) (lc_request c) a)"

definition startCall :: "OwnerID \<Rightarrow> RequestID \<Rightarrow> (instant \<Rightarrow> call_kind) \<Rightarrow> action_begin \<Rightarrow> lock_call list" where
  "startCall oid req kind r =
     (case r of BeginStarted rid started \<Rightarrow>
         [\<lparr>lc_owner = oid, lc_request = req, lc_resource = rid, lc_kind = kind started, lc_phase = Held\<rparr>]
      | _ \<Rightarrow> [])"

definition takeCall :: "ResourceID \<Rightarrow> worker_pick \<Rightarrow> Authority \<Rightarrow> lock_call list" where
  "takeCall rid r a =
     (case r of WorkerTake oid req \<Rightarrow>
         (case getAct a oid req of
            None \<Rightarrow> []
          | Some x \<Rightarrow> (case rc_Acquire (ac_receipt x) of
                None \<Rightarrow> []
              | Some request \<Rightarrow> [\<lparr>lc_owner = oid, lc_request = req, lc_resource = rid, lc_kind = WorkerCall request, lc_phase = Held\<rparr>]))
      | _ \<Rightarrow> [])"

text \<open>One step is one critical section, at any time, of any call. A new identity is fresh (it
  carries 24 random octets). The callback of \<open>Discover\<close> does not run for a key that is
  being published, because both run under the backend's ordering of the target.\<close>

inductive lock_step :: "(string \<Rightarrow> nat list) \<Rightarrow> lock_system \<Rightarrow> lock_system \<Rightarrow> bool"
  for mac :: "string \<Rightarrow> nat list" where
  step_open: "readings (ly_now s) clk t \<Longrightarrow> gget (au_sessions (ly_auth s)) (token mac (au_incarnation (ly_auth s)) nonce ''s'' [] []) = None
    \<Longrightarrow> lock_step mac s (advance s (fst (OpenSession mac ctxErr clk nonce ticket (ly_auth s))) t)"
| step_owner: "readings (ly_now s) clk t \<Longrightarrow> oid = token mac (au_incarnation (ly_auth s)) nonce ''o'' sid []
    \<Longrightarrow> gget (au_owners (ly_auth s)) oid = None \<Longrightarrow> oid \<notin> lc_owner ` set (ly_calls s)
    \<Longrightarrow> lock_step mac s (advance s (fst (CreateOwner mac ctxErr clk nonce sid request (ly_auth s))) t)"
| step_retire: "readings (ly_now s) clk t
    \<Longrightarrow> lock_step mac s (advance s (fst (Authority_retireOwnerSection mac ctxErr clk ref (ly_auth s))) t)"
| step_close_session: "readings (ly_now s) clk t
    \<Longrightarrow> lock_step mac s (advance s (fst (closeSessionSection mac ctxErr clk sid (ly_auth s))) t)"
| step_query_action: "readings (ly_now s) clk t
    \<Longrightarrow> lock_step mac s (advance s (fst (queryActionSection mac ctxErr clk ref req (ly_auth s))) t)"
| step_query_grant: "readings (ly_now s) clk t
    \<Longrightarrow> lock_step mac s (advance s (fst (queryGrantSection mac ctxErr clk ref grant (ly_auth s))) t)"
| step_release: "readings (ly_now s) clk t
    \<Longrightarrow> lock_step mac s (advance s (fst (releaseSection mac ctxErr clk ref grant (ly_auth s))) t)"
| step_cancel: "readings (ly_now s) clk t
    \<Longrightarrow> lock_step mac s (advance s (fst (cancelActionSection mac ctxErr clk ref req (ly_auth s))) t)"
| step_native_begin: "readings (ly_now s) clk t
    \<Longrightarrow> lock_step mac s (advance s (fst (beginNative ctxErr (clk 0) (ly_auth s))) t)"
| step_native_end: "lock_step mac s (s\<lparr>ly_auth := finishNative (ly_auth s)\<rparr>)"
| step_resolve: "readings (ly_now s) clk t
    \<Longrightarrow> lock_step mac s (advance s (fst (resolveCheck mac ctxErr clk ref (ly_auth s))) t)"
| step_discover: "readings (ly_now s) clk t \<Longrightarrow> gget (au_objects (ly_auth s)) (token mac (au_incarnation (ly_auth s)) nonce ''r'' [] []) = None
    \<Longrightarrow> (\<forall>(keys, _) \<in> set (ly_pubs s). key \<notin> set keys)
    \<Longrightarrow> lock_step mac s (advance s (fst (discoverCallback mac ctxErr clk nonce ref key (ly_auth s))) t)"
| step_acquire_begin: "readings (ly_now s) clk t \<Longrightarrow> acquireBegin mac ctxErr clk request (ly_auth s) = (a, r)
    \<Longrightarrow> lock_step mac s ((advance s a t)\<lparr>ly_calls := startCall (or_Owner (aq_Owner request)) (aq_Request request) (AcquireCall request) r @ ly_calls s\<rparr>)"
| step_renew_begin: "readings (ly_now s) clk t \<Longrightarrow> renewBegin mac ctxErr clk request (ly_auth s) = (a, r)
    \<Longrightarrow> lock_step mac s ((advance s a t)\<lparr>ly_calls := startCall (or_Owner (rn_Owner request)) (rn_Request request) (\<lambda>_. RenewCall request) r @ ly_calls s\<rparr>)"
| step_worker_pick: "readings (ly_now s) clk t \<Longrightarrow> gget (au_objects (ly_auth s)) rid = Some res \<Longrightarrow> rs_worker res
    \<Longrightarrow> workerPick (clk 0) rid (ly_auth s) = (a, r)
    \<Longrightarrow> lock_step mac s ((advance s a t)\<lparr>ly_calls := takeCall rid r a @ ly_calls s\<rparr>)"
| step_worker_exit: "lock_step mac s (s\<lparr>ly_auth := workerExit rid (ly_auth s)\<rparr>)"
| step_raise_skip: "readings (ly_now s) clk t \<Longrightarrow> ly_calls s = xs @ c # ys \<Longrightarrow> lc_phase c = Held
    \<Longrightarrow> healthyLocked ctxErr False (clk 0) (ly_auth s) = None \<Longrightarrow> callTTL (lc_kind c) \<le> au_watermark (ly_auth s)
    \<Longrightarrow> lock_step mac s (s\<lparr>ly_now := t, ly_calls := xs @ c\<lparr>lc_phase := Raised\<rparr> # ys\<rparr>)"
| step_raise_begin: "readings (ly_now s) clk t \<Longrightarrow> ly_calls s = xs @ c # ys \<Longrightarrow> lc_phase c = Held
    \<Longrightarrow> healthyLocked ctxErr False (clk 0) (ly_auth s) = None \<Longrightarrow> au_watermark (ly_auth s) < callTTL (lc_kind c)
    \<Longrightarrow> (\<forall>c' \<in> set (ly_calls s). lc_phase c' \<noteq> Persisting)
    \<Longrightarrow> lock_step mac s (s\<lparr>ly_now := t, ly_calls := xs @ c\<lparr>lc_phase := Persisting\<rparr> # ys\<rparr>)"
| step_raise_done: "ly_calls s = xs @ c # ys \<Longrightarrow> lc_phase c = Persisting
    \<Longrightarrow> lock_step mac s (s\<lparr>ly_auth := (ly_auth s)\<lparr>au_watermark := callTTL (lc_kind c)\<rparr>, ly_calls := xs @ c\<lparr>lc_phase := Raised\<rparr> # ys\<rparr>)"
| step_raise_fail: "ly_calls s = xs @ c # ys \<Longrightarrow> lc_phase c = Held \<or> lc_phase c = Persisting
    \<Longrightarrow> lock_step mac s (s\<lparr>ly_calls := xs @ c\<lparr>lc_phase := Ran (Some e)\<rparr> # ys\<rparr>)"
| step_guard: "readings (ly_now s) clk t \<Longrightarrow> ly_calls s = xs @ c # ys \<Longrightarrow> lc_phase c = Raised
    \<Longrightarrow> (\<forall>oid. getGrant (ly_auth s) oid (newGrantID mac nonce (lc_owner c) (lc_resource c) (au_lastGeneration (ly_auth s) + 1) (ly_auth s)) = None)
    \<Longrightarrow> runGuard answer (callGuard mac ctxErr clk nonce c) (ly_auth s) = (a, err)
    \<Longrightarrow> lock_step mac s ((advance s a t)\<lparr>ly_calls := xs @ c\<lparr>lc_phase := Ran err\<rparr> # ys\<rparr>)"
| step_action_end: "ly_calls s = xs @ c # ys \<Longrightarrow> lc_phase c = Ran err
    \<Longrightarrow> lock_step mac s (s\<lparr>ly_auth := actionEnd (lc_owner c) (lc_request c) (lc_resource c) err (ly_auth s), ly_calls := xs @ ys\<rparr>)"
| step_maintain: "readings (ly_now s) clk t \<Longrightarrow> ly_forget s = [] \<Longrightarrow> maintainScan (clk 0) (ly_auth s) = (a, next', forgotten)
    \<Longrightarrow> lock_step mac s ((advance s a t)\<lparr>ly_forget := forgotten\<rparr>)"
| step_forget: "ly_forget s = rid # rest
    \<Longrightarrow> lock_step mac s (s\<lparr>ly_auth := forgetDone rid err (ly_auth s), ly_forget := rest\<rparr>)"
| step_publish_admit: "readings (ly_now s) clk t \<Longrightarrow> publishAdmit mac ctxErr clk publication (ly_auth s) = (a, res)
    \<Longrightarrow> lock_step mac s ((advance s a t)\<lparr>ly_pubs := (case res of Inl _ \<Rightarrow> [] | Inr pub \<Rightarrow> [pub]) @ ly_pubs s\<rparr>)"
| step_publish_complete: "readings (ly_now s) clk t \<Longrightarrow> ly_pubs s = ps @ (keys, rids) # qs
    \<Longrightarrow> lock_step mac s ((advance s (fst (completePublication clk rids keys outcome (ly_auth s))) t)\<lparr>ly_pubs := ps @ qs\<rparr>)"
| step_fence: "lock_step mac s (s\<lparr>ly_auth := Fence err (ly_auth s)\<rparr>)"
| step_close: "lock_step mac s (s\<lparr>ly_auth := closeBegin (ly_auth s)\<rparr>)"
| step_close_finish: "au_closed (ly_auth s) \<Longrightarrow> ly_calls s = [] \<Longrightarrow> ly_pubs s = [] \<Longrightarrow> ly_forget s = []
    \<Longrightarrow> lock_step mac s (s\<lparr>ly_auth := fst (closeFinish forget (ly_auth s))\<rparr>)"
| step_time: "ly_now s \<le> t \<Longrightarrow> lock_step mac s (s\<lparr>ly_now := t\<rparr>)"

definition lock_init :: "lock_system \<Rightarrow> bool" where
  "lock_init s \<longleftrightarrow> (\<exists>options present maxLease recoveryStart nonce.
     Authority_New options present maxLease recoveryStart (ly_now s) nonce = Inr (ly_auth s))
     \<and> ly_calls s = [] \<and> ly_pubs s = [] \<and> ly_forget s = []"

end
