(* ===== verification/LockSystemInv.thy ===== *)
theory LockSystemInv
  imports LockSystem
begin

text \<open>
  The invariant of the lock system and its preservation by every step: the tables, queues,
  keys and leases of the authority are consistent, a resource is held exactly by the calls in
  flight, it is busy exactly while a publication on it is in flight, and only idle resources
  are being forgotten.
\<close>

section \<open>The invariant of the system\<close>

definition call_fits :: "lock_call \<Rightarrow> actionRecord \<Rightarrow> bool" where
  "call_fits c x \<longleftrightarrow> ac_resource x = Some (lc_resource c)
     \<and> (case lc_kind c of
          AcquireCall request _ \<Rightarrow> rc_Acquire (ac_receipt x) = Some request \<and> ((\<forall>err. lc_phase c \<noteq> Ran err) \<longrightarrow> ac_waitUntil x = None)
        | RenewCall request \<Rightarrow> rc_Renew (ac_receipt x) = Some request
        | WorkerCall request \<Rightarrow> rc_Acquire (ac_receipt x) = Some request \<and> ac_waitUntil x \<noteq> None)"

definition call_named :: "lock_call \<Rightarrow> bool" where
  "call_named c \<longleftrightarrow>
     (case lc_kind c of
        AcquireCall request _ \<Rightarrow> lc_owner c = or_Owner (aq_Owner request) \<and> lc_request c = aq_Request request
      | RenewCall request \<Rightarrow> lc_owner c = or_Owner (rn_Owner request) \<and> lc_request c = rn_Request request
      | WorkerCall _ \<Rightarrow> True)"

definition call_ok :: "Authority \<Rightarrow> lock_call \<Rightarrow> bool" where
  "call_ok a c \<longleftrightarrow> gget (au_objects a) (lc_resource c) \<noteq> None \<and> call_named c
     \<and> (getAct a (lc_owner c) (lc_request c) \<noteq> None \<or> gget (au_owners a) (lc_owner c) = None)
     \<and> (\<forall>x. getAct a (lc_owner c) (lc_request c) = Some x \<longrightarrow> call_fits c x)
     \<and> (lc_phase c = Raised \<longrightarrow> callTTL (lc_kind c) \<le> au_watermark a)
     \<and> (lc_phase c = Persisting \<longrightarrow> au_watermark a < callTTL (lc_kind c))"

definition joins :: "lock_call \<Rightarrow> (OwnerID \<times> RequestID) list" where
  "joins c = (case lc_kind c of AcquireCall _ _ \<Rightarrow> [(lc_owner c, lc_request c)] | _ \<Rightarrow> [])"

definition holding :: "lock_call list \<Rightarrow> ResourceID \<Rightarrow> int" where
  "holding cs rid = int (length (filter (\<lambda>c. lc_resource c = rid) cs))"

definition calls_inv :: "lock_call list \<Rightarrow> Authority \<Rightarrow> bool" where
  "calls_inv cs a \<longleftrightarrow> (\<forall>c \<in> set cs. call_ok a c) \<and> distinct (concat (map joins cs))
     \<and> length (filter (\<lambda>c. lc_phase c = Persisting) cs) \<le> 1
     \<and> (\<forall>rid r. gget (au_objects a) rid = Some r \<longrightarrow> rs_holds r = holding cs rid)"

definition pubs_inv :: "(BackendKey list \<times> ResourceID list) list \<Rightarrow> Authority \<Rightarrow> bool" where
  "pubs_inv ps a \<longleftrightarrow> distinct (concat (map snd ps)) \<and> au_publications a = int (length ps)
     \<and> (\<forall>rid r. gget (au_objects a) rid = Some r \<longrightarrow> (rs_busy r \<longleftrightarrow> rid \<in> set (concat (map snd ps))))
     \<and> (\<forall>(keys, rids) \<in> set ps. (\<forall>rid \<in> set rids. gget (au_objects a) rid \<noteq> None)
          \<and> (\<forall>key \<in> set keys. \<forall>rid. gget (au_keys a) key = Some rid \<longrightarrow> rid \<in> set rids))"

definition forget_inv :: "ResourceID list \<Rightarrow> Authority \<Rightarrow> bool" where
  "forget_inv fs a \<longleftrightarrow> distinct fs \<and> set fs \<subseteq> set (au_resources a) \<and> (\<forall>rid \<in> set fs. \<exists>r. gget (au_objects a) rid = Some r \<and> rs_forgetting r)"

definition lock_inv :: "lock_system \<Rightarrow> bool" where
  "lock_inv s \<longleftrightarrow> auth_inv (ly_now s) (ly_auth s) \<and> calls_inv (ly_calls s) (ly_auth s) \<and> pubs_inv (ly_pubs s) (ly_auth s)
     \<and> forget_inv (ly_forget s) (ly_auth s)"

subsection \<open>Runs of primitives\<close>

text \<open>What a run may do beside the calls, publications and forgetting in flight.\<close>

definition beside :: "allowance \<Rightarrow> lock_call list \<Rightarrow> bool" where
  "beside al cs \<longleftrightarrow> al_minted al \<inter> lc_owner ` set cs = {}
     \<and> (\<forall>c \<in> set cs. (\<forall>err. lc_phase c \<noteq> Ran err) \<longrightarrow> set (joins c) \<inter> al_joining al = {})"

lemma call_fits_evolves:
  assumes "call_fits c x" and "act_evolves x y" and "ac_waitUntil y = ac_waitUntil x \<or> (lc_owner c, lc_request c) \<in> joining"
    and "(\<forall>err. lc_phase c \<noteq> Ran err) \<Longrightarrow> set (joins c) \<inter> joining = {}"
  shows "call_fits c y"
  using assms by (auto simp: call_fits_def act_evolves_def joins_def split: call_kind.splits)

lemma call_ok_prims:
  assumes ok: "call_ok a c" and run: "prims now al a b"
    and mint: "lc_owner c \<notin> al_minted al" and join: "(\<forall>err. lc_phase c \<noteq> Ran err) \<Longrightarrow> set (joins c) \<inter> al_joining al = {}"
  shows "call_ok b c"
proof -
  have obj: "gget (au_objects b) (lc_resource c) \<noteq> None"
    using ok flags_prims [OF run, of "lc_resource c"] by (auto simp: call_ok_def)
  have mark: "au_watermark b = au_watermark a" using run by (rule prims_settings)
  have gone: "gget (au_owners b) (lc_owner c) = None" if "gget (au_owners a) (lc_owner c) = None"
    using run that mint by (induction rule: rtranclp_induct) (auto intro: owner_gone_prim)
  show ?thesis
  proof (cases "getAct a (lc_owner c) (lc_request c)")
    case None
    then have "gget (au_owners b) (lc_owner c) = None" using ok gone by (auto simp: call_ok_def)
    then have "getAct b (lc_owner c) (lc_request c) = None" by (simp add: getAct_def)
    with ok obj mark gone \<open>gget (au_owners b) (lc_owner c) = None\<close> show ?thesis by (simp add: call_ok_def)
  next
    case (Some x)
    with act_prims [OF run Some mint] ok obj mark show ?thesis
      using call_fits_evolves [OF _ _ _ join, of x] by (auto simp: call_ok_def getAct_def split: option.splits)
  qed
qed

lemma flags_back:
  assumes "gget (au_objects b) rid = Some r'" and "gget (au_objects a) rid = Some r" and "prims now al a b"
  shows "flags r' = flags r"
  using flags_prims [OF assms(3,2)] assms(1) by auto

text \<open>A resource that a run adds is idle.\<close>

lemma fresh_prim:
  assumes "prim now al a b" and "gget (au_objects b) rid = Some r'" and "gget (au_objects a) rid = None"
  shows "\<not> rs_busy r' \<and> rs_holds r' = 0"
  using assms
  by (induction rule: prim.induct)
    (auto simp: updSess_def endGrantLocked_def finishLocked_def Let_def addAction_def updAct_def updOwn_def updRes_def updGrant_def installGrant_def
      split: option.splits if_splits)

lemma fresh_prims:
  "prims now al a b \<Longrightarrow> gget (au_objects a) rid = None \<Longrightarrow> gget (au_objects b) rid = Some r' \<Longrightarrow> \<not> rs_busy r' \<and> rs_holds r' = 0"
proof (induction arbitrary: r' rule: rtranclp_induct)
  case (step b c)
  show ?case
  proof (cases "gget (au_objects b) rid")
    case None
    with step show ?thesis using fresh_prim [OF step.hyps(2)] by blast
  next
    case (Some r)
    with step.IH step.prems(1) have "\<not> rs_busy r \<and> rs_holds r = 0" by blast
    moreover have "flags r' = flags r" using flags_prim [OF step.hyps(2) Some] step.prems(2) by auto
    ultimately show ?thesis by (simp add: flags_def)
  qed
qed simp

lemma holding_none: "(\<And>c. c \<in> set cs \<Longrightarrow> lc_resource c \<noteq> rid) \<Longrightarrow> holding cs rid = 0"
  by (auto simp: holding_def filter_empty_conv)

lemma calls_inv_prims:
  assumes inv: "calls_inv cs a" and run: "prims now al a b" and free: "beside al cs"
  shows "calls_inv cs b"
proof -
  have ok: "call_ok b c" if "c \<in> set cs" for c
    by (rule call_ok_prims [OF _ run]) (use inv free that in \<open>auto simp: calls_inv_def beside_def\<close>)
  have "rs_holds r' = holding cs rid" if r': "gget (au_objects b) rid = Some r'" for rid r'
  proof (cases "gget (au_objects a) rid")
    case None
    then have "holding cs rid = 0" using inv by (intro holding_none) (auto simp: calls_inv_def call_ok_def)
    with fresh_prims [OF run None r'] show ?thesis by simp
  next
    case (Some r)
    with flags_back [OF r' Some run] inv show ?thesis by (simp add: flags_def calls_inv_def)
  qed
  with ok inv show ?thesis by (simp add: calls_inv_def)
qed

lemma pubs_inv_prims:
  assumes inv: "pubs_inv ps a" and run: "prims now al a b" and free: "\<forall>(keys, _) \<in> set ps. al_found al \<inter> set keys = {}"
  shows "pubs_inv ps b"
proof -
  have obj: "gget (au_objects b) rid \<noteq> None" if "gget (au_objects a) rid \<noteq> None" for rid
    using flags_prims [OF run, of rid] that by auto
  have busy: "rs_busy r' \<longleftrightarrow> rid \<in> set (concat (map snd ps))" if r': "gget (au_objects b) rid = Some r'" for rid r'
  proof (cases "gget (au_objects a) rid")
    case None
    then have "rid \<notin> set (concat (map snd ps))" using inv by (fastforce simp: pubs_inv_def)
    with fresh_prims [OF run None r'] show ?thesis by simp
  next
    case (Some r)
    with flags_back [OF r' Some run] inv show ?thesis by (simp add: flags_def pubs_inv_def)
  qed
  have key: "rid \<in> set rids" if p: "(keys, rids) \<in> set ps" "key \<in> set keys" "gget (au_keys b) key = Some rid" for keys rids key rid
  proof -
    have "key \<notin> al_found al" using free p by fastforce
    with keys_prims [OF run p(3)] inv p show ?thesis by (fastforce simp: pubs_inv_def)
  qed
  have "au_publications b = au_publications a" using run by (rule prims_settings)
  with inv obj busy key show ?thesis unfolding pubs_inv_def by fastforce
qed

lemma forget_inv_prims:
  assumes inv: "forget_inv fs a" and run: "prims now al a b" and free: "al_dropped al \<inter> set fs = {}"
  shows "forget_inv fs b"
  using inv free resources_prims [OF run] forgetting_prims [OF run] unfolding forget_inv_def by blast

lemma lock_inv_runs:
  assumes inv: "lock_inv s" and run: "runs t al (ly_auth s) b" and t: "ly_now s \<le> t"
    and free: "beside al (ly_calls s)" "\<forall>(keys, _) \<in> set (ly_pubs s). al_found al \<inter> set keys = {}" "al_dropped al \<inter> set (ly_forget s) = {}"
  shows "lock_inv (advance s b t)"
proof -
  have auth: "auth_inv t (ly_auth s)" using inv t by (auto simp: lock_inv_def intro: auth_inv_later)
  then have prims: "prims t al (ly_auth s) b" using run by (simp add: runs_def auth_inv_def)
  show ?thesis
    using inv auth_inv_runs [OF run auth] calls_inv_prims [OF _ prims free(1)] pubs_inv_prims [OF _ prims free(2)] forget_inv_prims [OF _ prims free(3)]
    by (simp add: lock_inv_def)
qed

text \<open>The plain case: nothing beside what is in flight.\<close>

lemma lock_inv_plain:
  assumes "lock_inv s" and "runs t nothing (ly_auth s) b" and "ly_now s \<le> t"
  shows "lock_inv (advance s b t)"
  using assms by (rule lock_inv_runs) (auto simp: beside_def)

lemma readings_le: "readings t clk t' \<Longrightarrow> t \<le> t'" "readings t clk t' \<Longrightarrow> clk i \<le> t'"
  by (auto simp: readings_def intro: order_trans)

subsection \<open>Holds\<close>

lemma call_ok_hold [simp]: "call_ok (holdRes rid d a) c = call_ok a c"
proof -
  have "gget (au_objects (holdRes rid d a)) rid' = None \<longleftrightarrow> gget (au_objects a) rid' = None" for rid'
    by (simp add: holdRes_def updRes_def gupd_view)
  moreover have "getAct (holdRes rid d a) = getAct a" "au_owners (holdRes rid d a) = au_owners a" "au_watermark (holdRes rid d a) = au_watermark a"
    by (simp_all add: holdRes_def updRes_def)
  ultimately show ?thesis by (simp add: call_ok_def del: not_None_eq)
qed

lemma holds_hold:
  assumes "gget (au_objects (holdRes rid d a)) rid' = Some r'"
  shows "\<exists>r. gget (au_objects a) rid' = Some r \<and> rs_holds r' = rs_holds r + (if rid' = rid then d else 0)"
  using assms by (auto simp: holdRes_def updRes_def gupd_view)

lemma holding_split: "holding (xs @ c # ys) rid = holding (xs @ ys) rid + (if lc_resource c = rid then 1 else 0)"
  "holding (c # cs) rid = holding cs rid + (if lc_resource c = rid then 1 else 0)"
  by (simp_all add: holding_def)

lemma calls_inv_hold:
  assumes inv: "calls_inv cs a" and new: "call_ok a c" "\<And>c'. c' \<in> set cs \<Longrightarrow> set (joins c) \<inter> set (joins c') = {}" "lc_phase c \<noteq> Persisting"
  shows "calls_inv (c # cs) (holdRes (lc_resource c) 1 a)"
proof -
  have "rs_holds r' = holding (c # cs) rid" if "gget (au_objects (holdRes (lc_resource c) 1 a)) rid = Some r'" for rid r'
    using holds_hold [OF that] inv by (auto simp: calls_inv_def holding_split)
  moreover have "distinct (joins c)" by (simp add: joins_def split: call_kind.split)
  ultimately show ?thesis using inv new by (fastforce simp: calls_inv_def)
qed

lemma calls_inv_drop:
  assumes inv: "calls_inv (xs @ c # ys) a"
  shows "calls_inv (xs @ ys) (holdRes (lc_resource c) (- 1) a)"
proof -
  have "rs_holds r' = holding (xs @ ys) rid" if "gget (au_objects (holdRes (lc_resource c) (- 1) a)) rid = Some r'" for rid r'
    using holds_hold [OF that] inv by (auto simp: calls_inv_def holding_split)
  with inv show ?thesis by (auto simp: calls_inv_def split: if_splits)
qed

lemma calls_inv_phase:
  assumes inv: "calls_inv (xs @ c # ys) a" and ok: "call_ok a c'" and same: "lc_resource c' = lc_resource c" "joins c' = joins c"
    and one: "lc_phase c' = Persisting \<longrightarrow> (\<forall>d \<in> set xs \<union> set ys. lc_phase d \<noteq> Persisting)"
  shows "calls_inv (xs @ c' # ys) a"
proof -
  have "holding (xs @ c' # ys) rid = holding (xs @ c # ys) rid" for rid by (simp add: holding_def same)
  moreover have "length (filter (\<lambda>c. lc_phase c = Persisting) (xs @ c' # ys)) \<le> 1"
  proof (cases "lc_phase c' = Persisting")
    case True
    with one have "filter (\<lambda>c. lc_phase c = Persisting) xs = []" "filter (\<lambda>c. lc_phase c = Persisting) ys = []"
      by (auto simp: filter_empty_conv)
    then show ?thesis by simp
  next
    case False
    then show ?thesis using inv by (auto simp: calls_inv_def split: if_splits)
  qed
  ultimately show ?thesis using inv ok same(2) by (auto simp: calls_inv_def)
qed

lemma pubs_inv_hold [simp]: "pubs_inv ps (holdRes rid d a) = pubs_inv ps a"
proof -
  have "(\<forall>rid' r. gget (au_objects (holdRes rid d a)) rid' = Some r \<longrightarrow> (rs_busy r \<longleftrightarrow> P rid'))
      \<longleftrightarrow> (\<forall>rid' r. gget (au_objects a) rid' = Some r \<longrightarrow> (rs_busy r \<longleftrightarrow> P rid'))" for P
    by (auto simp: holdRes_def updRes_def gupd_view)
  moreover have "gget (au_objects (holdRes rid d a)) rid' = None \<longleftrightarrow> gget (au_objects a) rid' = None" for rid'
    by (simp add: holdRes_def updRes_def gupd_view)
  moreover have "au_keys (holdRes rid d a) = au_keys a" "au_publications (holdRes rid d a) = au_publications a" by (simp_all add: holdRes_def updRes_def)
  ultimately show ?thesis by (simp add: pubs_inv_def del: not_None_eq)
qed

lemma forget_inv_hold [simp]: "forget_inv fs (holdRes rid d a) = forget_inv fs a"
proof -
  have "(\<exists>r. gget (au_objects (holdRes rid d a)) rid' = Some r \<and> rs_forgetting r) \<longleftrightarrow> (\<exists>r. gget (au_objects a) rid' = Some r \<and> rs_forgetting r)" for rid'
    by (cases "gget (au_objects a) rid'") (auto simp: holdRes_def updRes_def gupd_view)
  moreover have "au_resources (holdRes rid d a) = au_resources a" by (simp add: holdRes_def updRes_def)
  ultimately show ?thesis by (simp add: forget_inv_def)
qed

subsection \<open>Each kind of step\<close>

lemma joins_phase [simp]: "joins (c\<lparr>lc_phase := p\<rparr>) = joins c"
  by (simp add: joins_def split: call_kind.split)

lemma held_resource:
  assumes inv: "lock_inv s" and c: "c \<in> set (ly_calls s)" and r: "gget (au_objects (ly_auth s)) (lc_resource c) = Some r"
  shows "0 < rs_holds r \<and> \<not> rs_forgetting r"
proof -
  have holds: "rs_holds r = holding (ly_calls s) (lc_resource c)" using inv r by (simp add: lock_inv_def calls_inv_def)
  have "filter (\<lambda>d. lc_resource d = lc_resource c) (ly_calls s) \<noteq> []" using c by (auto simp: filter_empty_conv)
  then have "0 < rs_holds r" using holds by (simp add: holding_def)
  moreover have "\<not> rs_forgetting r"
    using forgetting_quiet [of "ly_auth s" _ r, OF _ r] inv calculation by (auto simp: lock_inv_def auth_inv_def quiet_def)
  ultimately show ?thesis by simp
qed

lemma lock_inv_started:
  assumes inv: "lock_inv s" and run: "runs t nothing (ly_auth s) b" and t: "ly_now s \<le> t"
    and obj: "\<exists>r. gget (au_objects b) (lc_resource c) = Some r \<and> \<not> rs_forgetting r"
    and ok: "call_named c" "getAct b (lc_owner c) (lc_request c) = Some x" "call_fits c x" "lc_phase c = Held"
    and new: "joins c = [] \<or> getAct (ly_auth s) (lc_owner c) (lc_request c) = None"
  shows "lock_inv ((advance s (holdRes (lc_resource c) 1 b) t)\<lparr>ly_calls := c # ly_calls s\<rparr>)"
proof -
  have invb: "lock_inv (advance s b t)" by (rule lock_inv_plain [OF inv run t])
  have prims: "prims t nothing (ly_auth s) b" using run inv by (simp add: runs_def lock_inv_def auth_inv_def)
  have owner: "gget (au_owners b) (lc_owner c) \<noteq> None" using ok(2) by (auto simp: getAct_def split: option.splits)
  have disj: "set (joins c) \<inter> set (joins c') = {}" if c': "c' \<in> set (ly_calls s)" for c'
  proof (rule ccontr)
    assume no: "set (joins c) \<inter> set (joins c') \<noteq> {}"
    then have same: "lc_owner c' = lc_owner c" "lc_request c' = lc_request c" "joins c \<noteq> []" by (auto simp: joins_def split: call_kind.splits)
    have "call_ok (ly_auth s) c'" using inv c' by (simp add: lock_inv_def calls_inv_def)
    with new same have "gget (au_owners (ly_auth s)) (lc_owner c) = None" by (auto simp: call_ok_def)
    with prims have "gget (au_owners b) (lc_owner c) = None"
      by (induction rule: rtranclp_induct) (auto intro: owner_gone_prim)
    with owner show False by simp
  qed
  have "call_ok b c" using ok obj by (auto simp: call_ok_def)
  with invb obj ok(4) calls_inv_hold [of "ly_calls s" b c, OF _ _ disj] show ?thesis
    by (auto simp: lock_inv_def intro!: auth_inv_hold)
qed

lemma lock_inv_phase:
  assumes inv: "lock_inv s" and cs: "ly_calls s = xs @ c # ys" and ok: "call_ok (ly_auth s) (c\<lparr>lc_phase := p\<rparr>)"
    and one: "p = Persisting \<Longrightarrow> \<forall>d \<in> set (ly_calls s). lc_phase d \<noteq> Persisting" and t: "ly_now s \<le> t"
  shows "lock_inv (s\<lparr>ly_now := t, ly_calls := xs @ c\<lparr>lc_phase := p\<rparr> # ys\<rparr>)"
proof -
  have "calls_inv (xs @ c\<lparr>lc_phase := p\<rparr> # ys) (ly_auth s)"
    by (rule calls_inv_phase [where c = c]) (use inv cs ok one in \<open>auto simp: lock_inv_def\<close>)
  with inv t show ?thesis by (auto simp: lock_inv_def intro: auth_inv_later)
qed

lemma call_ok_ran: "call_ok a c \<Longrightarrow> call_ok a (c\<lparr>lc_phase := Ran err\<rparr>)"
  by (auto simp: call_ok_def call_named_def call_fits_def split: call_kind.splits)

lemma call_of: "lock_inv s \<Longrightarrow> ly_calls s = xs @ c # ys \<Longrightarrow> call_ok (ly_auth s) c"
  by (simp add: lock_inv_def calls_inv_def)

lemma lock_inv_raise_done:
  assumes inv: "lock_inv s" and cs: "ly_calls s = xs @ c # ys" and p: "lc_phase c = Persisting"
  shows "lock_inv (s\<lparr>ly_auth := (ly_auth s)\<lparr>au_watermark := callTTL (lc_kind c)\<rparr>, ly_calls := xs @ c\<lparr>lc_phase := Raised\<rparr> # ys\<rparr>)"
proof -
  let ?a = "(ly_auth s)\<lparr>au_watermark := callTTL (lc_kind c)\<rparr>"
  have lt: "au_watermark (ly_auth s) < callTTL (lc_kind c)" using call_of [OF inv cs] p by (simp add: call_ok_def)
  have alone: "lc_phase d \<noteq> Persisting" if "d \<in> set xs \<union> set ys" for d
  proof
    assume "lc_phase d = Persisting"
    with that have "filter (\<lambda>c. lc_phase c = Persisting) xs \<noteq> [] \<or> filter (\<lambda>c. lc_phase c = Persisting) ys \<noteq> []" by (auto simp: filter_empty_conv)
    moreover have "length (filter (\<lambda>c. lc_phase c = Persisting) (xs @ c # ys)) \<le> 1" using inv cs by (simp add: lock_inv_def calls_inv_def)
    ultimately show False using p by auto
  qed
  have ok: "call_ok ?a d" if "d \<in> set xs \<union> set ys" for d
    using inv cs alone [OF that] that lt by (auto simp: lock_inv_def calls_inv_def call_ok_def)
  have okc: "call_ok ?a (c\<lparr>lc_phase := Raised\<rparr>)"
    using call_of [OF inv cs] p by (auto simp: call_ok_def call_named_def call_fits_def split: call_kind.splits)
  have "length (filter (\<lambda>c. lc_phase c = Persisting) (xs @ c\<lparr>lc_phase := Raised\<rparr> # ys)) \<le> 1"
    using alone by (simp add: filter_empty_conv [THEN iffD2])
  then have "calls_inv (xs @ c\<lparr>lc_phase := Raised\<rparr> # ys) ?a"
    using inv cs ok okc by (auto simp: lock_inv_def calls_inv_def holding_def)
  with inv lt show ?thesis by (auto simp: lock_inv_def pubs_inv_def forget_inv_def intro: auth_inv_watermark)
qed

lemma runs_callGuard:
  assumes inv: "lock_inv s" and cs: "ly_calls s = xs @ c # ys" and p: "lc_phase c = Raised" and clk: "\<And>i. clk i \<le> t"
    and fresh: "\<forall>oid. getGrant (ly_auth s) oid (newGrantID mac nonce (lc_owner c) (lc_resource c) (au_lastGeneration (ly_auth s) + 1) (ly_auth s)) = None"
  shows "runs t (nothing\<lparr>al_joining := set (joins c)\<rparr>) (ly_auth s) (fst (callGuard mac ctxErr clk nonce c (ly_auth s)))"
proof -
  have ok: "call_ok (ly_auth s) c" by (rule call_of [OF inv cs])
  then obtain r where r: "gget (au_objects (ly_auth s)) (lc_resource c) = Some r" by (auto simp: call_ok_def)
  have hold: "0 < rs_holds r" using held_resource [OF inv _ r] cs by simp
  have ttl: "callTTL (lc_kind c) \<le> au_watermark (ly_auth s)" using ok p by (simp add: call_ok_def)
  have fits: "call_fits c x" if "getAct (ly_auth s) (lc_owner c) (lc_request c) = Some x" for x using ok that by (simp add: call_ok_def)
  show ?thesis
  proof (cases "lc_kind c")
    case (AcquireCall request started)
    then have named: "lc_owner c = or_Owner (aq_Owner request)" "lc_request c = aq_Request request"
      using ok by (simp_all add: call_ok_def call_named_def)
    have "runs t (nothing\<lparr>al_joining := set (joins c)\<rparr>) (ly_auth s)
        (fst (acquireGuard mac ctxErr clk nonce request (lc_resource c) started (ly_auth s)))"
      by (rule runs_acquireGuard [OF named r hold]) (use fits AcquireCall p ttl clk fresh in \<open>auto simp: call_fits_def joins_def\<close>)
    then show ?thesis by (simp add: callGuard_def AcquireCall)
  next
    case (RenewCall request)
    then have named: "lc_owner c = or_Owner (rn_Owner request)" "lc_request c = rn_Request request"
      using ok by (simp_all add: call_ok_def call_named_def)
    have "runs t (nothing\<lparr>al_joining := set (joins c)\<rparr>) (ly_auth s) (fst (renewGuard ctxErr clk request (lc_resource c) (ly_auth s)))"
      by (rule runs_renewGuard [OF named]) (use RenewCall ttl clk in auto)
    then show ?thesis by (simp add: callGuard_def RenewCall)
  next
    case (WorkerCall request)
    have "runs t (nothing\<lparr>al_joining := set (joins c)\<rparr>) (ly_auth s)
        (fst (workerGuard mac ctxErr clk nonce (lc_resource c) (lc_owner c) (lc_request c) (ly_auth s)))"
      by (rule runs_workerGuard [OF r hold]) (use fits WorkerCall ttl clk fresh in \<open>auto simp: call_fits_def\<close>)
    then show ?thesis by (simp add: callGuard_def WorkerCall)
  qed
qed

lemma lock_inv_guard:
  assumes inv: "lock_inv s" and rd: "readings (ly_now s) clk t" and cs: "ly_calls s = xs @ c # ys" and p: "lc_phase c = Raised"
    and fresh: "\<forall>oid. getGrant (ly_auth s) oid (newGrantID mac nonce (lc_owner c) (lc_resource c) (au_lastGeneration (ly_auth s) + 1) (ly_auth s)) = None"
    and run: "runGuard answer (callGuard mac ctxErr clk nonce c) (ly_auth s) = (a, err)"
  shows "lock_inv ((advance s a t)\<lparr>ly_calls := xs @ c\<lparr>lc_phase := Ran err\<rparr> # ys\<rparr>)"
proof -
  let ?s = "s\<lparr>ly_now := ly_now s, ly_calls := xs @ c\<lparr>lc_phase := Ran err\<rparr> # ys\<rparr>"
  have inv': "lock_inv ?s" by (rule lock_inv_phase [OF inv cs call_ok_ran [OF call_of [OF inv cs]]]) auto
  have "runs t (nothing\<lparr>al_joining := set (joins c)\<rparr>) (ly_auth s) (fst (callGuard mac ctxErr clk nonce c (ly_auth s)))"
    by (rule runs_callGuard [OF inv cs p _ fresh]) (use rd in \<open>auto intro: readings_le\<close>)
  then have "runs t (nothing\<lparr>al_joining := set (joins c)\<rparr>) (ly_auth s) a"
    using run by (auto simp: runGuard_def runs_refl split: guard_answer.splits prod.splits)
  moreover have "distinct (concat (map joins (xs @ c # ys)))" using inv cs by (simp add: lock_inv_def calls_inv_def)
  then have "beside (nothing\<lparr>al_joining := set (joins c)\<rparr>) (xs @ c\<lparr>lc_phase := Ran err\<rparr> # ys)"
    by (auto simp: beside_def)
  ultimately have "lock_inv (advance ?s a t)"
    using rd by (intro lock_inv_runs [OF inv', where al = "nothing\<lparr>al_joining := set (joins c)\<rparr>"]) (auto intro: readings_le)
  then show ?thesis by (simp add: lock_inv_def)
qed

lemma lock_inv_action_end:
  assumes inv: "lock_inv s" and cs: "ly_calls s = xs @ c # ys"
  shows "lock_inv (s\<lparr>ly_auth := actionEnd (lc_owner c) (lc_request c) (lc_resource c) err (ly_auth s), ly_calls := xs @ ys\<rparr>)"
proof -
  let ?after = "actionEnd (lc_owner c) (lc_request c) (lc_resource c) err (ly_auth s)"
  obtain b where b: "runs (ly_now s) nothing (ly_auth s) b" "runs (ly_now s) nothing (holdRes (lc_resource c) (- 1) b) ?after"
    using runs_actionEnd by blast
  have s1: "lock_inv (advance s b (ly_now s))" by (rule lock_inv_plain [OF inv b(1)]) simp
  have free: "\<not> rs_forgetting r" if "gget (au_objects b) (lc_resource c) = Some r" for r
    using held_resource [OF s1, of c r] cs that by simp
  let ?s2 = "s\<lparr>ly_auth := holdRes (lc_resource c) (- 1) b, ly_calls := xs @ ys\<rparr>"
  have s2: "lock_inv ?s2"
    using s1 cs free calls_inv_drop [of xs c ys b] by (auto simp: lock_inv_def intro: auth_inv_hold)
  have "lock_inv (advance ?s2 ?after (ly_now ?s2))" by (rule lock_inv_plain [OF s2]) (simp_all add: b)
  then show ?thesis by (simp add: lock_inv_def)
qed

lemma lock_inv_maintain:
  assumes inv: "lock_inv s" and rd: "readings (ly_now s) clk t" and none: "ly_forget s = []"
    and scan: "maintainScan (clk 0) (ly_auth s) = (a, next', forgotten)"
  shows "lock_inv ((advance s a t)\<lparr>ly_forget := forgotten\<rparr>)"
proof -
  have "runs t nothing (ly_auth s) a" using runs_maintainScan [of t nothing "ly_auth s" "clk 0"] scan by simp
  then have "lock_inv (advance s a t)" using rd by (intro lock_inv_plain [OF inv]) (auto intro: readings_le)
  moreover have "forget_inv forgotten a"
    using maintainScan_forgotten [OF scan] inv by (simp add: forget_inv_def lock_inv_def auth_inv_def)
  ultimately show ?thesis by (simp add: lock_inv_def)
qed

lemma lock_inv_forget:
  assumes inv: "lock_inv s" and fs: "ly_forget s = rid # rest"
  shows "lock_inv (s\<lparr>ly_auth := forgetDone rid err (ly_auth s), ly_forget := rest\<rparr>)"
proof -
  let ?s = "s\<lparr>ly_forget := rest\<rparr>" and ?al = "nothing\<lparr>al_dropped := {rid}\<rparr>"
  have inv': "lock_inv ?s" using inv fs by (auto simp: lock_inv_def forget_inv_def)
  obtain r where r: "gget (au_objects (ly_auth s)) rid = Some r" "rs_forgetting r" "rid \<in> set (au_resources (ly_auth s))" "rid \<notin> set rest"
    using inv fs by (auto simp: lock_inv_def forget_inv_def)
  have "runs (ly_now s) ?al (ly_auth s) (forgetDone rid err (ly_auth s))" by (rule runs_forgetDone) (use r in auto)
  then have "lock_inv (advance ?s (forgetDone rid err (ly_auth s)) (ly_now s))"
    using r(4) by (intro lock_inv_runs [OF inv', where al = ?al]) (auto simp: beside_def)
  then show ?thesis by (simp add: lock_inv_def)
qed

lemma lock_inv_close_finish:
  assumes inv: "lock_inv s" and idle: "au_closed (ly_auth s)" "ly_calls s = []" "ly_pubs s = []" "ly_forget s = []"
  shows "lock_inv (s\<lparr>ly_auth := fst (closeFinish forget (ly_auth s))\<rparr>)"
proof -
  let ?al = "nothing\<lparr>al_dropped := set (au_resources (ly_auth s))\<rparr>"
  have "runs (ly_now s) ?al (ly_auth s) (fst (closeFinish forget (ly_auth s)))" using idle(1) by (intro runs_closeFinish) auto
  then have "lock_inv (advance s (fst (closeFinish forget (ly_auth s))) (ly_now s))"
    using idle by (intro lock_inv_runs [OF inv, where al = ?al]) (auto simp: beside_def)
  then show ?thesis by (simp add: lock_inv_def)
qed

lemma markBusy_same [simp]:
  "au_owners (markBusy flag rids a) = au_owners a" "au_watermark (markBusy flag rids a) = au_watermark a" "au_keys (markBusy flag rids a) = au_keys a"
  "au_resources (markBusy flag rids a) = au_resources a" "au_publications (markBusy flag rids a) = au_publications a"
  unfolding markBusy_def
  by ((rule fold_same [where g = au_owners] fold_same [where g = au_watermark] fold_same [where g = au_keys]
        fold_same [where g = au_resources] fold_same [where g = au_publications], simp add: updRes_def)+)

lemma calls_inv_markBusy:
  assumes "calls_inv cs a"
  shows "calls_inv cs ((markBusy flag rids a)\<lparr>au_publications := n\<rparr>)"
proof -
  let ?b = "(markBusy flag rids a)\<lparr>au_publications := n\<rparr>"
  have "gget (au_objects ?b) rid = None \<longleftrightarrow> gget (au_objects a) rid = None" for rid by (simp add: objects_markBusy)
  then have "call_ok ?b c = call_ok a c" for c by (simp add: call_ok_def getAct_def del: not_None_eq)
  moreover have "rs_holds r' = holding cs rid" if "gget (au_objects ?b) rid = Some r'" for rid r'
    using that assms by (auto simp: objects_markBusy calls_inv_def split: if_splits)
  ultimately show ?thesis using assms by (simp add: calls_inv_def)
qed

lemma forget_inv_markBusy:
  assumes "forget_inv fs a"
  shows "forget_inv fs ((markBusy flag rids a)\<lparr>au_publications := n\<rparr>)"
proof -
  have "(\<exists>r. gget (au_objects (markBusy flag rids a)) rid = Some r \<and> rs_forgetting r) \<longleftrightarrow> (\<exists>r. gget (au_objects a) rid = Some r \<and> rs_forgetting r)" for rid
    by (cases "gget (au_objects a) rid") (simp_all add: objects_markBusy)
  with assms show ?thesis by (simp add: forget_inv_def)
qed

lemma busy_pubs:
  assumes "pubs_inv ps a" and "gget (au_objects a) rid \<noteq> None"
  shows "busyRes a rid \<longleftrightarrow> rid \<in> set (concat (map snd ps))"
proof -
  from assms(2) obtain r where r: "gget (au_objects a) rid = Some r" by blast
  with assms(1) have "rs_busy r \<longleftrightarrow> rid \<in> set (concat (map snd ps))" unfolding pubs_inv_def by blast
  with r show ?thesis by (simp add: busyRes_def)
qed

lemma lock_inv_admit:
  assumes inv: "lock_inv s" and rd: "readings (ly_now s) clk t" and adm: "publishAdmit mac ctxErr clk publication (ly_auth s) = (a, res)"
  shows "lock_inv ((advance s a t)\<lparr>ly_pubs := (case res of Inl _ \<Rightarrow> [] | Inr pub \<Rightarrow> [pub]) @ ly_pubs s\<rparr>)"
proof -
  have t: "ly_now s \<le> t" using rd by (rule readings_le)
  then have auth: "auth_inv t (ly_auth s)" using inv by (auto simp: lock_inv_def intro: auth_inv_later)
  from publishAdmit_cases [OF auth adm, of nothing] show ?thesis
  proof (elim disjE conjE exE)
    fix e assume "res = Inl e" "runs t nothing (ly_auth s) a"
    with lock_inv_plain [OF inv _ t] show ?thesis by (simp add: lock_inv_def)
  next
    fix keys rids b
    assume res: "res = Inr (keys, rids)" and run: "runs t nothing (ly_auth s) b" and a: "a = (markBusy True rids b)\<lparr>au_publications := au_publications b + 1\<rparr>"
      and rids: "distinct rids" "set rids = {rid. \<exists>key \<in> set keys. gget (au_keys b) key = Some rid}" "\<forall>rid \<in> set rids. \<not> busyRes b rid"
    have sb: "lock_inv (advance s b t)" by (rule lock_inv_plain [OF inv run t])
    have obj: "gget (au_objects b) rid \<noteq> None" if "rid \<in> set rids" for rid
      using sb that rids(2) by (fastforce simp: lock_inv_def auth_inv_def keys_inv_def keys_exact_def)
    have pubs: "pubs_inv (ly_pubs s) b" using sb by (simp add: lock_inv_def)
    have disj: "rid \<notin> set (concat (map snd (ly_pubs s)))" if "rid \<in> set rids" for rid
      using busy_pubs [OF pubs obj [OF that]] rids(3) that by blast
    have none: "gget (au_objects a) rid = None \<longleftrightarrow> gget (au_objects b) rid = None" for rid by (simp add: a objects_markBusy)
    have busy: "rs_busy r' \<longleftrightarrow> rid \<in> set rids \<or> rid \<in> set (concat (map snd (ly_pubs s)))" if "gget (au_objects a) rid = Some r'" for rid r'
    proof -
      from that obtain r where r: "gget (au_objects b) rid = Some r" "rs_busy r' \<longleftrightarrow> rid \<in> set rids \<or> rs_busy r"
        by (auto simp: a objects_markBusy)
      with busy_pubs [OF pubs, of rid] show ?thesis by (simp add: busyRes_def)
    qed
    have "pubs_inv ((keys, rids) # ly_pubs s) a"
      unfolding pubs_inv_def
    proof (intro conjI allI impI ballI)
      show "distinct (concat (map snd ((keys, rids) # ly_pubs s)))" using rids(1) disj pubs by (auto simp: pubs_inv_def)
      show "au_publications a = int (length ((keys, rids) # ly_pubs s))" using pubs by (simp add: a pubs_inv_def)
      show "rs_busy r \<longleftrightarrow> rid \<in> set (concat (map snd ((keys, rids) # ly_pubs s)))" if "gget (au_objects a) rid = Some r" for rid r
        using busy [OF that] by simp
      show "case p of (keys, rids) \<Rightarrow> (\<forall>rid \<in> set rids. gget (au_objects a) rid \<noteq> None)
          \<and> (\<forall>key \<in> set keys. \<forall>rid. gget (au_keys a) key = Some rid \<longrightarrow> rid \<in> set rids)" if p: "p \<in> set ((keys, rids) # ly_pubs s)" for p
      proof (cases "p \<in> set (ly_pubs s)")
        case True
        with pubs none show ?thesis by (auto simp: pubs_inv_def a simp del: not_None_eq)
      next
        case False
        with p obj none rids(2) show ?thesis by (auto simp: a simp del: not_None_eq)
      qed
    qed
    moreover have "auth_inv t a" using sb by (simp add: a lock_inv_def auth_inv_publications auth_inv_markBusy)
    ultimately show ?thesis
      using sb calls_inv_markBusy forget_inv_markBusy by (simp add: lock_inv_def res a)
  qed
qed

lemma lock_inv_complete:
  assumes inv: "lock_inv s" and rd: "readings (ly_now s) clk t" and ps: "ly_pubs s = ps @ (keys, rids) # qs"
  shows "lock_inv ((advance s (fst (completePublication clk rids keys outcome (ly_auth s))) t)\<lparr>ly_pubs := ps @ qs\<rparr>)"
proof -
  let ?a = "fst (completePublication clk rids keys outcome (ly_auth s))" and ?al = "nothing\<lparr>al_ending := set rids\<rparr>"
  have "\<forall>key \<in> set keys. \<forall>rid. gget (au_keys (ly_auth s)) key = Some rid \<longrightarrow> rid \<in> al_ending ?al"
    using inv ps by (auto simp: lock_inv_def pubs_inv_def)
  from completePublication_form [OF this] obtain b where run: "runs t ?al (ly_auth s) b"
    and a: "?a = (markBusy False rids b)\<lparr>au_publications := au_publications b - 1\<rparr>" by blast
  have sb: "lock_inv (advance s b t)"
    by (rule lock_inv_runs [OF inv run]) (use rd in \<open>auto simp: beside_def intro: readings_le\<close>)
  have pubs: "pubs_inv (ps @ (keys, rids) # qs) b" using sb ps by (simp add: lock_inv_def)
  have none: "gget (au_objects ?a) rid = None \<longleftrightarrow> gget (au_objects b) rid = None" for rid by (simp add: a objects_markBusy)
  have busy: "rs_busy r' \<longleftrightarrow> rid \<in> set (concat (map snd (ps @ qs)))" if "gget (au_objects ?a) rid = Some r'" for rid r'
  proof -
    from that obtain r where r: "gget (au_objects b) rid = Some r" "rs_busy r' \<longleftrightarrow> rid \<notin> set rids \<and> rs_busy r"
      by (auto simp: a objects_markBusy)
    with pubs have "rs_busy r \<longleftrightarrow> rid \<in> set (concat (map snd (ps @ (keys, rids) # qs)))" unfolding pubs_inv_def by blast
    moreover have "distinct (concat (map snd (ps @ (keys, rids) # qs)))" using pubs by (simp add: pubs_inv_def)
    ultimately show ?thesis using r(2) by auto
  qed
  have "pubs_inv (ps @ qs) ?a"
    unfolding pubs_inv_def
  proof (intro conjI allI impI ballI)
    show "distinct (concat (map snd (ps @ qs)))" using pubs by (auto simp: pubs_inv_def)
    show "au_publications ?a = int (length (ps @ qs))" using pubs by (simp add: a pubs_inv_def)
    show "rs_busy r \<longleftrightarrow> rid \<in> set (concat (map snd (ps @ qs)))" if "gget (au_objects ?a) rid = Some r" for rid r by (rule busy [OF that])
    show "case p of (keys, rids) \<Rightarrow> (\<forall>rid \<in> set rids. gget (au_objects ?a) rid \<noteq> None)
        \<and> (\<forall>key \<in> set keys. \<forall>rid. gget (au_keys ?a) key = Some rid \<longrightarrow> rid \<in> set rids)" if "p \<in> set (ps @ qs)" for p
      using that pubs none by (auto simp: pubs_inv_def a simp del: not_None_eq)
  qed
  moreover have "auth_inv t ?a" using sb by (simp add: a lock_inv_def auth_inv_publications auth_inv_markBusy)
  ultimately show ?thesis
    using sb calls_inv_markBusy forget_inv_markBusy by (simp add: lock_inv_def a)
qed

subsection \<open>Every step keeps the invariant\<close>

lemma lock_inv_begin:
  assumes inv: "lock_inv s" and t: "ly_now s \<le> t"
    and cases: "(\<forall>rid started. r \<noteq> BeginStarted rid started) \<and> runs t nothing (ly_auth s) a
      \<or> (\<exists>rid b x. r = BeginStarted rid st \<and> runs t nothing (ly_auth s) b \<and> a = holdRes rid 1 b \<and> started_ok oid req rid b
          \<and> getAct (ly_auth s) oid req = None \<and> getAct b oid req = Some x \<and> Q x)"
    and named: "\<And>rid. call_named \<lparr>lc_owner = oid, lc_request = req, lc_resource = rid, lc_kind = kind st, lc_phase = Held\<rparr>"
    and fits: "\<And>rid x. Q x \<Longrightarrow> ac_resource x = Some rid \<Longrightarrow> ac_waitUntil x = None
      \<Longrightarrow> call_fits \<lparr>lc_owner = oid, lc_request = req, lc_resource = rid, lc_kind = kind st, lc_phase = Held\<rparr> x"
  shows "lock_inv ((advance s a t)\<lparr>ly_calls := startCall oid req kind r @ ly_calls s\<rparr>)"
  using cases
proof (elim disjE conjE exE)
  assume "\<forall>rid started. r \<noteq> BeginStarted rid started" and run: "runs t nothing (ly_auth s) a"
  then have "startCall oid req kind r = []" by (auto simp: startCall_def split: action_begin.split)
  with lock_inv_plain [OF inv run t] show ?thesis by (simp add: lock_inv_def)
next
  fix rid b x
  assume r: "r = BeginStarted rid st" and run: "runs t nothing (ly_auth s) b" and a: "a = holdRes rid 1 b" and ok: "started_ok oid req rid b"
    and new: "getAct (ly_auth s) oid req = None" and x: "getAct b oid req = Some x" "Q x"
  let ?c = "\<lparr>lc_owner = oid, lc_request = req, lc_resource = rid, lc_kind = kind st, lc_phase = Held\<rparr>"
  have "ac_resource x = Some rid" "ac_waitUntil x = None" using ok x(1) by (auto simp: started_ok_def)
  from fits [OF x(2) this] have "call_fits ?c x" .
  then have "lock_inv ((advance s (holdRes (lc_resource ?c) 1 b) t)\<lparr>ly_calls := ?c # ly_calls s\<rparr>)"
    using ok x(1) new by (intro lock_inv_started [OF inv run t _ named]) (auto simp: started_ok_def)
  then show ?thesis by (simp add: a r startCall_def)
qed

lemma lock_inv_acquire_begin:
  assumes inv: "lock_inv s" and rd: "readings (ly_now s) clk t" and start: "acquireBegin mac ctxErr clk request (ly_auth s) = (a, r)"
  shows "lock_inv ((advance s a t)\<lparr>ly_calls := startCall (or_Owner (aq_Owner request)) (aq_Request request) (AcquireCall request) r @ ly_calls s\<rparr>)"
proof (rule lock_inv_begin [OF inv, where st = "clk 4" and Q = "\<lambda>x. rc_Acquire (ac_receipt x) = Some request"])
  have "base_inv (ly_auth s)" using inv by (simp add: lock_inv_def auth_inv_def)
  from runs_acquireBegin [OF this start refl refl, of t nothing]
  show "(\<forall>rid started. r \<noteq> BeginStarted rid started) \<and> runs t nothing (ly_auth s) a
      \<or> (\<exists>rid b x. r = BeginStarted rid (clk 4) \<and> runs t nothing (ly_auth s) b \<and> a = holdRes rid 1 b
          \<and> started_ok (or_Owner (aq_Owner request)) (aq_Request request) rid b
          \<and> getAct (ly_auth s) (or_Owner (aq_Owner request)) (aq_Request request) = None
          \<and> getAct b (or_Owner (aq_Owner request)) (aq_Request request) = Some x \<and> rc_Acquire (ac_receipt x) = Some request)" by blast
qed (use rd in \<open>auto simp: call_named_def call_fits_def intro: readings_le\<close>)

lemma lock_inv_renew_begin:
  assumes inv: "lock_inv s" and rd: "readings (ly_now s) clk t" and start: "renewBegin mac ctxErr clk request (ly_auth s) = (a, r)"
  shows "lock_inv ((advance s a t)\<lparr>ly_calls := startCall (or_Owner (rn_Owner request)) (rn_Request request) (\<lambda>_. RenewCall request) r @ ly_calls s\<rparr>)"
proof (rule lock_inv_begin [OF inv, where st = "clk 4" and Q = "\<lambda>x. rc_Renew (ac_receipt x) = Some request"])
  have "auth_inv t (ly_auth s)" using inv rd by (auto simp: lock_inv_def intro: auth_inv_later readings_le)
  from runs_renewBegin [OF this start refl refl, of nothing]
  show "(\<forall>rid started. r \<noteq> BeginStarted rid started) \<and> runs t nothing (ly_auth s) a
      \<or> (\<exists>rid b x. r = BeginStarted rid (clk 4) \<and> runs t nothing (ly_auth s) b \<and> a = holdRes rid 1 b
          \<and> started_ok (or_Owner (rn_Owner request)) (rn_Request request) rid b
          \<and> getAct (ly_auth s) (or_Owner (rn_Owner request)) (rn_Request request) = None
          \<and> getAct b (or_Owner (rn_Owner request)) (rn_Request request) = Some x \<and> rc_Renew (ac_receipt x) = Some request)" .
qed (use rd in \<open>auto simp: call_named_def call_fits_def intro: readings_le\<close>)

lemma lock_inv_worker_pick:
  assumes inv: "lock_inv s" and rd: "readings (ly_now s) clk t" and pick: "workerPick (clk 0) rid (ly_auth s) = (a, r)"
  shows "lock_inv ((advance s a t)\<lparr>ly_calls := takeCall rid r a @ ly_calls s\<rparr>)"
proof -
  have t: "ly_now s \<le> t" using rd by (rule readings_le)
  then have "auth_inv t (ly_auth s)" using inv by (auto simp: lock_inv_def intro: auth_inv_later)
  from runs_workerPick [OF this pick, of nothing] show ?thesis
  proof (elim disjE conjE exE)
    assume "\<forall>oid req. r \<noteq> WorkerTake oid req" and run: "runs t nothing (ly_auth s) a"
    then have "takeCall rid r a = []" by (auto simp: takeCall_def split: worker_pick.split)
    with lock_inv_plain [OF inv run t] show ?thesis by (simp add: lock_inv_def)
  next
    fix oid req b x res
    assume r: "r = WorkerTake oid req" and run: "runs t nothing (ly_auth s) b" and a: "a = holdRes rid 1 b"
      and res: "gget (au_objects b) rid = Some res" "\<not> rs_forgetting res"
      and x: "getAct b oid req = Some x" "ac_resource x = Some rid" "ac_waitUntil x \<noteq> None" "rc_Acquire (ac_receipt x) \<noteq> None"
    then obtain request where request: "rc_Acquire (ac_receipt x) = Some request" by blast
    let ?c = "\<lparr>lc_owner = oid, lc_request = req, lc_resource = rid, lc_kind = WorkerCall request, lc_phase = Held\<rparr>"
    have "lock_inv ((advance s (holdRes (lc_resource ?c) 1 b) t)\<lparr>ly_calls := ?c # ly_calls s\<rparr>)"
      by (rule lock_inv_started [OF inv run t]) (use res x request in \<open>auto simp: call_named_def call_fits_def joins_def\<close>)
    moreover have "getAct a oid req = Some x" using x(1) by (simp add: a holdRes_def updRes_def)
    ultimately show ?thesis by (simp add: a r takeCall_def request)
  qed
qed

lemma lock_inv_step:
  assumes "lock_step mac s s'" and "lock_inv s"
  shows "lock_inv s'"
  using assms
proof (induction rule: lock_step.induct)
  case (step_open s clk t nonce ctxErr ticket)
  then show ?case by (intro lock_inv_plain runs_OpenSession) (auto intro: readings_le)
next
  case (step_owner s clk t oid nonce sid ctxErr request)
  then show ?case
    by (intro lock_inv_runs [where al = "nothing\<lparr>al_minted := {oid}\<rparr>"] runs_CreateOwner) (auto simp: beside_def intro: readings_le)
next
  case (step_discover s clk t nonce key ctxErr ref)
  then show ?case
    by (intro lock_inv_runs [where al = "nothing\<lparr>al_found := {key}\<rparr>"] runs_discoverCallback) (auto simp: beside_def intro: readings_le)
next
  case (step_native_end s)
  then have "lock_inv (advance s (finishNative (ly_auth s)) (ly_now s))" by (intro lock_inv_plain runs_simple runs_refl) auto
  then show ?case by simp
next
  case (step_worker_exit s rid)
  then have "lock_inv (advance s (workerExit rid (ly_auth s)) (ly_now s))" by (intro lock_inv_plain runs_workerExit runs_refl) auto
  then show ?case by simp
next
  case (step_fence s err)
  then have "lock_inv (advance s (Fence err (ly_auth s)) (ly_now s))" by (intro lock_inv_plain runs_simple runs_refl) auto
  then show ?case by simp
next
  case (step_close s)
  then have "lock_inv (advance s (closeBegin (ly_auth s)) (ly_now s))" by (intro lock_inv_plain runs_simple runs_refl) auto
  then show ?case by simp
next
  case (step_raise_skip s clk t xs c ys ctxErr)
  have "call_ok (ly_auth s) (c\<lparr>lc_phase := Raised\<rparr>)"
    using call_of [OF step_raise_skip.prems step_raise_skip.hyps(2)] step_raise_skip.hyps
    by (auto simp: call_ok_def call_named_def call_fits_def split: call_kind.splits)
  with step_raise_skip show ?case by (intro lock_inv_phase) (auto intro: readings_le)
next
  case (step_raise_begin s clk t xs c ys ctxErr)
  have "call_ok (ly_auth s) (c\<lparr>lc_phase := Persisting\<rparr>)"
    using call_of [OF step_raise_begin.prems step_raise_begin.hyps(2)] step_raise_begin.hyps
    by (auto simp: call_ok_def call_named_def call_fits_def split: call_kind.splits)
  with step_raise_begin show ?case by (intro lock_inv_phase) (auto intro: readings_le)
next
  case (step_raise_fail s xs c ys e)
  have "lock_inv (s\<lparr>ly_now := ly_now s, ly_calls := xs @ c\<lparr>lc_phase := Ran (Some e)\<rparr> # ys\<rparr>)"
    by (rule lock_inv_phase [OF step_raise_fail.prems step_raise_fail.hyps(1) call_ok_ran [OF call_of [OF step_raise_fail.prems step_raise_fail.hyps(1)]]]) auto
  then show ?case by simp
next
  case (step_time s t)
  then show ?case by (auto simp: lock_inv_def intro: auth_inv_later)
qed (auto intro!: lock_inv_plain runs_retireOwnerSection runs_closeSessionSection runs_queryActionSection runs_queryGrantSection runs_releaseSection
      runs_cancelActionSection runs_resolveCheck runs_beginNative runs_refl lock_inv_acquire_begin lock_inv_renew_begin lock_inv_worker_pick
      lock_inv_raise_done lock_inv_guard lock_inv_action_end lock_inv_maintain lock_inv_forget lock_inv_admit lock_inv_complete lock_inv_close_finish
      intro: readings_le)

lemma lock_inv_init:
  assumes "lock_init s"
  shows "lock_inv s"
proof -
  from assms obtain options present maxLease recoveryStart nonce
    where new: "Authority_New options present maxLease recoveryStart (ly_now s) nonce = Inr (ly_auth s)" by (auto simp: lock_init_def)
  then have opts: "Options_Validate options = None" by (auto simp: Authority_New_def split: option.splits)
  from new obtain w start where "\<lparr>au_options = options, au_start = ly_now s, au_recoveryUntil = start + w,
       au_watermark = w, au_incarnation = EncodeToString nonce, au_sessions = [], au_owners = [],
       au_tickets = [], au_objects = [], au_resources = [], au_keys = [], au_lastGeneration = 0,
       au_actions = 0, au_grants = 0, au_queued = 0, au_publications = 0, au_nativeCalls = 0,
       au_fenced = None, au_closed = False, au_closeErr = None\<rparr> = ly_auth s"
    by (auto simp: Authority_New_def split: option.splits sum.splits if_splits)
  note a = this [symmetric]
  have "auth_inv (ly_now s) (ly_auth s)"
    using opts by (auto simp: a auth_inv_def base_inv_def grants_inv_def tables_wf_def links_ok_def excl_ok_def gens_ok_def counts_ok_def live_def getGrant_def
        owner_inv_def owners_linked_def owners_bounded_def queue_inv_def queues_exact_def acts_linked_def queues_counted_def getAct_def waiting_def
        keys_inv_def keys_exact_def forgotten_quiet_def lease_inv_def Options_Validate_def)
  with assms show ?thesis by (simp add: lock_inv_def lock_init_def calls_inv_def pubs_inv_def forget_inv_def a)
qed

interpretation lock: guarded_system lock_init "lock_step mac" lock_inv
  by unfold_locales (auto intro: lock_inv_init lock_inv_step)

end
