(* ===== verification/LockChanges.thy ===== *)
theory LockChanges
  imports LockSystemInv
begin

text \<open>
  Every step of the lock system as a sequence of changes of the authority, and what follows
  for the records: a live grant is new only when the authority is healthy and past recovery,
  a settled receipt and an ended grant stay as they are, a busy resource keeps its grants.
\<close>

section \<open>A step as a sequence of changes\<close>

text \<open>A primitive transition, or one of the changes outside them. A busy mark is taken back
  only from the resources whose grants may end.\<close>

inductive change :: "instant \<Rightarrow> allowance \<Rightarrow> Authority \<Rightarrow> Authority \<Rightarrow> bool"
  for now :: instant and al :: allowance where
  change_prim: "prim now al a b \<Longrightarrow> change now al a b"
| change_hold: "change now al a (holdRes rid d a)"
| change_busy: "flag \<or> rid \<in> al_ending al \<Longrightarrow> change now al a (updRes rid (\<lambda>r. r\<lparr>rs_busy := flag\<rparr>) a)"
| change_publications: "change now al a (a\<lparr>au_publications := n\<rparr>)"
| change_watermark: "au_watermark a \<le> w \<Longrightarrow> change now al a (a\<lparr>au_watermark := w\<rparr>)"

abbreviation changes :: "instant \<Rightarrow> allowance \<Rightarrow> Authority \<Rightarrow> Authority \<Rightarrow> bool" where
  "changes now al \<equiv> (change now al)\<^sup>*\<^sup>*"

lemma changes_prims: "prims now al a b \<Longrightarrow> changes now al a b"
  by (induction rule: rtranclp_induct) (auto intro: rtranclp.rtrancl_into_rtrancl change_prim)

lemma changes_runs: "runs now al a b \<Longrightarrow> auth_inv t a \<Longrightarrow> changes now al a b"
  by (auto simp: runs_def auth_inv_def intro: changes_prims)

lemma changes_markBusy:
  assumes "flag \<or> set rids \<subseteq> al_ending al"
  shows "changes now al a (markBusy flag rids a)"
  using assms unfolding markBusy_def
proof (induction rids arbitrary: a)
  case (Cons rid rids)
  have "change now al a (updRes rid (\<lambda>r. r\<lparr>rs_busy := flag\<rparr>) a)" using Cons.prems by (auto intro: change_busy)
  with Cons show ?case by (auto intro: converse_rtranclp_into_rtranclp)
qed simp

lemma changes_marked:
  assumes "runs now al a b" and "auth_inv t a" and "flag \<or> set rids \<subseteq> al_ending al"
  shows "changes now al a ((markBusy flag rids b)\<lparr>au_publications := n\<rparr>)"
  using changes_runs [OF assms(1,2)] changes_markBusy [OF assms(3), of now b] change_publications [of now al "markBusy flag rids b" n]
  by (meson rtranclp_trans rtranclp.rtrancl_into_rtrancl)

text \<open>What a step is allowed: it creates no owner that a call in flight acts for, and it ends
  the grants of a busy resource only when it completes the publication on it.\<close>

definition step_allows :: "lock_system \<Rightarrow> lock_system \<Rightarrow> allowance \<Rightarrow> bool" where
  "step_allows s s' al \<longleftrightarrow> (\<forall>oid \<in> al_minted al. gget (au_owners (ly_auth s)) oid = None)
     \<and> (\<forall>rid \<in> al_ending al. rid \<notin> set (concat (map snd (ly_pubs s'))))"

lemma step_changes:
  assumes "lock_step mac s s'" and "lock_inv s"
  shows "\<exists>al. changes (ly_now s') al (ly_auth s) (ly_auth s') \<and> step_allows s s' al \<and> ly_now s \<le> ly_now s'"
proof -
  have plain: "\<exists>al. changes t al (ly_auth s) b \<and> step_allows s s'' al" if "runs t nothing (ly_auth s) b" for t b s''
    using changes_runs [OF that] assms(2) by (auto simp: lock_inv_def step_allows_def intro!: exI [of _ nothing])
  have le: "ly_now s \<le> t" if "readings (ly_now s) clk t" for clk t using that by (rule readings_le)
  have auth: "auth_inv t (ly_auth s)" if "ly_now s \<le> t" for t using assms(2) that by (auto simp: lock_inv_def intro: auth_inv_later)
  have hold: "\<exists>al. changes t al (ly_auth s) (holdRes rid d b) \<and> step_allows s s'' al" if "runs t nothing (ly_auth s) b" for t b s'' rid d
    using changes_runs [OF that] assms(2)
    by (auto simp: lock_inv_def step_allows_def intro!: exI [of _ nothing] intro: rtranclp.rtrancl_into_rtrancl change_hold)
  show ?thesis
    using assms(1)
  proof (cases rule: lock_step.cases)
    case (step_open clk t nonce ctxErr ticket)
    then show ?thesis using plain [OF runs_OpenSession] le by auto
  next
    case (step_owner clk t oid nonce sid ctxErr request)
    have "runs t (nothing\<lparr>al_minted := {oid}\<rparr>) (ly_auth s) (fst (CreateOwner mac ctxErr clk nonce sid request (ly_auth s)))"
      using step_owner by (intro runs_CreateOwner) auto
    with changes_runs [OF this auth [OF le [OF step_owner(2)]]] step_owner le show ?thesis
      by (auto simp: step_allows_def intro!: exI [of _ "nothing\<lparr>al_minted := {oid}\<rparr>"])
  next
    case (step_discover clk t nonce key ctxErr ref)
    have "runs t (nothing\<lparr>al_found := {key}\<rparr>) (ly_auth s) (fst (discoverCallback mac ctxErr clk nonce ref key (ly_auth s)))"
      using step_discover by (intro runs_discoverCallback) auto
    with changes_runs [OF this auth [OF le [OF step_discover(2)]]] step_discover le show ?thesis
      by (auto simp: step_allows_def intro!: exI [of _ "nothing\<lparr>al_found := {key}\<rparr>"])
  next
    case (step_acquire_begin clk t ctxErr request a r)
    have "base_inv (ly_auth s)" using assms(2) by (simp add: lock_inv_def auth_inv_def)
    from runs_acquireBegin [OF this step_acquire_begin(3) refl refl, of t nothing] plain hold step_acquire_begin le show ?thesis by auto
  next
    case (step_renew_begin clk t ctxErr request a r)
    from runs_renewBegin [OF auth [OF le [OF step_renew_begin(2)]] step_renew_begin(3) refl refl, of nothing] plain hold step_renew_begin le show ?thesis by auto
  next
    case (step_worker_pick clk t rid res a r)
    from runs_workerPick [OF auth [OF le [OF step_worker_pick(2)]] step_worker_pick(5), of nothing] plain hold step_worker_pick le show ?thesis by auto
  next
    case (step_raise_done xs c ys)
    have "au_watermark (ly_auth s) < callTTL (lc_kind c)" using call_of [OF assms(2) step_raise_done(2)] step_raise_done(3) by (simp add: call_ok_def)
    then have "changes (ly_now s') nothing (ly_auth s) (ly_auth s')" using step_raise_done(1) by (auto intro!: r_into_rtranclp change_watermark)
    with step_raise_done show ?thesis by (auto simp: step_allows_def intro!: exI [of _ nothing])
  next
    case (step_guard clk t xs c ys nonce answer ctxErr a err)
    have "runs t (nothing\<lparr>al_joining := set (joins c)\<rparr>) (ly_auth s) (fst (callGuard mac ctxErr clk nonce c (ly_auth s)))"
      by (rule runs_callGuard [OF assms(2) step_guard(3,4) _ step_guard(5)]) (use step_guard in \<open>auto intro: readings_le\<close>)
    then have "runs t (nothing\<lparr>al_joining := set (joins c)\<rparr>) (ly_auth s) a"
      using step_guard(6) by (auto simp: runGuard_def runs_refl split: guard_answer.splits prod.splits)
    from changes_runs [OF this auth [OF le [OF step_guard(2)]]] step_guard le show ?thesis
      by (auto simp: step_allows_def intro!: exI [of _ "nothing\<lparr>al_joining := set (joins c)\<rparr>"])
  next
    case (step_action_end xs c ys err)
    let ?after = "actionEnd (lc_owner c) (lc_request c) (lc_resource c) err (ly_auth s)"
    obtain b where b: "runs (ly_now s) nothing (ly_auth s) b" "runs (ly_now s) nothing (holdRes (lc_resource c) (- 1) b) ?after"
      using runs_actionEnd by blast
    have "lock_inv (advance s b (ly_now s))" by (rule lock_inv_plain [OF assms(2) b(1)]) simp
    then have "auth_inv (ly_now s) (holdRes (lc_resource c) (- 1) b)"
      using held_resource [of "advance s b (ly_now s)" c] step_action_end(2) by (auto simp: lock_inv_def intro!: auth_inv_hold)
    from changes_runs [OF b(2) this] changes_runs [OF b(1) auth [OF order_refl]]
    have "changes (ly_now s) nothing (ly_auth s) ?after" by (auto intro: rtranclp_trans rtranclp.rtrancl_into_rtrancl change_hold)
    with step_action_end show ?thesis by (auto simp: step_allows_def intro!: exI [of _ nothing])
  next
    case (step_maintain clk t a next' forgotten)
    have "runs t nothing (ly_auth s) a" using runs_maintainScan [of t nothing "ly_auth s" "clk 0"] step_maintain by simp
    with plain step_maintain le show ?thesis by auto
  next
    case (step_forget rid rest err)
    obtain r where r: "gget (au_objects (ly_auth s)) rid = Some r" "rs_forgetting r" "rid \<in> set (au_resources (ly_auth s))"
      using assms(2) step_forget by (auto simp: lock_inv_def forget_inv_def)
    have "runs (ly_now s) (nothing\<lparr>al_dropped := {rid}\<rparr>) (ly_auth s) (forgetDone rid err (ly_auth s))" by (rule runs_forgetDone) (use r in auto)
    from changes_runs [OF this auth [OF order_refl]] step_forget show ?thesis
      by (auto simp: step_allows_def intro!: exI [of _ "nothing\<lparr>al_dropped := {rid}\<rparr>"])
  next
    case (step_publish_admit clk t ctxErr publication a res)
    from publishAdmit_cases [OF auth [OF le [OF step_publish_admit(2)]] step_publish_admit(3), of nothing]
    have "changes t nothing (ly_auth s) a"
    proof (elim disjE conjE exE)
      fix keys rids b assume run: "runs t nothing (ly_auth s) b" and a: "a = (markBusy True rids b)\<lparr>au_publications := au_publications b + 1\<rparr>"
      show ?thesis
        unfolding a by (rule changes_marked [OF run auth [OF le [OF step_publish_admit(2)]]]) simp
    qed (auto intro: changes_runs auth [OF le [OF step_publish_admit(2)]])
    with step_publish_admit le show ?thesis by (auto simp: step_allows_def intro!: exI [of _ nothing])
  next
    case (step_publish_complete clk t ps keys rids qs outcome)
    let ?al = "nothing\<lparr>al_ending := set rids\<rparr>"
    have "\<forall>key \<in> set keys. \<forall>rid. gget (au_keys (ly_auth s)) key = Some rid \<longrightarrow> rid \<in> al_ending ?al"
      using assms(2) step_publish_complete(3) by (auto simp: lock_inv_def pubs_inv_def)
    from completePublication_form [OF this] obtain b where run: "runs t ?al (ly_auth s) b"
      and a: "fst (completePublication clk rids keys outcome (ly_auth s)) = (markBusy False rids b)\<lparr>au_publications := au_publications b - 1\<rparr>" by blast
    have ch: "changes t ?al (ly_auth s) (fst (completePublication clk rids keys outcome (ly_auth s)))"
      unfolding a by (rule changes_marked [OF run auth [OF le [OF step_publish_complete(2)]]]) simp
    have "distinct (concat (map snd (ps @ (keys, rids) # qs)))" using assms(2) step_publish_complete(3) by (simp add: lock_inv_def pubs_inv_def)
    then have "set rids \<inter> set (concat (map snd (ps @ qs))) = {}" by auto
    with ch step_publish_complete le show ?thesis by (auto simp: step_allows_def intro!: exI [of _ ?al])
  next
    case (step_close_finish forget)
    let ?al = "nothing\<lparr>al_dropped := set (au_resources (ly_auth s))\<rparr>"
    have "runs (ly_now s) ?al (ly_auth s) (fst (closeFinish forget (ly_auth s)))" using step_close_finish by (intro runs_closeFinish) auto
    from changes_runs [OF this auth [OF order_refl]] step_close_finish show ?thesis by (auto simp: step_allows_def intro!: exI [of _ ?al])
  qed (use plain [OF runs_retireOwnerSection] plain [OF runs_closeSessionSection] plain [OF runs_queryActionSection] plain [OF runs_queryGrantSection]
      plain [OF runs_releaseSection] plain [OF runs_cancelActionSection] plain [OF runs_resolveCheck] plain [OF runs_beginNative [OF runs_refl]]
      plain [OF runs_refl] plain [OF runs_simple(1) [OF runs_refl]] plain [OF runs_simple(2) [OF runs_refl]] plain [OF runs_simple(3) [OF runs_refl]]
      plain [OF runs_workerExit [OF runs_refl]] le in \<open>auto; fail\<close>)+
qed

section \<open>What a step can do to grants, actions and flags\<close>

lemma change_flags:
  assumes "change now al a b"
  shows "au_fenced a \<noteq> None \<Longrightarrow> au_fenced b \<noteq> None" "au_closed a \<Longrightarrow> au_closed b" "au_recoveryUntil b = au_recoveryUntil a"
    "au_watermark a \<le> au_watermark b" "au_options b = au_options a"
  using assms by (induction rule: change.induct) (auto simp: prim_settings holdRes_def updRes_def dest: prim_settings(6))

lemma changes_flags:
  assumes "changes now al a b"
  shows "au_fenced a \<noteq> None \<Longrightarrow> au_fenced b \<noteq> None" "au_closed a \<Longrightarrow> au_closed b" "au_recoveryUntil b = au_recoveryUntil a"
    "au_watermark a \<le> au_watermark b" "au_options b = au_options a"
proof -
  have "(au_fenced a \<noteq> None \<longrightarrow> au_fenced b \<noteq> None) \<and> (au_closed a \<longrightarrow> au_closed b) \<and> au_recoveryUntil b = au_recoveryUntil a
      \<and> au_watermark a \<le> au_watermark b \<and> au_options b = au_options a"
    using assms
  proof (induction rule: rtranclp_induct)
    case (step b c)
    with change_flags [OF step.hyps(2)] show ?case by auto
  qed simp
  then show "au_fenced a \<noteq> None \<Longrightarrow> au_fenced b \<noteq> None" "au_closed a \<Longrightarrow> au_closed b" "au_recoveryUntil b = au_recoveryUntil a"
    "au_watermark a \<le> au_watermark b" "au_options b = au_options a" by auto
qed

lemma generation_prim: "prim now al a b \<Longrightarrow> au_lastGeneration a \<le> au_lastGeneration b"
proof (induction rule: prim.induct)
  case (prim_install oid req gid g a)
  then have "au_lastGeneration a \<noteq> MaxUint64" "gr_Generation (gt_ref g) = au_lastGeneration a + 1" by (auto simp: granting_def)
  then have "au_lastGeneration a \<le> gr_Generation (gt_ref g)" using word_Suc_fresh [of "au_lastGeneration a" "au_lastGeneration a"] by simp
  then show ?case by (simp add: installGrant_def updOwn_def updRes_def)
qed (auto simp: updSess_def endGrantLocked_def finishLocked_def Let_def addAction_def updAct_def updOwn_def updRes_def updGrant_def split: option.split)

lemma generation_change: "change now al a b \<Longrightarrow> au_lastGeneration a \<le> au_lastGeneration b"
  by (induction rule: change.induct) (auto simp: holdRes_def updRes_def dest: generation_prim)

lemma generation_changes: "changes now al a b \<Longrightarrow> au_lastGeneration a \<le> au_lastGeneration b"
  by (induction rule: rtranclp_induct) (auto dest: generation_change)

lemma getters_updRes [simp]: "getAct (updRes rid f a) = getAct a" "getGrant (updRes rid f a) = getGrant a" "au_owners (updRes rid f a) = au_owners a"
  by (simp_all add: updRes_def)

lemma act_change:
  assumes "change now al a b" and "getAct a oid req = Some x"
  shows "(\<exists>y. getAct b oid req = Some y \<and> act_evolves x y) \<or> gget (au_owners b) oid = None"
  using assms
proof (induction rule: change.induct)
  case (change_prim a b)
  from act_prim [OF change_prim] show ?case by auto
qed (auto simp: holdRes_def)

lemma grant_change:
  assumes "change now al a b" and "getGrant a oid gid = Some g"
  shows "(\<exists>h. getGrant b oid gid = Some h \<and> grant_evolves g h) \<or> gget (au_owners b) oid = None"
  using assms
proof (induction rule: change.induct)
  case (change_prim a b)
  from grant_prim [OF change_prim] show ?case by auto
qed (auto simp: holdRes_def grant_evolves_def)

lemma owner_gone_change:
  assumes "change now al a b" and "gget (au_owners a) oid = None" and "oid \<notin> al_minted al"
  shows "gget (au_owners b) oid = None"
  using assms by (induction rule: change.induct) (auto simp: holdRes_def intro: owner_gone_prim)

lemma records_changes:
  assumes "changes now al a b" and "oid \<notin> al_minted al"
  shows "(\<forall>req x. getAct a oid req = Some x \<longrightarrow> (\<exists>y. getAct b oid req = Some y \<and> act_evolves x y))
       \<and> (\<forall>gid g. getGrant a oid gid = Some g \<longrightarrow> (\<exists>h. getGrant b oid gid = Some h \<and> grant_evolves g h))
    \<or> gget (au_owners b) oid = None"
  using assms(1)
proof (induction rule: rtranclp_induct)
  case base
  then show ?case by (auto simp: grant_evolves_def)
next
  case (step b c)
  show ?case
  proof (cases "gget (au_owners c) oid = None")
    case False
    then have "gget (au_owners b) oid \<noteq> None" using owner_gone_change [OF step.hyps(2) _ assms(2)] by metis
    with step.IH have old: "\<And>req x. getAct a oid req = Some x \<Longrightarrow> \<exists>y. getAct b oid req = Some y \<and> act_evolves x y"
      "\<And>gid g. getGrant a oid gid = Some g \<Longrightarrow> \<exists>h. getGrant b oid gid = Some h \<and> grant_evolves g h" by blast+
    have "\<exists>z. getAct c oid req = Some z \<and> act_evolves x z" if "getAct a oid req = Some x" for req x
    proof -
      from old(1) [OF that] obtain y where y: "getAct b oid req = Some y" "act_evolves x y" by blast
      with act_change [OF step.hyps(2) y(1)] False show ?thesis by (auto intro: act_evolves_trans [OF y(2)])
    qed
    moreover have "\<exists>k. getGrant c oid gid = Some k \<and> grant_evolves g k" if "getGrant a oid gid = Some g" for gid g
    proof -
      from old(2) [OF that] obtain h where h: "getGrant b oid gid = Some h" "grant_evolves g h" by blast
      with grant_change [OF step.hyps(2) h(1)] False show ?thesis by (auto intro: grant_evolves_trans [OF h(2)])
    qed
    ultimately show ?thesis by blast
  qed blast
qed

text \<open>The conditions under which a live grant can be new.\<close>

definition admitted :: "instant \<Rightarrow> Authority \<Rightarrow> grantRecord \<Rightarrow> bool" where
  "admitted now a g \<longleftrightarrow> au_fenced a = None \<and> \<not> au_closed a \<and> au_recoveryUntil a \<le> now \<and> au_lastGeneration a < gr_Generation (gt_ref g)"

lemma live_change:
  assumes "change now al a b" and "live b oid gid h"
  shows "(\<exists>g. live a oid gid g \<and> grant_evolves g h) \<or> admitted now a h"
  using assms
proof (induction rule: change.induct)
  case (change_prim a b)
  from live_prim [OF change_prim] show ?case
  proof (elim disjE exE conjE)
    fix req assume "granting now oid req gid h a"
    then show ?thesis using word_Suc_fresh [of "au_lastGeneration a" "au_lastGeneration a"] by (auto simp: granting_def admitted_def)
  qed auto
qed (auto simp: holdRes_def live_def grant_evolves_def)

lemma live_changes:
  assumes "changes now al a b" and "live b oid gid h"
  shows "(\<exists>g. live a oid gid g \<and> grant_evolves g h) \<or> admitted now a h"
  using assms
proof (induction arbitrary: h rule: rtranclp_induct)
  case base
  then show ?case by (auto simp: grant_evolves_def)
next
  case (step b c)
  from live_change [OF step.hyps(2) step.prems] show ?case
  proof (elim disjE exE conjE)
    fix g assume g: "live b oid gid g" "grant_evolves g h"
    from step.IH [OF g(1)] show ?thesis
    proof (elim disjE exE conjE)
      fix f assume "live a oid gid f" "grant_evolves f g"
      with g(2) show ?thesis by (blast intro: grant_evolves_trans)
    next
      assume "admitted now a g"
      with g(2) show ?thesis by (simp add: admitted_def grant_evolves_def)
    qed
  next
    assume adm: "admitted now b h"
    have "au_lastGeneration a \<le> au_lastGeneration b" by (rule generation_changes [OF step.hyps(1)])
    with adm changes_flags [OF step.hyps(1)] have "admitted now a h" unfolding admitted_def by (metis order.strict_trans1)
    then show ?thesis ..
  qed
qed

lemma busy_change:
  assumes "change now al a b" and "busyRes a rid" and "rid \<notin> al_ending al"
  shows "busyRes b rid \<and> resGrants b rid = resGrants a rid"
  using assms
proof (induction rule: change.induct)
  case (change_prim a b)
  from change_prim(2) obtain r where r: "gget (au_objects a) rid = Some r" "rs_busy r" by (auto simp: busyRes_def split: option.splits)
  from flags_prim [OF change_prim(1) r(1)] r(2) have "busyRes b rid" by (auto simp: flags_def busyRes_def)
  with busy_prim [OF change_prim(1) r change_prim(3)] show ?case by simp
qed (auto simp: holdRes_def updRes_def busyRes_def resGrants_def gupd_view split: option.splits)

lemma busy_changes:
  assumes "changes now al a b" and "busyRes a rid" and "rid \<notin> al_ending al"
  shows "busyRes b rid \<and> resGrants b rid = resGrants a rid"
  using assms
proof (induction rule: rtranclp_induct)
  case (step b c)
  then show ?case using busy_change [OF step.hyps(2)] by auto
qed simp

end
