(* ===== verification/LockAdmission.thy ===== *)
theory LockAdmission
  imports LockChanges
begin

text \<open>
  What the admission of a publication checks: every live grant on a target is the exclusive,
  unexpired grant that the caller proved.
\<close>

section \<open>Admission of publications\<close>

lemma getGrant_expireGrants:
  assumes "getGrant a oid gid = Some g"
  shows "\<exists>g'. getGrant (expireGrantsLocked rid t a) oid gid = Some g' \<and> gt_ref g' = gt_ref g \<and> gt_deadline g' = gt_deadline g
    \<and> gt_resource g' = gt_resource g \<and> gt_mode g' = gt_mode g \<and> (gt_state g' = gt_state g \<or> gt_deadline g \<le> t)"
proof -
  let ?P = "\<lambda>b. \<exists>g'. getGrant b oid gid = Some g' \<and> gt_ref g' = gt_ref g \<and> gt_deadline g' = gt_deadline g
    \<and> gt_resource g' = gt_resource g \<and> gt_mode g' = gt_mode g \<and> (gt_state g' = gt_state g \<or> gt_deadline g \<le> t)"
  have "?P (if \<not> t < deadlineOf b oid' gid' then endGrantLocked oid' gid' Expired b else b)" if "?P b" for b oid' gid'
  proof -
    from that obtain g' where g': "getGrant b oid gid = Some g'" "gt_ref g' = gt_ref g" "gt_deadline g' = gt_deadline g"
      "gt_resource g' = gt_resource g" "gt_mode g' = gt_mode g" "gt_state g' = gt_state g \<or> gt_deadline g \<le> t" by blast
    let ?h = "if oid' = oid \<and> gid' = gid \<and> \<not> t < gt_deadline g' \<and> gt_state g' = Active then g'\<lparr>gt_state := Expired\<rparr> else g'"
    from g' have "getGrant (if \<not> t < deadlineOf b oid' gid' then endGrantLocked oid' gid' Expired b else b) oid gid = Some ?h"
      by (auto simp: getGrant_endGrant deadlineOf_def)
    with g' show ?thesis by (intro exI [of _ ?h]) auto
  qed
  then have "?P (fold (\<lambda>(gid, oid) a. if \<not> t < deadlineOf a oid gid then endGrantLocked oid gid Expired a else a) (resGrants a rid) a)"
    by (intro fold_keeps [where P = ?P]) (use assms in auto)
  with assms show ?thesis by (simp add: expireGrantsLocked_def)
qed

definition proven :: "OwnerID \<Rightarrow> GrantRef list \<Rightarrow> instant \<Rightarrow> Authority \<Rightarrow> ResourceID \<Rightarrow> GrantID \<Rightarrow> bool" where
  "proven oid refs limit a rid gid \<longleftrightarrow>
     (\<exists>g. getGrant a oid gid = Some g \<and> gt_ref g \<in> set refs \<and> gr_ID (gt_ref g) = gid \<and> gr_Resource (gt_ref g) = rid
        \<and> (gt_state g = Active \<or> gt_deadline g \<le> limit))"

lemma proven_expire:
  assumes "proven oid refs limit a rid gid" and "t \<le> limit"
  shows "proven oid refs limit (expireGrantsLocked rid' t a) rid gid"
proof -
  from assms(1) obtain g where g: "getGrant a oid gid = Some g" "gt_ref g \<in> set refs" "gr_ID (gt_ref g) = gid" "gr_Resource (gt_ref g) = rid"
    "gt_state g = Active \<or> gt_deadline g \<le> limit" by (auto simp: proven_def)
  from getGrant_expireGrants [OF g(1), of rid' t] obtain g' where "getGrant (expireGrantsLocked rid' t a) oid gid = Some g'"
    "gt_ref g' = gt_ref g" "gt_deadline g' = gt_deadline g" "gt_state g' = gt_state g \<or> gt_deadline g \<le> t" by blast
  with g assms(2) show ?thesis by (auto simp: proven_def)
qed

lemma proven_look:
  "proven oid refs limit a rid gid \<Longrightarrow> t \<le> limit \<Longrightarrow> proven oid refs limit (fst (grantLockedForOwner mac t oid' ref a)) rid gid"
  by (auto simp: grantLockedForOwner_def Let_def intro: proven_expire split: sum.split option.split)

lemma look_ref:
  assumes "snd (grantLockedForOwner mac t oid ref a) = Inr g"
  shows "gt_ref g = ref"
proof -
  from assms obtain g0 where g0: "getGrant a oid (gr_ID ref) = Some g0" "gt_ref g0 = ref"
    and g: "getGrant (expireGrantsLocked (gt_resource g0) t a) oid (gr_ID ref) = Some g"
    by (auto simp: grantLockedForOwner_def Let_def split: sum.splits option.splits if_splits)
  from getGrant_expireGrants [OF g0(1), of "gt_resource g0" t] g g0(2) show ?thesis by auto
qed

lemma publishProofs_proven:
  assumes "publishProofs mac clk oid keys proofList proofs a = (b, Inr proofs')" and "\<And>i. i < 2 * length proofList \<Longrightarrow> clk i \<le> limit" and "set proofList \<subseteq> set refs"
    and "\<forall>rid gid. gget proofs rid = Some gid \<longrightarrow> proven oid refs limit a rid gid"
  shows "\<forall>rid gid. gget proofs' rid = Some gid \<longrightarrow> proven oid refs limit b rid gid"
  using assms
proof (induction proofList arbitrary: clk proofs a)
  case (Cons p rest)
  obtain a1 res where look: "grantLockedForOwner mac (clk 0) oid p a = (a1, res)" by (cases "grantLockedForOwner mac (clk 0) oid p a")
  with Cons.prems(1) obtain g r where res: "res = Inr g" and act: "gt_state g = Active"
    and rest: "publishProofs mac (\<lambda>i. clk (2 + i)) oid keys rest (gput (gr_Resource p) (gr_ID p) proofs) a1 = (b, Inr proofs')"
    by (auto split: sum.splits option.splits if_splits)
  have g: "getGrant a1 oid (gr_ID p) = Some g" "gt_ref g = p"
    using grantLocked_found [of mac "clk 0" oid p a g] look_ref [of mac "clk 0" oid p a g] look res by simp_all
  have "proven oid refs limit a1 rid gid" if "gget (gput (gr_Resource p) (gr_ID p) proofs) rid = Some gid" for rid gid
  proof (cases "rid = gr_Resource p \<and> gid = gr_ID p")
    case True
    with g act Cons.prems(3) show ?thesis by (auto simp: proven_def)
  next
    case False
    with that have "gget proofs rid = Some gid" by (auto split: if_splits)
    with Cons.prems(4) proven_look [of oid refs limit a rid gid "clk 0" mac oid p] Cons.prems(2) [of 0] look show ?thesis by auto
  qed
  with Cons.IH [OF rest] Cons.prems(2,3) show ?case by auto
qed simp

lemma resGrants_markBusy: "resGrants (markBusy flag rids a) rid = resGrants a rid"
  by (cases "gget (au_objects a) rid") (auto simp: resGrants_def objects_markBusy)

lemma live_resGrants:
  assumes "grants_inv a" and "live a oid gid g"
  shows "gget (resGrants a (gt_resource g)) gid = Some oid" and "\<exists>r. gget (au_objects a) (gt_resource g) = Some r"
proof -
  have lk: "links_ok a" using assms(1) by (simp add: grants_inv_def)
  have "gget (au_objects a) (gt_resource g) \<noteq> None" using lk assms(2) unfolding links_ok_def live_def by blast
  then obtain r where r: "gget (au_objects a) (gt_resource g) = Some r" by blast
  with lk assms(2) have "gget (rs_grants r) gid = Some oid" unfolding links_ok_def by blast
  with r show "gget (resGrants a (gt_resource g)) gid = Some oid" "\<exists>r. gget (au_objects a) (gt_resource g) = Some r"
    by (simp_all add: resGrants_def)
qed

text \<open>A live grant on a resource that is protected is the exclusive grant that was proven.\<close>

lemma protected_live:
  assumes inv: "grants_inv b" and prot: "protectedBy b oid proofs rid"
    and ok: "\<And>gid. gget proofs rid = Some gid \<Longrightarrow> proven oid refs limit b rid gid \<and> limit < deadlineOf b oid gid"
    and live: "live b oid' gid' g'" "gt_resource g' = rid"
  shows "oid' = oid \<and> gt_mode g' = Exclusive \<and> gt_ref g' \<in> set refs \<and> limit < gt_deadline g'"
proof -
  have "resGrants b rid \<noteq> []" using live_resGrants(1) [OF inv live(1)] live(2) by auto
  with prot obtain gid where gid: "gget proofs rid = Some gid" "modeOf b oid gid = Exclusive" by (auto simp: protectedBy_def split: option.splits)
  from ok [OF gid(1)] obtain g where g: "getGrant b oid gid = Some g" "gt_ref g \<in> set refs" "gr_Resource (gt_ref g) = rid"
    "gt_state g = Active \<or> gt_deadline g \<le> limit" "limit < gt_deadline g" by (auto simp: proven_def deadlineOf_def)
  then have lg: "live b oid gid g" by (auto simp: live_def)
  have "gr_Resource (gt_ref g) = gt_resource g" using inv g(1) unfolding grants_inv_def links_ok_def by blast
  then have res: "gt_resource g = rid" using g(3) by simp
  have mode: "gt_mode g = Exclusive" using gid(2) g(1) by (simp add: modeOf_def)
  have "excl_ok b" using inv by (simp add: grants_inv_def)
  moreover have same: "gt_resource g' = gt_resource g" using live(2) res by simp
  ultimately have "(oid', gid') = (oid, gid) \<or> gt_mode g \<noteq> Exclusive" using live(1) lg unfolding excl_ok_def by blast
  with mode have "oid' = oid \<and> gid' = gid" by simp
  with live lg g mode show ?thesis by (auto simp: live_def)
qed

lemma publishAdmit_guarded:
  assumes inv: "auth_inv t a" and clk: "mono clk" and adm: "publishAdmit mac ctxErr clk publication a = (c, Inr (keys, rids))"
    and live: "live c oid gid g" and r: "gget (au_objects c) (gt_resource g) = Some r" "rs_key r \<in> set (pb_Targets publication)"
  shows "gt_resource g \<in> set rids \<and> oid = or_Owner (sc_Owner (pb_Scope publication)) \<and> gt_mode g = Exclusive
    \<and> gt_ref g \<in> set (sc_Grants (pb_Scope publication)) \<and> clk (4 + 2 * length (sc_Grants (pb_Scope publication))) < gt_deadline g"
proof -
  let ?scope = "pb_Scope publication"
  let ?oid = "or_Owner (sc_Owner ?scope)" and ?pl = "sc_Grants ?scope"
  let ?limit = "clk (4 + 2 * length ?pl)"
  define tg where "tg = publishTargets (\<lambda>i. clk (2 + i)) (pb_Targets publication) [] [] (expireSessionsLocked (clk 1) a)"
  define pf where "pf keys = publishProofs mac (\<lambda>i. clk (4 + i)) ?oid keys ?pl [] (fst tg)" for keys
  define b where "b = fst (pf keys)"
  note form = publishAdmit_form [OF tg_def pf_def, of ctxErr, unfolded adm]
  from form obtain proofs where proofs: "snd (pf keys) = Inr proofs" and prot: "list_all (protectedBy b ?oid proofs) rids"
    and late: "\<not> list_ex (\<lambda>(_, gid). \<not> ?limit < deadlineOf b ?oid gid) proofs" and h: "healthyLocked ctxErr True (clk 0) a = None"
    by (auto simp: Let_def b_def split: option.splits sum.splits if_splits)
  from publishAdmit_cases [OF inv adm, of nothing] obtain b' where run: "runs t nothing a b'" and calm: "calm b' = calm a"
    and c': "c = (markBusy True rids b')\<lparr>au_publications := au_publications b' + 1\<rparr>"
    and keys: "set keys = set (pb_Targets publication)" "set rids = {rid. \<exists>key \<in> set keys. gget (au_keys b') key = Some rid}" by auto
  have c: "c = (markBusy True rids b)\<lparr>au_publications := au_publications b + 1\<rparr>"
    using form by (auto simp: Let_def b_def split: option.splits sum.splits if_splits)
  have run_b: "runs t nothing a b" unfolding b_def pf_def tg_def by (intro runs_intros)
  then have invb: "auth_inv t b" using inv by (rule auth_inv_runs)
  have calm_b: "calm b = calm a" unfolding b_def pf_def tg_def by simp
  have live_b: "live b oid gid g" using live by (simp add: c live_def getGrant_def)
  obtain rb where rb: "gget (au_objects b) (gt_resource g) = Some rb" "rs_key rb = rs_key r"
    using r(1) by (auto simp: c objects_markBusy)
  have grants: "grants_inv b" and kinv: "keys_inv b" using invb by (simp_all add: auth_inv_def base_inv_def)
  have "\<not> au_closed b" using healthy_flags(2) [OF h] calm_same(12) [OF calm_b] by simp
  moreover have "\<not> quiet rb"
    using live_resGrants(1) [OF grants live_b] rb(1) by (auto simp: quiet_def resGrants_def)
  ultimately have "gt_resource g \<in> set (au_resources b)" using kinv rb(1) by (auto simp: keys_inv_def forgotten_quiet_def)
  with kinv rb have "gget (au_keys b) (rs_key r) = Some (gt_resource g)" by (auto simp: keys_inv_def keys_exact_def)
  moreover have "au_keys b' = au_keys b" using calm_same(7) [OF calm] calm_same(7) [OF calm_b] by simp
  ultimately have rid: "gt_resource g \<in> set rids" using keys r(2) by auto
  have "publishProofs mac (\<lambda>i. clk (4 + i)) ?oid keys ?pl [] (fst tg) = (b, Inr proofs)"
    using proofs by (cases "pf keys") (simp add: b_def pf_def)
  from publishProofs_proven [OF this, of ?limit ?pl] have "\<forall>rid gid. gget proofs rid = Some gid \<longrightarrow> proven ?oid ?pl ?limit b rid gid"
    using clk by (auto simp: mono_def)
  moreover have "?limit < deadlineOf b ?oid gid" if "gget proofs rid = Some gid" for rid gid
    using late gget_in_set [OF that] by (auto simp: list_ex_iff)
  ultimately have "oid = ?oid \<and> gt_mode g = Exclusive \<and> gt_ref g \<in> set ?pl \<and> ?limit < gt_deadline g"
    by (intro protected_live [OF grants, where proofs = proofs, OF _ _ live_b refl]) (use prot rid in \<open>auto simp: list_all_iff\<close>)
  with rid show ?thesis by simp
qed

end
