(* ===== verification/LockMaintain.thy ===== *)
theory LockMaintain
  imports LockAdmission
begin

text \<open>
  What one maintenance scan establishes for every resource: no expired lease and no expired
  wait is left, a queue has a worker, and the next wake-up comes before the next deadline.
\<close>

section \<open>What one maintenance scan establishes\<close>

definition leases_fresh :: "instant \<Rightarrow> instant \<Rightarrow> ResourceID \<Rightarrow> Authority \<Rightarrow> bool" where
  "leases_fresh t wake rid b \<longleftrightarrow>
     (\<not> busyRes b rid \<longrightarrow> (\<forall>oid gid g. live b oid gid g \<longrightarrow> gt_resource g = rid \<longrightarrow> t < gt_deadline g \<and> wake \<le> gt_deadline g))"

definition waits_fresh :: "instant \<Rightarrow> instant \<Rightarrow> ResourceID \<Rightarrow> Authority \<Rightarrow> bool" where
  "waits_fresh t wake rid b \<longleftrightarrow>
     (\<forall>(oid, req) \<in> set (resQueue b rid). \<forall>x. getAct b oid req = Some x \<longrightarrow> rc_Outcome (ac_receipt x) = Pending
        \<longrightarrow> (\<exists>until. ac_waitUntil x = Some until \<and> t < until \<and> wake \<le> until))"

definition served :: "ResourceID \<Rightarrow> Authority \<Rightarrow> bool" where
  "served rid b \<longleftrightarrow> (\<forall>r. gget (au_objects b) rid = Some r \<longrightarrow> rs_queue r \<noteq> [] \<longrightarrow> rs_worker r \<or> au_closed b \<or> au_fenced b \<noteq> None)"

definition settled :: "instant \<Rightarrow> instant \<Rightarrow> ResourceID \<Rightarrow> Authority \<Rightarrow> bool" where
  "settled t wake rid b \<longleftrightarrow> leases_fresh t wake rid b \<and> waits_fresh t wake rid b \<and> served rid b"

lemma settled_wake: "settled t wake rid b \<Longrightarrow> wake' \<le> wake \<Longrightarrow> settled t wake' rid b"
  unfolding settled_def leases_fresh_def waits_fresh_def by fastforce

lemma endGrant_queue [simp]: "resQueue (endGrantLocked oid gid state b) rid = resQueue b rid"
  by (auto simp: resQueue_def endGrantLocked_def updRes_def updOwn_def gupd_view split: option.split)

lemma settled_endGrant:
  assumes "settled t wake rid b" and "state \<noteq> Active"
  shows "settled t wake rid (endGrantLocked oid gid state b)"
proof -
  have "served rid (endGrantLocked oid gid state b)"
    using assms(1) by (auto simp: settled_def served_def endGrantLocked_def updRes_def updOwn_def gupd_view split: option.splits)
  with assms show ?thesis
    by (auto simp: settled_def leases_fresh_def waits_fresh_def live_end calm_busy [OF calm_ops(1)])
qed

lemma finish_queue: "set (resQueue (finishLocked oid req outcome code b) rid) \<subseteq> set (resQueue b rid)"
  by (cases "gget (au_objects b) rid")
    (auto simp: resQueue_def finishLocked_def Let_def updRes_def updOwn_def updAct_def gupd_view split: option.splits if_splits
      dest: set_remove1_subset [THEN subsetD])

lemma live_finish [simp]: "live (finishLocked oid req outcome code b) = live b"
  by (auto simp: fun_eq_iff live_def getGrant_def finishLocked_def Let_def updRes_def updOwn_def updAct_def split: option.splits)

lemma settled_finish:
  assumes "settled t wake rid b" and "outcome \<noteq> Pending"
  shows "settled t wake rid (finishLocked oid req outcome code b)"
proof -
  have "served rid (finishLocked oid req outcome code b)"
    using assms(1) by (auto simp: settled_def served_def finishLocked_def Let_def updRes_def updOwn_def updAct_def gupd_view split: option.splits)
  moreover have "waits_fresh t wake rid (finishLocked oid req outcome code b)"
    using assms finish_queue [of oid req outcome code b rid]
    by (fastforce simp: settled_def waits_fresh_def getAct_finish split: if_splits)
  ultimately show ?thesis
    using assms by (simp add: settled_def leases_fresh_def calm_busy [OF calm_ops(2)])
qed

lemma settled_expire:
  assumes "settled t wake rid b"
  shows "settled t wake rid (expireGrantsLocked rid' t' b)" "settled t wake rid (expireQueuedLocked rid' t' b)"
  unfolding expireGrantsLocked_def expireQueuedLocked_def using assms
  by (auto intro!: fold_keeps [where P = "settled t wake rid"] settled_endGrant settled_finish)

lemma settled_worker: "settled t wake rid b \<Longrightarrow> settled t wake rid (startWorkerLocked rid' b)"
  by (auto simp: startWorkerLocked_def settled_def leases_fresh_def waits_fresh_def served_def updRes_def live_def busyRes_def resQueue_def gupd_view
      split: option.splits)

lemma settled_forgetting: "settled t wake rid b \<Longrightarrow> settled t wake rid (updRes rid' (\<lambda>r. r\<lparr>rs_forgetting := True\<rparr>) b)"
  by (auto simp: settled_def leases_fresh_def waits_fresh_def served_def updRes_def live_def busyRes_def resQueue_def gupd_view split: option.splits)

text \<open>The work of the scan on one resource.\<close>

lemma live_after_expiry:
  assumes inv: "grants_inv a" and free: "\<not> busyRes a rid" and live: "live (expireGrantsLocked rid t a) oid gid g" "gt_resource g = rid"
  shows "t < gt_deadline g"
proof -
  let ?f = "\<lambda>(gid, oid) a. if \<not> t < deadlineOf a oid gid then endGrantLocked oid gid Expired a else a"
  have ended: "t < gt_deadline h" if "live (fold ?f xs b) oid gid h" "(gid, oid) \<in> set xs" for xs b h
    using that
  proof (induction xs arbitrary: b)
    case (Cons x xs)
    let ?P = "\<lambda>b. \<forall>h. live b oid gid h \<longrightarrow> t < gt_deadline h"
    show ?case
    proof (cases "x = (gid, oid)")
      case True
      have "deadlineOf b oid gid = gt_deadline h" if "live b oid gid h" for h using that by (simp add: live_def deadlineOf_def)
      then have "?P (?f x b)" unfolding True by (auto simp: live_end)
      moreover have "?P (?f y c)" if "?P c" for y c using that by (auto simp: live_end split: prod.split)
      ultimately have "?P (fold ?f xs (?f x b))" by (intro fold_keeps [where P = ?P]) auto
      with Cons.prems(1) show ?thesis by simp
    next
      case False
      with Cons.prems show ?thesis by (intro Cons.IH [of "?f x b"]) auto
    qed
  qed simp
  have "live a oid gid g" by (rule live_expireGrants [OF live(1)])
  from live_resGrants(1) [OF inv this] live(2) have "(gid, oid) \<in> set (resGrants a rid)" by (auto dest: gget_in_set)
  with ended [of "resGrants a rid" a g] live(1) free show ?thesis by (simp add: expireGrantsLocked_def)
qed

lemma waits_after_expiry:
  assumes "queue_inv a" "base_inv a" and entry: "(oid, req) \<in> set (resQueue (expireQueuedLocked rid t a) rid)"
    and x: "getAct (expireQueuedLocked rid t a) oid req = Some x" "rc_Outcome (ac_receipt x) = Pending"
  shows "\<exists>until. ac_waitUntil x = Some until \<and> t < until"
proof -
  let ?f = "\<lambda>entry a. if waitOver t a entry then finishLocked (fst entry) (snd entry) TimedOut None a else a"
  let ?P = "\<lambda>b. \<forall>x. getAct b oid req = Some x \<longrightarrow> rc_Outcome (ac_receipt x) = Pending \<longrightarrow> (\<exists>until. ac_waitUntil x = Some until \<and> t < until)"
  have keep: "?P (?f e b)" if "?P b" for e b using that by (auto simp: getAct_finish)
  have over: "?P (fold ?f xs b)" if "(oid, req) \<in> set xs" for xs b
    using that
  proof (induction xs arbitrary: b)
    case (Cons e xs)
    show ?case
    proof (cases "e = (oid, req)")
      case True
      have "?P (?f e b)"
        unfolding True by (cases "waitOver t b (oid, req)") (auto dest: finish_settled, auto simp: waitOver_def split: option.splits)
      then have "?P (fold ?f xs (?f e b))" using keep by (intro fold_keeps [where P = ?P]) auto
      then show ?thesis by simp
    next
      case False
      with Cons show ?thesis by simp
    qed
  qed simp
  have sub: "set (resQueue (fold ?f xs b) rid) \<subseteq> set (resQueue b rid)" for xs b
    by (rule fold_keeps [where P = "\<lambda>c. set (resQueue c rid) \<subseteq> set (resQueue b rid)"]) (auto dest: finish_queue [THEN subsetD])
  have "(oid, req) \<in> set (rev (resQueue a rid))" using entry sub [of "rev (resQueue a rid)" a] by (auto simp: expireQueuedLocked_def)
  from over [OF this, of a] x show ?thesis by (simp add: expireQueuedLocked_def)
qed

lemma wake_fold:
  fixes f :: "'x \<Rightarrow> instant \<Rightarrow> instant"
  assumes "\<And>x n. f x n \<le> n"
  shows "fold f xs n \<le> n"
  using assms by (induction xs arbitrary: n) (auto intro: order_trans)

lemma wake_fold_member:
  fixes f :: "'x \<Rightarrow> instant \<Rightarrow> instant"
  assumes dec: "\<And>x n. f x n \<le> n" and x: "x \<in> set xs" "\<And>n. f x n \<le> m"
  shows "fold f xs n \<le> m"
  using x
proof (induction xs arbitrary: n)
  case (Cons y ys)
  show ?case
  proof (cases "y = x")
    case True
    with wake_fold [of f, OF dec, of ys "f x n"] Cons.prems(2) [of n] show ?thesis by (auto intro: order_trans)
  qed (use Cons in auto)
qed simp

lemma resourceNext_le: "resourceNext t rid a wake \<le> wake"
  by (auto simp: resourceNext_def Let_def intro!: order_trans [OF wake_fold] split: option.split prod.split)

lemma maintainResource_settles:
  assumes step: "maintainResource t rid (a, wake, forgotten) = (b, wake', forgotten')" and inv: "auth_inv now a"
  shows "settled t wake' rid b" and "wake' \<le> wake"
proof -
  let ?b1 = "expireGrantsLocked rid t a"
  let ?b2 = "expireQueuedLocked rid t ?b1"
  let ?c = "startWorkerLocked rid ?b2"
  have inv1: "auth_inv now ?b1" by (rule auth_inv_runs [OF runs_sections(2) [OF runs_refl [of now nothing]] inv])
  have inv2: "auth_inv now ?b2" by (rule auth_inv_runs [OF runs_sections(3) [OF runs_refl [of now nothing]] inv1])
  have invc: "auth_inv now ?c" by (rule auth_inv_runs [OF runs_sections(6) [OF runs_refl [of now nothing]] inv2])
  have wake: "wake' = resourceNext t rid ?c wake" using step by (auto simp: maintainResource_def Let_def split: option.splits if_splits)
  then show "wake' \<le> wake" by (simp add: resourceNext_le)
  have getters: "getAct ?c = getAct ?b2" "live ?c = live ?b2" "resQueue ?c rid' = resQueue ?b2 rid'" "resGrants ?c rid' = resGrants ?b2 rid'" for rid'
    by (auto simp: startWorkerLocked_def updRes_def fun_eq_iff live_def resQueue_def resGrants_def gupd_view split: option.splits)
  have liveb: "live ?b2 = live ?b1"
    unfolding expireQueuedLocked_def by (rule fold_same [where g = live]) simp
  have leases: "t < gt_deadline g \<and> wake' \<le> gt_deadline g"
    if free: "\<not> busyRes ?c rid" and g: "live ?c oid gid g" "gt_resource g = rid" for oid gid g
  proof -
    have late: "t < gt_deadline g"
      by (rule live_after_expiry [of a rid t oid gid])
        (use inv free g in \<open>auto simp: auth_inv_def base_inv_def getters liveb calm_busy [OF calm_ops(5)] calm_busy [OF calm_expireQueued] calm_busy [OF calm_expireGrants]\<close>)
    obtain r where r: "gget (au_objects ?c) rid = Some r"
      using live_resGrants(2) [of ?c oid gid g] invc g by (auto simp: auth_inv_def base_inv_def)
    have mem: "(gid, oid) \<in> set (rs_grants r)"
      using live_resGrants(1) [of ?c oid gid g] invc g r by (auto simp: auth_inv_def base_inv_def resGrants_def dest: gget_in_set)
    have dl: "deadlineOf ?c oid gid = gt_deadline g" using g(1) by (simp add: live_def deadlineOf_def)
    show ?thesis
      unfolding wake resourceNext_def r Let_def option.case
      by (intro conjI late order_trans [OF wake_fold] wake_fold_member [OF _ mem]) (use dl late in \<open>auto split: prod.split\<close>)
  qed
  have waits: "\<exists>until. ac_waitUntil x = Some until \<and> t < until \<and> wake' \<le> until"
    if e: "(oid, req) \<in> set (resQueue ?c rid)" and x: "getAct ?c oid req = Some x" "rc_Outcome (ac_receipt x) = Pending" for oid req x
  proof -
    from waits_after_expiry [of ?b1 oid req rid t x] inv1 e x obtain until where until: "ac_waitUntil x = Some until" "t < until"
      by (auto simp: auth_inv_def getters)
    obtain r where r: "gget (au_objects ?c) rid = Some r" "(oid, req) \<in> set (rs_queue r)" using e by (cases "gget (au_objects ?c) rid") (auto simp: resQueue_def)
    have "waitUntilOf ?c oid req = until" using x until by (simp add: waitUntilOf_def)
    then have "wake' \<le> until"
      unfolding wake resourceNext_def r(1) Let_def option.case by (intro wake_fold_member [OF _ r(2)]) (auto split: prod.split)
    with until show ?thesis by blast
  qed
  have "served rid ?c" by (auto simp: served_def startWorkerLocked_def updRes_def split: option.splits)
  with leases waits have "settled t wake' rid ?c" by (auto simp: settled_def leases_fresh_def waits_fresh_def)
  then show "settled t wake' rid b"
    using step settled_forgetting by (auto simp: maintainResource_def Let_def split: option.splits if_splits)
qed

lemma settled_maintain:
  assumes "maintainResource t rid' (a, wake, forgotten) = (b, wake', forgotten')" and "settled t wake rid a"
  shows "settled t wake' rid b"
proof -
  have le: "wake' \<le> wake" using assms(1) by (auto simp: maintainResource_def Let_def resourceNext_le split: option.splits if_splits)
  let ?c = "startWorkerLocked rid' (expireQueuedLocked rid' t (expireGrantsLocked rid' t a))"
  have "settled t wake rid ?c" using assms(2) by (intro settled_worker settled_expire)
  then have "settled t wake rid b"
    using assms(1) settled_forgetting by (auto simp: maintainResource_def Let_def split: option.splits if_splits)
  with le show ?thesis by (blast intro: settled_wake)
qed

lemma maintainFold_settles:
  assumes "fold (maintainResource t) rids (a, wake, forgotten) = (b, wake', forgotten')" and "auth_inv now a"
    and "\<forall>rid \<in> seen. settled t wake rid a"
  shows "(\<forall>rid \<in> seen \<union> set rids. settled t wake' rid b) \<and> wake' \<le> wake"
  using assms
proof (induction rids arbitrary: a wake forgotten seen)
  case (Cons rid rids)
  obtain c n f where c: "maintainResource t rid (a, wake, forgotten) = (c, n, f)" by (cases "maintainResource t rid (a, wake, forgotten)")
  have "runs now nothing a (fst (maintainResource t rid (a, wake, forgotten)))" by (rule runs_maintainResource) (simp add: runs_refl)
  then have inv: "auth_inv now c" using c Cons.prems(2) by (auto intro: auth_inv_runs)
  have "\<forall>rid' \<in> insert rid seen. settled t n rid' c"
    using maintainResource_settles(1) [OF c Cons.prems(2)] settled_maintain [OF c] Cons.prems(3) by auto
  from Cons.IH [OF _ inv this, of f] Cons.prems(1) c maintainResource_settles(2) [OF c Cons.prems(2)] show ?case by auto
qed auto

end
