(* ===== verification/LockSamples.thy ===== *)
theory LockSamples
  imports LockMaintain
begin

text \<open>
  A concrete run of the lock system for the witnesses: a session with two owners and a
  resource that is resolved, leased exclusively with the second owner waiting, shared by both,
  and written under the exclusive lease.
\<close>

section \<open>A run of the lock system\<close>

text \<open>A short keyed hash keeps the capability texts of the samples short.\<close>

definition lockMac :: "string \<Rightarrow> nat list" where
  "lockMac m = [length m mod 256]"

definition lkOptions :: Options where
  "lkOptions = DefaultOptions\<lparr>opt_TicketTTL := Millisecond\<rparr>"

definition lkSid :: SessionID where "lkSid = ''s.AQ.Aw..CQ''"
definition lkOidA :: OwnerID where "lkOidA = ''o.AQ.BA..FA''"
definition lkOidB :: OwnerID where "lkOidB = ''o.AQ.BQ..FA''"
definition lkRid :: ResourceID where "lkRid = ''r.AQ.Bg..CQ''"
definition lkGid :: GrantID where "lkGid = ''g.AQ.Bw..Ig''"
definition lkTicket :: EnrollmentTicket where "lkTicket = ''t.AQ.Ag.1.Cg''"

definition lkOwnerA :: OwnerRef where "lkOwnerA = \<lparr>or_Session = lkSid, or_Owner = lkOidA\<rparr>"
definition lkOwnerB :: OwnerRef where "lkOwnerB = \<lparr>or_Session = lkSid, or_Owner = lkOidB\<rparr>"
definition lkRef :: ResourceRef where
  "lkRef = \<lparr>rr_ID = lkRid, rr_ExpiresMillis = 60000, rr_NowMillis = 0, rr_HistoryExpiresMillis = 600000\<rparr>"
definition lkGrant :: GrantRef where "lkGrant = \<lparr>gr_ID = lkGid, gr_Resource = lkRid, gr_Generation = 1\<rparr>"

definition lkAcquireA :: AcquireRequest where
  "lkAcquireA = \<lparr>aq_Owner = lkOwnerA, aq_Request = ''r'', aq_Resource = lkRef, aq_Mode = Exclusive, aq_TTL = 1000000000, aq_Wait = 0\<rparr>"
definition lkAcquireB :: AcquireRequest where
  "lkAcquireB = \<lparr>aq_Owner = lkOwnerB, aq_Request = ''r'', aq_Resource = lkRef, aq_Mode = Shared, aq_TTL = 1000000000, aq_Wait = 1000000000\<rparr>"

definition lkActionA :: actionRecord where
  "lkActionA =
     \<lparr>ac_receipt = \<lparr>rc_Kind = AcquireAction, rc_Request = ''r'', rc_Acquire = Some lkAcquireA, rc_Renew = None, rc_Outcome = Granted,
        rc_Code = None, rc_Grant = Some lkGrant, rc_DeadlineMillis = 1000, rc_Revision = 1\<rparr>,
      ac_resource = Some lkRid, ac_waitUntil = None, ac_grant = Some lkGid, ac_cancel = None, ac_tombstone = False,
      ac_processing = False, ac_failure = None\<rparr>"
definition lkActionB :: actionRecord where
  "lkActionB =
     \<lparr>ac_receipt = \<lparr>rc_Kind = AcquireAction, rc_Request = ''r'', rc_Acquire = Some lkAcquireB, rc_Renew = None, rc_Outcome = Pending,
        rc_Code = None, rc_Grant = None, rc_DeadlineMillis = 0, rc_Revision = 0\<rparr>,
      ac_resource = Some lkRid, ac_waitUntil = Some 1000000000, ac_grant = None, ac_cancel = None, ac_tombstone = False,
      ac_processing = False, ac_failure = None\<rparr>"
definition lkLease :: grantRecord where
  "lkLease = \<lparr>gt_resource = lkRid, gt_ref = lkGrant, gt_mode = Exclusive, gt_state = Active, gt_deadline = 1000000000, gt_revision = 1, gt_release = None\<rparr>"

text \<open>Two owners of one session and one resource: resolved, granted to the first owner, and with
  the second owner waiting in its queue.\<close>

definition lkResolved :: Authority where
  "lkResolved =
     \<lparr>au_options = lkOptions, au_start = 0, au_recoveryUntil = 0, au_watermark = 0, au_incarnation = ''AQ'',
      au_sessions = [(lkSid, \<lparr>se_id = lkSid, se_expires = 600000000000, se_owners = [lkOidB, lkOidA],
                              se_creates = [(''c1'', lkOidA), (''c2'', lkOidB)]\<rparr>)],
      au_owners = [(lkOidA, \<lparr>ow_ref = lkOwnerA, ow_actions = [], ow_grants = [], ow_liveGrants = 0, ow_queued = 0\<rparr>),
                   (lkOidB, \<lparr>ow_ref = lkOwnerB, ow_actions = [], ow_grants = [], ow_liveGrants = 0, ow_queued = 0\<rparr>)],
      au_tickets = [(lkTicket, \<lparr>tk_session = lkSid, tk_expires = 1000000\<rparr>)],
      au_objects = [(lkRid, \<lparr>rs_id = lkRid, rs_key = ''k'', rs_referenceUntil = 60000000000, rs_grants = [], rs_queue = [],
                             rs_busy = False, rs_retired = False, rs_worker = False, rs_holds = 0, rs_forgetting = False\<rparr>)],
      au_resources = [lkRid], au_keys = [(''k'', lkRid)], au_lastGeneration = 0, au_actions = 0, au_grants = 0, au_queued = 0,
      au_publications = 0, au_nativeCalls = 0, au_fenced = None, au_closed = False, au_closeErr = None\<rparr>"

definition lkGranted :: Authority where
  "lkGranted = lkResolved
     \<lparr>au_watermark := 1000000000,
      au_owners := [(lkOidA, \<lparr>ow_ref = lkOwnerA, ow_actions = [(''r'', lkActionA)], ow_grants = [(lkGid, lkLease)], ow_liveGrants = 1, ow_queued = 0\<rparr>),
                    (lkOidB, \<lparr>ow_ref = lkOwnerB, ow_actions = [], ow_grants = [], ow_liveGrants = 0, ow_queued = 0\<rparr>)],
      au_objects := [(lkRid, \<lparr>rs_id = lkRid, rs_key = ''k'', rs_referenceUntil = 60000000000, rs_grants = [(lkGid, lkOidA)], rs_queue = [],
                              rs_busy = False, rs_retired = False, rs_worker = False, rs_holds = 0, rs_forgetting = False\<rparr>)],
      au_lastGeneration := 1, au_actions := 1, au_grants := 1\<rparr>"

definition lkQueued :: Authority where
  "lkQueued = lkGranted
     \<lparr>au_owners := [(lkOidA, \<lparr>ow_ref = lkOwnerA, ow_actions = [(''r'', lkActionA)], ow_grants = [(lkGid, lkLease)], ow_liveGrants = 1, ow_queued = 0\<rparr>),
                    (lkOidB, \<lparr>ow_ref = lkOwnerB, ow_actions = [(''r'', lkActionB)], ow_grants = [], ow_liveGrants = 0, ow_queued = 1\<rparr>)],
      au_objects := [(lkRid, \<lparr>rs_id = lkRid, rs_key = ''k'', rs_referenceUntil = 60000000000, rs_grants = [(lkGid, lkOidA)],
                              rs_queue = [(lkOidB, ''r'')], rs_busy = False, rs_retired = False, rs_worker = True, rs_holds = 0,
                              rs_forgetting = False\<rparr>)],
      au_actions := 2, au_queued := 1\<rparr>"

definition lkSystem :: "Authority \<Rightarrow> lock_call list \<Rightarrow> lock_system" where
  "lkSystem a cs = \<lparr>ly_auth = a, ly_now = 0, ly_calls = cs, ly_pubs = [], ly_forget = []\<rparr>"

abbreviation at0 :: "nat \<Rightarrow> instant" where
  "at0 \<equiv> \<lambda>_. 0"

definition lk0 :: Authority where
  "lk0 = (case Authority_New lkOptions True (Inr 0) (Some 0) 0 [1] of Inr a \<Rightarrow> a)"
definition lk1 :: Authority where "lk1 = fst (OpenSession lockMac None at0 [3] lkTicket lk0)"
definition lk2 :: Authority where "lk2 = fst (CreateOwner lockMac None at0 [4] lkSid ''c1'' lk1)"
definition lk3 :: Authority where "lk3 = fst (CreateOwner lockMac None at0 [5] lkSid ''c2'' lk2)"

lemma readings0: "readings 0 at0 0"
  by (simp add: readings_def mono_def)

lemma lkResolved_reached: "reach lock_init (lock_step lockMac) (lkSystem lkResolved [])"
proof -
  have "Authority_New lkOptions True (Inr 0) (Some 0) 0 [1] = Inr lk0" by code_simp
  then have "lock_init (lkSystem lk0 [])" unfolding lock_init_def lkSystem_def by (simp, blast)
  then have s0: "reach lock_init (lock_step lockMac) (lkSystem lk0 [])" by (rule reach.intros)
  have "gget (au_sessions lk0) (token lockMac (au_incarnation lk0) [3] ''s'' [] []) = None" by code_simp
  then have "lock_step lockMac (lkSystem lk0 []) (advance (lkSystem lk0 []) lk1 0)"
    unfolding lk1_def using step_open [of "lkSystem lk0 []" at0 0 lockMac "[3]" None lkTicket] by (simp add: lkSystem_def readings0)
  from reach_step [OF s0 this] have s1: "reach lock_init (lock_step lockMac) (lkSystem lk1 [])" by (simp add: lkSystem_def)
  have "gget (au_owners lk1) (token lockMac (au_incarnation lk1) [4] ''o'' lkSid []) = None" by code_simp
  then have "lock_step lockMac (lkSystem lk1 []) (advance (lkSystem lk1 []) lk2 0)"
    unfolding lk2_def using step_owner [OF _ refl, of "lkSystem lk1 []" at0 0 lockMac "[4]" lkSid None "''c1''"] by (simp add: lkSystem_def readings0)
  from reach_step [OF s1 this] have s2: "reach lock_init (lock_step lockMac) (lkSystem lk2 [])" by (simp add: lkSystem_def)
  have "gget (au_owners lk2) (token lockMac (au_incarnation lk2) [5] ''o'' lkSid []) = None" by code_simp
  then have "lock_step lockMac (lkSystem lk2 []) (advance (lkSystem lk2 []) lk3 0)"
    unfolding lk3_def using step_owner [OF _ refl, of "lkSystem lk2 []" at0 0 lockMac "[5]" lkSid None "''c2''"] by (simp add: lkSystem_def readings0)
  from reach_step [OF s2 this] have s3: "reach lock_init (lock_step lockMac) (lkSystem lk3 [])" by (simp add: lkSystem_def)
  have "gget (au_objects lk3) (token lockMac (au_incarnation lk3) [6] ''r'' [] []) = None" by code_simp
  moreover have "fst (discoverCallback lockMac None at0 [6] lkOwnerA ''k'' lk3) = lkResolved" by code_simp
  ultimately have "lock_step lockMac (lkSystem lk3 []) (advance (lkSystem lk3 []) lkResolved 0)"
    using step_discover [of "lkSystem lk3 []" at0 0 lockMac "[6]" "''k''" None lkOwnerA] by (simp add: lkSystem_def readings0)
  from reach_step [OF s3 this] show ?thesis by (simp add: lkSystem_def)
qed

definition lkCall :: "AcquireRequest \<Rightarrow> call_phase \<Rightarrow> lock_call" where
  "lkCall request p = \<lparr>lc_owner = or_Owner (aq_Owner request), lc_request = aq_Request request, lc_resource = lkRid,
     lc_kind = AcquireCall request 0, lc_phase = p\<rparr>"

lemma lkCall_simps [simp]:
  "lc_owner (lkCall request p) = or_Owner (aq_Owner request)" "lc_request (lkCall request p) = aq_Request request"
  "lc_resource (lkCall request p) = lkRid" "lc_kind (lkCall request p) = AcquireCall request 0" "lc_phase (lkCall request p) = p"
  "(lkCall request p)\<lparr>lc_phase := q\<rparr> = lkCall request q"
  by (simp_all add: lkCall_def)

definition lk5 :: Authority where "lk5 = fst (acquireBegin lockMac None at0 lkAcquireA lkResolved)"
definition lk6 :: Authority where "lk6 = lk5\<lparr>au_watermark := 1000000000\<rparr>"
definition lk7 :: Authority where "lk7 = fst (acquireGuard lockMac None at0 [7] lkAcquireA lkRid 0 lk6)"
definition lk9 :: Authority where "lk9 = fst (acquireBegin lockMac None at0 lkAcquireB lkGranted)"
definition lk10 :: Authority where "lk10 = fst (acquireGuard lockMac None at0 [8] lkAcquireB lkRid 0 lk9)"

lemma lk_begin:
  assumes s: "reach lock_init (lock_step lockMac) (lkSystem a [])" and start: "acquireBegin lockMac None at0 request a = (b, BeginStarted lkRid 0)"
  shows "reach lock_init (lock_step lockMac) (lkSystem b [lkCall request Held])"
  using reach_step [OF s step_acquire_begin [of "lkSystem a []" at0 0 lockMac None request b "BeginStarted lkRid 0"]] start
  by (simp add: lkSystem_def readings0 startCall_def lkCall_def)

lemma lk_raise:
  assumes s: "reach lock_init (lock_step lockMac) (lkSystem a [lkCall request Held])" and h: "healthyLocked None False 0 a = None"
    and ttl: "au_watermark a < aq_TTL request"
  shows "reach lock_init (lock_step lockMac) (lkSystem (a\<lparr>au_watermark := aq_TTL request\<rparr>) [lkCall request Raised])"
proof -
  have "lock_step lockMac (lkSystem a [lkCall request Held]) (lkSystem a [lkCall request Persisting])"
    using step_raise_begin [of "lkSystem a [lkCall request Held]" at0 0 "[]" "lkCall request Held" "[]" None lockMac] h ttl by (simp add: lkSystem_def readings0)
  from reach_step [OF s this] have s': "reach lock_init (lock_step lockMac) (lkSystem a [lkCall request Persisting])" .
  from reach_step [OF s' step_raise_done [of _ "[]" "lkCall request Persisting" "[]"]] show ?thesis by (simp add: lkSystem_def)
qed

lemma lk_covered:
  assumes s: "reach lock_init (lock_step lockMac) (lkSystem a [lkCall request Held])" and h: "healthyLocked None False 0 a = None"
    and ttl: "aq_TTL request \<le> au_watermark a"
  shows "reach lock_init (lock_step lockMac) (lkSystem a [lkCall request Raised])"
proof -
  have "lock_step lockMac (lkSystem a [lkCall request Held]) (lkSystem a [lkCall request Raised])"
    using step_raise_skip [of "lkSystem a [lkCall request Held]" at0 0 "[]" "lkCall request Held" "[]" None lockMac] h ttl by (simp add: lkSystem_def readings0)
  from reach_step [OF s this] show ?thesis .
qed

lemma lk_guard:
  assumes s: "reach lock_init (lock_step lockMac) (lkSystem a [lkCall request Raised])"
    and guard: "acquireGuard lockMac None at0 nonce request lkRid 0 a = (b, None)"
    and fresh: "\<forall>oid. getGrant a oid (newGrantID lockMac nonce (or_Owner (aq_Owner request)) lkRid (au_lastGeneration a + 1) a) = None"
  shows "reach lock_init (lock_step lockMac) (lkSystem (actionEnd (or_Owner (aq_Owner request)) (aq_Request request) lkRid None b) [])"
proof -
  have "lock_step lockMac (lkSystem a [lkCall request Raised]) (lkSystem b [lkCall request (Ran None)])"
    using step_guard [of "lkSystem a [lkCall request Raised]" at0 0 "[]" "lkCall request Raised" "[]" lockMac nonce "GuardRuns id" None b None] guard fresh
    by (simp add: lkSystem_def readings0 runGuard_def callGuard_def)
  from reach_step [OF s this] have s': "reach lock_init (lock_step lockMac) (lkSystem b [lkCall request (Ran None)])" .
  from reach_step [OF s' step_action_end [of _ "[]" "lkCall request (Ran None)" "[]" None]] show ?thesis by (simp add: lkSystem_def)
qed

lemma getGrant_none: "list_all (\<lambda>(_, ow). gget (ow_grants ow) gid = None) (au_owners a) \<Longrightarrow> \<forall>oid. getGrant a oid gid = None"
  by (auto simp: getGrant_def list_all_iff split: option.split dest: gget_in_set)

lemma lkRaised_reached: "reach lock_init (lock_step lockMac) (lkSystem lk6 [lkCall lkAcquireA Raised])"
proof -
  have "acquireBegin lockMac None at0 lkAcquireA lkResolved = (lk5, BeginStarted lkRid 0)" by code_simp
  from lk_begin [OF lkResolved_reached this] have "reach lock_init (lock_step lockMac) (lkSystem (lk5\<lparr>au_watermark := aq_TTL lkAcquireA\<rparr>) [lkCall lkAcquireA Raised])"
    by (rule lk_raise) code_simp+
  then show ?thesis by (simp add: lk6_def lkAcquireA_def)
qed

lemma lkGuard_fresh: "\<forall>oid. getGrant lk6 oid (newGrantID lockMac [7] (or_Owner (aq_Owner lkAcquireA)) lkRid (au_lastGeneration lk6 + 1) lk6) = None"
  by (rule getGrant_none) code_simp

lemma lkGranted_reached: "reach lock_init (lock_step lockMac) (lkSystem lkGranted [])"
proof -
  have "acquireGuard lockMac None at0 [7] lkAcquireA lkRid 0 lk6 = (lk7, None)" by code_simp
  from lk_guard [OF lkRaised_reached this lkGuard_fresh]
  have "reach lock_init (lock_step lockMac) (lkSystem (actionEnd (or_Owner (aq_Owner lkAcquireA)) (aq_Request lkAcquireA) lkRid None lk7) [])" .
  moreover have "actionEnd (or_Owner (aq_Owner lkAcquireA)) (aq_Request lkAcquireA) lkRid None lk7 = lkGranted" by code_simp
  ultimately show ?thesis by simp
qed

lemma lkQueued_reached: "reach lock_init (lock_step lockMac) (lkSystem lkQueued [])"
proof -
  have "acquireBegin lockMac None at0 lkAcquireB lkGranted = (lk9, BeginStarted lkRid 0)" by code_simp
  from lk_begin [OF lkGranted_reached this] have s9': "reach lock_init (lock_step lockMac) (lkSystem lk9 [lkCall lkAcquireB Raised])"
    by (rule lk_covered) code_simp+
  have "acquireGuard lockMac None at0 [8] lkAcquireB lkRid 0 lk9 = (lk10, None)" by code_simp
  moreover have "\<forall>oid. getGrant lk9 oid (newGrantID lockMac [8] (or_Owner (aq_Owner lkAcquireB)) lkRid (au_lastGeneration lk9 + 1) lk9) = None"
    by (rule getGrant_none) code_simp
  ultimately have "reach lock_init (lock_step lockMac) (lkSystem (actionEnd (or_Owner (aq_Owner lkAcquireB)) (aq_Request lkAcquireB) lkRid None lk10) [])"
    by (rule lk_guard [OF s9'])
  moreover have "actionEnd (or_Owner (aq_Owner lkAcquireB)) (aq_Request lkAcquireB) lkRid None lk10 = lkQueued" by code_simp
  ultimately show ?thesis by simp
qed

text \<open>The same resource shared by both owners.\<close>

definition lkShareA :: AcquireRequest where "lkShareA = lkAcquireA\<lparr>aq_Mode := Shared\<rparr>"
definition lkShareB :: AcquireRequest where "lkShareB = lkAcquireB\<lparr>aq_Wait := 0\<rparr>"

definition sh1 :: Authority where "sh1 = fst (acquireBegin lockMac None at0 lkShareA lkResolved)"
definition sh2 :: Authority where "sh2 = fst (acquireGuard lockMac None at0 [7] lkShareA lkRid 0 (sh1\<lparr>au_watermark := 1000000000\<rparr>))"
definition sh3 :: Authority where "sh3 = actionEnd lkOidA ''r'' lkRid None sh2"
definition sh4 :: Authority where "sh4 = fst (acquireBegin lockMac None at0 lkShareB sh3)"
definition sh5 :: Authority where "sh5 = fst (acquireGuard lockMac None at0 [8] lkShareB lkRid 0 sh4)"
definition lkShared :: Authority where "lkShared = actionEnd lkOidB ''r'' lkRid None sh5"

lemma lkShared_reached: "reach lock_init (lock_step lockMac) (lkSystem lkShared [])"
proof -
  let ?sh1 = "sh1\<lparr>au_watermark := aq_TTL lkShareA\<rparr>"
  have "acquireBegin lockMac None at0 lkShareA lkResolved = (sh1, BeginStarted lkRid 0)" by code_simp
  from lk_begin [OF lkResolved_reached this] have "reach lock_init (lock_step lockMac) (lkSystem ?sh1 [lkCall lkShareA Raised])"
    by (rule lk_raise) code_simp+
  moreover have "acquireGuard lockMac None at0 [7] lkShareA lkRid 0 ?sh1 = (sh2, None)" by code_simp
  moreover have "\<forall>oid. getGrant ?sh1 oid (newGrantID lockMac [7] (or_Owner (aq_Owner lkShareA)) lkRid (au_lastGeneration ?sh1 + 1) ?sh1) = None"
    by (rule getGrant_none) code_simp
  ultimately have "reach lock_init (lock_step lockMac) (lkSystem (actionEnd (or_Owner (aq_Owner lkShareA)) (aq_Request lkShareA) lkRid None sh2) [])"
    by (rule lk_guard)
  then have s3: "reach lock_init (lock_step lockMac) (lkSystem sh3 [])" by (simp add: sh3_def lkShareA_def lkAcquireA_def lkOwnerA_def)
  have "acquireBegin lockMac None at0 lkShareB sh3 = (sh4, BeginStarted lkRid 0)" by code_simp
  from lk_begin [OF s3 this] have "reach lock_init (lock_step lockMac) (lkSystem sh4 [lkCall lkShareB Raised])"
    by (rule lk_covered) code_simp+
  moreover have "acquireGuard lockMac None at0 [8] lkShareB lkRid 0 sh4 = (sh5, None)" by code_simp
  moreover have "\<forall>oid. getGrant sh4 oid (newGrantID lockMac [8] (or_Owner (aq_Owner lkShareB)) lkRid (au_lastGeneration sh4 + 1) sh4) = None"
    by (rule getGrant_none) code_simp
  ultimately have "reach lock_init (lock_step lockMac) (lkSystem (actionEnd (or_Owner (aq_Owner lkShareB)) (aq_Request lkShareB) lkRid None sh5) [])"
    by (rule lk_guard)
  then show ?thesis by (simp add: lkShared_def lkShareB_def lkAcquireB_def lkOwnerB_def)
qed

lemma lkShared_live:
  "\<exists>gid g. live lkShared lkOidA gid g \<and> gt_resource g = lkRid" "\<exists>gid g. live lkShared lkOidB gid g \<and> gt_resource g = lkRid"
proof -
  have "map_option (\<lambda>g. (gt_state g, gt_resource g)) (getGrant lkShared lkOidA lkGid) = Some (Active, lkRid)" by code_simp
  then show "\<exists>gid g. live lkShared lkOidA gid g \<and> gt_resource g = lkRid" by (auto simp: live_def)
  have "map_option (\<lambda>g. (gt_state g, gt_resource g)) (getGrant lkShared lkOidB ''g.AQ.CA..Ig'') = Some (Active, lkRid)" by code_simp
  then show "\<exists>gid g. live lkShared lkOidB gid g \<and> gt_resource g = lkRid" by (auto simp: live_def)
qed

text \<open>A write by the first owner, admitted with the exclusive lease as its proof.\<close>

definition lkWrite :: Publication where
  "lkWrite = \<lparr>pb_Kind = WriteMutation, pb_Targets = [''k''], pb_Scope = \<lparr>sc_Owner = lkOwnerA, sc_Grants = [lkGrant]\<rparr>\<rparr>"

definition lkWriting :: Authority where "lkWriting = fst (publishAdmit lockMac None at0 lkWrite lkQueued)"

lemma lkWriting_admitted: "publishAdmit lockMac None at0 lkWrite lkQueued = (lkWriting, Inr ([''k''], [lkRid]))"
  by code_simp

definition lkWritingSystem :: lock_system where
  "lkWritingSystem = (lkSystem lkWriting [])\<lparr>ly_pubs := [([''k''], [lkRid])]\<rparr>"

lemma lkWriting_reached: "reach lock_init (lock_step lockMac) lkWritingSystem"
  using reach_step [OF lkQueued_reached step_publish_admit [of _ at0 0 lockMac None lkWrite lkWriting "Inr ([''k''], [lkRid])"]] lkWriting_admitted
  by (simp add: lkSystem_def lkWritingSystem_def readings0)

end
