(* ===== verification/LockProps.thy ===== *)
theory LockProps
  imports LockSamples
begin

text \<open>
  What the lock authority promises in every reachable state: leases exclude each other, its
  tables, queues and counters agree, a publication runs only over its own exclusive leases and
  freezes them, a restart waits out the leases of its predecessor, receipts are final, and the
  calls that wait return.
\<close>

section \<open>Consequences for reachable systems\<close>

lemmas lock_reach = lock.reach_inv [unfolded lock_inv_def auth_inv_def base_inv_def]

lemma reach_grants: "reach lock_init (lock_step mac) s \<Longrightarrow> grants_inv (ly_auth s)"
  and reach_owners: "reach lock_init (lock_step mac) s \<Longrightarrow> owner_inv (ly_auth s)"
  and reach_queues: "reach lock_init (lock_step mac) s \<Longrightarrow> queue_inv (ly_auth s)"
  and reach_keys: "reach lock_init (lock_step mac) s \<Longrightarrow> keys_inv (ly_auth s)"
  and reach_leases: "reach lock_init (lock_step mac) s \<Longrightarrow> lease_inv (ly_now s) (ly_auth s)"
  by (auto dest: lock_reach)

text \<open>Across a whole run of an authority the end of recovery stays, and a live grant is proof that it
  has passed.\<close>

lemma recovery_run:
  assumes "(lock_step mac)\<^sup>*\<^sup>* s s'" and "lock_inv s" and "\<And>oid gid g. \<not> live (ly_auth s) oid gid g"
  shows "lock_inv s' \<and> ly_now s \<le> ly_now s' \<and> au_recoveryUntil (ly_auth s') = au_recoveryUntil (ly_auth s)
    \<and> (\<forall>oid gid g. live (ly_auth s') oid gid g \<longrightarrow> au_recoveryUntil (ly_auth s) \<le> ly_now s')"
  using assms(1)
proof (induction rule: rtranclp_induct)
  case base
  then show ?case using assms(2,3) by simp
next
  case (step b c)
  then have inv: "lock_inv b" by simp
  from step_changes [OF step.hyps(2) inv] obtain al where ch: "changes (ly_now c) al (ly_auth b) (ly_auth c)" and t: "ly_now b \<le> ly_now c" by blast
  have "au_recoveryUntil (ly_auth s) \<le> ly_now c" if "live (ly_auth c) oid gid g" for oid gid g
    using live_changes [OF ch that] step.IH t by (auto simp: admitted_def intro: order_trans)
  with lock_inv_step [OF step.hyps(2) inv] changes_flags(3) [OF ch] step.IH t show ?case by auto
qed

section \<open>Leases\<close>

text \<open>C5: leases exclude each other. In every reachable state of the lock system two different live grants
  on one resource belong to different owners and are both shared, so an exclusive grant is the
  only live grant on its resource and no owner holds a resource twice.\<close>

theorem exclusive_lease_alone:
  assumes "reach lock_init (lock_step mac) s"
    and "live (ly_auth s) oid gid g" and "live (ly_auth s) oid' gid' g'" and "gt_resource g = gt_resource g'" and "(oid, gid) \<noteq> (oid', gid')"
  shows "oid \<noteq> oid' \<and> gt_mode g \<noteq> Exclusive \<and> gt_mode g' \<noteq> Exclusive"
  using reach_grants [OF assms(1)] assms(2-) unfolding grants_inv_def excl_ok_def by blast

theorem exclusive_lease_alone_witness:
  "\<exists>gid g gid' g'. live lkShared lkOidA gid g \<and> live lkShared lkOidB gid' g' \<and> gt_resource g = gt_resource g' \<and> lkOidA \<noteq> lkOidB
    \<and> gt_mode g \<noteq> Exclusive \<and> gt_mode g' \<noteq> Exclusive"
proof -
  obtain gid g gid' g' where g: "live lkShared lkOidA gid g" "gt_resource g = lkRid" "live lkShared lkOidB gid' g'" "gt_resource g' = lkRid"
    using lkShared_live by blast
  have ne: "lkOidA \<noteq> lkOidB" by code_simp
  have "lkOidA \<noteq> lkOidB \<and> gt_mode g \<noteq> Exclusive \<and> gt_mode g' \<noteq> Exclusive"
    by (rule exclusive_lease_alone [OF lkShared_reached, of lkOidA gid g lkOidB gid' g']) (use g ne in \<open>simp_all add: lkSystem_def\<close>)
  with g show ?thesis by metis
qed

text \<open>C11: the tables of the authority describe one set of leases. In every reachable state a resource
  lists exactly its live grants with their owners, every grant carries its own identity and names
  an existing resource, every owner belongs to an existing session that lists it, and the key
  table names exactly the resources that are not forgotten, each under its key.\<close>

theorem lock_tables_linked:
  assumes "reach lock_init (lock_step mac) s"
  defines "a \<equiv> ly_auth s"
  shows "(\<forall>rid r gid oid. gget (au_objects a) rid = Some r \<longrightarrow>
        (gget (rs_grants r) gid = Some oid) = (\<exists>g. getGrant a oid gid = Some g \<and> gt_state g = Active \<and> gt_resource g = rid))
    \<and> (\<forall>oid gid g. getGrant a oid gid = Some g \<longrightarrow>
        gr_ID (gt_ref g) = gid \<and> gr_Resource (gt_ref g) = gt_resource g \<and> gget (au_objects a) (gt_resource g) \<noteq> None)
    \<and> (\<forall>oid ow. gget (au_owners a) oid = Some ow \<longrightarrow> or_Owner (ow_ref ow) = oid
        \<and> (\<exists>sess. gget (au_sessions a) (or_Session (ow_ref ow)) = Some sess \<and> oid \<in> set (se_owners sess)))
    \<and> (\<forall>key rid. (gget (au_keys a) key = Some rid) =
        (rid \<in> set (au_resources a) \<and> (\<exists>r. gget (au_objects a) rid = Some r \<and> rs_key r = key)))"
proof (intro conjI allI impI)
  note g = reach_grants [OF assms(1), folded a_def] and own = reach_owners [OF assms(1), folded a_def] and k = reach_keys [OF assms(1), folded a_def]
  show "(gget (rs_grants r) gid = Some oid) = (\<exists>g. getGrant a oid gid = Some g \<and> gt_state g = Active \<and> gt_resource g = rid)"
    if "gget (au_objects a) rid = Some r" for rid r gid oid
    using g that unfolding grants_inv_def links_ok_def live_def by auto
  show "gr_ID (gt_ref h) = gid" "gr_Resource (gt_ref h) = gt_resource h" "gget (au_objects a) (gt_resource h) \<noteq> None"
    if "getGrant a oid gid = Some h" for oid gid h
    using g that unfolding grants_inv_def links_ok_def by blast+
  fix oid ow assume ow: "gget (au_owners a) oid = Some ow"
  then show "or_Owner (ow_ref ow) = oid" using own by (auto simp: owner_inv_def owners_linked_def)
  from ow own have "gget (au_sessions a) (or_Session (ow_ref ow)) \<noteq> None" unfolding owner_inv_def owners_linked_def by blast
  then obtain sess where sess: "gget (au_sessions a) (or_Session (ow_ref ow)) = Some sess" by blast
  with ow own have "oid \<in> set (se_owners sess)" unfolding owner_inv_def owners_linked_def by blast
  with sess show "\<exists>sess. gget (au_sessions a) (or_Session (ow_ref ow)) = Some sess \<and> oid \<in> set (se_owners sess)" by blast
next
  show "(gget (au_keys a) key = Some rid) = (rid \<in> set (au_resources a) \<and> (\<exists>r. gget (au_objects a) rid = Some r \<and> rs_key r = key))" for key rid
    using reach_keys [OF assms(1), folded a_def] unfolding keys_inv_def keys_exact_def by blast
qed

theorem lock_tables_linked_witness:
  "\<exists>g. getGrant lkQueued lkOidA lkGid = Some g \<and> gt_state g = Active \<and> gt_resource g = lkRid"
proof -
  have "map_option (\<lambda>r. gget (rs_grants r) lkGid) (gget (au_objects lkQueued) lkRid) = Some (Some lkOidA)" by code_simp
  then obtain r where "gget (au_objects lkQueued) lkRid = Some r" "gget (rs_grants r) lkGid = Some lkOidA" by auto
  with lock_tables_linked [OF lkQueued_reached] show ?thesis by (simp add: lkSystem_def)
qed

text \<open>C12: the counters are exact and the capacity limits hold. In every reachable state the authority's
  grant, action and queue counters are the numbers of live grants, of retained actions and of
  waiting actions, and the same holds for each owner. Every capacity option bounds what it
  limits: in the volume the sessions, owners, resources, tickets, grants, actions and waiting
  actions; per session its owners and its retained owner creations; per owner its grants,
  actions and waiting actions; per resource its queue. Generations are distinct and never
  above the last one issued.\<close>

theorem lock_counters_exact:
  assumes "reach lock_init (lock_step mac) s"
  defines "a \<equiv> ly_auth s"
  shows "au_grants a = gsum (\<lambda>_ ow. activeCount ow) (au_owners a) \<and> au_grants a \<le> opt_MaxGrants (au_options a)
    \<and> au_actions a = gsum (\<lambda>_ ow. int (length (ow_actions ow))) (au_owners a) \<and> au_actions a \<le> opt_MaxActions (au_options a)
    \<and> au_queued a = gsum (\<lambda>_ ow. waitCount ow) (au_owners a) \<and> au_queued a \<le> opt_MaxQueued (au_options a)
    \<and> (\<forall>oid ow. gget (au_owners a) oid = Some ow \<longrightarrow>
        ow_liveGrants ow = activeCount ow \<and> activeCount ow \<le> opt_GrantsPerOwner (au_options a)
        \<and> ow_queued ow = waitCount ow \<and> waitCount ow \<le> opt_QueuedPerOwner (au_options a)
        \<and> int (length (ow_actions ow)) \<le> opt_ActionsPerOwner (au_options a))
    \<and> (\<forall>sid se. gget (au_sessions a) sid = Some se \<longrightarrow>
        int (length (se_owners se)) \<le> opt_OwnersPerSession (au_options a)
        \<and> int (length (se_creates se)) \<le> opt_OwnerActionsPerSession (au_options a))
    \<and> (\<forall>rid r. gget (au_objects a) rid = Some r \<longrightarrow> int (length (rs_queue r)) \<le> opt_QueuedPerResource (au_options a))
    \<and> int (length (au_sessions a)) \<le> opt_MaxSessions (au_options a) \<and> int (length (au_owners a)) \<le> opt_MaxOwners (au_options a)
    \<and> int (length (au_resources a)) \<le> opt_MaxResources (au_options a) \<and> int (length (au_tickets a)) \<le> opt_MaxTickets (au_options a)
    \<and> (\<forall>oid gid g oid' gid' g'. getGrant a oid gid = Some g \<longrightarrow> getGrant a oid' gid' = Some g' \<longrightarrow>
        gr_Generation (gt_ref g) \<le> au_lastGeneration a \<and> ((oid, gid) \<noteq> (oid', gid') \<longrightarrow> gr_Generation (gt_ref g) \<noteq> gr_Generation (gt_ref g')))"
proof -
  note g = reach_grants [OF assms(1), folded a_def] and own = reach_owners [OF assms(1), folded a_def] and q = reach_queues [OF assms(1), folded a_def]
  have "gr_Generation (gt_ref h) \<le> au_lastGeneration a \<and> ((oid, gid) \<noteq> (oid', gid') \<longrightarrow> gr_Generation (gt_ref h) \<noteq> gr_Generation (gt_ref h'))"
    if "getGrant a oid gid = Some h" "getGrant a oid' gid' = Some h'" for oid gid h oid' gid' h'
    using g that unfolding grants_inv_def gens_ok_def by blast
  moreover have "ow_liveGrants ow = activeCount ow \<and> activeCount ow \<le> opt_GrantsPerOwner (au_options a)
      \<and> ow_queued ow = waitCount ow \<and> waitCount ow \<le> opt_QueuedPerOwner (au_options a)
      \<and> int (length (ow_actions ow)) \<le> opt_ActionsPerOwner (au_options a)" if "gget (au_owners a) oid = Some ow" for oid ow
    using g own q that by (simp add: grants_inv_def counts_ok_def owner_inv_def owners_bounded_def queue_inv_def queues_counted_def)
  moreover have "int (length (se_owners se)) \<le> opt_OwnersPerSession (au_options a)
      \<and> int (length (se_creates se)) \<le> opt_OwnerActionsPerSession (au_options a)" if "gget (au_sessions a) sid = Some se" for sid se
    using own that by (simp add: owner_inv_def owners_bounded_def)
  moreover have "int (length (rs_queue r)) \<le> opt_QueuedPerResource (au_options a)" if "gget (au_objects a) rid = Some r" for rid r
    using q that unfolding queue_inv_def queues_exact_def by blast
  ultimately show ?thesis
    using g own q by (simp add: grants_inv_def counts_ok_def owner_inv_def owners_bounded_def queue_inv_def queues_counted_def)
qed

theorem lock_counters_exact_witness:
  "au_grants lkQueued = gsum (\<lambda>_ ow. activeCount ow) (au_owners lkQueued) \<and> au_queued lkQueued = gsum (\<lambda>_ ow. waitCount ow) (au_owners lkQueued)
    \<and> au_grants lkQueued = 1 \<and> au_queued lkQueued = 1"
proof -
  have "au_grants lkQueued = 1" "au_queued lkQueued = 1" by code_simp+
  with lock_counters_exact [OF lkQueued_reached] show ?thesis by (simp add: lkSystem_def)
qed

text \<open>C13: the queue of a resource is exactly its waiting requests. In every reachable state the queue
  has no duplicate, and an entry is in it if and only if the owner's action is pending, was
  given a waiting deadline and asks for this resource.\<close>

theorem waiting_queue_exact:
  assumes "reach lock_init (lock_step mac) s" and "gget (au_objects (ly_auth s)) rid = Some r"
  shows "distinct (rs_queue r) \<and> int (length (rs_queue r)) \<le> opt_QueuedPerResource (au_options (ly_auth s))
    \<and> ((oid, req) \<in> set (rs_queue r)) = (\<exists>x until. getAct (ly_auth s) oid req = Some x \<and> rc_Outcome (ac_receipt x) = Pending
        \<and> ac_waitUntil x = Some until \<and> ac_resource x = Some rid)"
  using reach_queues [OF assms(1)] assms(2) unfolding queue_inv_def queues_exact_def waiting_def waits_def by auto

theorem waiting_queue_exact_witness:
  "\<exists>x until. getAct lkQueued lkOidB ''r'' = Some x \<and> rc_Outcome (ac_receipt x) = Pending \<and> ac_waitUntil x = Some until \<and> ac_resource x = Some lkRid"
proof -
  have "map_option rs_queue (gget (au_objects lkQueued) lkRid) = Some [(lkOidB, ''r'')]" by code_simp
  then obtain r where "gget (au_objects lkQueued) lkRid = Some r" "(lkOidB, ''r'') \<in> set (rs_queue r)" by auto
  with waiting_queue_exact [OF lkQueued_reached, of lkRid r lkOidB "''r''"] show ?thesis by (simp add: lkSystem_def)
qed

section \<open>Publications\<close>

text \<open>C6: a publication never touches data that another lease protects. When \<open>publishAdmit\<close> admits
  a mutation, every live grant on a resource of one of its targets belongs to the publishing
  owner, is exclusive, is one of the grants the scope presented, and has not reached its
  deadline; and all of those resources are busy from then on.\<close>

theorem publication_guarded:
  assumes "reach lock_init (lock_step mac) s" and "readings (ly_now s) clk t"
    and "publishAdmit mac ctxErr clk publication (ly_auth s) = (c, Inr (keys, rids))"
    and "live c oid gid g" and "gget (au_objects c) (gt_resource g) = Some r" and "rs_key r \<in> set (pb_Targets publication)"
  shows "oid = or_Owner (sc_Owner (pb_Scope publication)) \<and> gt_mode g = Exclusive \<and> gt_ref g \<in> set (sc_Grants (pb_Scope publication))
    \<and> ly_now s < gt_deadline g \<and> gt_resource g \<in> set rids \<and> rs_busy r"
proof -
  have inv: "lock_inv s" by (rule lock.reach_inv [OF assms(1)])
  have clk: "mono clk" and le: "ly_now s \<le> clk i" for i
    using assms(2) by (auto simp: readings_def mono_def intro: order_trans [of _ "clk 0"])
  from inv have "auth_inv (ly_now s) (ly_auth s)" by (simp add: lock_inv_def)
  from publishAdmit_guarded [OF this clk assms(3-)] le [of "4 + 2 * length (sc_Grants (pb_Scope publication))"]
  have res: "gt_resource g \<in> set rids" "oid = or_Owner (sc_Owner (pb_Scope publication))" "gt_mode g = Exclusive"
    "gt_ref g \<in> set (sc_Grants (pb_Scope publication))" "ly_now s < gt_deadline g" by auto
  from assms(1,2,3) have "reach lock_init (lock_step mac) ((advance s c t)\<lparr>ly_pubs := (keys, rids) # ly_pubs s\<rparr>)"
    using reach_step [OF assms(1) step_publish_admit [OF assms(2,3)]] by simp
  from lock.reach_inv [OF this] have "pubs_inv ((keys, rids) # ly_pubs s) c" by (simp add: lock_inv_def)
  then have "rs_busy r" using assms(5) res(1) by (auto simp: pubs_inv_def)
  with res show ?thesis by simp
qed

theorem publication_guarded_witness:
  "publishAdmit lockMac None at0 lkWrite lkQueued = (lkWriting, Inr ([''k''], [lkRid]))
    \<and> (\<exists>g r. live lkWriting lkOidA lkGid g \<and> gget (au_objects lkWriting) (gt_resource g) = Some r \<and> gt_mode g = Exclusive \<and> rs_busy r)"
proof -
  have "map_option (\<lambda>g. (gt_state g, gt_resource g)) (getGrant lkWriting lkOidA lkGid) = Some (Active, lkRid)" by code_simp
  then obtain g where g: "live lkWriting lkOidA lkGid g" "gt_resource g = lkRid" by (auto simp: live_def)
  have "map_option rs_key (gget (au_objects lkWriting) lkRid) = Some ''k''" by code_simp
  then obtain r where r: "gget (au_objects lkWriting) (gt_resource g) = Some r" "rs_key r = ''k''" using g(2) by auto
  have "gt_mode g = Exclusive \<and> rs_busy r"
    using publication_guarded [OF lkQueued_reached _ _ g(1) r(1), of at0 0 None lkWrite "[''k'']" "[lkRid]"] lkWriting_admitted readings0 r(2)
    by (simp add: lkSystem_def lkWrite_def)
  with g r lkWriting_admitted show ?thesis by blast
qed

text \<open>C7: the leases of a published resource are frozen. While a publication is in flight, no step of any
  call, of a worker, of the clock or of maintenance ends, adds or replaces a live grant on its
  resources, although deadlines pass.\<close>

theorem published_grants_frozen:
  assumes "reach lock_init (lock_step mac) s" and "lock_step mac s s'"
    and "(keys, rids) \<in> set (ly_pubs s)" and "(keys, rids) \<in> set (ly_pubs s')" and "rid \<in> set rids"
  shows "busyRes (ly_auth s') rid
    \<and> (\<exists>g. live (ly_auth s) oid gid g \<and> gt_resource g = rid) = (\<exists>g. live (ly_auth s') oid gid g \<and> gt_resource g = rid)"
proof -
  note reach' = reach_step [OF assms(1,2)]
  have inv: "lock_inv s" "lock_inv s'" by (auto intro: lock.reach_inv assms(1) reach')
  from step_changes [OF assms(2) inv(1)] obtain al where ch: "changes (ly_now s') al (ly_auth s) (ly_auth s')" and al: "step_allows s s' al" by blast
  from inv have pubs: "pubs_inv (ly_pubs s) (ly_auth s)" by (simp add: lock_inv_def)
  obtain r where r: "gget (au_objects (ly_auth s)) rid = Some r" using pubs assms(3,5) by (fastforce simp: pubs_inv_def)
  have "rid \<in> set (concat (map snd (ly_pubs s)))" using assms(3,5) by force
  with pubs r have "busyRes (ly_auth s) rid" by (simp add: pubs_inv_def busyRes_def)
  moreover have "rid \<in> set (concat (map snd (ly_pubs s')))" using assms(4,5) by force
  then have "rid \<notin> al_ending al" using al by (auto simp: step_allows_def)
  ultimately have busy: "busyRes (ly_auth s') rid" "resGrants (ly_auth s') rid = resGrants (ly_auth s) rid" using busy_changes [OF ch] by auto
  then obtain r' where r': "gget (au_objects (ly_auth s')) rid = Some r'" by (auto simp: busyRes_def split: option.splits)
  have "rs_grants r' = rs_grants r" using busy(2) r r' by (simp add: resGrants_def)
  then have "gget (rs_grants r) gid = Some oid \<longleftrightarrow> gget (rs_grants r') gid = Some oid" by simp
  moreover have "gget (rs_grants r) gid = Some oid \<longleftrightarrow> (\<exists>g. live (ly_auth s) oid gid g \<and> gt_resource g = rid)"
    using reach_grants [OF assms(1)] r unfolding grants_inv_def links_ok_def by blast
  moreover have "gget (rs_grants r') gid = Some oid \<longleftrightarrow> (\<exists>g. live (ly_auth s') oid gid g \<and> gt_resource g = rid)"
    using reach_grants [OF reach'] r' unfolding grants_inv_def links_ok_def by blast
  ultimately show ?thesis using busy(1) by simp
qed

text \<open>An hour later the deadline of the lease has passed, and a maintenance pass leaves it alone.\<close>

theorem published_grants_frozen_witness:
  "\<exists>g. live (fst (maintainScan 3600000000000 lkWriting)) lkOidA lkGid g \<and> gt_resource g = lkRid"
proof -
  let ?s = "lkWritingSystem"
  define m where "m = maintainScan 3600000000000 lkWriting"
  obtain a n f where scan: "m = (a, n, f)" by (cases m)
  have "readings (ly_now ?s) (\<lambda>_. 3600000000000) 3600000000000" by (simp add: readings_def mono_def lkWritingSystem_def lkSystem_def)
  from step_maintain [OF this, of a n f lockMac] have step: "lock_step lockMac ?s ((advance ?s a 3600000000000)\<lparr>ly_forget := f\<rparr>)"
    using scan by (simp add: m_def lkWritingSystem_def lkSystem_def)
  have "map_option (\<lambda>g. (gt_state g, gt_resource g)) (getGrant lkWriting lkOidA lkGid) = Some (Active, lkRid)" by code_simp
  then have "\<exists>g. live lkWriting lkOidA lkGid g \<and> gt_resource g = lkRid" by (auto simp: live_def)
  with published_grants_frozen [OF lkWriting_reached step, of "[''k'']" "[lkRid]" lkRid lkOidA lkGid]
  have "\<exists>g. live a lkOidA lkGid g \<and> gt_resource g = lkRid" by (simp add: lkWritingSystem_def lkSystem_def)
  then show ?thesis using scan by (simp add: m_def)
qed

section \<open>Health, restart and receipts\<close>

text \<open>C9: leases appear only in a healthy authority. A live grant after a step was a live grant before
  it, with the same reference, resource and mode and no later deadline, or the authority was
  neither fenced nor closed, its recovery was over, and the grant carries a generation that
  was never issued before.\<close>

theorem leases_need_health:
  assumes "reach lock_init (lock_step mac) s" and "lock_step mac s s'" and "live (ly_auth s') oid gid h"
  shows "(\<exists>g. live (ly_auth s) oid gid g \<and> gt_ref h = gt_ref g \<and> gt_resource h = gt_resource g \<and> gt_mode h = gt_mode g \<and> gt_deadline g \<le> gt_deadline h)
    \<or> au_fenced (ly_auth s) = None \<and> \<not> au_closed (ly_auth s) \<and> au_recoveryUntil (ly_auth s) \<le> ly_now s'
      \<and> au_lastGeneration (ly_auth s) < gr_Generation (gt_ref h)"
proof -
  from step_changes [OF assms(2) lock.reach_inv [OF assms(1)]] obtain al where "changes (ly_now s') al (ly_auth s) (ly_auth s')" by blast
  from live_changes [OF this assms(3)] show ?thesis unfolding grant_evolves_def admitted_def by blast
qed

theorem leases_need_health_witness:
  "\<exists>h. live lk7 lkOidA lkGid h \<and> getGrant lk6 lkOidA lkGid = None \<and> au_fenced lk6 = None \<and> \<not> au_closed lk6 \<and> au_recoveryUntil lk6 \<le> 0
    \<and> au_lastGeneration lk6 < gr_Generation (gt_ref h)"
proof -
  have "acquireGuard lockMac None at0 [7] lkAcquireA lkRid 0 lk6 = (lk7, None)" by code_simp
  then have step: "lock_step lockMac (lkSystem lk6 [lkCall lkAcquireA Raised]) (lkSystem lk7 [lkCall lkAcquireA (Ran None)])"
    using step_guard [of "lkSystem lk6 [lkCall lkAcquireA Raised]" at0 0 "[]" "lkCall lkAcquireA Raised" "[]" lockMac "[7]" "GuardRuns id" None lk7 None] lkGuard_fresh
    by (simp add: lkSystem_def readings0 runGuard_def callGuard_def)
  have "map_option gt_state (getGrant lk7 lkOidA lkGid) = Some Active" and none: "getGrant lk6 lkOidA lkGid = None" by code_simp+
  then obtain h where h: "live lk7 lkOidA lkGid h" by (auto simp: live_def)
  from leases_need_health [OF lkRaised_reached step, of lkOidA lkGid h] h none show ?thesis by (auto simp: lkSystem_def live_def)
qed

lemma New_fields:
  "Authority_New options present (Inr evidence) (Some from) now nonce = Inr a \<Longrightarrow> au_recoveryUntil a = from + evidence \<and> au_owners a = []"
  by (auto simp: Authority_New_def split: option.splits if_splits)

text \<open>C8: a restart waits out the leases of its predecessor. Let an authority have a live grant and let
  its successor be built from evidence that is at least the predecessor's watermark and from a
  recovery start that is not before the predecessor's last moment. Whatever the successor does,
  it admits nothing and holds no live grant of its own before the old grant's deadline.\<close>

theorem restart_waits_out_leases:
  assumes "reach lock_init (lock_step mac) s" and "live (ly_auth s) oid gid g"
    and "Authority_New options present (Inr evidence) (Some from) (ly_now s0) nonce = Inr (ly_auth s0)"
    and "ly_calls s0 = [] \<and> ly_pubs s0 = [] \<and> ly_forget s0 = []"
    and "au_watermark (ly_auth s) \<le> evidence" and "ly_now s \<le> from"
    and "(lock_step mac')\<^sup>*\<^sup>* s0 s'"
  shows "(healthyLocked ctxErr True t (ly_auth s') = None \<longrightarrow> gt_deadline g \<le> t)
    \<and> (\<forall>oid' gid' g'. live (ly_auth s') oid' gid' g' \<longrightarrow> gt_deadline g \<le> ly_now s')"
proof -
  have "gt_deadline g \<le> ly_now s + au_watermark (ly_auth s)" using reach_leases [OF assms(1)] assms(2) by (auto simp: lease_inv_def)
  also have "\<dots> \<le> from + evidence" using assms(5,6) by simp
  finally have le: "gt_deadline g \<le> from + evidence" .
  from New_fields [OF assms(3)] have new: "au_recoveryUntil (ly_auth s0) = from + evidence" "au_owners (ly_auth s0) = []" by auto
  then have "gt_deadline g \<le> au_recoveryUntil (ly_auth s0)" using le by simp
  moreover have init: "lock_init s0" using assms(3,4) unfolding lock_init_def by blast
  have "\<not> live (ly_auth s0) oid gid g" for oid gid g using new(2) by (simp add: live_def getGrant_def)
  from recovery_run [OF assms(7) lock_inv_init [OF init] this]
  have "au_recoveryUntil (ly_auth s') = au_recoveryUntil (ly_auth s0)"
    "\<And>oid gid g. live (ly_auth s') oid gid g \<Longrightarrow> au_recoveryUntil (ly_auth s0) \<le> ly_now s'" by auto
  moreover have "healthyLocked ctxErr True t (ly_auth s') = None \<Longrightarrow> au_recoveryUntil (ly_auth s') \<le> t"
    by (auto simp: healthyLocked_def fail_if_def split: option.splits if_splits)
  ultimately show ?thesis by (auto intro: order_trans)
qed

theorem restart_waits_out_leases_witness:
  "\<exists>g a. live lkGranted lkOidA lkGid g \<and> gt_deadline g = 1000000000 \<and> Authority_New lkOptions True (Inr 1000000000) (Some 0) 0 [1] = Inr a
    \<and> healthyLocked None True 999999999 a \<noteq> None \<and> healthyLocked None True 1000000000 a = None"
proof -
  have "map_option (\<lambda>g. (gt_state g, gt_deadline g)) (getGrant lkGranted lkOidA lkGid) = Some (Active, 1000000000)" by code_simp
  then obtain g where g: "live lkGranted lkOidA lkGid g" "gt_deadline g = 1000000000" by (auto simp: live_def)
  have "(case Authority_New lkOptions True (Inr 1000000000) (Some 0) 0 [1] of Inl _ \<Rightarrow> False | Inr a \<Rightarrow> healthyLocked None True 1000000000 a = None)"
    by code_simp
  then obtain a where a: "Authority_New lkOptions True (Inr 1000000000) (Some 0) 0 [1] = Inr a" "healthyLocked None True 1000000000 a = None"
    by (auto split: sum.splits)
  have "au_watermark lkGranted \<le> 1000000000" by code_simp
  with restart_waits_out_leases [OF lkGranted_reached, of lkOidA lkGid g lkOptions True 1000000000 0 "lkSystem a []" "[1]" lockMac "lkSystem a []" None 999999999]
  have "healthyLocked None True 999999999 a \<noteq> None" using g a by (auto simp: lkSystem_def)
  with g a show ?thesis by blast
qed

text \<open>C10: receipts are final. A step may retire an owner as a whole, with everything it holds; otherwise every
  action of the owner keeps its kind, identity and arguments, a settled receipt is never
  rewritten, and a grant that has ended stays ended in the same way.\<close>

theorem receipts_final:
  assumes "reach lock_init (lock_step mac) s" and "lock_step mac s s'" and "getAct (ly_auth s) oid req = Some x"
  shows "gget (au_owners (ly_auth s')) oid = None
    \<or> (\<exists>y. getAct (ly_auth s') oid req = Some y \<and> rc_Kind (ac_receipt y) = rc_Kind (ac_receipt x) \<and> rc_Acquire (ac_receipt y) = rc_Acquire (ac_receipt x)
         \<and> rc_Renew (ac_receipt y) = rc_Renew (ac_receipt x) \<and> (rc_Outcome (ac_receipt x) \<noteq> Pending \<longrightarrow> ac_receipt y = ac_receipt x))
      \<and> (\<forall>gid g. getGrant (ly_auth s) oid gid = Some g \<longrightarrow>
           (\<exists>h. getGrant (ly_auth s') oid gid = Some h \<and> gt_ref h = gt_ref g \<and> (gt_state g \<noteq> Active \<longrightarrow> gt_state h = gt_state g)))"
proof -
  from step_changes [OF assms(2) lock.reach_inv [OF assms(1)]] obtain al where ch: "changes (ly_now s') al (ly_auth s) (ly_auth s')"
    and al: "step_allows s s' al" by blast
  have "gget (au_owners (ly_auth s)) oid \<noteq> None" using assms(3) by (auto simp: getAct_def split: option.splits)
  then have "oid \<notin> al_minted al" using al by (auto simp: step_allows_def)
  from records_changes [OF ch this] assms(3) show ?thesis unfolding act_evolves_def grant_evolves_def by (elim disjE conjE) metis+
qed

theorem receipts_final_witness:
  "map_option ac_receipt (getAct (fst (releaseSection lockMac None at0 lkOwnerA lkGrant lkGranted)) lkOidA ''r'') = Some (ac_receipt lkActionA)
    \<and> map_option gt_state (getGrant (fst (releaseSection lockMac None at0 lkOwnerA lkGrant lkGranted)) lkOidA lkGid) = Some Released"
proof -
  let ?b = "fst (releaseSection lockMac None at0 lkOwnerA lkGrant lkGranted)"
  have act: "getAct lkGranted lkOidA ''r'' = Some lkActionA" by code_simp
  have alive: "gget (au_owners ?b) lkOidA \<noteq> None" by code_simp
  have outcome: "rc_Outcome (ac_receipt lkActionA) \<noteq> Pending" by code_simp
  have step: "lock_step lockMac (lkSystem lkGranted []) (advance (lkSystem lkGranted []) ?b 0)"
    using step_release [of "lkSystem lkGranted []" at0 0 lockMac None lkOwnerA lkGrant] readings0 by (simp add: lkSystem_def)
  from receipts_final [OF lkGranted_reached step, of lkOidA "''r''" lkActionA] act alive outcome
  have "map_option ac_receipt (getAct ?b lkOidA ''r'') = Some (ac_receipt lkActionA)" by (auto simp: lkSystem_def)
  moreover have "map_option gt_state (getGrant ?b lkOidA lkGid) = Some Released" by code_simp
  ultimately show ?thesis ..
qed

section \<open>Waiting calls\<close>

definition idle :: "Authority \<Rightarrow> bool" where
  "idle a \<longleftrightarrow> (\<forall>rid. \<not> busyRes a rid)"

lemma idle_calm:
  assumes "calm b = calm a"
  shows "idle b = idle a"
  by (simp add: idle_def calm_busy [OF assms])

lemma idle_expireSessions [simp]: "idle (expireSessionsLocked t a) = idle a"
  by (rule idle_calm) simp

lemma idle_expireGrants [simp]: "idle (expireGrantsLocked rid t a) = idle a"
  by (rule idle_calm) simp

lemma idle_addAction [simp]: "idle (addAction oid req x a) = idle a"
  by (simp add: idle_def busyRes_def addAction_def updOwn_def)

lemma idle_grantLockedForOwner: "idle a \<Longrightarrow> idle (fst (grantLockedForOwner mac t oid ref a))"
  by (auto simp: grantLockedForOwner_def Let_def split: sum.split option.split)

lemma idle_sections:
  assumes "idle a"
  shows "snd (Authority_retireOwnerSection mac ctxErr clk ref a) \<noteq> WaitBusy" "snd (closeSessionSection mac ctxErr clk sid a) \<noteq> WaitBusy"
    "snd (queryActionSection mac ctxErr clk ref req a) \<noteq> WaitBusy" "snd (queryGrantSection mac ctxErr clk ref grant a) \<noteq> WaitBusy"
    "snd (releaseSection mac ctxErr clk ref grant a) \<noteq> WaitBusy" "snd (cancelActionSection mac ctxErr clk ref req a) \<noteq> WaitBusy"
proof -
  have ownerBusy: "\<not> ownerBusyLocked b oid" if "idle b" for b oid
    using that by (auto simp: ownerBusyLocked_def idle_def list_ex_iff split: option.split)
  have grantBusy: "\<not> grantBusy b oid x" if "idle b" for b oid x
    using that by (auto simp: grantBusy_def idle_def split: option.split)
  have ex: "idle (expireSessionsLocked t a)" for t using assms by simp
  have busy: "\<not> busyRes b rid" if "grantLockedForOwner mac t oid ref (expireSessionsLocked t' a) = (b, r)" for t oid ref t' rid b r
    using idle_grantLockedForOwner [OF ex, of mac t oid ref t'] that by (simp add: idle_def)
  show "snd (Authority_retireOwnerSection mac ctxErr clk ref a) \<noteq> WaitBusy"
    using ownerBusy [OF assms] by (simp add: Authority_retireOwnerSection_def split: option.split sum.split)
  show "snd (closeSessionSection mac ctxErr clk sid a) \<noteq> WaitBusy"
    using ownerBusy [OF assms] by (auto simp: closeSessionSection_def list_ex_iff split: option.split sum.split)
  show "snd (queryActionSection mac ctxErr clk ref req a) \<noteq> WaitBusy"
    using grantBusy [OF ex] by (simp add: queryActionSection_def Let_def split: option.split sum.split prod.split)
  show "snd (queryGrantSection mac ctxErr clk ref grant a) \<noteq> WaitBusy"
    by (auto simp: queryGrantSection_def Let_def dest: busy split: option.split sum.split prod.split)
  show "snd (releaseSection mac ctxErr clk ref grant a) \<noteq> WaitBusy"
    by (auto simp: releaseSection_def Let_def dest: busy split: option.split sum.split prod.split)
  show "snd (cancelActionSection mac ctxErr clk ref req a) \<noteq> WaitBusy"
    using grantBusy ex by (auto simp: cancelActionSection_def Let_def split: option.split sum.split prod.split)
qed

lemma retryBusy_answers: "snd (sect a) \<noteq> WaitBusy \<Longrightarrow> snd (retryBusy sect stopped ws a) \<noteq> None"
  by (cases ws) (auto split: prod.split waiting.split)

lemma retryBusy_stops: "ContextDone e \<in> set ws \<Longrightarrow> snd (retryBusy sect stopped ws a) \<noteq> None"
  by (induction ws arbitrary: a) (auto split: prod.split waiting.split wakeup.split)

lemma retryBusy_ends:
  "(idle a \<longrightarrow> snd (sect a) \<noteq> WaitBusy) \<Longrightarrow> idle a \<or> (\<exists>e. ContextDone e \<in> set ws) \<Longrightarrow> snd (retryBusy sect stopped ws a) \<noteq> None"
  using retryBusy_answers retryBusy_stops by metis

text \<open>C16: calls that wait for a publication return. The six operations that wait while a resource is
  busy return an answer at once in every reachable state without a publication in flight, and
  return in any state once their context ends, however often they were woken before.\<close>

theorem waiting_calls_return:
  assumes "reach lock_init (lock_step mac) s" and "ly_pubs s = [] \<or> (\<exists>e. ContextDone e \<in> set wakes)"
  shows "snd (Authority_RetireOwner mac ctxErr clk wakes ref (ly_auth s)) \<noteq> None
    \<and> snd (CloseSession mac ctxErr clk wakes sid (ly_auth s)) \<noteq> None
    \<and> snd (QueryAction mac ctxErr clk wakes ref req (ly_auth s)) \<noteq> None
    \<and> snd (QueryGrant mac ctxErr clk wakes ref grant (ly_auth s)) \<noteq> None
    \<and> snd (Release mac ctxErr clk wakes ref grant (ly_auth s)) \<noteq> None
    \<and> snd (Authority_Cancel mac ctxErr clk wakes ref req (ly_auth s)) \<noteq> None"
proof -
  have "pubs_inv (ly_pubs s) (ly_auth s)" using lock.reach_inv [OF assms(1)] by (simp add: lock_inv_def)
  then have "ly_pubs s = [] \<Longrightarrow> idle (ly_auth s)" by (auto simp: pubs_inv_def idle_def busyRes_def split: option.splits)
  with assms(2) have "idle (ly_auth s) \<or> (\<exists>e. ContextDone e \<in> set wakes)" by blast
  then show ?thesis
    unfolding Authority_RetireOwner_def CloseSession_def QueryAction_def QueryGrant_def Release_def Authority_Cancel_def
    by (intro conjI retryBusy_ends) (simp_all add: idle_sections)
qed

theorem waiting_calls_return_witness:
  "snd (releaseSection lockMac None at0 lkOwnerA lkGrant lkWriting) = WaitBusy
    \<and> snd (Release lockMac None at0 [Woken id, ContextDone (fail Retired)] lkOwnerA lkGrant lkWriting) \<noteq> None
    \<and> snd (Release lockMac None at0 [] lkOwnerA lkGrant lkQueued) \<noteq> None"
proof -
  have "snd (releaseSection lockMac None at0 lkOwnerA lkGrant lkWriting) = WaitBusy" by code_simp
  moreover have "snd (Release lockMac None at0 [Woken id, ContextDone (fail Retired)] lkOwnerA lkGrant lkWriting) \<noteq> None"
    using waiting_calls_return [OF lkWriting_reached, of "[Woken id, ContextDone (fail Retired)]" None at0 lkOwnerA lkSid "''r''" lkGrant]
    by (simp add: lkWritingSystem_def lkSystem_def)
  moreover have "snd (Release lockMac None at0 [] lkOwnerA lkGrant lkQueued) \<noteq> None"
    using waiting_calls_return [OF lkQueued_reached, of "[]" None at0 lkOwnerA lkSid "''r''" lkGrant] by (simp add: lkSystem_def)
  ultimately show ?thesis by blast
qed

section \<open>Maintenance\<close>

text \<open>C15: maintenance catches up. After one pass at an instant of an open authority, every resource that
  is not busy has only grants whose deadline is still ahead, every waiting request still has
  time, every non-empty queue has a worker unless the authority is fenced, and the next pass
  is set no later than the first of these deadlines.\<close>

theorem maintenance_settles:
  assumes "reach lock_init (lock_step mac) s" and "\<not> au_closed (ly_auth s)"
    and "maintainScan t (ly_auth s) = (b, wake, forgotten)" and "rid \<in> set (au_resources (ly_auth s))"
  shows "(\<forall>oid gid g. \<not> busyRes b rid \<longrightarrow> live b oid gid g \<longrightarrow> gt_resource g = rid \<longrightarrow> t < gt_deadline g \<and> wake \<le> gt_deadline g)
    \<and> (\<forall>oid req x. (oid, req) \<in> set (resQueue b rid) \<longrightarrow> getAct b oid req = Some x \<longrightarrow> rc_Outcome (ac_receipt x) = Pending
        \<longrightarrow> (\<exists>until. ac_waitUntil x = Some until \<and> t < until \<and> wake \<le> until))
    \<and> (\<forall>r. gget (au_objects b) rid = Some r \<longrightarrow> rs_queue r \<noteq> [] \<longrightarrow> rs_worker r \<or> au_closed b \<or> au_fenced b \<noteq> None)"
proof -
  let ?a = "expireSessionsLocked t (ly_auth s)"
  from assms(2,3) obtain next' where scan: "fold (maintainResource t) (au_resources ?a) (?a, next', []) = (b, wake, forgotten)"
    by (auto simp: maintainScan_def Let_def)
  have "auth_inv (ly_now s) (ly_auth s)" using lock.reach_inv [OF assms(1)] by (simp add: lock_inv_def)
  then have "auth_inv (ly_now s) ?a" by (rule auth_inv_runs [rotated]) (intro runs_intros)
  from maintainFold_settles [OF scan this, of "{}"] have "\<forall>rid \<in> set (au_resources ?a). settled t wake rid b" by simp
  moreover have "au_resources ?a = au_resources (ly_auth s)" using calm_same [OF calm_expireSessions] by simp
  ultimately have "settled t wake rid b" using assms(4) by simp
  then show ?thesis unfolding settled_def leases_fresh_def waits_fresh_def served_def by blast
qed

theorem maintenance_settles_witness:
  "\<exists>b wake forgotten. maintainScan 500000000 lkQueued = (b, wake, forgotten) \<and> wake \<le> 1000000000
    \<and> (\<exists>g. live b lkOidA lkGid g \<and> gt_resource g = lkRid \<and> 500000000 < gt_deadline g)"
proof -
  obtain b wake forgotten where scan: "maintainScan 500000000 lkQueued = (b, wake, forgotten)" by (metis prod_cases3)
  have "map_option (\<lambda>g. (gt_state g, gt_resource g, gt_deadline g)) (getGrant (fst (maintainScan 500000000 lkQueued)) lkOidA lkGid)
      = Some (Active, lkRid, 1000000000)" by code_simp
  then obtain g where g: "live b lkOidA lkGid g" "gt_resource g = lkRid" "gt_deadline g = 1000000000" using scan by (auto simp: live_def)
  have "\<not> busyRes (fst (maintainScan 500000000 lkQueued)) lkRid" by code_simp
  then have idle: "\<not> busyRes b lkRid" using scan by simp
  have opened: "\<not> au_closed lkQueued" and res: "lkRid \<in> set (au_resources lkQueued)" by code_simp+
  note pass = maintenance_settles [OF lkQueued_reached, of 500000000 b wake forgotten lkRid, unfolded lkSystem_def, simplified]
  from pass [OF opened scan res] g idle have "500000000 < gt_deadline g \<and> wake \<le> gt_deadline g" by blast
  with scan g show ?thesis by auto
qed

section \<open>Cancellation\<close>

lemma getGrant_touch [simp]: "getGrant (touchLocked t oid a) = getGrant a"
  by (simp add: touchLocked_def touchSessionLocked_def updSess_def split: option.split)

lemma cancelEffect_settles:
  assumes "getAct a oid req = Some x"
  shows "\<exists>y result. getAct (cancelEffect t oid req a) oid req = Some y \<and> rc_Outcome (ac_receipt y) \<noteq> Pending
    \<and> (rc_Outcome (ac_receipt x) \<noteq> Pending \<longrightarrow> rc_Outcome (ac_receipt y) = rc_Outcome (ac_receipt x))
    \<and> (rc_Outcome (ac_receipt x) = Pending \<longrightarrow> rc_Outcome (ac_receipt y) = Cancelled)
    \<and> ac_cancel y = Some result \<and> cr_Outcome result = rc_Outcome (ac_receipt y) \<and> ac_grant y = ac_grant x
    \<and> (\<forall>gid g. ac_grant y = Some gid \<longrightarrow> \<not> live (cancelEffect t oid req a) oid gid g)"
proof -
  let ?x = "if rc_Outcome (ac_receipt x) = Pending then x\<lparr>ac_receipt := (ac_receipt x)\<lparr>rc_Outcome := Cancelled, rc_Code := None\<rparr>\<rparr> else x"
  have x: "getAct (finishLocked oid req Cancelled None a) oid req = Some ?x" using assms by (simp add: getAct_finish)
  show ?thesis
    unfolding cancelEffect_def Let_def x option.case
    by (cases "ac_grant x") (auto simp: x getAct_updAct live_def getGrant_endGrant split: option.split prod.split)
qed

lemma acquireBegin_known:
  assumes "getAct b (or_Owner (aq_Owner request)) (aq_Request request) = Some x" and "acquireBegin mac ctxErr clk request b = (c, r)"
  shows "r \<noteq> BeginStarted rid started"
proof
  assume "r = BeginStarted rid started"
  let ?e = "expireSessionsLocked (clk 1) b" and ?oid = "or_Owner (aq_Owner request)"
  from assms(2) \<open>r = _\<close> obtain ow where ow: "Authority_ownerLocked mac (aq_Owner request) ?e = Inr ow" and new: "getAct ?e ?oid (aq_Request request) = None"
    unfolding acquireBegin_def Let_def by (auto split: option.splits sum.splits if_splits)
  from ownerLocked_found [OF ow] have "gget (au_owners ?e) ?oid \<noteq> None" by simp
  from expireSessions_getters(1) [OF this] new assms(1) show False by simp
qed

text \<open>The first successful cancellation of a request.\<close>

lemma cancelSection_settles:
  assumes "cancelActionSection mac ctxErr clk ref req a = (b, Answer (Inr result))"
    and "\<And>x. getAct a (or_Owner ref) req = Some x \<Longrightarrow> ac_cancel x = None"
  shows "\<exists>y. getAct b (or_Owner ref) req = Some y \<and> rc_Outcome (ac_receipt y) \<noteq> Pending \<and> cr_Outcome result = rc_Outcome (ac_receipt y)
      \<and> (case getAct a (or_Owner ref) req of None \<Rightarrow> cr_Outcome result = Cancelled
         | Some x \<Rightarrow> cr_Outcome result = (if rc_Outcome (ac_receipt x) = Pending then Cancelled else rc_Outcome (ac_receipt x)) \<and> ac_grant y = ac_grant x)
      \<and> (\<forall>gid g. ac_grant y = Some gid \<longrightarrow> \<not> live b (or_Owner ref) gid g)"
proof -
  let ?oid = "or_Owner ref" and ?e = "expireSessionsLocked (clk 1) a"
  define n where "n = (if getAct ?e ?oid req = None then addAction ?oid req (tombstone req) ?e else ?e)"
  from assms(1) obtain ow where ow: "Authority_ownerLocked mac ref ?e = Inr ow"
    by (auto simp: cancelActionSection_def Let_def split: option.splits sum.splits if_splits)
  have found: "gget (au_owners ?e) ?oid \<noteq> None" using ownerLocked_found [OF ow] by simp
  note same = expireSessions_getters(1) [OF found, of req]
  obtain x where x: "getAct n ?oid req = Some x" and known: "getAct a ?oid req = None \<Longrightarrow> x = tombstone req" "getAct a ?oid req \<noteq> None \<Longrightarrow> getAct a ?oid req = Some x"
    using found same by (cases "getAct a ?oid req") (auto simp: n_def getAct_addAction)
  have cancel: "ac_cancel x = None" using assms(2) known by (cases "getAct a ?oid req") (auto simp: tombstone_def)
  from cancelEffect_settles [OF x, of "clk 2"] obtain y res where y: "getAct (cancelEffect (clk 2) ?oid req n) ?oid req = Some y"
    "rc_Outcome (ac_receipt y) \<noteq> Pending" "rc_Outcome (ac_receipt x) \<noteq> Pending \<longrightarrow> rc_Outcome (ac_receipt y) = rc_Outcome (ac_receipt x)"
    "rc_Outcome (ac_receipt x) = Pending \<longrightarrow> rc_Outcome (ac_receipt y) = Cancelled"
    "ac_cancel y = Some res" "cr_Outcome res = rc_Outcome (ac_receipt y)" "ac_grant y = ac_grant x"
    "\<forall>gid g. ac_grant y = Some gid \<longrightarrow> \<not> live (cancelEffect (clk 2) ?oid req n) ?oid gid g" by blast
  have "b = touchLocked (clk 3) ?oid (cancelEffect (clk 2) ?oid req n) \<and> cr_Outcome result = cr_Outcome res"
    using assms(1) [unfolded cancelActionSection_def Let_def, folded n_def] ow x cancel y(1,5) by (auto split: option.splits if_splits)
  then have b: "getAct b ?oid req = Some y" "live b = live (cancelEffect (clk 2) ?oid req n)" "cr_Outcome result = rc_Outcome (ac_receipt y)"
    using y by (auto simp: fun_eq_iff live_def)
  then show ?thesis using y known by (cases "getAct a ?oid req") (auto simp: tombstone_def)
qed

text \<open>A run in which an owner's identity is not handed out anew once the owner is gone.\<close>

definition keeps_identity :: "(string \<Rightarrow> nat list) \<Rightarrow> OwnerID \<Rightarrow> lock_system \<Rightarrow> lock_system \<Rightarrow> bool" where
  "keeps_identity mac oid u v \<longleftrightarrow> lock_step mac u v
     \<and> (gget (au_owners (ly_auth u)) oid = None \<longrightarrow> gget (au_owners (ly_auth v)) oid = None)"

lemma run_reach:
  assumes "(keeps_identity mac oid)\<^sup>*\<^sup>* s u" and "reach lock_init (lock_step mac) s"
  shows "reach lock_init (lock_step mac) u"
  using assms by (induction rule: rtranclp_induct) (auto simp: keeps_identity_def intro: reach_step)

lemma run_records:
  assumes "(keeps_identity mac oid)\<^sup>*\<^sup>* s u" and "reach lock_init (lock_step mac) s"
    and "getAct (ly_auth s) oid req = Some x" and "gget (au_owners (ly_auth u)) oid \<noteq> None"
  shows "(\<exists>y. getAct (ly_auth u) oid req = Some y \<and> act_evolves x y)
    \<and> (\<forall>gid g. getGrant (ly_auth s) oid gid = Some g \<longrightarrow> (\<exists>h. getGrant (ly_auth u) oid gid = Some h \<and> grant_evolves g h))"
  using assms(1,4)
proof (induction rule: rtranclp_induct)
  case base
  then show ?case using assms(3) by (auto simp: grant_evolves_def)
next
  case (step u v)
  have here: "gget (au_owners (ly_auth u)) oid \<noteq> None" using step.hyps(2) step.prems by (auto simp: keeps_identity_def)
  note old = step.IH [OF here]
  have "lock_step mac u v" using step.hyps(2) by (simp add: keeps_identity_def)
  from step_changes [OF this lock.reach_inv [OF run_reach [OF step.hyps(1) assms(2)]]] obtain al
    where ch: "changes (ly_now v) al (ly_auth u) (ly_auth v)" and al: "step_allows u v al" by blast
  have "oid \<notin> al_minted al" using al here by (auto simp: step_allows_def)
  from records_changes [OF ch this] step.prems
  have acts: "\<And>x. getAct (ly_auth u) oid req = Some x \<Longrightarrow> \<exists>y. getAct (ly_auth v) oid req = Some y \<and> act_evolves x y"
    and grants: "\<And>gid g. getGrant (ly_auth u) oid gid = Some g \<Longrightarrow> \<exists>h. getGrant (ly_auth v) oid gid = Some h \<and> grant_evolves g h"
    by blast+
  have "\<exists>y. getAct (ly_auth v) oid req = Some y \<and> act_evolves x y"
    using old acts by (blast intro: act_evolves_trans)
  moreover have "\<exists>h. getGrant (ly_auth v) oid gid = Some h \<and> grant_evolves g h" if "getGrant (ly_auth s) oid gid = Some g" for gid g
    using old grants that by (blast intro: grant_evolves_trans)
  ultimately show ?case by blast
qed

lemma acquireBegin_gone:
  assumes "gget (au_owners b) (or_Owner (aq_Owner request)) = None" and "acquireBegin mac ctxErr clk request b = (c, r)"
  shows "r \<noteq> BeginStarted rid started"
proof
  assume "r = BeginStarted rid started"
  let ?e = "expireSessionsLocked (clk 1) b"
  from assms(2) \<open>r = _\<close> obtain ow where "Authority_ownerLocked mac (aq_Owner request) ?e = Inr ow"
    unfolding acquireBegin_def Let_def by (auto split: option.splits sum.splits if_splits)
  from expireSessions_owners [OF conjunct1 [OF ownerLocked_found [OF this]]] assms(1) show False by simp
qed

lemma settled_idle:
  assumes "\<And>x. getAct a oid req = Some x \<Longrightarrow> rc_Outcome (ac_receipt x) \<noteq> Pending"
  shows "workerGuard mac ctxErr clk nonce rid oid req a = (a, None)"
    and "or_Owner (aq_Owner request) = oid \<Longrightarrow> aq_Request request = req \<Longrightarrow> acquireGuard mac ctxErr clk nonce request rid started a = (a, None)"
    and "queue_inv a \<Longrightarrow> gget (au_objects a) rid = Some r \<Longrightarrow> (oid, req) \<notin> set (rs_queue r)"
  using assms
  by (auto simp: workerGuard_def acquireGuard_def Let_def queue_inv_def queues_exact_def waiting_def waits_def split: option.split)

text \<open>C14: a cancelled request never runs. After the first successful cancellation of a request identity, in
  every later state of every further run of the authority: while the owner is registered the
  request keeps a settled receipt with the outcome that was answered (cancelled if the request was
  pending or had never been seen); the grant it held is not live; it waits in no queue; no
  acquisition under its identity starts; and the guarded sections of an acquisition that was
  already in flight, in the call and in the resource's worker, change nothing. The runs are
  those in which the owner's random identity is not drawn again after the owner is gone.\<close>

theorem cancel_is_final:
  assumes "reach lock_init (lock_step mac) s" and "readings (ly_now s) clk t"
    and "cancelActionSection mac ctxErr clk ref req (ly_auth s) = (b, Answer (Inr result))"
    and "\<And>x. getAct (ly_auth s) (or_Owner ref) req = Some x \<Longrightarrow> ac_cancel x = None"
    and "(keeps_identity mac (or_Owner ref))\<^sup>*\<^sup>* (advance s b t) u"
  defines "before \<equiv> getAct (ly_auth s) (or_Owner ref) req" and "a \<equiv> ly_auth u"
  shows "cr_Outcome result = (case before of None \<Rightarrow> Cancelled
        | Some x \<Rightarrow> if rc_Outcome (ac_receipt x) = Pending then Cancelled else rc_Outcome (ac_receipt x))
    \<and> (gget (au_owners a) (or_Owner ref) \<noteq> None \<longrightarrow> (\<exists>y. getAct a (or_Owner ref) req = Some y
        \<and> rc_Outcome (ac_receipt y) = cr_Outcome result \<and> cr_Outcome result \<noteq> Pending))
    \<and> (\<forall>x gid g h. before = Some x \<longrightarrow> ac_grant x = Some gid \<longrightarrow> live (ly_auth s) (or_Owner ref) gid g \<longrightarrow> \<not> live a (or_Owner ref) gid h)
    \<and> (\<forall>rid r. gget (au_objects a) rid = Some r \<longrightarrow> (or_Owner ref, req) \<notin> set (rs_queue r))
    \<and> (\<forall>ctxErr' clk' nonce request rid started. aq_Owner request = ref \<longrightarrow> aq_Request request = req
        \<longrightarrow> snd (acquireBegin mac ctxErr' clk' request a) \<noteq> BeginStarted rid started
            \<and> acquireGuard mac ctxErr' clk' nonce request rid started a = (a, None))
    \<and> (\<forall>ctxErr' clk' nonce rid. workerGuard mac ctxErr' clk' nonce rid (or_Owner ref) req a = (a, None))"
proof -
  let ?oid = "or_Owner ref" and ?s1 = "advance s b t"
  from cancelSection_settles [OF assms(3,4)] obtain y where y: "getAct b ?oid req = Some y" "rc_Outcome (ac_receipt y) \<noteq> Pending"
      "cr_Outcome result = rc_Outcome (ac_receipt y)"
    and was: "case before of None \<Rightarrow> cr_Outcome result = Cancelled
         | Some x \<Rightarrow> cr_Outcome result = (if rc_Outcome (ac_receipt x) = Pending then Cancelled else rc_Outcome (ac_receipt x)) \<and> ac_grant y = ac_grant x"
    and ended: "\<And>gid g. ac_grant y = Some gid \<Longrightarrow> \<not> live b ?oid gid g" unfolding before_def by blast
  have step: "lock_step mac s ?s1" using step_cancel [OF assms(2), of mac ctxErr ref req] assms(3) by simp
  then have reached: "reach lock_init (lock_step mac) ?s1" by (rule reach_step [OF assms(1)])
  have b: "ly_auth ?s1 = b" by simp
  note kept = run_records [OF assms(5) reached, unfolded b, OF y(1), folded a_def]
  have receipt: "\<exists>z. getAct a ?oid req = Some z \<and> ac_receipt z = ac_receipt y" if "gget (au_owners a) ?oid \<noteq> None"
    using kept [OF that] y(2) by (auto simp: act_evolves_def)
  have queues: "queue_inv a" unfolding a_def by (rule reach_queues [OF run_reach [OF assms(5) reached]])
  have settled: "rc_Outcome (ac_receipt x) \<noteq> Pending" if "getAct a ?oid req = Some x" for x
  proof -
    have "gget (au_owners a) ?oid \<noteq> None" using that by (auto simp: getAct_def split: option.splits)
    from receipt [OF this] that y(2) show ?thesis by auto
  qed
  have "\<not> live a ?oid gid h" if "before = Some x" "ac_grant x = Some gid" "live (ly_auth s) ?oid gid g" for x gid g h
  proof
    assume l: "live a ?oid gid h"
    then have here: "gget (au_owners a) ?oid \<noteq> None" by (auto simp: live_def getGrant_def split: option.splits)
    have grant: "ac_grant y = Some gid" using was that by simp
    have "gget (au_owners (ly_auth s)) ?oid \<noteq> None" "gget (au_owners (ly_auth ?s1)) ?oid \<noteq> None"
      using that(3) y(1) by (auto simp: live_def getGrant_def getAct_def split: option.splits)
    with step have "(keeps_identity mac ?oid)\<^sup>*\<^sup>* s ?s1" by (intro r_into_rtranclp) (auto simp: keeps_identity_def)
    from run_records [OF this assms(1) that(1) [unfolded before_def]] that(3) y(1)
    obtain k where k: "getGrant b ?oid gid = Some k" by (auto simp: live_def getAct_def split: option.splits)
    with ended [OF grant, of k] have "gt_state k \<noteq> Active" by (auto simp: live_def)
    with conjunct2 [OF kept [OF here], rule_format, OF k] l show False by (auto simp: live_def grant_evolves_def)
  qed
  moreover have "workerGuard mac ctxErr' clk' nonce rid ?oid req a = (a, None)" for ctxErr' clk' nonce rid
    by (rule settled_idle(1)) (rule settled)
  moreover have "acquireGuard mac ctxErr' clk' nonce request rid started a = (a, None)"
    if "aq_Owner request = ref" "aq_Request request = req" for ctxErr' clk' nonce request rid started
    by (rule settled_idle(2) [of a ?oid req]) (use that settled in simp_all)
  moreover have "(?oid, req) \<notin> set (rs_queue r)" if "gget (au_objects a) rid = Some r" for rid r
    by (rule settled_idle(3) [of a ?oid req, OF _ queues that]) (rule settled)
  moreover have "snd (acquireBegin mac ctxErr' clk' request a) \<noteq> BeginStarted rid started"
    if "aq_Owner request = ref" "aq_Request request = req" for ctxErr' clk' request rid started
    using acquireBegin_gone [of a request mac ctxErr' clk'] acquireBegin_known [of a request _ mac ctxErr' clk'] receipt that
    by (cases "acquireBegin mac ctxErr' clk' request a") force
  moreover have "cr_Outcome result = (case before of None \<Rightarrow> Cancelled
        | Some x \<Rightarrow> if rc_Outcome (ac_receipt x) = Pending then Cancelled else rc_Outcome (ac_receipt x))"
    using was by (cases before) auto
  moreover have "\<exists>z. getAct a ?oid req = Some z \<and> rc_Outcome (ac_receipt z) = cr_Outcome result \<and> cr_Outcome result \<noteq> Pending"
    if "gget (au_owners a) ?oid \<noteq> None" using receipt [OF that] y(2,3) by auto
  ultimately show ?thesis by blast
qed

text \<open>Owner B waits behind A's lease; B's request is cancelled and then A releases. Nothing is
  granted to B.\<close>

theorem cancel_is_final_witness:
  "\<exists>b result. cancelActionSection lockMac None at0 lkOwnerB ''r'' lkQueued = (b, Answer (Inr result)) \<and> cr_Outcome result = Cancelled
    \<and> (case fst (releaseSection lockMac None at0 lkOwnerA lkGrant b) of a \<Rightarrow>
         workerGuard lockMac None at0 [7] lkRid lkOidB ''r'' a = (a, None)
         \<and> snd (acquireBegin lockMac None at0 lkAcquireB a) \<noteq> BeginStarted lkRid 0)"
proof -
  let ?s = "lkSystem lkQueued []"
  have "(case snd (cancelActionSection lockMac None at0 lkOwnerB ''r'' lkQueued) of Answer (Inr _) \<Rightarrow> True | _ \<Rightarrow> False)" by code_simp
  then obtain b result where c: "cancelActionSection lockMac None at0 lkOwnerB ''r'' lkQueued = (b, Answer (Inr result))"
    by (cases "cancelActionSection lockMac None at0 lkOwnerB ''r'' lkQueued") (auto split: waiting.splits sum.splits)
  let ?a = "fst (releaseSection lockMac None at0 lkOwnerA lkGrant b)"
  have act: "getAct lkQueued (or_Owner lkOwnerB) ''r'' = Some lkActionB" "ac_cancel lkActionB = None" "rc_Outcome (ac_receipt lkActionB) = Pending"
    by code_simp+
  have "gget (au_owners (fst (cancelActionSection lockMac None at0 lkOwnerB ''r'' lkQueued))) lkOidB \<noteq> None" by code_simp
  then have owner: "gget (au_owners b) lkOidB \<noteq> None" using c by simp
  have "lock_step lockMac (advance ?s b 0) (advance (advance ?s b 0) ?a 0)"
    using step_release [of "advance ?s b 0" at0 0 lockMac None lkOwnerA lkGrant] readings0 by (simp add: lkSystem_def)
  then have run: "(keeps_identity lockMac (or_Owner lkOwnerB))\<^sup>*\<^sup>* (advance ?s b 0) (advance (advance ?s b 0) ?a 0)"
    using owner by (intro r_into_rtranclp) (auto simp: keeps_identity_def lkOwnerB_def)
  have req: "aq_Owner lkAcquireB = lkOwnerB" "aq_Request lkAcquireB = ''r''" "or_Owner lkOwnerB = lkOidB" by (simp_all add: lkAcquireB_def lkOwnerB_def)
  from cancel_is_final [OF lkQueued_reached _ _ _ run, of at0 None "''r''" result] c act readings0 req show ?thesis
    by (auto simp: lkSystem_def)
qed

end
