(* ===== verification/WireBytes.thy ===== *)
theory WireBytes
  imports Prelude "HOL-Library.Monad_Syntax"
begin

text \<open>
  Byte slices as the SMB codec uses them: bounded slicing, little-endian integers read from
  and written into a slice, and the facts that a write is read back and leaves the rest.
\<close>

section \<open>Slices\<close>

text \<open>A Go slice of bytes is its list. An index or a slice expression that leaves the slice is
  \<open>None\<close>: where Go would panic, or would extend a slice into the capacity behind it, the
  model stops. A function that can return an error is of type \<open>'a result\<close>, with the
  error inside.\<close>

type_synonym bytes = "u8 list"
type_synonym u16 = "16 word"
type_synonym u32 = "32 word"

datatype wire_error = ErrMalformed

type_synonym 'a result = "(wire_error + 'a) option"

definition slice :: "bytes \<Rightarrow> nat \<Rightarrow> nat \<Rightarrow> bytes option" where
  "slice b i j = (if i \<le> j \<and> j \<le> length b then Some (take (j - i) (drop i b)) else None)"

definition tail :: "bytes \<Rightarrow> nat \<Rightarrow> bytes option" where
  "tail b i = slice b i (length b)"

definition byteAt :: "bytes \<Rightarrow> nat \<Rightarrow> u8 option" where
  "byteAt b i = (if i < length b then Some (b ! i) else None)"

text \<open>\<open>copy(b[i:j], src)\<close> into a slice that is kept: as many bytes as fit.\<close>

definition copyAt :: "bytes \<Rightarrow> nat \<Rightarrow> nat \<Rightarrow> bytes \<Rightarrow> bytes option" where
  "copyAt b i j src =
     (if i \<le> j \<and> j \<le> length b then Some (take i b @ take (j - i) src @ drop (i + min (j - i) (length src)) b) else None)"

definition setByte :: "bytes \<Rightarrow> nat \<Rightarrow> u8 \<Rightarrow> bytes option" where
  "setByte b i v = (if i < length b then Some (b[i := v]) else None)"

definition zeros :: "nat \<Rightarrow> bytes" where
  "zeros n = replicate n 0"

section \<open>Little-endian integers\<close>

fun le_value :: "bytes \<Rightarrow> int" where
  "le_value [] = 0"
| "le_value (b # bs) = uint b + 256 * le_value bs"

fun le_bytes :: "nat \<Rightarrow> int \<Rightarrow> bytes" where
  "le_bytes 0 v = []"
| "le_bytes (Suc n) v = word_of_int v # le_bytes n (v div 256)"

text \<open>\<open>le.Uint16(b[i:i+2])\<close> and \<open>le.Uint16(b[i:])\<close>, and the same for the other widths.\<close>

definition Uint16 :: "bytes \<Rightarrow> nat \<Rightarrow> u16 option" where
  "Uint16 b i = (if i + 2 \<le> length b then Some (word_of_int (le_value (take 2 (drop i b)))) else None)"

definition Uint32 :: "bytes \<Rightarrow> nat \<Rightarrow> u32 option" where
  "Uint32 b i = (if i + 4 \<le> length b then Some (word_of_int (le_value (take 4 (drop i b)))) else None)"

definition Uint64 :: "bytes \<Rightarrow> nat \<Rightarrow> u64 option" where
  "Uint64 b i = (if i + 8 \<le> length b then Some (word_of_int (le_value (take 8 (drop i b)))) else None)"

definition PutUint16 :: "bytes \<Rightarrow> nat \<Rightarrow> u16 \<Rightarrow> bytes option" where
  "PutUint16 b i v = copyAt b i (i + 2) (le_bytes 2 (uint v))"

definition PutUint32 :: "bytes \<Rightarrow> nat \<Rightarrow> u32 \<Rightarrow> bytes option" where
  "PutUint32 b i v = copyAt b i (i + 4) (le_bytes 4 (uint v))"

definition PutUint64 :: "bytes \<Rightarrow> nat \<Rightarrow> u64 \<Rightarrow> bytes option" where
  "PutUint64 b i v = copyAt b i (i + 8) (le_bytes 8 (uint v))"

section \<open>Facts\<close>

lemma length_le_bytes [simp]: "length (le_bytes n v) = n"
  by (induction n arbitrary: v) auto

lemma le_value_bytes: "le_value (le_bytes n v) = v mod 256 ^ n"
proof (induction n arbitrary: v)
  case (Suc n)
  have "le_value (le_bytes (Suc n) v) = v mod 256 + 256 * (v div 256 mod 256 ^ n)"
    using Suc by (simp add: uint_word_of_int)
  also have "\<dots> = v mod 256 ^ Suc n" by (simp add: zmod_zmult2_eq)
  finally show ?case .
qed simp

lemma le_value_range: "0 \<le> le_value b \<and> le_value b < 256 ^ length b"
proof (induction b)
  case (Cons x b)
  have "0 \<le> uint x" "uint x < 256" using uint_lt2p [of x] by auto
  with Cons show ?case by auto
qed simp

lemma le_bytes_value: "le_bytes (length b) (le_value b) = b"
proof (induction b)
  case (Cons x b)
  have x: "0 \<le> uint x" "uint x < 256" using uint_lt2p [of x] by auto
  then have "(uint x + 256 * le_value b) div 256 = le_value b" by simp
  moreover have "(256 :: u8) = 0" by code_simp
  then have "(256 :: u8) * word_of_int (le_value b) = 0" by (simp only: mult_zero_left)
  then have "word_of_int (uint x + 256 * le_value b) = x" by simp
  ultimately show ?case using Cons by simp
qed simp

lemma le_word16: "word_of_int (le_value (le_bytes 2 (uint v))) = (v :: u16)"
  and le_word32: "word_of_int (le_value (le_bytes 4 (uint w))) = (w :: u32)"
  and le_word64: "word_of_int (le_value (le_bytes 8 (uint x))) = (x :: u64)"
  using uint_lt2p [of v] uint_lt2p [of w] uint_lt2p [of x] by (simp_all add: le_value_bytes)

text \<open>A write in range keeps the length, is read back at its place, and leaves disjoint places.\<close>

definition poke :: "nat \<Rightarrow> bytes \<Rightarrow> bytes \<Rightarrow> bytes" where
  "poke i src b = take i b @ src @ drop (i + length src) b"

lemma length_poke [simp]: "i + length src \<le> length b \<Longrightarrow> length (poke i src b) = length b"
  by (simp add: poke_def)

lemma poke_same: "i + length src \<le> length b \<Longrightarrow> take (length src) (drop i (poke i src b)) = src"
  by (simp add: poke_def)

lemma poke_nth:
  assumes "i + length src \<le> length b" and "k < length b"
  shows "poke i src b ! k = (if i \<le> k \<and> k < i + length src then src ! (k - i) else b ! k)"
  using assms by (auto simp: poke_def nth_append)

lemma poke_other:
  assumes "i + length src \<le> length b" and "j + n \<le> i \<or> i + length src \<le> j" and "j + n \<le> length b"
  shows "take n (drop j (poke i src b)) = take n (drop j b)"
proof (rule nth_equalityI)
  show "length (take n (drop j (poke i src b))) = length (take n (drop j b))" using assms by simp
  fix k assume "k < length (take n (drop j (poke i src b)))"
  then have "k < n" "j + k < length b" using assms by auto
  then show "take n (drop j (poke i src b)) ! k = take n (drop j b) ! k"
    using assms by (auto simp: poke_nth)
qed

lemma slice_poke_same: "i + length src \<le> length b \<Longrightarrow> j = i + length src \<Longrightarrow> slice (poke i src b) i j = Some src"
  by (simp add: slice_def poke_same)

lemma slice_poke_other:
  assumes "i + length src \<le> length b" and "k \<le> i \<or> i + length src \<le> j"
  shows "slice (poke i src b) j k = slice b j k"
  using assms poke_other [of i src b j "k - j"] by (auto simp: slice_def)

lemma put_poke:
  "i + 2 \<le> length b \<Longrightarrow> PutUint16 b i v = Some (poke i (le_bytes 2 (uint v)) b)"
  "i + 4 \<le> length b \<Longrightarrow> PutUint32 b i w = Some (poke i (le_bytes 4 (uint w)) b)"
  "i + 8 \<le> length b \<Longrightarrow> PutUint64 b i x = Some (poke i (le_bytes 8 (uint x)) b)"
  "i \<le> j \<Longrightarrow> j \<le> length b \<Longrightarrow> length src = j - i \<Longrightarrow> copyAt b i j src = Some (poke i src b)"
  by (auto simp: PutUint16_def PutUint32_def PutUint64_def copyAt_def poke_def)

lemma get_poke_same:
  "i + 2 \<le> length b \<Longrightarrow> Uint16 (poke i (le_bytes 2 (uint v)) b) i = Some v"
  "i + 4 \<le> length b \<Longrightarrow> Uint32 (poke i (le_bytes 4 (uint w)) b) i = Some w"
  "i + 8 \<le> length b \<Longrightarrow> Uint64 (poke i (le_bytes 8 (uint x)) b) i = Some x"
  using poke_same [of i "le_bytes 2 (uint v)" b] poke_same [of i "le_bytes 4 (uint w)" b] poke_same [of i "le_bytes 8 (uint x)" b]
  by (simp_all add: Uint16_def Uint32_def Uint64_def le_word16 le_word32 le_word64)

lemma get_poke_other:
  assumes "i + length src \<le> length b"
  shows "j + 2 \<le> i \<or> i + length src \<le> j \<Longrightarrow> Uint16 (poke i src b) j = Uint16 b j"
    "j + 4 \<le> i \<or> i + length src \<le> j \<Longrightarrow> Uint32 (poke i src b) j = Uint32 b j"
    "j + 8 \<le> i \<or> i + length src \<le> j \<Longrightarrow> Uint64 (poke i src b) j = Uint64 b j"
    "j < i \<or> i + length src \<le> j \<Longrightarrow> byteAt (poke i src b) j = byteAt b j"
  using assms poke_other [of i src b j 2] poke_other [of i src b j 4] poke_other [of i src b j 8]
  by (auto simp: Uint16_def Uint32_def Uint64_def byteAt_def poke_nth)

lemma get_some:
  "i + 2 \<le> length b \<Longrightarrow> \<exists>v. Uint16 b i = Some v" "i + 4 \<le> length b \<Longrightarrow> \<exists>v. Uint32 b i = Some v"
  "i + 8 \<le> length b \<Longrightarrow> \<exists>v. Uint64 b i = Some v" "i < length b \<Longrightarrow> \<exists>v. byteAt b i = Some v"
  by (simp_all add: Uint16_def Uint32_def Uint64_def byteAt_def)

lemma slice_some: "i \<le> j \<Longrightarrow> j \<le> length b \<Longrightarrow> \<exists>s. slice b i j = Some s \<and> length s = j - i"
  by (simp add: slice_def)

lemma slice_SomeD: "slice b i j = Some s \<Longrightarrow> i \<le> j \<and> j \<le> length b \<and> length s = j - i \<and> s = take (j - i) (drop i b)"
  by (auto simp: slice_def split: if_splits)

end
