(* ===== verification/WireFrame.thy ===== *)
theory WireFrame
  imports WireBytes
begin

text \<open>
  \<^verbatim>\<open>packages/smb/internal/wire/header.go\<close> and \<^verbatim>\<open>bootstrap.go\<close>: message headers, compound frames, the
  fields of a request, and the multi-protocol bootstrap. A frame is cut exactly into the
  packets of its requests and no input leaves the slices.
\<close>

section \<open>Messages and limits\<close>

abbreviation malformed :: "'a result" where
  "malformed \<equiv> Some (Inl ErrMalformed)"

abbreviation ok :: "'a \<Rightarrow> 'a result" where
  "ok x \<equiv> Some (Inr x)"

text \<open>The \<open>if err != nil\<close> of a call: its error is returned, its value is used.\<close>

definition attempt :: "'a result \<Rightarrow> ('a \<Rightarrow> 'b result) \<Rightarrow> 'b result" where
  "attempt r f = (case r of None \<Rightarrow> None | Some (Inl e) \<Rightarrow> Some (Inl e) | Some (Inr x) \<Rightarrow> f x)"

definition HeaderSize :: nat where "HeaderSize = 64"
definition maxDirectTCPPayload :: nat where "maxDirectTCPPayload = 0xffffff"

definition Negotiate_command :: u16 where "Negotiate_command = 0"
definition SessionSetup_command :: u16 where "SessionSetup_command = 1"
definition Logoff_command :: u16 where "Logoff_command = 2"
definition TreeConnect_command :: u16 where "TreeConnect_command = 3"
definition TreeDisconnect_command :: u16 where "TreeDisconnect_command = 4"
definition Create_command :: u16 where "Create_command = 5"
definition Close_command :: u16 where "Close_command = 6"
definition Flush_command :: u16 where "Flush_command = 7"
definition Read_command :: u16 where "Read_command = 8"
definition Write_command :: u16 where "Write_command = 9"
definition Cancel_command :: u16 where "Cancel_command = 12"
definition Echo_command :: u16 where "Echo_command = 13"
definition QueryDirectory_command :: u16 where "QueryDirectory_command = 14"
definition QueryInfo_command :: u16 where "QueryInfo_command = 16"
definition SetInfo_command :: u16 where "SetInfo_command = 17"
definition OplockBreak_command :: u16 where "OplockBreak_command = 18"

definition FlagResponse :: u32 where "FlagResponse = 1"
definition FlagAsync :: u32 where "FlagAsync = 2"
definition FlagRelated :: u32 where "FlagRelated = 4"
definition FlagSigned :: u32 where "FlagSigned = 8"

record Limits =
  lm_MaxBytes :: int
  lm_MaxCommands :: int
  lm_MaxContexts :: int

record Header =
  hd_CreditCharge :: u16
  hd_Status :: u32
  hd_Command :: u16
  hd_Credits :: u16
  hd_Flags :: u32
  hd_NextCommand :: u32
  hd_MessageID :: u64
  hd_ProcessID :: u32
  hd_TreeID :: u32
  hd_AsyncID :: u64
  hd_SessionID :: u64
  hd_Signature :: bytes

record Request =
  rq_Header :: Header
  rq_Body :: bytes
  rq_Packet :: bytes
  rq_maxContexts :: int

definition magic :: bytes where "magic = [0xfe, 0x53, 0x4d, 0x42]"

section \<open>Headers\<close>

definition ParseHeader :: "bytes \<Rightarrow> Header result" where
  "ParseHeader packet =
     (if length packet < HeaderSize then malformed
      else do {
        name \<leftarrow> slice packet 0 4;
        size \<leftarrow> Uint16 packet 4;
        if name \<noteq> magic \<or> size \<noteq> of_nat HeaderSize then malformed
        else do {
          charge \<leftarrow> Uint16 packet 6;
          status \<leftarrow> Uint32 packet 8;
          command \<leftarrow> Uint16 packet 12;
          credits \<leftarrow> Uint16 packet 14;
          flags \<leftarrow> Uint32 packet 16;
          nextCommand \<leftarrow> Uint32 packet 20;
          messageID \<leftarrow> Uint64 packet 24;
          sessionID \<leftarrow> Uint64 packet 40;
          asyncID \<leftarrow> (if flags AND FlagAsync \<noteq> 0 then Uint64 packet 32 else Some 0);
          processID \<leftarrow> (if flags AND FlagAsync \<noteq> 0 then Some 0 else Uint32 packet 32);
          treeID \<leftarrow> (if flags AND FlagAsync \<noteq> 0 then Some 0 else Uint32 packet 36);
          signature \<leftarrow> slice packet 48 64;
          ok \<lparr>hd_CreditCharge = charge, hd_Status = status, hd_Command = command, hd_Credits = credits, hd_Flags = flags,
              hd_NextCommand = nextCommand, hd_MessageID = messageID, hd_ProcessID = processID, hd_TreeID = treeID,
              hd_AsyncID = asyncID, hd_SessionID = sessionID, hd_Signature = signature\<rparr>
        }
      })"

definition Header_Encode :: "Header \<Rightarrow> bytes \<Rightarrow> bytes result" where
  "Header_Encode header packet =
     (if length packet < HeaderSize then malformed
      else do {
        b \<leftarrow> copyAt packet 0 HeaderSize (zeros HeaderSize);
        b \<leftarrow> copyAt b 0 4 magic;
        b \<leftarrow> PutUint16 b 4 (of_nat HeaderSize);
        b \<leftarrow> PutUint16 b 6 (hd_CreditCharge header);
        b \<leftarrow> PutUint32 b 8 (hd_Status header);
        b \<leftarrow> PutUint16 b 12 (hd_Command header);
        b \<leftarrow> PutUint16 b 14 (hd_Credits header);
        b \<leftarrow> PutUint32 b 16 (hd_Flags header);
        b \<leftarrow> PutUint32 b 20 (hd_NextCommand header);
        b \<leftarrow> PutUint64 b 24 (hd_MessageID header);
        b \<leftarrow> (if hd_Flags header AND FlagAsync \<noteq> 0 then PutUint64 b 32 (hd_AsyncID header)
             else do { b \<leftarrow> PutUint32 b 32 (hd_ProcessID header); PutUint32 b 36 (hd_TreeID header) });
        b \<leftarrow> PutUint64 b 40 (hd_SessionID header);
        b \<leftarrow> copyAt b 48 64 (hd_Signature header);
        ok b
      })"

definition EncodeResponse :: "Header \<Rightarrow> bytes \<Rightarrow> bytes option" where
  "EncodeResponse header body =
     do {
       r \<leftarrow> Header_Encode (header\<lparr>hd_Flags := hd_Flags header OR FlagResponse\<rparr>) (zeros (HeaderSize + length body));
       packet \<leftarrow> (case r of Inl _ \<Rightarrow> Some (zeros (HeaderSize + length body)) | Inr packet \<Rightarrow> Some packet);
       copyAt packet HeaderSize (length packet) body
     }"

section \<open>Compounds\<close>

text \<open>One turn of the loop of \<open>ParseFrame\<close>: the request, the relation of the compound after it, and the
  bytes that remain when another command follows.\<close>

definition parseCommand :: "Limits \<Rightarrow> nat \<Rightarrow> bool \<Rightarrow> bytes \<Rightarrow> (Request \<times> bool \<times> bytes option) result" where
  "parseCommand limits n compoundRelated remaining =
     attempt (ParseHeader remaining) (\<lambda>header.
       let related = (hd_Flags header AND FlagRelated \<noteq> 0); next = (ucast (hd_NextCommand header) :: u64) in
       if hd_Command header > OplockBreak_command \<or> hd_Flags header AND FlagResponse \<noteq> 0 \<or> n = 0 \<and> related then malformed
       else if n > 1 \<and> related \<noteq> compoundRelated then malformed
       else if hd_NextCommand header \<noteq> 0
         \<and> (next < of_nat HeaderSize + 2 \<or> next AND 7 \<noteq> 0 \<or> next + of_nat HeaderSize > of_nat (length remaining)) then malformed
       else
         let commandBytes = (if hd_NextCommand header \<noteq> 0 then unat next else length remaining) in
         if commandBytes < HeaderSize + 2 then malformed
         else do {
           command \<leftarrow> slice remaining 0 commandBytes;
           body \<leftarrow> tail command HeaderSize;
           rest \<leftarrow> tail remaining commandBytes;
           ok (\<lparr>rq_Header = header, rq_Body = body, rq_Packet = command, rq_maxContexts = lm_MaxContexts limits\<rparr>,
               if n = 1 then related else compoundRelated,
               if hd_NextCommand header = 0 then None else Some rest)
         })"

function parseLoop :: "Limits \<Rightarrow> Request list \<Rightarrow> bool \<Rightarrow> bytes \<Rightarrow> Request list result" where
  "parseLoop limits requests compoundRelated remaining =
     (if int (length requests) \<ge> lm_MaxCommands limits then malformed
      else (case parseCommand limits (length requests) compoundRelated remaining of
          None \<Rightarrow> None
        | Some (Inl e) \<Rightarrow> Some (Inl e)
        | Some (Inr (request, related, None)) \<Rightarrow> ok (requests @ [request])
        | Some (Inr (request, related, Some rest)) \<Rightarrow> parseLoop limits (requests @ [request]) related rest))"
  by pat_completeness auto
termination
  by (relation "measure (\<lambda>(limits, requests, _). nat (lm_MaxCommands limits - int (length requests)))") auto

declare parseLoop.simps [simp del]

definition ParseFrame :: "bytes \<Rightarrow> Limits \<Rightarrow> Request list result" where
  "ParseFrame packet limits =
     (if lm_MaxBytes limits < int HeaderSize \<or> lm_MaxBytes limits > 0xffffff \<or> lm_MaxCommands limits < 1 \<or> lm_MaxContexts limits < 1
         \<or> length packet < HeaderSize \<or> int (length packet) > lm_MaxBytes limits
      then malformed else parseLoop limits [] False packet)"

section \<open>Fields of a request\<close>

definition fixed :: "Request \<Rightarrow> u16 \<Rightarrow> u16 \<Rightarrow> nat \<Rightarrow> unit result" where
  "fixed request command structureSize minimum =
     (if hd_Command (rq_Header request) \<noteq> command \<or> length (rq_Body request) < minimum then malformed
      else do {
        size \<leftarrow> Uint16 (rq_Body request) 0;
        if size \<noteq> structureSize then malformed else ok ()
      })"

definition field :: "Request \<Rightarrow> u32 \<Rightarrow> u32 \<Rightarrow> nat \<Rightarrow> bytes result" where
  "field request offset len minimum =
     (let start = (ucast offset :: u64); size = (of_nat (length (rq_Packet request)) :: u64); end' = start + ucast len in
      if len = 0 then
        (if offset \<noteq> 0 \<and> (start < of_nat minimum \<or> start > size) then malformed else ok [])
      else if start < of_nat minimum \<or> end' < start \<or> end' > size then malformed
      else do {
        data \<leftarrow> slice (rq_Packet request) (unat start) (unat end');
        ok data
      })"

section \<open>The multi-protocol bootstrap\<close>

definition oldMagic :: bytes where "oldMagic = [0xff, 0x53, 0x4d, 0x42]"
definition smb2Dialect :: bytes where "smb2Dialect = [0x53, 0x4d, 0x42, 0x20, 0x32, 0x2e, 0x3f, 0x3f, 0x3f]"

text \<open>\<open>bytes.IndexByte\<close>, \<open>None\<close> for -1.\<close>

fun IndexByte :: "bytes \<Rightarrow> u8 \<Rightarrow> nat option" where
  "IndexByte [] c = None"
| "IndexByte (b # bs) c = (if b = c then Some 0 else map_option Suc (IndexByte bs c))"

lemma IndexByte_less: "IndexByte b c = Some i \<Longrightarrow> i < length b"
  by (induction b arbitrary: i) (auto split: if_splits)

text \<open>The loop over the dialects, with the slices of the code; the loop goes on with what follows
  the terminator of a name.\<close>

function dialectLoop :: "bool \<Rightarrow> bytes \<Rightarrow> bool result" where
  "dialectLoop found dialects =
     (if length dialects = 0 then ok found
      else do {
        kind \<leftarrow> byteAt dialects 0;
        if kind \<noteq> 2 then malformed
        else do {
          names \<leftarrow> tail dialects 1;
          (case IndexByte names 0 of
             None \<Rightarrow> malformed
           | Some e \<Rightarrow>
               if e = 0 then malformed
               else do {
                 name \<leftarrow> slice dialects 1 (1 + e);
                 rest \<leftarrow> tail dialects (e + 2);
                 dialectLoop (found \<or> name = smb2Dialect) rest
               })
        }
      })"
  by pat_completeness auto
termination
  by (relation "measure (\<lambda>(_, d). length d)") (auto simp: tail_def slice_def split: if_splits)

declare dialectLoop.simps [simp del]

definition ParseMultiProtocolNegotiate :: "bytes \<Rightarrow> unit result" where
  "ParseMultiProtocolNegotiate packet =
     (if length packet < 35 then malformed
      else do {
        name \<leftarrow> slice packet 0 4;
        command \<leftarrow> byteAt packet 4;
        flags \<leftarrow> byteAt packet 9;
        words \<leftarrow> byteAt packet 32;
        if name \<noteq> oldMagic \<or> command \<noteq> 0x72 \<or> flags AND 0x80 \<noteq> 0 \<or> words \<noteq> 0 then malformed
        else do {
          byteCount \<leftarrow> Uint16 packet 33;
          if byteCount = 0 \<or> uint byteCount \<noteq> int (length packet) - 35 then malformed
          else do {
            dialects \<leftarrow> tail packet 35;
            attempt (dialectLoop False dialects) (\<lambda>found. if \<not> found then malformed else ok ())
          }
        }
      })"

section \<open>Decoding stays inside the message\<close>

named_theorems wire_sizes \<open>constants of the wire format\<close>

declare HeaderSize_def [wire_sizes] maxDirectTCPPayload_def [wire_sizes]

lemma attempt_simps [simp]:
  "attempt None f = None" "attempt (Some (Inl e)) f = Some (Inl e)" "attempt (ok x) f = f x"
  by (simp_all add: attempt_def)

lemma attempt_ok: "attempt r f = ok y \<longleftrightarrow> (\<exists>x. r = ok x \<and> f x = ok y)"
  by (auto simp: attempt_def split: option.splits sum.splits)

lemma attempt_defined: "r \<noteq> None \<Longrightarrow> (\<And>x. r = ok x \<Longrightarrow> f x \<noteq> None) \<Longrightarrow> attempt r f \<noteq> None"
  by (auto simp: attempt_def split: option.split sum.split)

lemma result_cases: "r = None \<or> r = malformed \<or> (\<exists>x. r = ok x)"
proof (cases r)
  case (Some x)
  then show ?thesis by (cases x) (auto intro: wire_error.exhaust)
qed simp

text \<open>The reads of a body that is long enough.\<close>

lemmas reads = Uint16_def Uint32_def Uint64_def byteAt_def slice_def tail_def

lemma ParseHeader_defined: "ParseHeader packet \<noteq> None"
  by (simp add: ParseHeader_def reads HeaderSize_def)

lemma ParseHeader_long: "ParseHeader packet = ok h \<Longrightarrow> 64 \<le> length packet"
  by (auto simp: ParseHeader_def HeaderSize_def split: if_splits)

lemma ParseHeader_prefix:
  assumes "64 \<le> n" and "n \<le> length packet"
  shows "ParseHeader (take n packet) = ParseHeader packet"
proof -
  have "take k (drop i (take n packet)) = take k (drop i packet)" if "i + k \<le> 64" for i k
    using assms that by (simp add: drop_take min_absorb1)
  then show ?thesis using assms by (simp add: ParseHeader_def reads HeaderSize_def)
qed

lemma unat_ucast32 [simp]: "unat (ucast (x :: u32) :: u64) = unat x"
  using unsigned_less [of x, where ?'a = nat] by (simp add: unsigned_ucast_eq take_bit_nat_eq_self)

lemma unat_32_less: "unat (x :: u32) < 2 ^ 32"
  using unsigned_less [of x, where ?'a = nat] by simp

lemma unat_of_len: "n < 2 ^ 32 \<Longrightarrow> unat (of_nat n :: u64) = n"
  by (simp add: unat_of_nat take_bit_nat_eq_self)

lemma aligned8:
  assumes "(ucast (x :: u32) :: u64) AND 7 = 0"
  shows "8 dvd unat x"
proof -
  have "take_bit 3 (ucast x :: u64) = 0" using assms by (simp add: take_bit_eq_mask mask_eq_exp_minus_1)
  then have "unat (take_bit 3 (ucast x :: u64)) = 0" by simp
  then have "take_bit 3 (unat x) = 0" by (simp add: unsigned_take_bit_eq)
  then show ?thesis by (simp add: take_bit_eq_mod dvd_eq_mod_eq_0)
qed

lemma next_within:
  assumes "\<not> ucast (x :: u32) + 64 > (of_nat n :: u64)" and "n < 2 ^ 32"
  shows "unat x + 64 \<le> n"
proof -
  have "unat (ucast x + 64 :: u64) = unat x + 64" using unat_32_less [of x] by (simp add: unat_word_ariths)
  with assms show ?thesis by (simp add: word_less_nat_alt unat_of_len)
qed

text \<open>What one turn of the loop does: it refuses, or it cuts off one command.\<close>

lemma parseCommand_cases:
  fixes limits n related
  assumes len: "length remaining < 2 ^ 32" and h: "ParseHeader remaining = ok h"
  defines "k \<equiv> if hd_NextCommand h \<noteq> 0 then unat (hd_NextCommand h) else length remaining"
  shows "parseCommand limits n related remaining = malformed
    \<or> 66 \<le> k \<and> k \<le> length remaining \<and> (hd_NextCommand h \<noteq> 0 \<longrightarrow> k + 64 \<le> length remaining \<and> 8 dvd k) \<and> hd_Command h \<le> OplockBreak_command
      \<and> parseCommand limits n related remaining =
          ok (\<lparr>rq_Header = h, rq_Body = drop 64 (take k remaining), rq_Packet = take k remaining, rq_maxContexts = lm_MaxContexts limits\<rparr>,
              if n = 1 then hd_Flags h AND FlagRelated \<noteq> 0 else related, if hd_NextCommand h = 0 then None else Some (drop k remaining))"
proof (cases "parseCommand limits n related remaining = malformed")
  case False
  have guard: "\<not> (of_nat (length remaining) < (ucast (hd_NextCommand h) + 64 :: u64)) \<and> (ucast (hd_NextCommand h) :: u64) AND 7 = 0" if "hd_NextCommand h \<noteq> 0"
    using False that by (auto simp: parseCommand_def h Let_def HeaderSize_def split: if_splits)
  have bound: "hd_NextCommand h \<noteq> 0 \<Longrightarrow> k + 64 \<le> length remaining \<and> 8 dvd k"
    using guard next_within [OF _ len] aligned8 by (auto simp: k_def)
  then have k: "k \<le> length remaining" by (auto simp: k_def)
  have k66: "66 \<le> k" and cmd: "hd_Command h \<le> OplockBreak_command"
    using False by (auto simp: parseCommand_def h Let_def HeaderSize_def k_def split: if_splits)
  have "parseCommand limits n related remaining = attempt (ok h) (\<lambda>h. do {
      command \<leftarrow> slice remaining 0 k; body \<leftarrow> tail command 64; rest \<leftarrow> tail remaining k;
      ok (\<lparr>rq_Header = h, rq_Body = body, rq_Packet = command, rq_maxContexts = lm_MaxContexts limits\<rparr>,
          if n = 1 then hd_Flags h AND FlagRelated \<noteq> 0 else related, if hd_NextCommand h = 0 then None else Some rest)})"
    using False by (auto simp: parseCommand_def h Let_def HeaderSize_def k_def split: if_splits)
  with k k66 bound cmd show ?thesis by (auto simp: reads)
qed simp

lemma parseCommand_defined: "length remaining < 2 ^ 32 \<Longrightarrow> parseCommand limits n related remaining \<noteq> None"
  using parseCommand_cases [of remaining _ limits n related] ParseHeader_defined [of remaining]
  by (cases "ParseHeader remaining") (auto simp: parseCommand_def attempt_def split: sum.splits)

text \<open>The loop cuts the frame into the packets of its requests.\<close>

definition request_ok :: "Request \<Rightarrow> bool" where
  "request_ok r \<longleftrightarrow> 66 \<le> length (rq_Packet r) \<and> length (rq_Packet r) \<le> 0xffffff \<and> rq_Body r = drop 64 (rq_Packet r)
     \<and> ParseHeader (rq_Packet r) = ok (rq_Header r) \<and> hd_Command (rq_Header r) \<le> OplockBreak_command \<and> 1 \<le> rq_maxContexts r"

text \<open>The compounds that the loop accepts: request \<open>n\<close> of the frame and those after it, with the relation
  that the second request fixed.\<close>

definition isRelated :: "Request \<Rightarrow> bool" where
  "isRelated r \<longleftrightarrow> hd_Flags (rq_Header r) AND FlagRelated \<noteq> 0"

fun compound :: "Limits \<Rightarrow> nat \<Rightarrow> bool \<Rightarrow> Request list \<Rightarrow> bool" where
  "compound limits n rel [] = False"
| "compound limits n rel (r # rs) =
     (request_ok r \<and> rq_maxContexts r = lm_MaxContexts limits \<and> hd_Flags (rq_Header r) AND FlagResponse = 0
      \<and> (n = 0 \<longrightarrow> \<not> isRelated r) \<and> (1 < n \<longrightarrow> isRelated r = rel)
      \<and> (if rs = [] then hd_NextCommand (rq_Header r) = 0
         else unat (hd_NextCommand (rq_Header r)) = length (rq_Packet r) \<and> 8 dvd length (rq_Packet r)
           \<and> compound limits (Suc n) (if n = 1 then isRelated r else rel) rs))"

lemma compound_ok: "compound limits n rel rs \<Longrightarrow> r \<in> set rs \<Longrightarrow> request_ok r"
  by (induction limits n rel rs rule: compound.induct) (auto split: if_splits)

lemma parseLoop_spec:
  assumes "length remaining \<le> 0xffffff" and "1 \<le> lm_MaxContexts limits"
  shows "parseLoop limits requests related remaining \<noteq> None
    \<and> (\<forall>rs. parseLoop limits requests related remaining = ok rs \<longrightarrow>
         (\<exists>new. rs = requests @ new \<and> new \<noteq> [] \<and> concat (map rq_Packet new) = remaining
           \<and> compound limits (length requests) related new \<and> int (length rs) \<le> lm_MaxCommands limits))"
  using assms
proof (induction limits requests related remaining rule: parseLoop.induct)
  case (1 limits requests related remaining)
  let ?p = "parseCommand limits (length requests) related remaining"
  have len: "length remaining < 2 ^ 32" using 1(2) by simp
  consider (full) "int (length requests) \<ge> lm_MaxCommands limits" | (bad) "?p = malformed" "int (length requests) < lm_MaxCommands limits"
    | (good) req rel rest where "?p = ok (req, rel, rest)" "int (length requests) < lm_MaxCommands limits"
    using result_cases [of ?p] parseCommand_defined [OF len, of limits "length requests" related] by force
  then show ?case
  proof cases
    case good
    then obtain h where h: "ParseHeader remaining = ok h" by (auto simp: parseCommand_def attempt_ok)
    define k where "k = (if hd_NextCommand h \<noteq> 0 then unat (hd_NextCommand h) else length remaining)"
    from parseCommand_cases [OF len h, of limits "length requests" related, folded k_def] good(1)
    have k: "66 \<le> k" "k \<le> length remaining" "hd_NextCommand h \<noteq> 0 \<longrightarrow> k + 64 \<le> length remaining \<and> 8 dvd k" "hd_Command h \<le> OplockBreak_command"
      and req: "req = \<lparr>rq_Header = h, rq_Body = drop 64 (take k remaining), rq_Packet = take k remaining, rq_maxContexts = lm_MaxContexts limits\<rparr>"
      and rest: "rest = (if hd_NextCommand h = 0 then None else Some (drop k remaining))" by auto
    have rel: "rel = (if length requests = 1 then isRelated req else related)"
      using parseCommand_cases [OF len h, of limits "length requests" related, folded k_def] good(1) by (auto simp: isRelated_def req)
    have flags: "hd_Flags (rq_Header req) AND FlagResponse = 0 \<and> (length requests = 0 \<longrightarrow> \<not> isRelated req) \<and> (1 < length requests \<longrightarrow> isRelated req = related)"
      using good(1) by (auto simp: parseCommand_def h Let_def req isRelated_def split: if_splits)
    have ok: "request_ok req" using k 1(2,3) h by (simp add: request_ok_def req ParseHeader_prefix)
    show ?thesis
    proof (cases "hd_NextCommand h = 0")
      case True
      then have "parseLoop limits requests related remaining = ok (requests @ [req])"
        using good rest by (simp add: parseLoop.simps)
      moreover have "compound limits (length requests) related [req]" using ok True flags by (auto simp: req)
      moreover have "concat (map rq_Packet [req]) = remaining" using True by (simp add: req k_def)
      ultimately show ?thesis using good(2) by (auto intro!: exI [of _ "[req]"])
    next
      case False
      then have eq: "parseLoop limits requests related remaining = parseLoop limits (requests @ [req]) rel (drop k remaining)"
        using good rest by (subst parseLoop.simps) simp
      let ?next = "parseLoop limits (requests @ [req]) rel (drop k remaining)"
      have IH: "?next \<noteq> None \<and> (\<forall>rs. ?next = ok rs \<longrightarrow> (\<exists>new. rs = (requests @ [req]) @ new \<and> new \<noteq> []
          \<and> concat (map rq_Packet new) = drop k remaining \<and> compound limits (length (requests @ [req])) rel new \<and> int (length rs) \<le> lm_MaxCommands limits))"
        by (rule 1(1) [OF _ good(1) refl refl refl]) (use good(2) rest False 1(2,3) in auto)
      have "\<exists>new. rs = requests @ new \<and> new \<noteq> [] \<and> concat (map rq_Packet new) = remaining
          \<and> compound limits (length requests) related new \<and> int (length rs) \<le> lm_MaxCommands limits"
        if ok': "?next = ok rs" for rs
      proof -
        from IH ok' obtain new where new: "rs = (requests @ [req]) @ new" "new \<noteq> []" "concat (map rq_Packet new) = drop k remaining"
          "compound limits (length (requests @ [req])) rel new"
          "int (length rs) \<le> lm_MaxCommands limits" by blast
        have "compound limits (length requests) related (req # new)" using ok new(2,4) k False flags rel by (auto simp: req k_def)
        moreover have "concat (map rq_Packet (req # new)) = remaining" using new(3) by (simp add: req)
        ultimately show ?thesis using new(1,5) by (intro exI [of _ "req # new"]) (simp del: compound.simps)
      qed
      with IH eq show ?thesis by simp
    qed
  qed (auto simp: parseLoop.simps)
qed

lemma aligned8_back: "8 dvd unat x \<Longrightarrow> (ucast (x :: u32) :: u64) AND 7 = 0"
proof -
  assume "8 dvd unat x"
  then have "take_bit 3 (unat x) = 0" by (simp add: take_bit_eq_mod dvd_eq_mod_eq_0)
  then have "unat (take_bit 3 (ucast x :: u64)) = 0" by (simp add: unsigned_take_bit_eq)
  then have "take_bit 3 (ucast x :: u64) = 0" by (simp only: unat_eq_zero)
  then show ?thesis by (simp add: take_bit_eq_mask mask_eq_exp_minus_1)
qed

lemma parseCommand_accepts:
  assumes r: "request_ok r" "rq_maxContexts r = lm_MaxContexts limits" "hd_Flags (rq_Header r) AND FlagResponse = 0"
    and rel: "n = 0 \<longrightarrow> \<not> isRelated r" "1 < n \<longrightarrow> isRelated r = related"
    and rest: "if rest = [] then hd_NextCommand (rq_Header r) = 0
      else unat (hd_NextCommand (rq_Header r)) = length (rq_Packet r) \<and> 8 dvd length (rq_Packet r) \<and> 64 \<le> length rest"
    and len: "length (rq_Packet r @ rest) \<le> 0xffffff"
  shows "parseCommand limits n related (rq_Packet r @ rest) =
    ok (r, if n = 1 then isRelated r else related, if rest = [] then None else Some rest)"
proof -
  let ?h = "rq_Header r" and ?p = "rq_Packet r"
  have p: "66 \<le> length ?p" "rq_Body r = drop 64 ?p" "ParseHeader ?p = ok ?h" "hd_Command ?h \<le> OplockBreak_command" using r(1) by (auto simp: request_ok_def)
  have h: "ParseHeader (?p @ rest) = ok ?h" using ParseHeader_prefix [of "length ?p" "?p @ rest"] p by simp
  have eq: "\<lparr>rq_Header = ?h, rq_Body = drop 64 ?p, rq_Packet = ?p, rq_maxContexts = lm_MaxContexts limits\<rparr> = r" using p(2) r(2) by simp
  show ?thesis
  proof (cases "rest = []")
    case True
    with rest p r(3) rel eq show ?thesis
      by (auto simp: parseCommand_def h [unfolded True append_Nil2] Let_def HeaderSize_def reads isRelated_def)
  next
    case False
    let ?next = "hd_NextCommand ?h"
    from False rest have next': "unat ?next = length ?p" "8 dvd unat ?next" "64 \<le> length rest" by auto
    then have "?next \<noteq> 0" using p(1) by auto
    moreover have "unat (ucast ?next + 64 :: u64) = length ?p + 64" using unat_32_less [of ?next] next'(1) by (simp add: unat_word_ariths)
    moreover have "unat (of_nat (length ?p) + of_nat (length rest) :: u64) = length ?p + length rest"
      using len unat_of_len [of "length ?p + length rest"] by simp
    ultimately have "\<not> of_nat (length ?p) + of_nat (length rest) < (ucast ?next + 64 :: u64)" "\<not> (ucast ?next :: u64) < 66" "?next \<noteq> 0"
      using next' p(1) by (simp_all add: word_less_nat_alt)
    then show ?thesis
      using False p r(3) rel eq next' aligned8_back [OF next'(2)] len
      by (auto simp: parseCommand_def h Let_def HeaderSize_def reads isRelated_def)
  qed
qed

lemma parseLoop_complete:
  assumes "compound limits (length requests) related new" and "int (length requests + length new) \<le> lm_MaxCommands limits"
    and "length (concat (map rq_Packet new)) \<le> 0xffffff"
  shows "parseLoop limits requests related (concat (map rq_Packet new)) = ok (requests @ new)"
  using assms
proof (induction new arbitrary: requests related)
  case (Cons r new)
  let ?rest = "concat (map rq_Packet new)"
  have more: "64 \<le> length ?rest" if ne: "new \<noteq> []"
  proof -
    obtain q qs where "new = q # qs" using ne by (cases new) auto
    moreover from this Cons.prems(1) have "request_ok q" by (auto intro: compound_ok)
    ultimately show ?thesis by (simp add: request_ok_def)
  qed
  then have none: "?rest = [] \<longleftrightarrow> new = []" by (metis concat.simps(1) list.map(1) list.size(3) not_numeral_le_zero)
  have raw: "parseCommand limits (length requests) related (rq_Packet r @ ?rest) =
      ok (r, if length requests = 1 then isRelated r else related, if ?rest = [] then None else Some ?rest)"
    by (rule parseCommand_accepts) (use Cons.prems none more in \<open>auto split: if_splits\<close>)
  note cmd = raw [unfolded none]
  show ?case
  proof (cases "new = []")
    case True
    with cmd Cons.prems(2) show ?thesis by (subst parseLoop.simps) simp
  next
    case False
    let ?rel = "if length requests = 1 then isRelated r else related"
    have "parseLoop limits requests related (rq_Packet r @ ?rest) = parseLoop limits (requests @ [r]) ?rel ?rest"
      using cmd False none Cons.prems(2) by (subst parseLoop.simps) simp
    also have "\<dots> = ok ((requests @ [r]) @ new)" by (rule Cons.IH) (use Cons.prems False in \<open>auto split: if_splits\<close>)
    finally show ?thesis by simp
  qed
qed simp

end
