(* ===== verification/WireSession.thy ===== *)
theory WireSession
  imports WireFrame
begin

text \<open>
  \<^verbatim>\<open>packages/smb/internal/wire/session.go\<close> and \<^verbatim>\<open>responses.go\<close>: UTF-16 text, negotiation with its contexts,
  session setup, tree connection and the commands without a body.
\<close>

section \<open>Text\<close>

text \<open>A Go string is the list of the runes it encodes; a byte \<open>b\<close> that belongs to no valid encoding
  is the number \<open>- b\<close>. \<open>range\<close> and \<open>[]rune(s)\<close> give U+FFFD for such a byte.\<close>

type_synonym rune = int
type_synonym gotext = "rune list"

definition valid_rune :: "rune \<Rightarrow> bool" where
  "valid_rune r \<longleftrightarrow> 0 \<le> r \<and> r < 0xd800 \<or> 0xe000 \<le> r \<and> r \<le> 0x10ffff"

definition ValidString :: "gotext \<Rightarrow> bool" where
  "ValidString s = list_all valid_rune s"

definition runes :: "gotext \<Rightarrow> rune list" where
  "runes s = map (\<lambda>r. if valid_rune r then r else 0xfffd) s"

text \<open>\<open>utf16.Encode\<close> and \<open>utf16.Decode\<close>.\<close>

definition utf16_rune :: "rune \<Rightarrow> u16 list" where
  "utf16_rune r =
     (if 0 \<le> r \<and> r < 0xd800 \<or> 0xe000 \<le> r \<and> r < 0x10000 then [word_of_int r]
      else if 0x10000 \<le> r \<and> r \<le> 0x10ffff
      then [word_of_int (0xd800 + (r - 0x10000) div 1024), word_of_int (0xdc00 + (r - 0x10000) mod 1024)]
      else [0xfffd])"

definition utf16_Encode :: "rune list \<Rightarrow> u16 list" where
  "utf16_Encode s = concat (map utf16_rune s)"

definition high_surrogate :: "u16 \<Rightarrow> bool" where "high_surrogate w \<longleftrightarrow> 0xd800 \<le> w \<and> w \<le> 0xdbff"
definition low_surrogate :: "u16 \<Rightarrow> bool" where "low_surrogate w \<longleftrightarrow> 0xdc00 \<le> w \<and> w \<le> 0xdfff"

fun utf16_Decode :: "u16 list \<Rightarrow> rune list" where
  "utf16_Decode [] = []"
| "utf16_Decode [w] = [if high_surrogate w \<or> low_surrogate w then 0xfffd else uint w]"
| "utf16_Decode (w # v # ws) =
     (if high_surrogate w \<and> low_surrogate v then ((uint w - 0xd800) * 1024 + (uint v - 0xdc00) + 0x10000) # utf16_Decode ws
      else (if high_surrogate w \<or> low_surrogate w then 0xfffd else uint w) # utf16_Decode (v # ws))"

text \<open>The check of \<open>DecodeUTF16\<close>: no zero unit, every surrogate in a pair.\<close>

fun checkUnits :: "u16 list \<Rightarrow> bool" where
  "checkUnits [] = True"
| "checkUnits (w # ws) =
     (if w = 0 then False
      else if high_surrogate w then (case ws of [] \<Rightarrow> False | v # vs \<Rightarrow> low_surrogate v \<and> checkUnits vs)
      else \<not> low_surrogate w \<and> checkUnits ws)"

fun u16s :: "bytes \<Rightarrow> u16 list" where
  "u16s (a # b # rest) = word_of_int (le_value [a, b]) # u16s rest"
| "u16s _ = []"

definition DecodeUTF16 :: "bytes \<Rightarrow> wire_error + gotext" where
  "DecodeUTF16 data =
     (if odd (length data) then Inl ErrMalformed
      else if \<not> checkUnits (u16s data) then Inl ErrMalformed
      else Inr (utf16_Decode (u16s data)))"

definition EncodeUTF16 :: "gotext \<Rightarrow> bytes" where
  "EncodeUTF16 value = concat (map (\<lambda>w. le_bytes 2 (uint w)) (utf16_Encode (runes value)))"

section \<open>Session requests\<close>

definition Dialect311 :: u16 where "Dialect311 = 0x0311"
definition ContextPreauthIntegrity :: u16 where "ContextPreauthIntegrity = 1"
definition ContextEncryption :: u16 where "ContextEncryption = 2"
definition ContextCompression :: u16 where "ContextCompression = 3"
definition ContextRDMATransform :: u16 where "ContextRDMATransform = 7"
definition ContextSigning :: u16 where "ContextSigning = 8"

record Context =
  ct_Type :: u16
  ct_Data :: bytes

record NegotiateRequest =
  ng_Dialects :: "u16 list"
  ng_SecurityMode :: u16
  ng_Capabilities :: u32
  ng_ClientGUID :: bytes
  ng_Contexts :: "Context list"

record SessionSetupRequest =
  ss_Flags :: u8
  ss_SecurityMode :: u8
  ss_Capabilities :: u32
  ss_Channel :: u32
  ss_PreviousSessionID :: u64
  ss_Token :: bytes

record PreauthCapabilities =
  pc_HashAlgorithms :: "u16 list"
  pc_Salt :: bytes

record SigningCapabilities =
  sg_Algorithms :: "u16 list"

definition contextMustBeUnique :: "u16 \<Rightarrow> bool" where
  "contextMustBeUnique kind =
     (kind \<in> {ContextPreauthIntegrity, ContextEncryption, ContextCompression, ContextRDMATransform, ContextSigning})"

text \<open>\<open>count\<close> integers from \<open>data[start:]\<close>.\<close>

fun readWords :: "bytes \<Rightarrow> nat \<Rightarrow> nat \<Rightarrow> u16 list option" where
  "readWords data start 0 = Some []"
| "readWords data start (Suc n) =
     do { w \<leftarrow> Uint16 data start; ws \<leftarrow> readWords data (start + 2) n; Some (w # ws) }"

text \<open>\<open>for range contextCount\<close>: the contexts that are left, the unique kinds seen, the number of
  preauthentication contexts, the offset.\<close>

fun contextLoop :: "bytes \<Rightarrow> nat \<Rightarrow> u16 list \<Rightarrow> nat \<Rightarrow> u64 \<Rightarrow> Context list \<Rightarrow> (Context list \<times> nat) result" where
  "contextLoop packet 0 seenUnique preauthCount offset contexts = ok (contexts, preauthCount)"
| "contextLoop packet (Suc n) seenUnique preauthCount offset contexts =
     (if offset + 8 > of_nat (length packet) then malformed
      else do {
        encoded \<leftarrow> tail packet (unat offset);
        kind \<leftarrow> Uint16 encoded 0;
        len \<leftarrow> Uint16 encoded 2;
        let end' = offset + 8 + ucast len in
        if end' < offset \<or> end' > of_nat (length packet) then malformed
        else if contextMustBeUnique kind \<and> kind \<in> set seenUnique then malformed
        else do {
          data \<leftarrow> slice encoded 8 (8 + unat len);
          contextLoop packet n (if contextMustBeUnique kind then kind # seenUnique else seenUnique)
            (if kind = ContextPreauthIntegrity then Suc preauthCount else preauthCount)
            ((end' + 7) AND NOT 7) (contexts @ [\<lparr>ct_Type = kind, ct_Data = data\<rparr>])
        }
      })"

definition Request_Negotiate :: "Request \<Rightarrow> NegotiateRequest result" where
  "Request_Negotiate request =
     attempt (fixed request Negotiate_command 36 36) (\<lambda>_.
       let body = rq_Body request in
       if hd_Flags (rq_Header request) AND FlagSigned \<noteq> 0 then malformed
       else do {
         dialectCount \<leftarrow> Uint16 body 2;
         if dialectCount = 0 \<or> unat dialectCount > (length body - 36) div 2 then malformed
         else do {
           securityMode \<leftarrow> Uint16 body 4;
           capabilities \<leftarrow> Uint32 body 8;
           guid \<leftarrow> slice body 12 28;
           dialects \<leftarrow> readWords body 36 (unat dialectCount);
           let result = \<lparr>ng_Dialects = dialects, ng_SecurityMode = securityMode, ng_Capabilities = capabilities,
                         ng_ClientGUID = guid, ng_Contexts = []\<rparr> in
           if Dialect311 \<notin> set dialects then ok result
           else do {
             contextCount \<leftarrow> Uint16 body 32;
             offset32 \<leftarrow> Uint32 body 28;
             let offset = (ucast offset32 :: u64); minimum = of_nat (HeaderSize + 36 + unat dialectCount * 2) in
             if contextCount = 0 \<or> int (unat contextCount) > rq_maxContexts request \<or> offset AND 7 \<noteq> 0 \<or> offset < minimum then malformed
             else attempt (contextLoop (rq_Packet request) (unat contextCount) [] 0 offset []) (\<lambda>(contexts, preauthCount).
                    if preauthCount \<noteq> 1 then malformed else ok (result\<lparr>ng_Contexts := contexts\<rparr>))
           }
         }
       })"

definition DecodePreauthCapabilities :: "bytes \<Rightarrow> PreauthCapabilities result" where
  "DecodePreauthCapabilities data =
     (if length data < 6 then malformed
      else do {
        count \<leftarrow> Uint16 data 0;
        saltLength \<leftarrow> Uint16 data 2;
        if count = 0 \<or> unat count > (length data - 4) div 2 \<or> 4 + unat count * 2 + unat saltLength \<noteq> length data then malformed
        else do {
          algorithms \<leftarrow> readWords data 4 (unat count);
          salt \<leftarrow> tail data (4 + unat count * 2);
          ok \<lparr>pc_HashAlgorithms = algorithms, pc_Salt = salt\<rparr>
        }
      })"

definition DecodeSigningCapabilities :: "bytes \<Rightarrow> SigningCapabilities result" where
  "DecodeSigningCapabilities data =
     (if length data < 4 then malformed
      else do {
        count \<leftarrow> Uint16 data 0;
        if count = 0 \<or> unat count > (length data - 2) div 2 \<or> 2 + unat count * 2 \<noteq> length data then malformed
        else do {
          algorithms \<leftarrow> readWords data 2 (unat count);
          ok \<lparr>sg_Algorithms = algorithms\<rparr>
        }
      })"

definition Request_SessionSetup :: "Request \<Rightarrow> SessionSetupRequest result" where
  "Request_SessionSetup request =
     attempt (fixed request SessionSetup_command 25 24) (\<lambda>_.
       let body = rq_Body request in
       do {
         flags \<leftarrow> byteAt body 2;
         securityMode \<leftarrow> byteAt body 3;
         capabilities \<leftarrow> Uint32 body 4;
         channel \<leftarrow> Uint32 body 8;
         previous \<leftarrow> Uint64 body 16;
         offset \<leftarrow> Uint16 body 12;
         len \<leftarrow> Uint16 body 14;
         attempt (field request (ucast offset) (ucast len) (HeaderSize + 24)) (\<lambda>token.
           ok \<lparr>ss_Flags = flags, ss_SecurityMode = securityMode, ss_Capabilities = capabilities, ss_Channel = channel,
               ss_PreviousSessionID = previous, ss_Token = token\<rparr>)
       })"

definition Request_TreePath :: "Request \<Rightarrow> gotext result" where
  "Request_TreePath request =
     attempt (fixed request TreeConnect_command 9 8) (\<lambda>_.
       let body = rq_Body request in
       do {
         flags \<leftarrow> Uint16 body 2;
         if flags \<noteq> 0 then malformed
         else do {
           offset \<leftarrow> Uint16 body 4;
           len \<leftarrow> Uint16 body 6;
           attempt (field request (ucast offset) (ucast len) (HeaderSize + 8)) (\<lambda>data.
             if data = [] then malformed else Some (DecodeUTF16 data))
         }
       })"

definition Request_Empty :: "Request \<Rightarrow> unit result" where
  "Request_Empty request =
     (if hd_Command (rq_Header request) \<in> {Logoff_command, TreeDisconnect_command, Cancel_command, Echo_command} then
        attempt (fixed request (hd_Command (rq_Header request)) 4 4) (\<lambda>_.
          do {
            padding \<leftarrow> tail (rq_Body request) 4;
            if hd_NextCommand (rq_Header request) = 0 then (if padding \<noteq> [] then malformed else ok ())
            else if int (length padding) \<noteq> (- (int HeaderSize + 4)) AND 7 then malformed
            else if list_ex (\<lambda>value. value \<noteq> 0) padding then malformed else ok ()
          })
      else malformed)"

section \<open>Session responses\<close>

definition align8 :: "nat \<Rightarrow> nat" where
  "align8 value = (value + 7) div 8 * 8"

record Negotiation =
  nr_SecurityMode :: u16
  nr_Dialect :: u16
  nr_ServerGUID :: bytes
  nr_Capabilities :: u32
  nr_MaxTransactSize :: u32
  nr_MaxReadSize :: u32
  nr_MaxWriteSize :: u32
  nr_SystemTime :: u64
  nr_StartTime :: u64
  nr_Token :: bytes
  nr_Contexts :: "Context list"

fun responseSize :: "Context list \<Rightarrow> nat \<Rightarrow> wire_error + nat" where
  "responseSize [] amount = Inr amount"
| "responseSize (context # rest) amount =
     (if length (ct_Data context) > 65535
         \<or> int amount > int maxDirectTCPPayload - int HeaderSize - 8 - int (length (ct_Data context)) then Inl ErrMalformed
      else let amount = amount + 8 + length (ct_Data context)
           in responseSize rest (if rest = [] then amount else align8 amount))"

fun appendContexts :: "Context list \<Rightarrow> bytes \<Rightarrow> bytes option" where
  "appendContexts [] body = Some body"
| "appendContexts (context # rest) body =
     do {
       let start = length body;
       body \<leftarrow> Some (body @ zeros (8 + length (ct_Data context)));
       body \<leftarrow> PutUint16 body start (ct_Type context);
       body \<leftarrow> PutUint16 body (start + 2) (of_nat (length (ct_Data context)));
       body \<leftarrow> copyAt body (start + 8) (length body) (ct_Data context);
       appendContexts rest (if rest = [] then body else body @ zeros (align8 (length body) - length body))
     }"

definition NegotiateResponseBody :: "Negotiation \<Rightarrow> bytes result" where
  "NegotiateResponseBody negotiation =
     (let token = nr_Token negotiation; contexts = nr_Contexts negotiation in
      if length token > 65535 \<or> length contexts > 65535 \<or> contexts \<noteq> [] \<and> nr_Dialect negotiation \<noteq> Dialect311 then malformed
      else attempt (Some (if contexts = [] then Inr (64 + length token) else responseSize contexts (align8 (64 + length token)))) (\<lambda>amount.
        if HeaderSize + amount > maxDirectTCPPayload then malformed
        else do {
          body \<leftarrow> Some (zeros (64 + length token));
          body \<leftarrow> PutUint16 body 0 65;
          body \<leftarrow> PutUint16 body 2 (nr_SecurityMode negotiation);
          body \<leftarrow> PutUint16 body 4 (nr_Dialect negotiation);
          body \<leftarrow> copyAt body 8 24 (nr_ServerGUID negotiation);
          body \<leftarrow> PutUint32 body 24 (nr_Capabilities negotiation);
          body \<leftarrow> PutUint32 body 28 (nr_MaxTransactSize negotiation);
          body \<leftarrow> PutUint32 body 32 (nr_MaxReadSize negotiation);
          body \<leftarrow> PutUint32 body 36 (nr_MaxWriteSize negotiation);
          body \<leftarrow> PutUint64 body 40 (nr_SystemTime negotiation);
          body \<leftarrow> PutUint64 body 48 (nr_StartTime negotiation);
          body \<leftarrow> (if token \<noteq> [] then do {
                      body \<leftarrow> PutUint16 body 56 (of_nat (HeaderSize + 64));
                      body \<leftarrow> PutUint16 body 58 (of_nat (length token));
                      copyAt body 64 (length body) token } else Some body);
          if contexts = [] then ok body
          else do {
            body \<leftarrow> PutUint16 body 6 (of_nat (length contexts));
            body \<leftarrow> Some (body @ zeros (align8 (length body) - length body));
            body \<leftarrow> PutUint32 body 60 (of_nat (HeaderSize + length body));
            body \<leftarrow> appendContexts contexts body;
            ok body
          }
        }))"

definition SessionSetupResponseBody :: "u16 \<Rightarrow> bytes \<Rightarrow> bytes result" where
  "SessionSetupResponseBody flags token =
     (if length token > 65535 then malformed
      else do {
        body \<leftarrow> Some (zeros (8 + length token));
        body \<leftarrow> PutUint16 body 0 9;
        body \<leftarrow> PutUint16 body 2 flags;
        body \<leftarrow> (if token \<noteq> [] then do {
                    body \<leftarrow> PutUint16 body 4 (of_nat (HeaderSize + 8));
                    body \<leftarrow> PutUint16 body 6 (of_nat (length token));
                    copyAt body 8 (length body) token } else Some body);
        ok body
      })"

definition TreeConnectResponseBody :: "u8 \<Rightarrow> u32 \<Rightarrow> u32 \<Rightarrow> u32 \<Rightarrow> bytes option" where
  "TreeConnectResponseBody shareType flags capabilities access =
     do {
       body \<leftarrow> Some (zeros 16);
       body \<leftarrow> PutUint16 body 0 16;
       body \<leftarrow> setByte body 2 shareType;
       body \<leftarrow> PutUint32 body 4 flags;
       body \<leftarrow> PutUint32 body 8 capabilities;
       PutUint32 body 12 access
     }"

definition EmptyResponseBody :: bytes where "EmptyResponseBody = [4, 0, 0, 0]"
definition ErrorResponseBody :: bytes where "ErrorResponseBody = [9, 0, 0, 0, 0, 0, 0, 0, 0]"

end
