(* ===== verification/WireFiles.thy ===== *)
theory WireFiles
  imports WireSession
begin

text \<open>
  \<^verbatim>\<open>packages/smb/internal/wire/files.go\<close>, \<^verbatim>\<open>file_io.go\<close> and \<^verbatim>\<open>file_info.go\<close>: opening and closing files,
  reading, writing and flushing, and the information classes.
\<close>

section \<open>Files\<close>

text \<open>A file identity is its 16 bytes.\<close>

type_synonym FileID = bytes

definition InvalidFileID :: FileID where "InvalidFileID = replicate 16 0xff"

definition IsRelatedPlaceholder :: "FileID \<Rightarrow> bool" where
  "IsRelatedPlaceholder fid = (fid = InvalidFileID)"

definition HasPartialRelatedPlaceholder :: "FileID \<Rightarrow> bool option" where
  "HasPartialRelatedPlaceholder fid =
     do { persistent \<leftarrow> Uint64 fid 0; volatile \<leftarrow> Uint64 fid 8; Some ((persistent = - 1) \<noteq> (volatile = - 1)) }"

record CreateContext =
  cx_Name :: bytes
  cx_Data :: bytes

record CreateRequest =
  cq_SecurityFlags :: u8
  cq_OplockLevel :: u8
  cq_Impersonation :: u32
  cq_DesiredAccess :: u32
  cq_Attributes :: u32
  cq_ShareAccess :: u32
  cq_Disposition :: u32
  cq_Options :: u32
  cq_Name :: gotext
  cq_Contexts :: "CreateContext list"

record CloseRequest =
  cl_Flags :: u16
  cl_FileID :: FileID

text \<open>One create context at the head of the list, with the end of its record and whether it is the last.\<close>

definition createContext :: "bytes \<Rightarrow> (CreateContext \<times> nat \<times> bool) result" where
  "createContext contexts =
     do {
       next \<leftarrow> Uint32 contexts 0;
       let end' = (if next \<noteq> 0 then unat next else length contexts) in
       if next \<noteq> 0 \<and> (next < 16 \<or> next AND 7 \<noteq> 0 \<or> ucast next + 16 > (of_nat (length contexts) :: u64)) then malformed
       else do {
         nameStart16 \<leftarrow> Uint16 contexts 4;
         nameSize16 \<leftarrow> Uint16 contexts 6;
         dataStart16 \<leftarrow> Uint16 contexts 10;
         dataSize32 \<leftarrow> Uint32 contexts 12;
         let nameStart = (ucast nameStart16 :: u64); nameSize = (ucast nameSize16 :: u64);
             dataStart = (ucast dataStart16 :: u64); dataSize = (ucast dataSize32 :: u64) in
         if nameSize < 4 \<or> nameStart < 16 \<or> nameStart AND 7 \<noteq> 0 \<or> nameStart + nameSize > of_nat end'
            \<or> dataSize \<noteq> 0 \<and> (dataStart < 16 \<or> dataStart AND 7 \<noteq> 0 \<or> dataStart + dataSize > of_nat end'
                 \<or> dataStart < nameStart + nameSize \<and> nameStart < dataStart + dataSize) then malformed
         else do {
           name \<leftarrow> slice contexts (unat nameStart) (unat (nameStart + nameSize));
           data \<leftarrow> (if dataSize \<noteq> 0 then slice contexts (unat dataStart) (unat (dataStart + dataSize)) else Some []);
           ok (\<lparr>cx_Name = name, cx_Data = data\<rparr>, end', next = 0)
         }
       }
     }"

function createContexts :: "int \<Rightarrow> bytes \<Rightarrow> CreateContext list \<Rightarrow> CreateContext list result" where
  "createContexts maxContexts contexts found =
     (if contexts = [] then ok found
      else if int (length found) \<ge> maxContexts \<or> length contexts < 16 then malformed
      else (case createContext contexts of
          None \<Rightarrow> None
        | Some (Inl e) \<Rightarrow> Some (Inl e)
        | Some (Inr (context, end', final)) \<Rightarrow>
            if final then ok (found @ [context])
            else (case tail contexts end' of None \<Rightarrow> None | Some rest \<Rightarrow> createContexts maxContexts rest (found @ [context]))))"
  by pat_completeness auto
termination
  by (relation "measure (\<lambda>(m, _, found). nat (m - int (length found)))") auto

declare createContexts.simps [simp del]

definition Request_Create :: "Request \<Rightarrow> CreateRequest result" where
  "Request_Create request =
     attempt (fixed request Create_command 57 57) (\<lambda>_.
       let body = rq_Body request in
       do {
         securityFlags \<leftarrow> byteAt body 2;
         oplockLevel \<leftarrow> byteAt body 3;
         impersonation \<leftarrow> Uint32 body 4;
         desiredAccess \<leftarrow> Uint32 body 24;
         attributes \<leftarrow> Uint32 body 28;
         shareAccess \<leftarrow> Uint32 body 32;
         disposition \<leftarrow> Uint32 body 36;
         options \<leftarrow> Uint32 body 40;
         nameOffset16 \<leftarrow> Uint16 body 44;
         nameLength16 \<leftarrow> Uint16 body 46;
         let nameOffset = (ucast nameOffset16 :: u32); nameLength = (ucast nameLength16 :: u32) in
         if nameOffset AND 7 \<noteq> 0 then malformed
         else attempt (field request nameOffset nameLength (HeaderSize + 56)) (\<lambda>name.
           attempt (Some (DecodeUTF16 name)) (\<lambda>decoded.
             do {
               contextOffset \<leftarrow> Uint32 body 48;
               contextLength \<leftarrow> Uint32 body 52;
               if contextLength = 0 \<and> contextOffset \<noteq> 0 \<or> contextLength \<noteq> 0 \<and> contextOffset AND 7 \<noteq> 0 then malformed
               else attempt (field request contextOffset contextLength (HeaderSize + 56)) (\<lambda>contexts.
                 if nameLength \<noteq> 0 \<and> contextLength \<noteq> 0
                    \<and> (ucast nameOffset :: u64) < ucast contextOffset + ucast contextLength
                    \<and> (ucast contextOffset :: u64) < ucast nameOffset + ucast nameLength then malformed
                 else attempt (createContexts (rq_maxContexts request) contexts []) (\<lambda>found.
                   ok \<lparr>cq_SecurityFlags = securityFlags, cq_OplockLevel = oplockLevel, cq_Impersonation = impersonation,
                       cq_DesiredAccess = desiredAccess, cq_Attributes = attributes, cq_ShareAccess = shareAccess,
                       cq_Disposition = disposition, cq_Options = options, cq_Name = decoded, cq_Contexts = found\<rparr>))
             }))
       })"

text \<open>The length of a body of fixed size, alone or before another command.\<close>

definition exactBody :: "Request \<Rightarrow> bool" where
  "exactBody request =
     (if hd_NextCommand (rq_Header request) = 0 then length (rq_Body request) = 24
      else length (rq_Body request) = align8 (HeaderSize + 24) - HeaderSize)"

definition Request_Close :: "Request \<Rightarrow> CloseRequest result" where
  "Request_Close request =
     attempt (fixed request Close_command 24 24) (\<lambda>_.
       let body = rq_Body request in
       if \<not> exactBody request then malformed
       else do {
         flags \<leftarrow> Uint16 body 2;
         fid \<leftarrow> slice body 8 24;
         partial \<leftarrow> HasPartialRelatedPlaceholder fid;
         if partial then malformed else ok \<lparr>cl_Flags = flags, cl_FileID = fid\<rparr>
       })"

record CreateOnDiskID =
  od_DiskFileID :: u64
  od_VolumeID :: u64

record CreateResponse =
  cp_OplockLevel :: u8
  cp_Flags :: u8
  cp_CreateAction :: u32
  cp_CreationTime :: u64
  cp_LastAccessTime :: u64
  cp_LastWriteTime :: u64
  cp_ChangeTime :: u64
  cp_AllocationSize :: u64
  cp_EndOfFile :: u64
  cp_Attributes :: u32
  cp_FileID :: FileID
  cp_OnDiskID :: "CreateOnDiskID option"

definition qFid :: bytes where "qFid = [0x51, 0x46, 0x69, 0x64]"

definition CreateResponseBody :: "CreateResponse \<Rightarrow> bytes option" where
  "CreateResponseBody response =
     do {
       body \<leftarrow> Some (zeros (case cp_OnDiskID response of None \<Rightarrow> 88 | Some _ \<Rightarrow> 144));
       body \<leftarrow> PutUint16 body 0 89;
       body \<leftarrow> setByte body 2 (cp_OplockLevel response);
       body \<leftarrow> setByte body 3 (cp_Flags response);
       body \<leftarrow> PutUint32 body 4 (cp_CreateAction response);
       body \<leftarrow> PutUint64 body 8 (cp_CreationTime response);
       body \<leftarrow> PutUint64 body 16 (cp_LastAccessTime response);
       body \<leftarrow> PutUint64 body 24 (cp_LastWriteTime response);
       body \<leftarrow> PutUint64 body 32 (cp_ChangeTime response);
       body \<leftarrow> PutUint64 body 40 (cp_AllocationSize response);
       body \<leftarrow> PutUint64 body 48 (cp_EndOfFile response);
       body \<leftarrow> PutUint32 body 56 (cp_Attributes response);
       body \<leftarrow> copyAt body 64 80 (cp_FileID response);
       (case cp_OnDiskID response of
          None \<Rightarrow> Some body
        | Some onDisk \<Rightarrow> do {
            body \<leftarrow> PutUint32 body 80 (of_nat (HeaderSize + 88));
            body \<leftarrow> PutUint32 body 84 56;
            body \<leftarrow> PutUint16 body (88 + 4) 16;
            body \<leftarrow> PutUint16 body (88 + 6) 4;
            body \<leftarrow> PutUint16 body (88 + 10) 24;
            body \<leftarrow> PutUint32 body (88 + 12) 32;
            body \<leftarrow> copyAt body (88 + 16) (88 + 20) qFid;
            body \<leftarrow> PutUint64 body (88 + 24) (od_DiskFileID onDisk);
            PutUint64 body (88 + 32) (od_VolumeID onDisk)
          })
     }"

record CloseResponse =
  cs_Flags :: u16
  cs_CreationTime :: u64
  cs_LastAccessTime :: u64
  cs_LastWriteTime :: u64
  cs_ChangeTime :: u64
  cs_AllocationSize :: u64
  cs_EndOfFile :: u64
  cs_Attributes :: u32

definition CloseResponseBody :: "CloseResponse \<Rightarrow> bytes option" where
  "CloseResponseBody response =
     do {
       body \<leftarrow> Some (zeros 60);
       body \<leftarrow> PutUint16 body 0 60;
       body \<leftarrow> PutUint16 body 2 (cs_Flags response);
       body \<leftarrow> PutUint64 body 8 (cs_CreationTime response);
       body \<leftarrow> PutUint64 body 16 (cs_LastAccessTime response);
       body \<leftarrow> PutUint64 body 24 (cs_LastWriteTime response);
       body \<leftarrow> PutUint64 body 32 (cs_ChangeTime response);
       body \<leftarrow> PutUint64 body 40 (cs_AllocationSize response);
       body \<leftarrow> PutUint64 body 48 (cs_EndOfFile response);
       PutUint32 body 56 (cs_Attributes response)
     }"

section \<open>Reading and writing\<close>

definition ChannelNone :: u32 where "ChannelNone = 0"

record ReadRequest =
  rd_Padding :: u8
  rd_Flags :: u8
  rd_Length :: u32
  rd_Offset :: u64
  rd_FileID :: FileID
  rd_MinimumCount :: u32
  rd_Channel :: u32
  rd_RemainingBytes :: u32
  rd_ChannelInfoOffset :: u16
  rd_ChannelInfoLength :: u16
  rd_ChannelInfo :: bytes

record WriteRequest =
  wt_DataOffset :: u16
  wt_Length :: u32
  wt_Offset :: u64
  wt_FileID :: FileID
  wt_Channel :: u32
  wt_RemainingBytes :: u32
  wt_ChannelInfoOffset :: u16
  wt_ChannelInfoLength :: u16
  wt_Flags :: u32
  wt_Data :: bytes
  wt_ChannelInfo :: bytes

record FlushRequest =
  fl_FileID :: FileID

definition Request_Read :: "Request \<Rightarrow> ReadRequest result" where
  "Request_Read request =
     attempt (fixed request Read_command 49 48) (\<lambda>_.
       let body = rq_Body request in
       do {
         padding \<leftarrow> byteAt body 2;
         flags \<leftarrow> byteAt body 3;
         len \<leftarrow> Uint32 body 4;
         offset \<leftarrow> Uint64 body 8;
         fid \<leftarrow> slice body 16 32;
         minimumCount \<leftarrow> Uint32 body 32;
         channel \<leftarrow> Uint32 body 36;
         remaining \<leftarrow> Uint32 body 40;
         infoOffset \<leftarrow> Uint16 body 44;
         infoLength \<leftarrow> Uint16 body 46;
         partial \<leftarrow> HasPartialRelatedPlaceholder fid;
         if partial then malformed
         else attempt (if channel \<noteq> ChannelNone then field request (ucast infoOffset) (ucast infoLength) (HeaderSize + 48) else ok []) (\<lambda>info.
           ok \<lparr>rd_Padding = padding, rd_Flags = flags, rd_Length = len, rd_Offset = offset, rd_FileID = fid,
               rd_MinimumCount = minimumCount, rd_Channel = channel, rd_RemainingBytes = remaining,
               rd_ChannelInfoOffset = infoOffset, rd_ChannelInfoLength = infoLength, rd_ChannelInfo = info\<rparr>)
       })"

definition Request_Write :: "Request \<Rightarrow> WriteRequest result" where
  "Request_Write request =
     attempt (fixed request Write_command 49 48) (\<lambda>_.
       let body = rq_Body request in
       do {
         dataOffset \<leftarrow> Uint16 body 2;
         len \<leftarrow> Uint32 body 4;
         offset \<leftarrow> Uint64 body 8;
         fid \<leftarrow> slice body 16 32;
         channel \<leftarrow> Uint32 body 32;
         remaining \<leftarrow> Uint32 body 36;
         infoOffset \<leftarrow> Uint16 body 40;
         infoLength \<leftarrow> Uint16 body 42;
         flags \<leftarrow> Uint32 body 44;
         partial \<leftarrow> HasPartialRelatedPlaceholder fid;
         if partial then malformed
         else if channel = ChannelNone \<and> (dataOffset > 256 \<or> (ucast dataOffset :: u64) > of_nat (length (rq_Packet request))) then malformed
         else attempt (if len \<noteq> 0 then field request (ucast dataOffset) len (HeaderSize + 48) else ok []) (\<lambda>data.
           attempt (if channel \<noteq> ChannelNone then field request (ucast infoOffset) (ucast infoLength) (HeaderSize + 48) else ok []) (\<lambda>info.
             ok \<lparr>wt_DataOffset = dataOffset, wt_Length = len, wt_Offset = offset, wt_FileID = fid, wt_Channel = channel,
                 wt_RemainingBytes = remaining, wt_ChannelInfoOffset = infoOffset, wt_ChannelInfoLength = infoLength,
                 wt_Flags = flags, wt_Data = data, wt_ChannelInfo = info\<rparr>))
       })"

definition Request_Flush :: "Request \<Rightarrow> FlushRequest result" where
  "Request_Flush request =
     attempt (fixed request Flush_command 24 24) (\<lambda>_.
       if \<not> exactBody request then malformed
       else do {
         fid \<leftarrow> slice (rq_Body request) 8 24;
         partial \<leftarrow> HasPartialRelatedPlaceholder fid;
         if partial then malformed else ok \<lparr>fl_FileID = fid\<rparr>
       })"

definition ReadResponseBody :: "bytes \<Rightarrow> bytes result" where
  "ReadResponseBody data =
     (if length data > maxDirectTCPPayload - HeaderSize - 16 then malformed
      else do {
        body \<leftarrow> Some (zeros (16 + length data));
        body \<leftarrow> PutUint16 body 0 17;
        body \<leftarrow> setByte body 2 (of_nat (HeaderSize + 16));
        body \<leftarrow> PutUint32 body 4 (of_nat (length data));
        body \<leftarrow> copyAt body 16 (length body) data;
        ok body
      })"

definition FlushResponseBody :: bytes where "FlushResponseBody = EmptyResponseBody"

definition WriteResponseBody :: "u32 \<Rightarrow> bytes option" where
  "WriteResponseBody written =
     do {
       body \<leftarrow> Some (zeros 16);
       body \<leftarrow> PutUint16 body 0 17;
       PutUint32 body 4 written
     }"

section \<open>File and volume information\<close>

record QueryInfoRequest =
  qi_InfoType :: u8
  qi_FileInfoClass :: u8
  qi_OutputBufferLength :: u32
  qi_InputBufferLength :: u32
  qi_FileID :: FileID

record SetInfoRequest =
  si_InfoType :: u8
  si_FileInfoClass :: u8
  si_BufferLength :: u32
  si_BufferOffset :: u16
  si_AdditionalInformation :: u32
  si_FileID :: FileID
  si_Buffer :: bytes

definition Request_QueryInfo :: "Request \<Rightarrow> QueryInfoRequest result" where
  "Request_QueryInfo request =
     attempt (fixed request QueryInfo_command 41 40) (\<lambda>_.
       let body = rq_Body request in
       do {
         infoType \<leftarrow> byteAt body 2;
         infoClass \<leftarrow> byteAt body 3;
         outputLength \<leftarrow> Uint32 body 4;
         inputLength \<leftarrow> Uint32 body 12;
         fid \<leftarrow> slice body 24 40;
         partial \<leftarrow> HasPartialRelatedPlaceholder fid;
         if partial then malformed
         else ok \<lparr>qi_InfoType = infoType, qi_FileInfoClass = infoClass, qi_OutputBufferLength = outputLength,
                  qi_InputBufferLength = inputLength, qi_FileID = fid\<rparr>
       })"

definition Request_SetInfo :: "Request \<Rightarrow> SetInfoRequest result" where
  "Request_SetInfo request =
     attempt (fixed request SetInfo_command 33 32) (\<lambda>_.
       let body = rq_Body request in
       do {
         infoType \<leftarrow> byteAt body 2;
         infoClass \<leftarrow> byteAt body 3;
         bufferLength \<leftarrow> Uint32 body 4;
         bufferOffset \<leftarrow> Uint16 body 8;
         additional \<leftarrow> Uint32 body 12;
         fid \<leftarrow> slice body 16 32;
         partial \<leftarrow> HasPartialRelatedPlaceholder fid;
         if partial then malformed
         else attempt (field request (ucast bufferOffset) bufferLength (HeaderSize + 32)) (\<lambda>buffer.
           ok \<lparr>si_InfoType = infoType, si_FileInfoClass = infoClass, si_BufferLength = bufferLength,
               si_BufferOffset = bufferOffset, si_AdditionalInformation = additional, si_FileID = fid, si_Buffer = buffer\<rparr>)
       })"

definition QueryInfoResponseBody :: "bytes \<Rightarrow> bytes result" where
  "QueryInfoResponseBody data =
     (if length data > maxDirectTCPPayload - HeaderSize - 8 then malformed
      else do {
        body \<leftarrow> Some (zeros (8 + length data));
        body \<leftarrow> PutUint16 body 0 9;
        body \<leftarrow> PutUint16 body 2 (of_nat (HeaderSize + 8));
        body \<leftarrow> PutUint32 body 4 (of_nat (length data));
        body \<leftarrow> copyAt body 8 (length body) data;
        ok body
      })"

text \<open>An \<open>int64\<close> is an integer; \<open>uint64(x)\<close> and \<open>int64(x)\<close> are \<open>word_of_int\<close> and \<open>sint\<close>.\<close>

definition SetInfoResponseBody :: bytes where "SetInfoResponseBody = [2, 0]"

definition InfoLengthMismatchErrorBody :: bytes where
  "InfoLengthMismatchErrorBody = [9, 0, 1, 0, 8, 0, 0, 0, 0, 0, 0, 0, 0, 0, 0, 0]"

record FileBasicInfo =
  fb_CreationTime :: int
  fb_LastAccessTime :: int
  fb_LastWriteTime :: int
  fb_ChangeTime :: int
  fb_Attributes :: u32

definition ParseFileBasicInformation :: "bytes \<Rightarrow> FileBasicInfo result" where
  "ParseFileBasicInformation data =
     (if length data \<noteq> 40 then malformed
      else do {
        creation \<leftarrow> Uint64 data 0;
        access \<leftarrow> Uint64 data 8;
        write \<leftarrow> Uint64 data 16;
        change \<leftarrow> Uint64 data 24;
        attributes \<leftarrow> Uint32 data 32;
        ok \<lparr>fb_CreationTime = sint creation, fb_LastAccessTime = sint access, fb_LastWriteTime = sint write,
            fb_ChangeTime = sint change, fb_Attributes = attributes\<rparr>
      })"

definition FileBasicInformationBody :: "FileBasicInfo \<Rightarrow> bytes option" where
  "FileBasicInformationBody info =
     do {
       body \<leftarrow> Some (zeros 40);
       body \<leftarrow> PutUint64 body 0 (word_of_int (fb_CreationTime info));
       body \<leftarrow> PutUint64 body 8 (word_of_int (fb_LastAccessTime info));
       body \<leftarrow> PutUint64 body 16 (word_of_int (fb_LastWriteTime info));
       body \<leftarrow> PutUint64 body 24 (word_of_int (fb_ChangeTime info));
       PutUint32 body 32 (fb_Attributes info)
     }"

record FileStandardInfo =
  fs_AllocationSize :: int
  fs_EndOfFile :: int
  fs_NumberOfLinks :: u32
  fs_DeletePending :: bool
  fs_Directory :: bool

definition FileStandardInformationBody :: "FileStandardInfo \<Rightarrow> bytes option" where
  "FileStandardInformationBody info =
     do {
       body \<leftarrow> Some (zeros 24);
       body \<leftarrow> PutUint64 body 0 (word_of_int (fs_AllocationSize info));
       body \<leftarrow> PutUint64 body 8 (word_of_int (fs_EndOfFile info));
       body \<leftarrow> PutUint32 body 16 (fs_NumberOfLinks info);
       body \<leftarrow> (if fs_DeletePending info then setByte body 20 1 else Some body);
       if fs_Directory info then setByte body 21 1 else Some body
     }"

definition FileInternalInformationBody :: "u64 \<Rightarrow> bytes option" where
  "FileInternalInformationBody fid = PutUint64 (zeros 8) 0 fid"

record FileNetworkOpenInfo =
  fn_Basic :: FileBasicInfo
  fn_AllocationSize :: int
  fn_EndOfFile :: int

definition FileNetworkOpenInformationBody :: "FileNetworkOpenInfo \<Rightarrow> bytes option" where
  "FileNetworkOpenInformationBody info =
     do {
       body \<leftarrow> Some (zeros 56);
       body \<leftarrow> PutUint64 body 0 (word_of_int (fb_CreationTime (fn_Basic info)));
       body \<leftarrow> PutUint64 body 8 (word_of_int (fb_LastAccessTime (fn_Basic info)));
       body \<leftarrow> PutUint64 body 16 (word_of_int (fb_LastWriteTime (fn_Basic info)));
       body \<leftarrow> PutUint64 body 24 (word_of_int (fb_ChangeTime (fn_Basic info)));
       body \<leftarrow> PutUint64 body 32 (word_of_int (fn_AllocationSize info));
       body \<leftarrow> PutUint64 body 40 (word_of_int (fn_EndOfFile info));
       PutUint32 body 48 (fb_Attributes (fn_Basic info))
     }"

definition FileIdInformationBody :: "u64 \<Rightarrow> bytes \<Rightarrow> bytes option" where
  "FileIdInformationBody serial fid =
     do {
       body \<leftarrow> PutUint64 (zeros 24) 0 serial;
       copyAt body 8 24 fid
     }"

definition ParseFileEndOfFileInformation :: "bytes \<Rightarrow> int result" where
  "ParseFileEndOfFileInformation data =
     (if length data \<noteq> 8 then malformed else do { size \<leftarrow> Uint64 data 0; ok (sint size) })"

record FileRenameInfo =
  fr_ReplaceIfExists :: bool
  fr_Name :: gotext

definition ParseFileRenameInformation :: "bytes \<Rightarrow> FileRenameInfo result" where
  "ParseFileRenameInformation data =
     (if length data < 20 then malformed
      else do {
        root \<leftarrow> Uint64 data 8;
        len \<leftarrow> Uint32 data 16;
        if root \<noteq> 0 \<or> len = 0 \<or> len AND 1 \<noteq> 0 \<or> (ucast len :: u64) > of_nat (length data - 20) then malformed
        else do {
          encoded \<leftarrow> slice data 20 (20 + unat len);
          first \<leftarrow> byteAt data 0;
          attempt (Some (DecodeUTF16 encoded)) (\<lambda>name.
            if take 1 name = [0x5c] then malformed
            else ok \<lparr>fr_ReplaceIfExists = (first \<noteq> 0), fr_Name = name\<rparr>)
        }
      })"

definition ParseFileDispositionInformation :: "bytes \<Rightarrow> bool result" where
  "ParseFileDispositionInformation data =
     (if data = [] then malformed else do { first \<leftarrow> byteAt data 0; ok (first \<noteq> 0) })"

text \<open>The loop of \<open>filesystemInformationName\<close> over the UTF-16 length.\<close>

fun unitsWithin :: "int \<Rightarrow> int \<Rightarrow> rune list \<Rightarrow> bool" where
  "unitsWithin limit units [] = True"
| "unitsWithin limit units (c # cs) =
     (let units = (if c > 0xffff then units + 2 else units + 1)
      in if units > limit then False else unitsWithin limit units cs)"

definition filesystemInformationName :: "gotext \<Rightarrow> nat \<Rightarrow> wire_error + bytes" where
  "filesystemInformationName value prefix =
     (if \<not> ValidString value \<or> 0 \<in> set value then Inl ErrMalformed
      else if \<not> unitsWithin (int (maxDirectTCPPayload - HeaderSize - 8 - prefix) div 2) 0 (runes value) then Inl ErrMalformed
      else Inr (EncodeUTF16 value))"

definition FileNormalizedNameInformationBody :: "gotext \<Rightarrow> u32 \<Rightarrow> (bytes \<times> bool) result" where
  "FileNormalizedNameInformationBody name outputBufferLength =
     (if outputBufferLength < 8 \<or> name = [] then malformed
      else attempt (Some (filesystemInformationName name 4)) (\<lambda>encoded.
        let len = min (of_nat (length encoded)) ((outputBufferLength - 4) AND NOT 1) in
        do {
          body \<leftarrow> Some (zeros (4 + unat len));
          body \<leftarrow> PutUint32 body 0 (of_nat (length encoded));
          kept \<leftarrow> slice encoded 0 (unat len);
          body \<leftarrow> copyAt body 4 (length body) kept;
          ok (body, len \<noteq> of_nat (length encoded))
        }))"

record FileFsVolumeInfo =
  fv_CreationTime :: int
  fv_Serial :: u32
  fv_Label :: gotext

definition FileFsVolumeInformationBody :: "FileFsVolumeInfo \<Rightarrow> bytes result" where
  "FileFsVolumeInformationBody info =
     (if fv_CreationTime info < 0 then malformed
      else attempt (Some (filesystemInformationName (fv_Label info) 18)) (\<lambda>label.
        do {
          body \<leftarrow> Some (zeros (18 + length label));
          body \<leftarrow> PutUint64 body 0 (word_of_int (fv_CreationTime info));
          body \<leftarrow> PutUint32 body 8 (fv_Serial info);
          body \<leftarrow> PutUint32 body 12 (of_nat (length label));
          body \<leftarrow> copyAt body 18 (length body) label;
          ok body
        }))"

record FileFsSizeInfo =
  fz_TotalAllocationUnits :: int
  fz_AvailableAllocationUnits :: int
  fz_SectorsPerAllocationUnit :: u32
  fz_BytesPerSector :: u32

definition FileFsSizeInformationBody :: "FileFsSizeInfo \<Rightarrow> bytes result" where
  "FileFsSizeInformationBody info =
     (if fz_TotalAllocationUnits info < 0 \<or> fz_AvailableAllocationUnits info < 0
         \<or> fz_AvailableAllocationUnits info > fz_TotalAllocationUnits info
         \<or> fz_SectorsPerAllocationUnit info = 0 \<or> fz_BytesPerSector info = 0 then malformed
      else do {
        body \<leftarrow> Some (zeros 24);
        body \<leftarrow> PutUint64 body 0 (word_of_int (fz_TotalAllocationUnits info));
        body \<leftarrow> PutUint64 body 8 (word_of_int (fz_AvailableAllocationUnits info));
        body \<leftarrow> PutUint32 body 16 (fz_SectorsPerAllocationUnit info);
        body \<leftarrow> PutUint32 body 20 (fz_BytesPerSector info);
        ok body
      })"

record FileFsDeviceInfo =
  fd_DeviceType :: u32
  fd_Characteristics :: u32

definition FileFsDeviceInformationBody :: "FileFsDeviceInfo \<Rightarrow> bytes option" where
  "FileFsDeviceInformationBody info =
     do {
       body \<leftarrow> PutUint32 (zeros 8) 0 (fd_DeviceType info);
       PutUint32 body 4 (fd_Characteristics info)
     }"

record FileFsAttributeInfo =
  fa_Attributes :: u32
  fa_MaximumComponentNameLength :: int
  fa_FileSystemName :: gotext

definition FileFsAttributeInformationBody :: "FileFsAttributeInfo \<Rightarrow> bytes result" where
  "FileFsAttributeInformationBody info =
     (if fa_MaximumComponentNameLength info \<le> 0 \<or> fa_FileSystemName info = [] then malformed
      else attempt (Some (filesystemInformationName (fa_FileSystemName info) 12)) (\<lambda>name.
        do {
          body \<leftarrow> Some (zeros (12 + length name));
          body \<leftarrow> PutUint32 body 0 (fa_Attributes info);
          body \<leftarrow> PutUint32 body 4 (word_of_int (fa_MaximumComponentNameLength info));
          body \<leftarrow> PutUint32 body 8 (of_nat (length name));
          body \<leftarrow> copyAt body 12 (length body) name;
          ok body
        }))"

record FileFsFullSizeInfo =
  ff_TotalAllocationUnits :: int
  ff_CallerAvailableAllocationUnits :: int
  ff_ActualAvailableAllocationUnits :: int
  ff_SectorsPerAllocationUnit :: u32
  ff_BytesPerSector :: u32

definition FileFsFullSizeInformationBody :: "FileFsFullSizeInfo \<Rightarrow> bytes result" where
  "FileFsFullSizeInformationBody info =
     (if ff_TotalAllocationUnits info < 0 \<or> ff_CallerAvailableAllocationUnits info < 0
         \<or> ff_ActualAvailableAllocationUnits info < 0 \<or> ff_ActualAvailableAllocationUnits info > ff_TotalAllocationUnits info
         \<or> ff_CallerAvailableAllocationUnits info > ff_ActualAvailableAllocationUnits info
         \<or> ff_SectorsPerAllocationUnit info = 0 \<or> ff_BytesPerSector info = 0 then malformed
      else do {
        body \<leftarrow> Some (zeros 32);
        body \<leftarrow> PutUint64 body 0 (word_of_int (ff_TotalAllocationUnits info));
        body \<leftarrow> PutUint64 body 8 (word_of_int (ff_CallerAvailableAllocationUnits info));
        body \<leftarrow> PutUint64 body 16 (word_of_int (ff_ActualAvailableAllocationUnits info));
        body \<leftarrow> PutUint32 body 24 (ff_SectorsPerAllocationUnit info);
        body \<leftarrow> PutUint32 body 28 (ff_BytesPerSector info);
        ok body
      })"

end
