(* ===== verification/WireDirectory.thy ===== *)
theory WireDirectory
  imports WireFiles
begin

text \<open>
  \<^verbatim>\<open>packages/smb/internal/wire/query_directory.go\<close>: the enumeration request and the page of directory
  records that answers it.
\<close>

section \<open>Directory enumeration\<close>

definition FileDirectoryInformation :: u8 where "FileDirectoryInformation = 0x01"
definition FileFullDirectoryInformation :: u8 where "FileFullDirectoryInformation = 0x02"
definition FileBothDirectoryInformation :: u8 where "FileBothDirectoryInformation = 0x03"
definition FileNamesInformation :: u8 where "FileNamesInformation = 0x0c"
definition FileIdBothDirectoryInformation :: u8 where "FileIdBothDirectoryInformation = 0x25"
definition FileIdFullDirectoryInformation :: u8 where "FileIdFullDirectoryInformation = 0x26"

definition QueryDirectoryFlags :: u8 where "QueryDirectoryFlags = 0x01 OR 0x02 OR 0x04 OR 0x10"

record QueryDirectoryRequest =
  qd_FileInformationClass :: u8
  qd_Flags :: u8
  qd_FileIndex :: u32
  qd_FileID :: FileID
  qd_Pattern :: gotext
  qd_OutputBufferLength :: u32

definition Request_QueryDirectory :: "Request \<Rightarrow> QueryDirectoryRequest result" where
  "Request_QueryDirectory request =
     attempt (fixed request QueryDirectory_command 33 32) (\<lambda>_.
       let body = rq_Body request in
       do {
         infoClass \<leftarrow> byteAt body 2;
         flags \<leftarrow> byteAt body 3;
         index \<leftarrow> Uint32 body 4;
         fid \<leftarrow> slice body 8 24;
         outputLength \<leftarrow> Uint32 body 28;
         partial \<leftarrow> HasPartialRelatedPlaceholder fid;
         if flags AND NOT QueryDirectoryFlags \<noteq> 0 \<or> partial \<or> outputLength > of_nat (maxDirectTCPPayload - HeaderSize - 8) then malformed
         else do {
           offset \<leftarrow> Uint16 body 24;
           len \<leftarrow> Uint16 body 26;
           if offset AND 1 \<noteq> 0 \<or> len AND 1 \<noteq> 0 \<or> len = 0 \<and> offset \<noteq> 0 then malformed
           else attempt (field request (ucast offset) (ucast len) (HeaderSize + 32)) (\<lambda>pattern.
             attempt (Some (DecodeUTF16 pattern)) (\<lambda>decoded.
               ok \<lparr>qd_FileInformationClass = infoClass, qd_Flags = flags, qd_FileIndex = index, qd_FileID = fid,
                   qd_Pattern = decoded, qd_OutputBufferLength = outputLength\<rparr>))
         }
       })"

definition IsDirectoryInformationClass :: "u8 \<Rightarrow> bool" where
  "IsDirectoryInformationClass class' =
     (class' \<in> {FileDirectoryInformation, FileFullDirectoryInformation, FileBothDirectoryInformation, FileNamesInformation,
                FileIdBothDirectoryInformation, FileIdFullDirectoryInformation, 0x3c, 0x4e, 0x4f, 0x50, 0x51})"

definition DirectoryInformationHeadSize :: "u8 \<Rightarrow> nat option" where
  "DirectoryInformationHeadSize class' =
     (if class' = FileNamesInformation then Some 12
      else if class' = FileDirectoryInformation then Some 64
      else if class' = FileFullDirectoryInformation then Some 68
      else if class' = FileBothDirectoryInformation then Some 94
      else if class' = FileIdFullDirectoryInformation then Some 80
      else if class' = FileIdBothDirectoryInformation then Some 104
      else None)"

record DirectoryEntry =
  de_Name :: "u16 list"
  de_CreationTime :: int
  de_LastAccessTime :: int
  de_LastWriteTime :: int
  de_ChangeTime :: int
  de_EndOfFile :: int
  de_AllocationSize :: int
  de_Attributes :: u32
  de_EaSize :: u32
  de_FileID :: u64

record DirectoryPage =
  dp_Data :: bytes
  dp_Completed :: nat
  dp_Partial :: bool

definition checkDirectoryEntry :: "u8 \<Rightarrow> DirectoryEntry \<Rightarrow> wire_error option" where
  "checkDirectoryEntry class' entry =
     (if de_Name entry = [] \<or> length (de_Name entry) > (maxDirectTCPPayload - HeaderSize - 8 - 104) div 2 then Some ErrMalformed
      else if \<not> checkUnits (de_Name entry) then Some ErrMalformed
      else if class' = FileNamesInformation then None
      else if de_CreationTime entry < 0 \<or> de_LastAccessTime entry < 0 \<or> de_LastWriteTime entry < 0 \<or> de_ChangeTime entry < 0
           \<or> de_EndOfFile entry < 0 \<or> de_AllocationSize entry < 0
           \<or> class' \<in> {FileIdFullDirectoryInformation, FileIdBothDirectoryInformation} \<and> de_FileID entry = 0 then Some ErrMalformed
      else None)"

text \<open>The bytes of the name, as many as the record has room for.\<close>

fun putName :: "u16 list \<Rightarrow> nat \<Rightarrow> nat list \<Rightarrow> bytes \<Rightarrow> bytes option" where
  "putName name head [] data = Some data"
| "putName name head (position # ps) data =
     do {
       unit \<leftarrow> (if (position - head) div 2 < length name then Some (name ! ((position - head) div 2)) else None);
       data \<leftarrow> setByte data position (ucast (if odd (position - head) then drop_bit 8 unit else unit));
       putName name head ps data
     }"

definition putDirectoryEntry :: "bytes \<Rightarrow> u8 \<Rightarrow> DirectoryEntry \<Rightarrow> nat \<Rightarrow> bytes option" where
  "putDirectoryEntry data class' entry head =
     (let nameLength = (of_nat (2 * length (de_Name entry)) :: u32) in
      do {
        data \<leftarrow> (if class' = FileNamesInformation then PutUint32 data 8 nameLength
                else do {
                  data \<leftarrow> PutUint64 data 8 (word_of_int (de_CreationTime entry));
                  data \<leftarrow> PutUint64 data 16 (word_of_int (de_LastAccessTime entry));
                  data \<leftarrow> PutUint64 data 24 (word_of_int (de_LastWriteTime entry));
                  data \<leftarrow> PutUint64 data 32 (word_of_int (de_ChangeTime entry));
                  data \<leftarrow> PutUint64 data 40 (word_of_int (de_EndOfFile entry));
                  data \<leftarrow> PutUint64 data 48 (word_of_int (de_AllocationSize entry));
                  data \<leftarrow> PutUint32 data 56 (de_Attributes entry);
                  data \<leftarrow> PutUint32 data 60 nameLength;
                  data \<leftarrow> (if class' \<noteq> FileDirectoryInformation then PutUint32 data 64 (de_EaSize entry) else Some data);
                  if class' = FileIdFullDirectoryInformation then PutUint64 data 72 (de_FileID entry)
                  else if class' = FileIdBothDirectoryInformation then PutUint64 data 96 (de_FileID entry)
                  else Some data
                });
        putName (de_Name entry) head [head..<length data] data
      })"

text \<open>The first loop of \<open>EncodeDirectoryPage\<close>: the size of the page, the entries that fit, and
  whether the first one is cut.\<close>

fun pageSize :: "u8 \<Rightarrow> nat \<Rightarrow> nat \<Rightarrow> bool \<Rightarrow> DirectoryEntry list \<Rightarrow> nat \<Rightarrow> nat \<Rightarrow> wire_error + nat \<times> nat \<times> bool" where
  "pageSize class' head limit single [] size' completed = Inr (size', completed, False)"
| "pageSize class' head limit single (entry # entries) size' completed =
     (case checkDirectoryEntry class' entry of
        Some e \<Rightarrow> Inl e
      | None \<Rightarrow>
          let start = align8 size'; len = head + 2 * length (de_Name entry) in
          if start + len > limit then Inr (if completed = 0 then (limit, completed, True) else (size', completed, False))
          else if single then Inr (start + len, Suc completed, False)
          else pageSize class' head limit single entries (start + len) (Suc completed))"

text \<open>The second loop: each record in its place, linked from the record before it.\<close>

fun putEntries :: "u8 \<Rightarrow> nat \<Rightarrow> bool \<Rightarrow> DirectoryEntry list \<Rightarrow> nat \<Rightarrow> nat \<Rightarrow> bytes \<Rightarrow> bytes option" where
  "putEntries class' head first [] start previous data = Some data"
| "putEntries class' head first (entry # entries) start previous data =
     do {
       data \<leftarrow> (if first then Some data else PutUint32 data previous (of_nat (start - previous)));
       let len = head + 2 * length (de_Name entry);
       place \<leftarrow> slice data start (start + len);
       place \<leftarrow> putDirectoryEntry place class' entry head;
       data \<leftarrow> copyAt data start (start + len) place;
       putEntries class' head False entries (align8 (start + len)) start data
     }"

definition EncodeDirectoryPage :: "u8 \<Rightarrow> DirectoryEntry list \<Rightarrow> u32 \<Rightarrow> bool \<Rightarrow> DirectoryPage result" where
  "EncodeDirectoryPage class' entries limit single =
     (case DirectoryInformationHeadSize class' of
        None \<Rightarrow> malformed
      | Some head \<Rightarrow>
          if limit < of_nat head \<or> limit > of_nat (maxDirectTCPPayload - HeaderSize - 8) then malformed
          else attempt (Some (pageSize class' head (unat limit) single entries 0 0)) (\<lambda>(size', completed, partial).
            if size' = 0 then ok \<lparr>dp_Data = [], dp_Completed = completed, dp_Partial = partial\<rparr>
            else if partial then
              (case entries of
                 [] \<Rightarrow> None
               | entry # _ \<Rightarrow> do {
                   data \<leftarrow> putDirectoryEntry (zeros size') class' entry head;
                   ok \<lparr>dp_Data = data, dp_Completed = completed, dp_Partial = partial\<rparr> })
            else do {
              data \<leftarrow> putEntries class' head True (take completed entries) 0 0 (zeros size');
              ok \<lparr>dp_Data = data, dp_Completed = completed, dp_Partial = partial\<rparr>
            }))"

end
