(* ===== verification/WireSafety.thy ===== *)
theory WireSafety
  imports WireDirectory
begin

text \<open>
  No message can make a decoder leave its slices: every parser and every decoder of a request is
  defined on every input.
\<close>

section \<open>Every decoder stays inside its request\<close>

lemma ucast_sum:
  "unat (ucast (x :: u32) + ucast (y :: u32) :: u64) = unat x + unat y"
  using unat_32_less [of x] unat_32_less [of y] by (simp add: unat_word_ariths)

lemma field_spec:
  assumes "length (rq_Packet request) < 2 ^ 32" and "minimum < 2 ^ 32"
  shows "field request offset len minimum \<noteq> None
    \<and> (\<forall>data. field request offset len minimum = ok data \<longrightarrow> length data = unat len
        \<and> (len \<noteq> 0 \<longrightarrow> minimum \<le> unat offset \<and> unat offset + unat len \<le> length (rq_Packet request)
             \<and> data = take (unat len) (drop (unat offset) (rq_Packet request))))"
  using assms by (auto simp: field_def Let_def slice_def ucast_sum word_less_nat_alt unat_of_len)

lemma request_len: "request_ok r \<Longrightarrow> length (rq_Packet r) < 2 ^ 32"
  by (simp add: request_ok_def)

lemma field_defined: "request_ok r \<Longrightarrow> minimum < 2 ^ 32 \<Longrightarrow> field r offset len minimum \<noteq> None"
  using field_spec [OF request_len] by blast

lemma fixed_defined: "2 \<le> minimum \<Longrightarrow> fixed r command sz minimum \<noteq> None"
  by (auto simp: fixed_def reads)

lemma fixed_ok: "fixed r command sz minimum = ok u \<Longrightarrow> hd_Command (rq_Header r) = command \<and> minimum \<le> length (rq_Body r)"
  by (auto simp: fixed_def split: if_splits)

lemma placeholder_defined: "length fid = 16 \<Longrightarrow> HasPartialRelatedPlaceholder fid \<noteq> None"
  by (simp add: HasPartialRelatedPlaceholder_def reads)

lemma readWords_defined: "start + 2 * n \<le> length data \<Longrightarrow> \<exists>ws. readWords data start n = Some ws \<and> length ws = n"
proof (induction n arbitrary: start)
  case (Suc n)
  from Suc.IH [of "start + 2"] Suc.prems obtain ws where "readWords data (start + 2) n = Some ws" "length ws = n" by auto
  with Suc.prems show ?case by (simp add: reads)
qed simp

lemma unat_ucast16_32: "unat (ucast (x :: u16) :: u32) = unat x"
  and unat_ucast16_64: "unat (ucast (x :: u16) :: u64) = unat x"
  using unsigned_less [of x, where ?'a = nat] by (simp_all add: unsigned_ucast_eq take_bit_nat_eq_self)

lemma unat_16_less: "unat (x :: u16) < 65536"
  using unsigned_less [of x, where ?'a = nat] by simp

lemma unat_add_le: "unat (a + b) \<le> unat a + unat b" for a b :: u64
  by (simp add: unat_word_ariths)

text \<open>The offset of a negotiation context is at most eight past the message, so it never wraps.\<close>

lemma contextLoop_defined:
  assumes "length packet \<le> 0xffffff" and "unat offset < 2 ^ 33"
  shows "contextLoop packet n seen preauth offset contexts \<noteq> None"
  using assms(2)
proof (induction n arbitrary: seen preauth offset contexts)
  case (Suc n)
  show ?case
  proof (cases "offset + 8 > of_nat (length packet)")
    case False
    have "unat (offset + 8) = unat offset + 8" using Suc.prems by (simp add: unat_word_ariths)
    then have le: "unat offset + 8 \<le> length packet" using False assms(1) by (simp add: word_less_nat_alt unat_of_len)
    let ?e = "drop (unat offset) packet"
    have e: "0 + 2 \<le> length ?e" "2 + 2 \<le> length ?e" using le by auto
    obtain kind len where kl: "Uint16 ?e 0 = Some kind" "Uint16 ?e 2 = Some len" using get_some(1) [OF e(1)] get_some(1) [OF e(2)] by blast
    have sum: "unat (offset + 8 + ucast len :: u64) = unat offset + 8 + unat len"
      using Suc.prems unat_16_less [of len] by (simp add: unat_word_ariths unat_ucast16_64)
    let ?stop = "offset + 8 + ucast len :: u64"
    have "unat ((?stop + 7) AND NOT 7) < 2 ^ 33" if "\<not> ?stop > of_nat (length packet)"
    proof -
      have "unat ?stop \<le> length packet" using that assms(1) by (simp add: word_less_nat_alt unat_of_len)
      then have "unat (?stop + 7) \<le> length packet + 7" using unat_add_le [of ?stop 7] by simp
      moreover have "(?stop + 7) AND NOT 7 \<le> ?stop + 7" by (rule word_and_le2)
      ultimately show ?thesis using assms(1) by (simp add: word_le_nat_alt)
    qed
    then show ?thesis
      using False le kl sum assms(1) Suc.IH
      by (auto simp: tail_def slice_def Let_def word_less_nat_alt unat_of_len)
  qed simp
qed simp

lemma ucast_sums:
  "unat (ucast (x :: u16) + ucast (y :: u16) :: u64) = unat x + unat y"
  "unat (ucast (x :: u16) + ucast (z :: u32) :: u64) = unat x + unat z"
  "unat (ucast (z :: u32) + 16 :: u64) = unat z + 16"
  using unat_16_less [of x] unat_16_less [of y] unat_32_less [of z] by (simp_all add: unat_word_ariths unat_ucast16_64)

lemma createContext_defined:
  assumes "16 \<le> length c" and "length c \<le> 0xffffff"
  shows "createContext c \<noteq> None \<and> (\<forall>x e final. createContext c = ok (x, e, final) \<longrightarrow> e \<le> length c)"
proof -
  have at: "0 + 4 \<le> length c" "4 + 2 \<le> length c" "6 + 2 \<le> length c" "10 + 2 \<le> length c" "12 + 4 \<le> length c" using assms(1) by auto
  obtain next' ns nz ds dz where r: "Uint32 c 0 = Some next'" "Uint16 c 4 = Some ns" "Uint16 c 6 = Some nz" "Uint16 c 10 = Some ds" "Uint32 c 12 = Some dz"
    using get_some(2) [OF at(1)] get_some(1) [OF at(2)] get_some(1) [OF at(3)] get_some(1) [OF at(4)] get_some(2) [OF at(5)] by blast
  define e where "e = (if next' \<noteq> 0 then unat next' else length c)"
  have e: "e \<le> length c" if "\<not> (next' \<noteq> 0 \<and> (next' < 16 \<or> next' AND 7 \<noteq> 0 \<or> ucast next' + 16 > (of_nat (length c) :: u64)))"
    using that assms(2) ucast_sums(3) [of next'] by (auto simp: e_def word_less_nat_alt unat_of_len)
  have name: "unat (ucast ns :: u64) \<le> unat (ucast ns + ucast nz :: u64) \<and> unat (ucast ns + ucast nz :: u64) \<le> length c"
    if "e \<le> length c" "\<not> ucast ns + ucast nz > (of_nat e :: u64)"
    using that assms(2) by (simp add: word_less_nat_alt unat_of_len ucast_sums unat_ucast16_64)
  have data: "unat (ucast ds :: u64) \<le> unat (ucast ds + ucast dz :: u64) \<and> unat (ucast ds + ucast dz :: u64) \<le> length c"
    if "e \<le> length c" "\<not> ucast ds + ucast dz > (of_nat e :: u64)"
    using that assms(2) by (simp add: word_less_nat_alt unat_of_len ucast_sums unat_ucast16_64)
  show ?thesis
    using e name data by (auto simp: createContext_def r Let_def e_def [symmetric] slice_def split: if_splits)
qed

lemma createContexts_defined: "length c \<le> 0xffffff \<Longrightarrow> createContexts m c found \<noteq> None"
proof (induction m c found rule: createContexts.induct)
  case (1 m c found)
  show ?case
  proof (cases "c = [] \<or> int (length found) \<ge> m \<or> length c < 16")
    case False
    then have "16 \<le> length c" by auto
    note ctx = createContext_defined [OF this 1(2)]
    then consider (bad) "createContext c = malformed" | (good) x e final where "createContext c = ok (x, e, final)" "e \<le> length c"
      using result_cases [of "createContext c"] by force
    then show ?thesis
    proof cases
      case good
      have "createContexts m (drop e c) (found @ [x]) \<noteq> None" if "\<not> final"
        by (rule 1(1) [OF _ _ good(1) refl refl refl that]) (use False good(2) 1(2) in \<open>auto simp: reads\<close>)
      with good False show ?thesis by (subst createContexts.simps) (auto simp: reads)
    qed (use False in \<open>subst createContexts.simps, auto\<close>)
  qed (subst createContexts.simps, auto)
qed

text \<open>Reads of a slice that is long enough, with their values kept abstract.\<close>

definition r8 :: "bytes \<Rightarrow> nat \<Rightarrow> u8" where "r8 b i = the (byteAt b i)"
definition r16 :: "bytes \<Rightarrow> nat \<Rightarrow> u16" where "r16 b i = the (Uint16 b i)"
definition r32 :: "bytes \<Rightarrow> nat \<Rightarrow> u32" where "r32 b i = the (Uint32 b i)"
definition r64 :: "bytes \<Rightarrow> nat \<Rightarrow> u64" where "r64 b i = the (Uint64 b i)"
definition rb :: "bytes \<Rightarrow> nat \<Rightarrow> nat \<Rightarrow> bytes" where "rb b i j = the (slice b i j)"

lemma read_eqs:
  "i < length b \<Longrightarrow> byteAt b i = Some (r8 b i)" "i + 2 \<le> length b \<Longrightarrow> Uint16 b i = Some (r16 b i)"
  "i + 4 \<le> length b \<Longrightarrow> Uint32 b i = Some (r32 b i)" "i + 8 \<le> length b \<Longrightarrow> Uint64 b i = Some (r64 b i)"
  "i \<le> j \<Longrightarrow> j \<le> length b \<Longrightarrow> slice b i j = Some (rb b i j)"
  by (simp_all add: reads r8_def r16_def r32_def r64_def rb_def)

lemma length_rb: "i \<le> j \<Longrightarrow> j \<le> length b \<Longrightarrow> length (rb b i j) = j - i"
  by (simp add: rb_def slice_def)

lemma placeholder_eq: "length fid = 16 \<Longrightarrow> HasPartialRelatedPlaceholder fid = Some ((r64 fid 0 = - 1) \<noteq> (r64 fid 8 = - 1))"
  by (simp add: HasPartialRelatedPlaceholder_def read_eqs)

definition defined :: "'a option \<Rightarrow> bool" where
  "defined x \<longleftrightarrow> x \<noteq> None"

lemma defined_simps [simp]: "defined (Some x)" "\<not> defined None"
  by (simp_all add: defined_def)

lemma defined_intros:
  "defined r \<Longrightarrow> (\<And>x. r = ok x \<Longrightarrow> defined (f x)) \<Longrightarrow> defined (attempt r f)"
  "(p \<Longrightarrow> defined a) \<Longrightarrow> (\<not> p \<Longrightarrow> defined b) \<Longrightarrow> defined (if p then a else b)"
  "request_ok q \<Longrightarrow> minimum < 2 ^ 32 \<Longrightarrow> defined (field q offset len minimum)"
  "2 \<le> minimum \<Longrightarrow> defined (fixed q command sz minimum)"
  "defined x \<Longrightarrow> (\<And>v. x = Some v \<Longrightarrow> defined (g v)) \<Longrightarrow> defined (x \<bind> g)"
  by (simp_all only: defined_def not_False_eq_True)
    (auto simp: attempt_def split: option.split sum.split dest: fixed_defined field_defined)

lemma field_small:
  assumes "request_ok r" and "field r offset len minimum = ok data" and "minimum < 2 ^ 32"
  shows "length data \<le> 0xffffff"
proof -
  from field_spec [OF request_len [OF assms(1)] assms(3), of offset len] assms(2)
  have "length data = unat len" "len \<noteq> 0 \<Longrightarrow> unat offset + unat len \<le> length (rq_Packet r)" by blast+
  moreover have "length (rq_Packet r) \<le> 0xffffff" using assms(1) unfolding request_ok_def by blast
  ultimately show ?thesis by (cases "len = 0") simp_all
qed

lemmas read_body = read_eqs length_rb placeholder_eq Let_def HeaderSize_def

lemma Negotiate_defined:
  assumes "request_ok r"
  shows "defined (Request_Negotiate r)"
proof -
  have loop: "defined (contextLoop (rq_Packet r) n [] 0 (ucast (x :: u32)) [])" for n x
    using contextLoop_defined [of "rq_Packet r" "ucast x"] assms unat_32_less [of x] by (simp add: defined_def request_ok_def)
  have words: "defined (readWords (rq_Body r) 36 n)" if "\<not> n > (length (rq_Body r) - 36) div 2" "36 \<le> length (rq_Body r)" for n
  proof -
    have "36 + 2 * n \<le> length (rq_Body r)" using that by presburger
    then show ?thesis using readWords_defined [of 36 n "rq_Body r"] by (auto simp: defined_def)
  qed
  show ?thesis
    unfolding Request_Negotiate_def Let_def
    by (intro defined_intros; auto dest!: fixed_ok simp: read_body intro!: defined_intros loop words)
qed

lemma session_decoders_defined:
  assumes "request_ok r"
  shows "defined (Request_SessionSetup r)" "defined (Request_TreePath r)" "defined (Request_Empty r)"
  unfolding Request_SessionSetup_def Request_TreePath_def Request_Empty_def
  by (intro defined_intros; auto dest!: fixed_ok simp: read_body tail_def intro!: defined_intros assms)+

lemma file_decoders_defined:
  assumes "request_ok r"
  shows "defined (Request_Close r)" "defined (Request_Flush r)" "defined (Request_Read r)" "defined (Request_Write r)"
    "defined (Request_QueryInfo r)" "defined (Request_SetInfo r)" "defined (Request_QueryDirectory r)"
  unfolding Request_Close_def Request_Flush_def Request_Read_def Request_Write_def Request_QueryInfo_def Request_SetInfo_def Request_QueryDirectory_def
  by (intro defined_intros; auto dest!: fixed_ok simp: read_body intro!: defined_intros assms)+

lemma Create_defined:
  assumes "request_ok r"
  shows "defined (Request_Create r)"
proof -
  have contexts: "defined (createContexts m data [])" if "length data \<le> 0xffffff" for m data
    using createContexts_defined [OF that] by (simp add: defined_def)
  show ?thesis
    unfolding Request_Create_def
    by (intro defined_intros; auto dest!: fixed_ok simp: read_body intro!: defined_intros contexts assms dest: field_small [OF assms])
qed

lemma dialectLoop_defined: "defined (dialectLoop found d)"
proof (induction found d rule: dialectLoop.induct)
  case (1 found d)
  show ?case
  proof (cases d)
    case Nil
    then show ?thesis by (simp add: dialectLoop.simps)
  next
    case (Cons kind names)
    have head: "byteAt d 0 = Some kind" "tail d 1 = Some names" "length d \<noteq> 0" using Cons by (simp_all add: byteAt_def tail_def slice_def)
    have "defined (dialectLoop (found \<or> take e names = smb2Dialect) (drop (e + 1) names))"
      if "kind = 2" "IndexByte names 0 = Some e" "e \<noteq> 0" for e
    proof -
      have "slice d 1 (1 + e) = Some (take e names)" "tail d (e + 2) = Some (drop (e + 1) names)"
        using IndexByte_less [OF that(2)] Cons by (simp_all add: tail_def slice_def)
      with 1 [OF head(3,1) _ head(2) that(2)] that show ?thesis by simp
    qed
    then show ?thesis
      using head IndexByte_less [of names 0] Cons
      by (subst dialectLoop.simps) (auto simp: tail_def slice_def split: option.split)
  qed
qed

lemma buffers_defined:
  shows "defined (DecodePreauthCapabilities data)" "defined (DecodeSigningCapabilities data)" "defined (ParseFileBasicInformation data)"
    "defined (ParseFileEndOfFileInformation data)" "defined (ParseFileDispositionInformation data)" "defined (ParseMultiProtocolNegotiate data)"
    "length data < 2 ^ 32 \<Longrightarrow> defined (ParseFileRenameInformation data)"
proof -
  have words: "defined (readWords data k n)" if "\<not> n > (length data - k) div 2" "k \<le> length data" for n k
  proof -
    have "k + 2 * n \<le> length data" using that by presburger
    then show ?thesis using readWords_defined [of k n data] by (auto simp: defined_def)
  qed
  show "defined (DecodePreauthCapabilities data)" "defined (DecodeSigningCapabilities data)"
    unfolding DecodePreauthCapabilities_def DecodeSigningCapabilities_def
    by (auto simp: read_body tail_def intro!: defined_intros words)
  show "defined (ParseFileBasicInformation data)" "defined (ParseFileEndOfFileInformation data)" "defined (ParseFileDispositionInformation data)"
    by (simp_all add: ParseFileBasicInformation_def ParseFileEndOfFileInformation_def ParseFileDispositionInformation_def read_eqs)
  show "defined (ParseMultiProtocolNegotiate data)"
    unfolding ParseMultiProtocolNegotiate_def by (auto simp: read_eqs tail_def intro!: defined_intros dialectLoop_defined)
  show "defined (ParseFileRenameInformation data)" if "length data < 2 ^ 32"
  proof (cases "length data < 20")
    case False
    then obtain n where n: "length data = 20 + n" by (metis le_Suc_ex not_less)
    then have within: "\<not> of_nat n < (ucast len :: u64) \<Longrightarrow> unat len \<le> n" for len :: u32
      using that by (simp add: word_less_nat_alt unat_of_len)
    show ?thesis
      unfolding ParseFileRenameInformation_def
      by (auto simp: read_eqs n intro!: defined_intros dest: within)
  qed (simp add: ParseFileRenameInformation_def)
qed

end
