(* ===== verification/WireText.thy ===== *)
theory WireText
  imports WireSafety
begin

text \<open>
  Round trips of the codec: UTF-16 text, and headers as 64 bytes written from the front.
\<close>

section \<open>Text round trips\<close>

lemma surrogate_range:
  "high_surrogate w \<longleftrightarrow> 0xd800 \<le> uint w \<and> uint w \<le> 0xdbff" "low_surrogate w \<longleftrightarrow> 0xdc00 \<le> uint w \<and> uint w \<le> 0xdfff"
  by (auto simp: high_surrogate_def low_surrogate_def word_le_def)

lemma uint16_range: "0 \<le> uint (w :: u16)" "uint w < 0x10000"
  using uint_lt2p [of w] by auto

lemma uint_of16: "0 \<le> k \<Longrightarrow> k < 0x10000 \<Longrightarrow> uint (word_of_int k :: u16) = k"
  by (simp add: uint_word_of_int)

lemma utf16_unit:
  assumes "w \<noteq> 0" and "\<not> high_surrogate w" and "\<not> low_surrogate w"
  shows "utf16_rune (uint w) = [w]" and "valid_rune (uint w) \<and> uint w \<noteq> 0"
  using assms uint16_range [of w] by (auto simp: utf16_rune_def valid_rune_def surrogate_range dest: uint_0_iff [THEN iffD1])

lemma utf16_pair:
  assumes "high_surrogate w" and "low_surrogate v"
  defines "r \<equiv> (uint w - 0xd800) * 1024 + (uint v - 0xdc00) + 0x10000"
  shows "utf16_rune r = [w, v]" and "valid_rune r \<and> r \<noteq> 0"
proof -
  define a b where "a = uint w - 0xd800" and "b = uint v - 0xdc00"
  have ab: "0 \<le> a" "a < 1024" "0 \<le> b" "b < 1024" using assms(1,2) by (auto simp: surrogate_range a_def b_def)
  have r: "r - 0x10000 = 1024 * a + b" by (simp add: r_def a_def b_def)
  have "(r - 0x10000) div 1024 = a" "(r - 0x10000) mod 1024 = b" unfolding r using ab by simp_all
  moreover have "word_of_int (0xd800 + a) = w" "word_of_int (0xdc00 + b) = v" by (simp_all add: a_def b_def)
  moreover have "0x10000 \<le> r" "r \<le> 0x10ffff" using ab r by auto
  ultimately show "utf16_rune r = [w, v]" "valid_rune r \<and> r \<noteq> 0" by (simp_all add: utf16_rune_def valid_rune_def)
qed

lemma decode_units:
  "checkUnits ws \<Longrightarrow> utf16_Encode (utf16_Decode ws) = ws \<and> list_all valid_rune (utf16_Decode ws) \<and> 0 \<notin> set (utf16_Decode ws)"
proof (induction ws rule: utf16_Decode.induct)
  case (2 w)
  then have "w \<noteq> 0" "\<not> high_surrogate w" "\<not> low_surrogate w" by (auto split: if_splits)
  from utf16_unit [OF this] \<open>\<not> high_surrogate w\<close> \<open>\<not> low_surrogate w\<close> show ?case by (simp add: utf16_Encode_def)
next
  case (3 w v ws)
  show ?case
  proof (cases "high_surrogate w")
    case True
    with 3 have "low_surrogate v" "checkUnits ws" by (auto split: if_splits)
    with True 3(1) utf16_pair [OF True \<open>low_surrogate v\<close>] show ?thesis by (simp add: utf16_Encode_def)
  next
    case False
    with 3(3) have w: "w \<noteq> 0" "\<not> low_surrogate w" "checkUnits (v # ws)" by (auto split: if_splits)
    with False 3(2) utf16_unit [OF w(1) False w(2)] show ?thesis by (simp add: utf16_Encode_def)
  qed
qed (simp add: utf16_Encode_def)

lemma encode_rune:
  assumes "valid_rune r" and "r \<noteq> 0"
  shows "(\<exists>w. utf16_rune r = [w] \<and> uint w = r \<and> w \<noteq> 0 \<and> \<not> high_surrogate w \<and> \<not> low_surrogate w)
    \<or> (\<exists>w v. utf16_rune r = [w, v] \<and> high_surrogate w \<and> low_surrogate v \<and> (uint w - 0xd800) * 1024 + (uint v - 0xdc00) + 0x10000 = r)"
proof (cases "r < 0x10000")
  case True
  with assms have "utf16_rune r = [word_of_int r]" and u: "uint (word_of_int r :: u16) = r"
    by (auto simp: utf16_rune_def valid_rune_def uint_word_of_int)
  moreover have "(word_of_int r :: u16) \<noteq> 0" using u assms(2) by (metis uint_0_iff)
  ultimately show ?thesis using assms True by (auto simp: surrogate_range valid_rune_def)
next
  case False
  with assms have r: "0 \<le> r - 0x10000" "r - 0x10000 < 1024 * 1024" by (auto simp: valid_rune_def)
  define w v :: u16 where "w = word_of_int (0xd800 + (r - 0x10000) div 1024)" and "v = word_of_int (0xdc00 + (r - 0x10000) mod 1024)"
  have d: "0 \<le> (r - 0x10000) div 1024" "(r - 0x10000) div 1024 < 1024" "0 \<le> (r - 0x10000) mod 1024" "(r - 0x10000) mod 1024 < 1024" using r by auto
  have u: "uint w = 0xd800 + (r - 0x10000) div 1024" "uint v = 0xdc00 + (r - 0x10000) mod 1024"
    unfolding w_def v_def by (rule uint_of16; use d in linarith)+
  have "high_surrogate w" "low_surrogate v" using d by (auto simp: surrogate_range u)
  moreover have "(uint w - 0xd800) * 1024 + (uint v - 0xdc00) + 0x10000 = r" by (simp add: u)
  moreover have "utf16_rune r = [w, v]" using False assms by (auto simp: utf16_rune_def valid_rune_def w_def v_def)
  ultimately show ?thesis by blast
qed

lemma encode_units:
  "list_all valid_rune s \<Longrightarrow> 0 \<notin> set s \<Longrightarrow> checkUnits (utf16_Encode s) \<and> utf16_Decode (utf16_Encode s) = s"
proof (induction s)
  case (Cons r s)
  then have IH: "checkUnits (utf16_Encode s)" "utf16_Decode (utf16_Encode s) = s" by auto
  have single: "utf16_Decode (w # ws) = uint w # utf16_Decode ws" if "\<not> high_surrogate w" "\<not> low_surrogate w" for w ws
    using that by (cases ws) auto
  from Cons.prems have "valid_rune r" "r \<noteq> 0" by auto
  from encode_rune [OF this] show ?case
    using IH single by (auto simp: utf16_Encode_def surrogate_range)
qed (simp add: utf16_Encode_def)

lemma u16s_bytes: "even (length data) \<Longrightarrow> concat (map (\<lambda>w. le_bytes 2 (uint w)) (u16s data)) = data"
proof (induction data rule: u16s.induct)
  case (1 a b rest)
  have "le_value [a, b] < 256 ^ 2" "0 \<le> le_value [a, b]" using le_value_range [of "[a, b]"] by auto
  then have "uint (word_of_int (le_value [a, b]) :: u16) = le_value [a, b]" by (intro uint_of16) (simp_all del: le_value.simps)
  moreover have "le_bytes 2 (le_value [a, b]) = [a, b]" using le_bytes_value [of "[a, b]"] by (simp del: le_value.simps le_bytes.simps add: numeral_2_eq_2)
  ultimately show ?case using 1 by (simp del: le_value.simps)
qed auto

lemma u16s_concat: "u16s (concat (map (\<lambda>w. le_bytes 2 (uint w)) ws)) = ws"
proof (induction ws)
  case (Cons w ws)
  obtain a b where "le_bytes 2 (uint w) = [a, b]" by (simp add: numeral_2_eq_2)
  with le_word16 [of w] Cons show ?case by (simp del: le_value.simps)
qed simp

lemma runes_valid: "ValidString s \<Longrightarrow> runes s = s"
  by (induction s) (auto simp: ValidString_def runes_def)

lemma length_EncodeUTF16: "length (EncodeUTF16 s) = 2 * length (utf16_Encode (runes s))"
  by (induction "utf16_Encode (runes s)" arbitrary: s) (auto simp: EncodeUTF16_def length_concat comp_def sum_list_triv)

lemma DecodeUTF16_exact:
  "DecodeUTF16 data = Inr s \<longleftrightarrow> ValidString s \<and> 0 \<notin> set s \<and> EncodeUTF16 s = data"
proof
  assume "DecodeUTF16 data = Inr s"
  then have d: "even (length data)" "checkUnits (u16s data)" "s = utf16_Decode (u16s data)" by (auto simp: DecodeUTF16_def split: if_splits)
  with decode_units [OF d(2)] u16s_bytes [OF d(1)] show "ValidString s \<and> 0 \<notin> set s \<and> EncodeUTF16 s = data"
    by (auto simp: ValidString_def EncodeUTF16_def runes_valid [unfolded ValidString_def])
next
  assume s: "ValidString s \<and> 0 \<notin> set s \<and> EncodeUTF16 s = data"
  then have "u16s data = utf16_Encode s" by (auto simp: EncodeUTF16_def runes_valid u16s_concat)
  moreover have "even (length data)" using s length_EncodeUTF16 [of s] by auto
  ultimately show "DecodeUTF16 data = Inr s" using encode_units [of s] s by (auto simp: DecodeUTF16_def ValidString_def)
qed

section \<open>Headers\<close>

text \<open>Writes into a fresh slice, from the front: what is written, what is still zero.\<close>

definition filled :: "bytes \<Rightarrow> nat \<Rightarrow> bytes \<Rightarrow> bytes" where
  "filled w n rest = w @ zeros n @ rest"

lemma zeros_simps [simp]: "zeros 0 = []" "length (zeros n) = n"
  by (simp_all add: zeros_def)

lemma filled_zeros: "zeros n = filled [] n []"
  by (simp add: filled_def)

lemma length_filled [simp]: "length (filled w n rest) = length w + n + length rest"
  by (simp add: filled_def)

lemma copyAt_filled:
  assumes "length w \<le> i" and "i \<le> j" and "j \<le> length w + n" and "length src = j - i"
  shows "copyAt (filled w n rest) i j src = Some (filled (w @ zeros (i - length w) @ src) (length w + n - j) rest)"
  using assms by (auto simp: filled_def copyAt_def zeros_def)

lemmas puts_filled = PutUint16_def PutUint32_def PutUint64_def copyAt_filled

definition headerBytes :: "Header \<Rightarrow> bytes" where
  "headerBytes h = magic @ le_bytes 2 64 @ le_bytes 2 (uint (hd_CreditCharge h)) @ le_bytes 4 (uint (hd_Status h))
     @ le_bytes 2 (uint (hd_Command h)) @ le_bytes 2 (uint (hd_Credits h)) @ le_bytes 4 (uint (hd_Flags h))
     @ le_bytes 4 (uint (hd_NextCommand h)) @ le_bytes 8 (uint (hd_MessageID h))
     @ (if hd_Flags h AND FlagAsync \<noteq> 0 then le_bytes 8 (uint (hd_AsyncID h))
        else le_bytes 4 (uint (hd_ProcessID h)) @ le_bytes 4 (uint (hd_TreeID h)))
     @ le_bytes 8 (uint (hd_SessionID h)) @ hd_Signature h"

lemma length_magic [simp]: "length magic = 4"
  by (simp add: magic_def)

lemma Encode_form:
  assumes "64 \<le> length packet" and "length (hd_Signature h) = 16"
  shows "Header_Encode h packet = ok (headerBytes h @ drop 64 packet)"
proof -
  obtain p r where p: "packet = p @ r" "length p = 64" using assms(1) by (metis append_take_drop_id length_take min_absorb2)
  have start: "copyAt (p @ r) 0 64 (zeros 64) = Some (filled [] 64 r)" using p(2) by (simp add: copyAt_def filled_def)
  show ?thesis
    unfolding Header_Encode_def HeaderSize_def p(1)
    using p(2) assms(2) by (simp add: start puts_filled headerBytes_def) (simp add: filled_def)
qed

lemma le_read:
  "length b = 2 \<Longrightarrow> le_bytes 2 (uint (word_of_int (le_value b) :: u16)) = b"
  "length b = 4 \<Longrightarrow> le_bytes 4 (uint (word_of_int (le_value b) :: u32)) = b"
  "length b = 8 \<Longrightarrow> le_bytes 8 (uint (word_of_int (le_value b) :: u64)) = b"
  using le_value_range [of b] le_bytes_value [of b] by (simp_all add: uint_word_of_int)

definition canonical :: "Header \<Rightarrow> bool" where
  "canonical h \<longleftrightarrow> length (hd_Signature h) = 16
     \<and> (if hd_Flags h AND FlagAsync \<noteq> 0 then hd_ProcessID h = 0 \<and> hd_TreeID h = 0 else hd_AsyncID h = 0)"

lemma length_headerBytes: "canonical h \<Longrightarrow> length (headerBytes h) = 64"
  by (simp add: headerBytes_def canonical_def)

lemma le_64: "word_of_int (le_value (le_bytes 2 64)) = (64 :: u16)"
  using le_word16 [of 64] by simp

lemma Parse_headerBytes: "canonical h \<Longrightarrow> ParseHeader (headerBytes h @ r) = ok h"
  by (auto simp: le_64 ParseHeader_def HeaderSize_def reads headerBytes_def canonical_def le_word16 le_word32 le_word64 split: if_splits)

lemma header_slices:
  assumes "64 \<le> length p"
  shows "take 64 p = take 4 p @ take 2 (drop 4 p) @ take 2 (drop 6 p) @ take 4 (drop 8 p) @ take 2 (drop 12 p) @ take 2 (drop 14 p)
    @ take 4 (drop 16 p) @ take 4 (drop 20 p) @ take 8 (drop 24 p) @ take 8 (drop 32 p) @ take 8 (drop 40 p) @ take 16 (drop 48 p)"
  using take_add [of 4 60 p] take_add [of 2 58 "drop 4 p"] take_add [of 2 56 "drop 6 p"] take_add [of 4 52 "drop 8 p"] take_add [of 2 50 "drop 12 p"]
    take_add [of 2 48 "drop 14 p"] take_add [of 4 44 "drop 16 p"] take_add [of 4 40 "drop 20 p"] take_add [of 8 32 "drop 24 p"]
    take_add [of 8 24 "drop 32 p"] take_add [of 8 16 "drop 40 p"] by simp

lemma Parse_bytes:
  assumes "ParseHeader p = ok h"
  shows "canonical h \<and> take 64 p = headerBytes h"
proof -
  have len: "64 \<le> length p" by (rule ParseHeader_long [OF assms])
  have split: "take 8 (drop 32 p) = take 4 (drop 32 p) @ take 4 (drop 36 p)" using take_add [of 4 4 "drop 32 p"] by simp
  have size: "take 2 (drop 4 p) = le_bytes 2 64" if "word_of_int (le_value (take 2 (drop 4 p))) = (64 :: u16)"
    using le_read(1) [of "take 2 (drop 4 p)"] len that by simp
  from assms len size show ?thesis
    by (auto simp: ParseHeader_def HeaderSize_def reads canonical_def headerBytes_def header_slices [OF len] le_read split split: if_splits)
qed

end
