(* ===== verification/WireRecords.thy ===== *)
theory WireRecords
  imports WireText
begin

text \<open>
The records of a directory page as byte lists, the two loops of the page encoder against that
layout, and a reader that follows the links of a page.
\<close>

section \<open>Directory records\<close>

definition byteOf :: "u16 list \<Rightarrow> nat \<Rightarrow> nat \<Rightarrow> u8" where
  "byteOf name head p = ucast (if odd (p - head) then drop_bit 8 (name ! ((p - head) div 2)) else name ! ((p - head) div 2))"

lemma putName_form:
  assumes "head \<le> i" and "i \<le> j" and "j \<le> length data" and "j - head \<le> 2 * length name"
  shows "putName name head [i..<j] data = Some (take i data @ map (byteOf name head) [i..<j] @ drop j data)"
  using assms
proof (induction "j - i" arbitrary: i data)
  case (Suc d)
  then have ij: "i < j" "(i - head) div 2 < length name" by auto
  let ?d = "data[i := byteOf name head i]"
  have "putName name head [i..<j] data = putName name head [Suc i..<j] ?d"
    using ij Suc.prems by (simp add: upt_conv_Cons setByte_def byteOf_def)
  also have "\<dots> = Some (take (Suc i) ?d @ map (byteOf name head) [Suc i..<j] @ drop j ?d)"
    using Suc.hyps(2) Suc.prems ij by (intro Suc.hyps(1)) auto
  also have "take (Suc i) ?d = take i data @ [byteOf name head i]" using ij Suc.prems by (simp add: take_Suc_conv_app_nth)
  also have "drop j ?d = drop j data" using ij by simp
  finally show ?case using ij by (simp add: upt_conv_Cons)
qed simp

definition nameBytes :: "u16 list \<Rightarrow> bytes" where
  "nameBytes name = concat (map (\<lambda>w. le_bytes 2 (uint w)) name)"

lemma length_nameBytes [simp]: "length (nameBytes name) = 2 * length name"
  by (induction name) (auto simp: nameBytes_def)

lemma le_bytes_unit: "le_bytes 2 (uint (w :: u16)) = [ucast w, ucast (drop_bit 8 w)]"
proof -
  have "uint w div 256 = uint (drop_bit 8 w)" by (simp add: drop_bit_eq_div uint_div)
  then show ?thesis by (simp add: numeral_2_eq_2)
qed

lemma byteOf_name: "map (byteOf name head) [head..<head + 2 * length name] = nameBytes name"
proof (induction name arbitrary: head)
  case (Cons w ws)
  have shift: "byteOf (w # ws) head p = byteOf ws (head + 2) p" if "head + 2 \<le> p" for p
  proof -
    define q where "q = p - (head + 2)"
    then have "p = head + 2 + q" using that by simp
    then show ?thesis by (simp add: byteOf_def)
  qed
  have "map (byteOf (w # ws) head) [head + 2..<head + 2 + 2 * length ws] = map (byteOf ws (head + 2)) [head + 2..<head + 2 + 2 * length ws]"
    by (rule map_cong [OF refl]) (use shift in \<open>simp only: set_upt atLeastLessThan_iff\<close>)
  then have "map (byteOf (w # ws) head) [head + 2..<head + 2 + 2 * length ws] = nameBytes ws" by (simp only: Cons)
  moreover have "[head..<m] = head # Suc head # [head + 2..<m]" if "head + 2 \<le> m" for m
    using that by (simp add: upt_conv_Cons)
  then have "[head..<head + 2 * length (w # ws)] = head # Suc head # [head + 2..<head + 2 + 2 * length ws]"
    by (metis (no_types, lifting) add.assoc le_add1 length_Cons mult_Suc_right)
  ultimately show ?case by (simp only: list.map) (simp add: nameBytes_def le_bytes_unit byteOf_def)
qed (simp add: nameBytes_def)

text \<open>The layout of a record: link, index, the fields of its class, and the name.\<close>

definition recordFields :: "u8 \<Rightarrow> DirectoryEntry \<Rightarrow> bytes" where
  "recordFields class' entry =
     (let nameLength = le_bytes 4 (uint (of_nat (2 * length (de_Name entry)) :: u32)); int64 = (\<lambda>v. le_bytes 8 (uint (word_of_int v :: u64))) in
      if class' = FileNamesInformation then nameLength
      else int64 (de_CreationTime entry) @ int64 (de_LastAccessTime entry) @ int64 (de_LastWriteTime entry) @ int64 (de_ChangeTime entry)
        @ int64 (de_EndOfFile entry) @ int64 (de_AllocationSize entry) @ le_bytes 4 (uint (de_Attributes entry)) @ nameLength
        @ (if class' = FileDirectoryInformation then [] else le_bytes 4 (uint (de_EaSize entry)))
        @ (if class' = FileBothDirectoryInformation then zeros 26
           else if class' = FileIdFullDirectoryInformation then zeros 4 @ le_bytes 8 (uint (de_FileID entry))
           else if class' = FileIdBothDirectoryInformation then zeros 28 @ le_bytes 8 (uint (de_FileID entry))
           else []))"

definition recordBytes :: "u8 \<Rightarrow> DirectoryEntry \<Rightarrow> u32 \<Rightarrow> bytes" where
  "recordBytes class' entry link = le_bytes 4 (uint link) @ zeros 4 @ recordFields class' entry @ nameBytes (de_Name entry)"

definition recordLength :: "u8 \<Rightarrow> DirectoryEntry \<Rightarrow> nat" where
  "recordLength class' entry = (case DirectoryInformationHeadSize class' of None \<Rightarrow> 0 | Some head \<Rightarrow> head + 2 * length (de_Name entry))"

lemmas class_codes = FileDirectoryInformation_def FileFullDirectoryInformation_def FileBothDirectoryInformation_def
  FileNamesInformation_def FileIdBothDirectoryInformation_def FileIdFullDirectoryInformation_def

lemma head_cases:
  assumes "DirectoryInformationHeadSize class' = Some head"
  obtains "class' = FileNamesInformation" "head = 12" | "class' = FileDirectoryInformation" "head = 64"
  | "class' = FileFullDirectoryInformation" "head = 68" | "class' = FileBothDirectoryInformation" "head = 94"
  | "class' = FileIdFullDirectoryInformation" "head = 80" | "class' = FileIdBothDirectoryInformation" "head = 104"
  using assms by (auto simp: DirectoryInformationHeadSize_def split: if_splits)

lemma length_recordFields: "DirectoryInformationHeadSize class' = Some head \<Longrightarrow> length (recordFields class' entry) = head - 8"
  by (erule head_cases) (simp_all add: recordFields_def Let_def class_codes)

lemma head_large: "DirectoryInformationHeadSize class' = Some head \<Longrightarrow> 12 \<le> head \<and> head \<le> 104"
  by (erule head_cases) simp_all

lemma length_recordBytes: "DirectoryInformationHeadSize class' = Some head \<Longrightarrow> length (recordBytes class' entry link) = head + 2 * length (de_Name entry)"
  using length_recordFields [of class' head entry] head_large [of class' head] by (simp add: recordBytes_def)

definition putFields :: "bytes \<Rightarrow> u8 \<Rightarrow> DirectoryEntry \<Rightarrow> bytes option" where
  "putFields data class' entry =
     (let nameLength = (of_nat (2 * length (de_Name entry)) :: u32) in
      if class' = FileNamesInformation then PutUint32 data 8 nameLength
      else do {
        data \<leftarrow> PutUint64 data 8 (word_of_int (de_CreationTime entry));
        data \<leftarrow> PutUint64 data 16 (word_of_int (de_LastAccessTime entry));
        data \<leftarrow> PutUint64 data 24 (word_of_int (de_LastWriteTime entry));
        data \<leftarrow> PutUint64 data 32 (word_of_int (de_ChangeTime entry));
        data \<leftarrow> PutUint64 data 40 (word_of_int (de_EndOfFile entry));
        data \<leftarrow> PutUint64 data 48 (word_of_int (de_AllocationSize entry));
        data \<leftarrow> PutUint32 data 56 (de_Attributes entry);
        data \<leftarrow> PutUint32 data 60 nameLength;
        data \<leftarrow> (if class' \<noteq> FileDirectoryInformation then PutUint32 data 64 (de_EaSize entry) else Some data);
        if class' = FileIdFullDirectoryInformation then PutUint64 data 72 (de_FileID entry)
        else if class' = FileIdBothDirectoryInformation then PutUint64 data 96 (de_FileID entry)
        else Some data
      })"

lemma putDirectoryEntry_fields:
  "putDirectoryEntry data class' entry head = do { data \<leftarrow> putFields data class' entry; putName (de_Name entry) head [head..<length data] data }"
  by (simp add: putDirectoryEntry_def putFields_def Let_def)

lemma putFields_form:
  assumes "DirectoryInformationHeadSize class' = Some head" and "head \<le> n"
  shows "putFields (zeros n) class' entry = Some (zeros 8 @ recordFields class' entry @ zeros (n - head))"
  using assms
  by (elim head_cases; simp add: filled_zeros putFields_def recordFields_def Let_def class_codes puts_filled)
    (simp_all add: filled_def zeros_def flip: replicate_add)

lemma map_byteOf_take:
  assumes "m \<le> 2 * length name"
  shows "map (byteOf name head) [head..<head + m] = take m (nameBytes name)"
proof -
  have "map (byteOf name head) [head..<head + m] = take m (map (byteOf name head) [head..<head + 2 * length name])"
    using assms by (simp only: take_map take_upt add_le_cancel_left)
  then show ?thesis by (simp only: byteOf_name)
qed

lemma put_record:
  assumes "DirectoryInformationHeadSize class' = Some head" and "head \<le> n" and "n \<le> head + 2 * length (de_Name entry)"
  shows "putDirectoryEntry (zeros n) class' entry head = Some (take n (recordBytes class' entry 0))"
proof -
  let ?f = "zeros 8 @ recordFields class' entry"
  have f: "length ?f = head" using length_recordFields [OF assms(1)] head_large [OF assms(1)] by simp
  have z: "le_bytes 4 (uint (0 :: u32)) @ zeros 4 = zeros 8" by code_simp
  have "putName (de_Name entry) head [head..<n] (?f @ zeros (n - head))
    = Some (take head (?f @ zeros (n - head)) @ map (byteOf (de_Name entry) head) [head..<n] @ drop n (?f @ zeros (n - head)))"
    using assms f by (intro putName_form) auto
  also have "map (byteOf (de_Name entry) head) [head..<n] = take (n - head) (nameBytes (de_Name entry))"
    using map_byteOf_take [of "n - head" "de_Name entry" head] assms by simp
  also have "take head (?f @ zeros (n - head)) = ?f" using f by simp
  also have "drop n (?f @ zeros (n - head)) = []" using f assms(2) by simp
  finally have name: "putName (de_Name entry) head [head..<n] (?f @ zeros (n - head)) = Some (?f @ take (n - head) (nameBytes (de_Name entry)) @ [])" .
  have "length (?f @ zeros (n - head)) = n" using f assms(2) by simp
  with name have "putDirectoryEntry (zeros n) class' entry head = Some (?f @ take (n - head) (nameBytes (de_Name entry)))"
    by (simp add: putDirectoryEntry_fields putFields_form [OF assms(1,2)])
  moreover have "recordBytes class' entry 0 = ?f @ nameBytes (de_Name entry)" using z by (simp add: recordBytes_def)
  ultimately show ?thesis using f assms(2) by simp
qed

section \<open>Pages\<close>

fun pageBytes :: "u8 \<Rightarrow> DirectoryEntry list \<Rightarrow> bytes" where
  "pageBytes class' [] = []"
| "pageBytes class' [entry] = recordBytes class' entry 0"
| "pageBytes class' (entry # entries) =
     (let len = recordLength class' entry in recordBytes class' entry (of_nat (align8 len)) @ zeros (align8 len - len) @ pageBytes class' entries)"

lemma align8_0 [simp]: "align8 0 = 0"
  by (simp add: align8_def)

lemma align8_le: "n \<le> align8 n"
  by (simp add: align8_def)

lemma align8_dvd: "8 dvd align8 n"
  by (simp add: align8_def)

lemma align8_add: "8 dvd m \<Longrightarrow> align8 (m + n) = m + align8 n"
  by (auto simp: align8_def add.assoc elim!: dvdE)

lemma length_pageBytes_Cons:
  "DirectoryInformationHeadSize class' = Some head \<Longrightarrow> es \<noteq> [] \<Longrightarrow>
   length (pageBytes class' (e # es)) = align8 (recordLength class' e) + length (pageBytes class' es)"
  using align8_le [of "recordLength class' e"] by (cases es) (simp_all add: Let_def length_recordBytes recordLength_def)

lemma length_pageBytes_snoc:
  assumes "DirectoryInformationHeadSize class' = Some head"
  shows "length (pageBytes class' (es @ [e])) = align8 (length (pageBytes class' es)) + recordLength class' e"
proof (induction es)
  case Nil
  then show ?case using assms by (simp add: length_recordBytes recordLength_def)
next
  case (Cons f es)
  then show ?case
    using length_pageBytes_Cons [OF assms, of "es @ [e]" f] length_pageBytes_Cons [OF assms, of es f] assms
    by (cases "es = []") (simp_all add: align8_add align8_dvd length_recordBytes recordLength_def)
qed

lemma length_pageBytes_ge: "DirectoryInformationHeadSize class' = Some head \<Longrightarrow> recordLength class' e \<le> length (pageBytes class' (e # es))"
  by (cases es) (auto simp: Let_def length_recordBytes recordLength_def)

lemma PutUint32_link:
  "PutUint32 (A @ recordBytes class' p l @ Z) (length A) k = Some (A @ recordBytes class' p k @ Z)"
  by (simp add: PutUint32_def copyAt_def recordBytes_def)

lemma zeros_add: "zeros (a + b) = zeros a @ zeros b"
  by (simp add: zeros_def replicate_add)

lemma put_step:
  assumes "DirectoryInformationHeadSize class' = Some head" and "length B = start" and "len = recordLength class' e"
  shows "do { place \<leftarrow> slice (B @ zeros (len + m)) start (start + len); place \<leftarrow> putDirectoryEntry place class' e head; copyAt (B @ zeros (len + m)) start (start + len) place }
    = Some (B @ recordBytes class' e 0 @ zeros m)"
proof -
  have len: "len = head + 2 * length (de_Name e)" using assms(1,3) by (simp add: recordLength_def)
  have "slice (B @ zeros (len + m)) start (start + len) = Some (zeros len)" using assms(2) by (simp add: slice_def zeros_add)
  moreover have "putDirectoryEntry (zeros len) class' e head = Some (recordBytes class' e 0)"
    using put_record [OF assms(1), of len e] len length_recordBytes [OF assms(1), of e 0] by simp
  moreover have "copyAt (B @ zeros (len + m)) start (start + len) (recordBytes class' e 0) = Some (B @ recordBytes class' e 0 @ zeros m)"
    using assms(2) len length_recordBytes [OF assms(1), of e 0] by (simp add: copyAt_def zeros_add)
  ultimately show ?thesis by simp
qed

lemma putEntries_step:
  assumes "DirectoryInformationHeadSize class' = Some head" and "length B = start" and "len = recordLength class' e"
    and "data = B @ zeros (len + m)" and "first \<or> PutUint32 data previous (of_nat (start - previous)) = Some (C @ zeros (len + m))"
    and "first \<Longrightarrow> C = B" and "length C = start"
  shows "putEntries class' head first (e # es) start previous data
    = putEntries class' head False es (align8 (start + len)) start (C @ recordBytes class' e 0 @ zeros m)"
proof -
  have len: "head + 2 * length (de_Name e) = len" using assms(1,3) by (simp add: recordLength_def)
  have "(if first then Some data else PutUint32 data previous (of_nat (start - previous))) = Some (C @ zeros (len + m))" using assms by auto
  with put_step [OF assms(1,7,3), of m] show ?thesis
    by (simp add: len Let_def) (auto simp: bind_eq_Some_conv Option.bind_eq_None_conv)
qed

lemma putEntries_rest:
  assumes "DirectoryInformationHeadSize class' = Some head"
  shows "8 dvd length A \<Longrightarrow> length (pageBytes class' (p # es)) = recordLength class' p + m \<Longrightarrow>
    putEntries class' head False es (align8 (length A + recordLength class' p)) (length A) (A @ recordBytes class' p 0 @ zeros m)
    = Some (A @ pageBytes class' (p # es))"
proof (induction es arbitrary: A p m)
  case Nil
  then show ?case using assms by (simp add: length_recordBytes recordLength_def)
next
  case (Cons e es)
  let ?l = "recordLength class' p" and ?e = "recordLength class' e"
  define pad where "pad = align8 ?l - ?l"
  have l: "length (recordBytes class' p k) = ?l" for k using assms by (simp add: length_recordBytes recordLength_def)
  define C where "C = A @ recordBytes class' p (of_nat (align8 ?l)) @ zeros pad"
  have start: "align8 (length A + ?l) = length A + align8 ?l" by (rule align8_add) (rule Cons.prems)
  have C: "length C = length A + align8 ?l" "8 dvd length C" using align8_le [of ?l] Cons.prems(1) align8_dvd [of ?l] by (simp_all add: C_def l pad_def)
  obtain m' where m': "length (pageBytes class' (e # es)) = ?e + m'" using length_pageBytes_ge [OF assms] le_Suc_ex by metis
  have "m = pad + (?e + m')"
    using Cons.prems(2) length_pageBytes_Cons [OF assms, of "e # es" p] m' align8_le [of ?l] by (simp add: pad_def)
  then have data: "A @ recordBytes class' p 0 @ zeros m = (A @ recordBytes class' p 0 @ zeros pad) @ zeros (?e + m')" by (simp add: zeros_add)
  have put: "PutUint32 (A @ recordBytes class' p 0 @ zeros m) (length A) (of_nat (align8 (length A + ?l) - length A)) = Some (C @ zeros (?e + m'))"
    unfolding data using PutUint32_link [of A class' p 0 "zeros pad @ zeros (?e + m')"] by (simp add: C_def start)
  have "putEntries class' head False (e # es) (align8 (length A + ?l)) (length A) (A @ recordBytes class' p 0 @ zeros m)
    = putEntries class' head False es (align8 (length C + ?e)) (length C) (C @ recordBytes class' e 0 @ zeros m')"
    using putEntries_step [OF assms, of "A @ recordBytes class' p 0 @ zeros pad" "align8 (length A + ?l)" ?e e _ m' False "length A" C] data put C l align8_le [of ?l]
    by (simp add: start pad_def)
  also have "\<dots> = Some (C @ pageBytes class' (e # es))" by (rule Cons.IH [OF C(2) m'])
  also have "C @ pageBytes class' (e # es) = A @ pageBytes class' (p # e # es)" by (simp add: C_def pad_def Let_def)
  finally show ?case .
qed

lemma putEntries_page:
  assumes "DirectoryInformationHeadSize class' = Some head"
  shows "putEntries class' head True es 0 0 (zeros (length (pageBytes class' es))) = Some (pageBytes class' es)"
proof (cases es)
  case (Cons e rest)
  obtain m where m: "length (pageBytes class' (e # rest)) = recordLength class' e + m" using length_pageBytes_ge [OF assms] le_Suc_ex by metis
  have "putEntries class' head True (e # rest) 0 0 (zeros (recordLength class' e + m))
    = putEntries class' head False rest (align8 (0 + recordLength class' e)) 0 ([] @ recordBytes class' e 0 @ zeros m)"
    by (rule putEntries_step [OF assms]) auto
  also have "\<dots> = Some ([] @ pageBytes class' (e # rest))" using putEntries_rest [OF assms, of "[]" e rest m] m by simp
  finally show ?thesis using Cons m by simp
qed simp

lemma pageSize_spec:
  assumes "DirectoryInformationHeadSize class' = Some head"
  shows "length (pageBytes class' xs) \<le> limit \<Longrightarrow>
    pageSize class' head limit single ys (length (pageBytes class' xs)) (length xs) = Inr (size', c, partial) \<Longrightarrow>
    (if partial then xs = [] \<and> c = 0 \<and> size' = limit \<and> (\<exists>y zs. ys = y # zs \<and> checkDirectoryEntry class' y = None \<and> limit < recordLength class' y)
     else \<exists>k\<le>length ys. c = length xs + k \<and> size' = length (pageBytes class' (xs @ take k ys)) \<and> size' \<le> limit
       \<and> list_all (\<lambda>y. checkDirectoryEntry class' y = None) (take k ys)
       \<and> (k = length ys \<or> single \<and> k = 1 \<or> limit < length (pageBytes class' (xs @ take (Suc k) ys))))"
proof (induction ys arbitrary: xs)
  case Nil
  then show ?case by auto
next
  case (Cons y ys)
  let ?n = "align8 (length (pageBytes class' xs)) + recordLength class' y"
  have n: "length (pageBytes class' (xs @ [y])) = ?n" by (rule length_pageBytes_snoc [OF assms])
  have r: "head + 2 * length (de_Name y) = recordLength class' y" using assms by (simp add: recordLength_def)
  have y: "checkDirectoryEntry class' y = None" using Cons.prems(2) by (cases "checkDirectoryEntry class' y") auto
  show ?case
  proof (cases "limit < ?n")
    case True
    then show ?thesis using Cons.prems y n r by (cases "xs = []") (auto simp: Let_def intro: exI [of _ 0])
  next
    case False
    show ?thesis
    proof (cases single)
      case True
      then have "size' = ?n" "c = Suc (length xs)" "\<not> partial" using False Cons.prems y r by (auto simp: Let_def)
      then show ?thesis using False y n True by (auto intro!: exI [of _ 1])
    next
      case multi: False
      then have "pageSize class' head limit single ys (length (pageBytes class' (xs @ [y]))) (length (xs @ [y])) = Inr (size', c, partial)"
        using False Cons.prems y r n by (simp add: Let_def)
      moreover have "length (pageBytes class' (xs @ [y])) \<le> limit" using False n by simp
      ultimately have IH: "\<not> partial" "\<exists>k\<le>length ys. c = length (xs @ [y]) + k \<and> size' = length (pageBytes class' ((xs @ [y]) @ take k ys)) \<and> size' \<le> limit
       \<and> list_all (\<lambda>y. checkDirectoryEntry class' y = None) (take k ys)
       \<and> (k = length ys \<or> single \<and> k = 1 \<or> limit < length (pageBytes class' ((xs @ [y]) @ take (Suc k) ys)))"
        using Cons.IH [of "xs @ [y]"] by (auto split: if_splits)
      from IH(2) obtain k where "k \<le> length ys" "c = length (xs @ [y]) + k" "size' = length (pageBytes class' ((xs @ [y]) @ take k ys))" "size' \<le> limit"
        "list_all (\<lambda>y. checkDirectoryEntry class' y = None) (take k ys)" "k = length ys \<or> single \<and> k = 1 \<or> limit < length (pageBytes class' ((xs @ [y]) @ take (Suc k) ys))"
        by blast
      with IH(1) y multi show ?thesis by (auto intro!: exI [of _ "Suc k"])
    qed
  qed
qed

definition pageWritten :: "u8 \<Rightarrow> DirectoryEntry list \<Rightarrow> nat \<Rightarrow> bool \<Rightarrow> DirectoryPage \<Rightarrow> bool" where
  "pageWritten class' entries limit single page \<longleftrightarrow>
     (if dp_Partial page
      then dp_Completed page = 0 \<and> (\<exists>y zs. entries = y # zs \<and> checkDirectoryEntry class' y = None \<and> limit < recordLength class' y
             \<and> dp_Data page = take limit (recordBytes class' y 0))
      else dp_Completed page \<le> length entries \<and> dp_Data page = pageBytes class' (take (dp_Completed page) entries)
        \<and> list_all (\<lambda>y. checkDirectoryEntry class' y = None) (take (dp_Completed page) entries)
        \<and> length (dp_Data page) \<le> limit
        \<and> (dp_Completed page = length entries \<or> single \<and> dp_Completed page = 1
            \<or> limit < length (pageBytes class' (take (Suc (dp_Completed page)) entries))))"

lemma EncodeDirectoryPage_form:
  "(\<exists>e. EncodeDirectoryPage class' entries limit single = Some (Inl e))
   \<or> (\<exists>page. EncodeDirectoryPage class' entries limit single = ok page \<and> pageWritten class' entries (unat limit) single page)"
proof (cases "DirectoryInformationHeadSize class'")
  case None
  then show ?thesis by (simp add: EncodeDirectoryPage_def)
next
  case (Some head)
  show ?thesis
  proof (cases "limit < of_nat head \<or> limit > of_nat (maxDirectTCPPayload - HeaderSize - 8)")
    case True
    with Some show ?thesis by (simp add: EncodeDirectoryPage_def)
  next
    case False
    have "unat (of_nat head :: u32) = head" using head_large [OF Some] by (simp add: unat_of_nat take_bit_nat_eq_self)
    then have limit: "head \<le> unat limit" "unat limit \<noteq> 0" using False head_large [OF Some] by (auto simp: word_less_nat_alt)
    show ?thesis
    proof (cases "pageSize class' head (unat limit) single entries 0 0")
      case (Inl e)
      with Some False show ?thesis by (simp add: EncodeDirectoryPage_def attempt_def)
    next
      case (Inr t)
      obtain size' c partial where t: "t = (size', c, partial)" by (cases t)
      show ?thesis
      proof (cases partial)
        case True
        with pageSize_spec [OF Some, of "[]" "unat limit" single entries size' c partial] Inr t
        obtain y zs where y: "c = 0" "size' = unat limit" "entries = y # zs" "checkDirectoryEntry class' y = None" "unat limit < recordLength class' y" by auto
        have "putDirectoryEntry (zeros (unat limit)) class' y head = Some (take (unat limit) (recordBytes class' y 0))"
          using put_record [OF Some limit(1), of y] y(5) Some by (simp add: recordLength_def)
        with y True Some False Inr t limit(2) show ?thesis by (simp add: EncodeDirectoryPage_def attempt_def pageWritten_def)
      next
        case whole: False
        with pageSize_spec [OF Some, of "[]" "unat limit" single entries size' c partial] Inr t
        have c: "c \<le> length entries" "size' = length (pageBytes class' (take c entries))" "size' \<le> unat limit"
          "list_all (\<lambda>y. checkDirectoryEntry class' y = None) (take c entries)"
          "c = length entries \<or> single \<and> c = 1 \<or> unat limit < length (pageBytes class' (take (Suc c) entries))" by auto
        with putEntries_page [OF Some, of "take c entries"] whole Some False Inr t show ?thesis
          by (cases "size' = 0") (simp_all add: EncodeDirectoryPage_def attempt_def pageWritten_def)
      qed
    qed
  qed
qed

section \<open>Reading a page\<close>

text \<open>A client's view of a page: what a record of the class carries, and the walk along the links.\<close>

definition visible :: "u8 \<Rightarrow> DirectoryEntry \<Rightarrow> DirectoryEntry" where
  "visible class' entry =
     (if class' = FileNamesInformation
      then \<lparr>de_Name = de_Name entry, de_CreationTime = 0, de_LastAccessTime = 0, de_LastWriteTime = 0, de_ChangeTime = 0,
            de_EndOfFile = 0, de_AllocationSize = 0, de_Attributes = 0, de_EaSize = 0, de_FileID = 0\<rparr>
      else entry\<lparr>de_EaSize := if class' = FileDirectoryInformation then 0 else de_EaSize entry,
                 de_FileID := if class' \<in> {FileIdFullDirectoryInformation, FileIdBothDirectoryInformation} then de_FileID entry else 0\<rparr>)"

definition readEntry :: "u8 \<Rightarrow> bytes \<Rightarrow> (DirectoryEntry \<times> u32) option" where
  "readEntry class' data =
     do {
       head \<leftarrow> DirectoryInformationHeadSize class';
       link \<leftarrow> Uint32 data 0;
       if class' = FileNamesInformation then do {
         len \<leftarrow> Uint32 data 8;
         name \<leftarrow> slice data head (head + unat len);
         Some (\<lparr>de_Name = u16s name, de_CreationTime = 0, de_LastAccessTime = 0, de_LastWriteTime = 0, de_ChangeTime = 0,
            de_EndOfFile = 0, de_AllocationSize = 0, de_Attributes = 0, de_EaSize = 0, de_FileID = 0\<rparr>, link)
       } else do {
         created \<leftarrow> Uint64 data 8;
         accessed \<leftarrow> Uint64 data 16;
         written \<leftarrow> Uint64 data 24;
         changed \<leftarrow> Uint64 data 32;
         ending \<leftarrow> Uint64 data 40;
         allocation \<leftarrow> Uint64 data 48;
         attributes \<leftarrow> Uint32 data 56;
         len \<leftarrow> Uint32 data 60;
         ea \<leftarrow> (if class' = FileDirectoryInformation then Some 0 else Uint32 data 64);
         fid \<leftarrow> (if class' = FileIdFullDirectoryInformation then Uint64 data 72
                 else if class' = FileIdBothDirectoryInformation then Uint64 data 96 else Some 0);
         name \<leftarrow> slice data head (head + unat len);
         Some (\<lparr>de_Name = u16s name, de_CreationTime = sint created, de_LastAccessTime = sint accessed, de_LastWriteTime = sint written,
            de_ChangeTime = sint changed, de_EndOfFile = sint ending, de_AllocationSize = sint allocation, de_Attributes = attributes,
            de_EaSize = ea, de_FileID = fid\<rparr>, link)
       }
     }"

function readPage :: "u8 \<Rightarrow> bytes \<Rightarrow> DirectoryEntry list option" where
  "readPage class' data =
     (if data = [] then Some []
      else case readEntry class' data of
        None \<Rightarrow> None
      | Some (entry, link) \<Rightarrow>
          if link = 0 then Some [entry]
          else case tail data (unat link) of
            None \<Rightarrow> None
          | Some rest \<Rightarrow> map_option ((#) entry) (readPage class' rest))"
  by pat_completeness auto
termination
  by (relation "measure (\<lambda>(_, data). length data)") (auto simp: tail_def slice_def unat_gt_0 split: if_splits)

declare readPage.simps [simp del]

definition int64_fields :: "DirectoryEntry \<Rightarrow> bool" where
  "int64_fields e \<longleftrightarrow> (\<forall>v \<in> {de_CreationTime e, de_LastAccessTime e, de_LastWriteTime e, de_ChangeTime e, de_EndOfFile e, de_AllocationSize e}.
     - (2 ^ 63) \<le> v \<and> v < 2 ^ 63)"

lemma sint_int64: "- (2 ^ 63) \<le> v \<Longrightarrow> v < 2 ^ 63 \<Longrightarrow> sint (word_of_int v :: u64) = v"
  by (simp add: int_word_sint)

lemma unat_of_small: "n < 2 ^ 32 \<Longrightarrow> unat (of_nat n :: u32) = n"
  by (simp add: unat_of_nat take_bit_nat_eq_self)

lemma u16s_nameBytes: "u16s (nameBytes name) = name"
  by (simp add: nameBytes_def u16s_concat)

lemma read_record:
  assumes "DirectoryInformationHeadSize class' = Some head" and "int64_fields e" and "2 * length (de_Name e) < 2 ^ 32"
  shows "readEntry class' (recordBytes class' e link @ rest) = Some (visible class' e, link)"
proof -
  have n: "unat (2 * of_nat (length (de_Name e)) :: u32) = 2 * length (de_Name e)" using unat_of_small [OF assms(3)] by simp
  have i: "sint (word_of_int (de_CreationTime e) :: u64) = de_CreationTime e" "sint (word_of_int (de_LastAccessTime e) :: u64) = de_LastAccessTime e"
    "sint (word_of_int (de_LastWriteTime e) :: u64) = de_LastWriteTime e" "sint (word_of_int (de_ChangeTime e) :: u64) = de_ChangeTime e"
    "sint (word_of_int (de_EndOfFile e) :: u64) = de_EndOfFile e" "sint (word_of_int (de_AllocationSize e) :: u64) = de_AllocationSize e"
    using assms(2) by (auto simp: int64_fields_def intro!: sint_int64)
  from assms(1) show ?thesis
    by (cases rule: head_cases; simp add: readEntry_def DirectoryInformationHeadSize_def recordBytes_def recordFields_def Let_def class_codes
        reads visible_def le_word16 le_word32 le_word64 i n u16s_nameBytes)
qed

lemma name_bound:
  assumes "checkDirectoryEntry class' e = None"
  shows "2 * length (de_Name e) < 0xffffff" and "de_Name e \<noteq> []"
  using assms by (auto simp: checkDirectoryEntry_def maxDirectTCPPayload_def HeaderSize_def split: if_splits)

lemma read_page:
  assumes "DirectoryInformationHeadSize class' = Some head"
  shows "list_all (\<lambda>y. checkDirectoryEntry class' y = None) es \<Longrightarrow> list_all int64_fields es \<Longrightarrow>
    readPage class' (pageBytes class' es) = Some (map (visible class') es)"
proof (induction es)
  case Nil
  show ?case by (simp add: readPage.simps [of class' "[]"])
next
  case (Cons e es)
  let ?l = "recordLength class' e"
  have e: "int64_fields e" "2 * length (de_Name e) < 2 ^ 32" using Cons.prems name_bound(1) [of class' e] by auto
  have l: "length (recordBytes class' e k) = ?l" for k using assms by (simp add: length_recordBytes recordLength_def)
  have big: "12 \<le> ?l" "?l < 2 ^ 31" using head_large [OF assms] name_bound(1) [of class' e] Cons.prems assms by (auto simp: recordLength_def)
  have ne: "recordBytes class' e k @ rest \<noteq> []" for k rest using l [of k] big by auto
  note read = read_record [OF assms e]
  show ?case
  proof (cases es)
    case Nil
    then show ?thesis using read [of 0 "[]"] ne [of 0 "[]"] readPage.simps [of class' "recordBytes class' e 0"] by simp
  next
    case (Cons f fs)
    define k where "k = (of_nat (align8 ?l) :: u32)"
    have a: "align8 ?l < 2 ^ 32" "?l \<le> align8 ?l" using big by (auto simp: align8_def)
    have k: "unat k = align8 ?l" unfolding k_def by (rule unat_of_small [OF a(1)])
    then have "k \<noteq> 0" using a big by auto
    define rest where "rest = zeros (align8 ?l - ?l) @ pageBytes class' es"
    have page: "pageBytes class' (e # es) = recordBytes class' e k @ rest" by (simp add: Cons Let_def k_def rest_def)
    have "tail (recordBytes class' e k @ rest) (unat k) = Some (pageBytes class' es)" using a by (simp add: k tail_def slice_def l rest_def)
    moreover have "readPage class' (pageBytes class' es) = Some (map (visible class') es)" using Cons.IH Cons.prems by simp
    ultimately show ?thesis unfolding page using read [of k rest] ne [of k rest] \<open>k \<noteq> 0\<close> by (subst readPage.simps) simp
  qed
qed

text \<open>Two entries, a page with room for both of them, and one that cuts the first.\<close>

definition wdEntry :: "u16 list \<Rightarrow> DirectoryEntry" where
  "wdEntry name = \<lparr>de_Name = name, de_CreationTime = 5, de_LastAccessTime = 6, de_LastWriteTime = 7, de_ChangeTime = 8,
     de_EndOfFile = 1024, de_AllocationSize = 4096, de_Attributes = 0x80, de_EaSize = 0, de_FileID = 11\<rparr>"

definition wdPage :: bytes where
  "wdPage = pageBytes FileIdBothDirectoryInformation [wdEntry [0x61], wdEntry [0x62, 0x63]]"

text \<open>C20: a directory page is read back as it was written, and is as full as it may be. Encoding never
  panics. A page without the partial mark stays within the limit; a client that follows its links
  reads the completed entries, each with the fields that its information class carries; and the
  page ends early only after a single requested entry or before an entry that does not fit. A
  partial page is the prefix, of exactly the size of the limit, of the record of the first entry.\<close>

theorem directory_page_roundtrip:
  assumes "list_all int64_fields entries"
  shows "EncodeDirectoryPage class' entries limit single \<noteq> None
   \<and> (EncodeDirectoryPage class' entries limit single = ok page \<longrightarrow>
       (if dp_Partial page
        then dp_Completed page = 0 \<and> entries \<noteq> [] \<and> length (dp_Data page) = unat limit
          \<and> dp_Data page = take (unat limit) (recordBytes class' (hd entries) 0)
        else length (dp_Data page) \<le> unat limit
          \<and> readPage class' (dp_Data page) = Some (map (visible class') (take (dp_Completed page) entries))
          \<and> (dp_Completed page = length entries \<or> single \<and> dp_Completed page = 1
              \<or> unat limit < length (pageBytes class' (take (Suc (dp_Completed page)) entries)))))"
proof -
  have "EncodeDirectoryPage class' entries limit single \<noteq> None" using EncodeDirectoryPage_form [of class' entries limit single] by auto
  moreover have "pageWritten class' entries (unat limit) single page" "\<exists>head. DirectoryInformationHeadSize class' = Some head"
    if "EncodeDirectoryPage class' entries limit single = ok page"
    using that EncodeDirectoryPage_form [of class' entries limit single] by (auto simp: EncodeDirectoryPage_def split: option.splits)
  moreover have "list_all int64_fields (take n entries)" for n using assms by (auto simp: list_all_iff dest: in_set_takeD)
  ultimately show ?thesis
    using read_page assms by (auto simp: pageWritten_def length_recordBytes recordLength_def)
qed

theorem directory_page_roundtrip_witness:
  "EncodeDirectoryPage FileIdBothDirectoryInformation [wdEntry [0x61], wdEntry [0x62, 0x63]] 4096 False
     = ok \<lparr>dp_Data = wdPage, dp_Completed = 2, dp_Partial = False\<rparr>
   \<and> readPage FileIdBothDirectoryInformation wdPage = Some [wdEntry [0x61], wdEntry [0x62, 0x63]]"
proof -
  have e: "EncodeDirectoryPage FileIdBothDirectoryInformation [wdEntry [0x61], wdEntry [0x62, 0x63]] 4096 False
     = ok \<lparr>dp_Data = wdPage, dp_Completed = 2, dp_Partial = False\<rparr>"
  proof -
    have head: "DirectoryInformationHeadSize FileIdBothDirectoryInformation = Some 104" by (simp add: DirectoryInformationHeadSize_def class_codes)
    have "pageSize FileIdBothDirectoryInformation 104 4096 False [wdEntry [0x61], wdEntry [0x62, 0x63]] 0 0 = Inr (220, 2, False)"
      by (simp add: checkDirectoryEntry_def wdEntry_def maxDirectTCPPayload_def HeaderSize_def high_surrogate_def low_surrogate_def class_codes align8_def)
    moreover have "length wdPage = 220" using head by (simp add: wdPage_def Let_def recordLength_def length_recordBytes wdEntry_def align8_def)
    moreover have "putEntries FileIdBothDirectoryInformation 104 True [wdEntry [0x61], wdEntry [0x62, 0x63]] 0 0 (zeros (length wdPage)) = Some wdPage"
      unfolding wdPage_def by (rule putEntries_page [OF head])
    ultimately show ?thesis
      by (simp add: EncodeDirectoryPage_def head attempt_def maxDirectTCPPayload_def HeaderSize_def del: putEntries.simps)
  qed
  have "list_all int64_fields [wdEntry [0x61], wdEntry [0x62, 0x63]]" by (simp add: int64_fields_def wdEntry_def)
  from directory_page_roundtrip [OF this, of FileIdBothDirectoryInformation 4096 False "\<lparr>dp_Data = wdPage, dp_Completed = 2, dp_Partial = False\<rparr>"] e
  have "readPage FileIdBothDirectoryInformation wdPage = Some (map (visible FileIdBothDirectoryInformation) [wdEntry [0x61], wdEntry [0x62, 0x63]])" by simp
  with e show ?thesis by (simp add: visible_def wdEntry_def class_codes)
qed

end
