(* ===== verification/WireProps.thy ===== *)
theory WireProps
  imports WireRecords
begin

text \<open>
Properties of the SMB2 codec: what a frame is cut into, that no payload makes the decoders
panic, and the round trips of headers and texts.
\<close>

section \<open>Properties of the codec\<close>

text \<open>An ECHO alone, and an ECHO followed by a related LOGOFF.\<close>

definition wrLimits :: Limits where
  "wrLimits = \<lparr>lm_MaxBytes = 4096, lm_MaxCommands = 2, lm_MaxContexts = 4\<rparr>"

definition wrHeader :: "u16 \<Rightarrow> u32 \<Rightarrow> u32 \<Rightarrow> Header" where
  "wrHeader command flags nextCommand =
     \<lparr>hd_CreditCharge = 1, hd_Status = 0, hd_Command = command, hd_Credits = 1, hd_Flags = flags, hd_NextCommand = nextCommand,
      hd_MessageID = 7, hd_ProcessID = 0, hd_TreeID = 0, hd_AsyncID = 0, hd_SessionID = 9, hd_Signature = zeros 16\<rparr>"

definition wrEcho :: bytes where "wrEcho = headerBytes (wrHeader Echo_command 0 0) @ [4, 0, 0, 0]"
definition wrPair :: bytes where
  "wrPair = (headerBytes (wrHeader Echo_command 0 72) @ [4, 0, 0, 0, 0, 0, 0, 0]) @ headerBytes (wrHeader Logoff_command 4 0) @ [4, 0, 0, 0]"

text \<open>C17: no message can crash the decoder. For every payload and every limits, cutting the frame into requests
  and decoding any of them as any command never indexes or slices outside the bytes received.\<close>

theorem wire_input_never_panics:
  "ParseFrame packet limits \<noteq> None
   \<and> (\<forall>rs r. ParseFrame packet limits = ok rs \<longrightarrow> r \<in> set rs \<longrightarrow>
        Request_Negotiate r \<noteq> None \<and> Request_SessionSetup r \<noteq> None \<and> Request_TreePath r \<noteq> None \<and> Request_Empty r \<noteq> None
        \<and> Request_Create r \<noteq> None \<and> Request_Close r \<noteq> None \<and> Request_Flush r \<noteq> None \<and> Request_Read r \<noteq> None \<and> Request_Write r \<noteq> None
        \<and> Request_QueryInfo r \<noteq> None \<and> Request_SetInfo r \<noteq> None \<and> Request_QueryDirectory r \<noteq> None)"
proof -
  have small: "length packet \<le> 0xffffff" "1 \<le> lm_MaxContexts limits" if "ParseFrame packet limits \<noteq> malformed"
    using that by (auto simp: ParseFrame_def split: if_splits)
  have "ParseFrame packet limits \<noteq> None"
    using parseLoop_spec [of packet limits "[]" False] by (auto simp: ParseFrame_def)
  moreover have "request_ok r" if "ParseFrame packet limits = ok rs" "r \<in> set rs" for rs r
  proof -
    from that(1) small parseLoop_spec [of packet limits "[]" False] have "compound limits 0 False rs"
      by (auto simp: ParseFrame_def split: if_splits)
    from compound_ok [OF this that(2)] show ?thesis .
  qed
  ultimately show ?thesis
    using session_decoders_defined Negotiate_defined file_decoders_defined Create_defined unfolding defined_def by blast
qed

theorem wire_input_never_panics_witness:
  "\<exists>r. ParseFrame wrEcho wrLimits = ok [r] \<and> Request_Empty r = ok () \<and> Request_Create r \<noteq> None"
proof -
  have parse: "(case ParseFrame wrEcho wrLimits of Some (Inr [r]) \<Rightarrow> Request_Empty r = ok () | _ \<Rightarrow> False)" by code_simp
  then obtain r where r: "ParseFrame wrEcho wrLimits = ok [r]" "Request_Empty r = ok ()" by (auto split: option.splits sum.splits list.splits)
  from wire_input_never_panics [of wrEcho wrLimits] r(1) have "Request_Create r \<noteq> None" by simp
  with r show ?thesis by blast
qed

text \<open>C18: a frame is exactly its requests. With limits that make sense, a payload within them parses into a list of
  requests if and only if it is the concatenation of their packets and the list is a compound:
  every packet has a header of a known command and its body, no response flag is set, every
  request but the last names its own length as the offset of the next and is padded to eight
  bytes, the first is unrelated and the rest are related alike.\<close>

theorem frame_exact:
  assumes "64 \<le> lm_MaxBytes limits" and "lm_MaxBytes limits \<le> 0xffffff" and "1 \<le> lm_MaxContexts limits"
  shows "ParseFrame packet limits = ok rs \<longleftrightarrow>
    int (length packet) \<le> lm_MaxBytes limits \<and> int (length rs) \<le> lm_MaxCommands limits \<and> concat (map rq_Packet rs) = packet \<and> compound limits 0 False rs"
proof
  assume ok: "ParseFrame packet limits = ok rs"
  then have "parseLoop limits [] False packet = ok rs" "int (length packet) \<le> lm_MaxBytes limits" by (auto simp: ParseFrame_def split: if_splits)
  with parseLoop_spec [of packet limits "[]" False] assms
  show "int (length packet) \<le> lm_MaxBytes limits \<and> int (length rs) \<le> lm_MaxCommands limits \<and> concat (map rq_Packet rs) = packet \<and> compound limits 0 False rs"
    by auto
next
  assume r: "int (length packet) \<le> lm_MaxBytes limits \<and> int (length rs) \<le> lm_MaxCommands limits \<and> concat (map rq_Packet rs) = packet \<and> compound limits 0 False rs"
  then obtain q qs where q: "rs = q # qs" by (cases rs) auto
  with r have "request_ok q" by (auto intro: compound_ok)
  then have "64 \<le> length packet" using r q by (auto simp: request_ok_def)
  moreover have "parseLoop limits [] False packet = ok rs" using parseLoop_complete [of limits "[]" False rs] r assms by auto
  ultimately show "ParseFrame packet limits = ok rs" using r q assms by (auto simp: ParseFrame_def HeaderSize_def)
qed

theorem frame_exact_witness:
  "\<exists>a b. ParseFrame wrPair wrLimits = ok [a, b] \<and> rq_Packet a @ rq_Packet b = wrPair \<and> compound wrLimits 0 False [a, b]"
proof -
  have "(case ParseFrame wrPair wrLimits of Some (Inr [a, b]) \<Rightarrow> True | _ \<Rightarrow> False)" by code_simp
  then obtain a b where p: "ParseFrame wrPair wrLimits = ok [a, b]" by (auto split: option.splits sum.splits list.splits)
  from frame_exact [of wrLimits wrPair "[a, b]"] p show ?thesis by (auto simp: wrLimits_def simp del: compound.simps)
qed

text \<open>C19: headers round-trip. The first 64 bytes of a message determine its header and are determined by it: a
  payload parses as a header if and only if the header is canonical and encoding it over the
  payload changes nothing.\<close>

theorem header_roundtrip:
  assumes "64 \<le> length packet"
  shows "ParseHeader packet = ok h \<longleftrightarrow> canonical h \<and> Header_Encode h packet = ok packet"
proof -
  have "take 64 packet = headerBytes h \<longleftrightarrow> packet = headerBytes h @ drop 64 packet" if "canonical h"
    using length_headerBytes [OF that] by (metis append_eq_conv_conj append_take_drop_id)
  moreover have "canonical h \<Longrightarrow> Header_Encode h packet = ok (headerBytes h @ drop 64 packet)"
    using Encode_form [OF assms] by (simp add: canonical_def)
  ultimately show ?thesis using Parse_bytes [of packet h] Parse_headerBytes [of h "drop 64 packet"] by (metis option.inject sum.inject(2))
qed

theorem header_roundtrip_witness:
  "ParseHeader wrEcho = ok (wrHeader Echo_command 0 0) \<and> Header_Encode (wrHeader Echo_command 0 0) wrEcho = ok wrEcho"
proof -
  have "64 \<le> length wrEcho" and p: "ParseHeader wrEcho = ok (wrHeader Echo_command 0 0)" by code_simp+
  from header_roundtrip [OF this(1)] p show ?thesis by blast
qed

text \<open>C21: text round-trips. The bytes that \<open>DecodeUTF16\<close> accepts as a text are exactly the
  encodings of the valid texts without a NUL, and encoding the text gives the bytes back.\<close>

theorem utf16_roundtrip:
  "DecodeUTF16 data = Inr s \<longleftrightarrow> ValidString s \<and> 0 \<notin> set s \<and> EncodeUTF16 s = data"
  by (rule DecodeUTF16_exact)

end
