(* ===== verification/Spec2Isabelle.thy ===== *)
theory Spec2Isabelle
  imports AdvisoryProps Materialization LockProps WireProps
begin

text \<open>
  Verification of the coordination core and the wire codec of remote-fs, a Go system that serves
  volumes over HTTP, SMB and FUSE. Paths below are relative to \<^verbatim>\<open>src\<close>.

  \<^bold>\<open>The program.\<close> Clients of a volume coordinate through two independent components. The
  \<^emph>\<open>advisory coordinator\<close> (\<^verbatim>\<open>packages/advisory\<close>) keeps byte-range locks and use claims of
  the sessions of one volume, in memory. The \<^emph>\<open>lock authority\<close> (\<^verbatim>\<open>packages/locking\<close>) hands out
  leases on files that survive a restart of the server through a persisted watermark, and admits a
  mutation of the store only under the leases that protect its targets. Both are monitors: a
  record behind one mutex, with operations that are a few critical sections, background
  goroutines, and calls back into the caller between two sections. The vocabulary of both comes
  from \<^verbatim>\<open>packages/storage\<close>. The SMB server (\<^verbatim>\<open>packages/smb\<close>) reads untrusted bytes from the
  network; its codec (\<^verbatim>\<open>packages/smb/internal/wire\<close>) is the part that decides what those bytes
  mean before any handler runs.

  \<^bold>\<open>How the code is translated.\<close> A struct is a record, an enumeration a datatype, an unsigned
  integer a word of its width; instants, durations and \<^verbatim>\<open>int\<close> counters are integers. A Go
  map is an association list with distinct keys (\<open>gomap\<close> in \<^verbatim>\<open>Prelude\<close>), its order the unspecified
  order of \<^verbatim>\<open>range\<close>. An error is a value. A critical section is one definition, named as the
  function or \<open>...Section\<close>, \<open>...Begin\<close>, \<open>...Guard\<close>, \<open>...End\<close> for the pieces of a function that
  releases the mutex. What the code reads from outside is an argument: the clock
  (\<open>clk i\<close> is the i-th reading), the error of the caller's context, the callbacks of native
  storage, random octets, the keyed hash of capabilities. Whole operations that wait take the
  environment between their sections as an argument. Pointers into tables become keys; the
  branch for a key that is not found has no counterpart in the code and the invariants show that
  it is never taken.

  \<^bold>\<open>Theories.\<close>
  \<^item> \<^verbatim>\<open>Prelude\<close>: words, errors, Go maps, and two interfaces. \<open>go_map\<close> states the laws of a
    map and \<open>guarded_system\<close> the induction over reachable states; the three transition systems
    below are interpretations of it.
  \<^item> \<^verbatim>\<open>GoText\<close>, \<^verbatim>\<open>RangeModel\<close>: texts and numbers of the Go library, and
    \<^verbatim>\<open>packages/storage/ranges.go\<close> with the identities of \<^verbatim>\<open>files.go\<close>.
  \<^item> \<^verbatim>\<open>Extents\<close>: \<^verbatim>\<open>extents.go\<close> and the table edit of \<^verbatim>\<open>ranges.go\<close>, against the
    function from bytes to locks (\<open>byte_table\<close>): an edit changes exactly the bytes of its range.
  \<^item> \<^verbatim>\<open>Advisory\<close>, \<^verbatim>\<open>UseClaims\<close>, \<^verbatim>\<open>Materialization\<close>: the remaining files of
    \<^verbatim>\<open>packages/advisory\<close>. \<^verbatim>\<open>Samples\<close> holds concrete states for the witnesses.
  \<^item> \<^verbatim>\<open>Conflicts\<close>, \<^verbatim>\<open>Deadlock\<close>: the two searches are exact and independent of map order.
  \<^item> \<^verbatim>\<open>CoordFrame\<close>, \<^verbatim>\<open>QueueInv\<close>, \<^verbatim>\<open>RangeTable\<close>, \<^verbatim>\<open>SessionInv\<close>, \<^verbatim>\<open>CoordInv\<close>: the
    invariant of the coordinator, kept by every section. \<^verbatim>\<open>CoordSystem\<close> composes the sections
    into a transition system and shows that the public operations are runs of it.
    \<^verbatim>\<open>AdvisoryProps\<close> states what the coordinator promises.
  \<^item> \<^verbatim>\<open>Capability\<close>: \<open>token\<close> and \<open>verify\<close> with base64 spelled out.
  \<^item> \<^verbatim>\<open>LockTypes\<close>, \<^verbatim>\<open>LockAuthority\<close>, \<^verbatim>\<open>LockOps\<close>, \<^verbatim>\<open>LockWork\<close>: all of
    \<^verbatim>\<open>packages/locking\<close>: data and limits, primitives and enrollment, the lease operations and
    queries, and workers, maintenance, publication and shutdown.
  \<^item> \<^verbatim>\<open>LockGrants\<close>, \<^verbatim>\<open>LockPrims\<close>, \<^verbatim>\<open>LockExpiry\<close>, \<^verbatim>\<open>LockQueue\<close>, \<^verbatim>\<open>LockKeys\<close>,
    \<^verbatim>\<open>LockEvolve\<close>: the changes that the sections are made of, with the invariants they keep and how
    records evolve under them. \<^verbatim>\<open>LockSections\<close>, \<^verbatim>\<open>LockGuards\<close>, \<^verbatim>\<open>LockPublish\<close> decompose every
    section into them.
  \<^item> \<^verbatim>\<open>LockSystem\<close>, \<^verbatim>\<open>LockSystemInv\<close>, \<^verbatim>\<open>LockChanges\<close>: the authority together with its calls
    and publications in flight as a transition system, its invariant, and what a step can change.
    \<^verbatim>\<open>LockAdmission\<close>, \<^verbatim>\<open>LockMaintain\<close>, \<^verbatim>\<open>LockSamples\<close>, \<^verbatim>\<open>LockProps\<close>: admission of a
    publication, one maintenance pass, a concrete run, and the promises of the authority.
  \<^item> \<^verbatim>\<open>WireBytes\<close>, \<^verbatim>\<open>WireFrame\<close>, \<^verbatim>\<open>WireSession\<close>, \<^verbatim>\<open>WireFiles\<close>, \<^verbatim>\<open>WireDirectory\<close>: the
    codec. A slice is a list of bytes and an index outside it is \<open>None\<close>, so that a panic is a value;
    inside that, \<open>Inl ErrMalformed\<close> is the error the code returns. \<^verbatim>\<open>WireSafety\<close> shows that no
    decoder panics, \<^verbatim>\<open>WireText\<close> and \<^verbatim>\<open>WireRecords\<close> the layout of texts, headers and
    directory pages, \<^verbatim>\<open>WireProps\<close> the promises of the codec.

  \<^bold>\<open>What the properties show.\<close> For every reachable coordinator: rival claims exclude each
  other, counters and budgets are exact, requests are neither lost nor run twice, the pump leaves
  no request that could run, reports of conflicts and deadlocks are exact, a granted batch has
  the byte-wise effect of its commands (in the enforced domain, the claims they name), an access
  passes exactly when no claim denies it, and retirement releases everything or nothing. For every
  reachable lock authority: leases exclude each other, tables, queues and counters agree, a
  publication runs only under its own exclusive leases and freezes them, a restart waits out
  the leases of its predecessor, receipts are final, a cancelled request never runs
  later, maintenance settles what is overdue, and the calls that wait return. For every payload: the codec is
  defined, a frame is exactly its requests, and headers, texts and directory pages are read
  back as they were written.

  \<^bold>\<open>Granularity and approximations.\<close> One step is one critical section; sections of different
  calls interleave in any order, which includes every schedule of the goroutines. A queue worker
  may exit at any time, a superset of the code's schedules. The coordinator may see its owner map
  in another order at every step. Identities that the code draws at random are assumed to be fresh,
  as a hypothesis of the steps that draw them. The discovery callback runs under the ordering
  that \<^verbatim>\<open>native.go\<close> requires of a backend. A section of the coordinator reads the clock once
  where the code may read it again within the section. A waiting operation of the authority that
  retries uses the clock readings and context error it was given. The last sections of
  \<^verbatim>\<open>Close\<close> of the authority are one definition. In \<^verbatim>\<open>DecodeUTF16\<close> the guarded look at the next
  unit is a pattern match, so that this text decoder is a total function.

  \<^bold>\<open>Bounds.\<close> No loop needs fuel that is guessed. The pump runs at most one pass more than it
  has waiting requests, since every pass but the last shortens the queue; \<^verbatim>\<open>deadlockSearch\<close> is
  bounded by the edges the code allows; the loops over a frame, its contexts and its dialects
  consume bytes. Waiting operations are bounded by the wake-ups their environment gives; that
  they return once the context ends or nothing is in flight is a property.

  \<^bold>\<open>Not modelled.\<close> The stores (\<^verbatim>\<open>packages/storage\<close> beyond range control, \<^verbatim>\<open>metastore\<close>)
  because their behaviour is that of SQL statements, blob services and the local disk; the HTTP
  transport, FUSE callbacks and the SMB handlers because they drive connections and third-party
  interfaces; the service, console and command line because they are start-up and I/O glue. Within the
  modelled packages: wake-up channels (they carry no state), the text of error messages, JSON
  tags and log output.
\<close>

end
